(* ===== verification/JS_Prelude.thy ===== *)
theory JS_Prelude
  imports Main "HOL-Library.Word" "HOL-Library.AList" "HOL-Library.Monad_Syntax"
begin

text \<open>
  The prelude of the development: the types of text and bytes that a JavaScript program
  works on, the embedding of source literals into them, the collections of facts the
  component theories extend, and generic lemmas on lists, options and words.

  A JavaScript string is a sequence of 16-bit code units and a Node \<open>Buffer\<close> a sequence
  of bytes, so both are lists of words.  A source literal \<open>"abc"\<close> is written
  \<open>lit ''abc''\<close>.
\<close>

type_synonym code_unit = "16 word"
type_synonym ustring = "code_unit list"
type_synonym byte = "8 word"
type_synonym bytes = "byte list"

named_theorems copy_eqs
  \<open>a file's private copy of a helper equals the shared one\<close>

named_theorems member_simps
  \<open>reading members of object literals, spreads and updates\<close>

named_theorems decoder_defs
  \<open>definitions a decoder proof unfolds\<close>

section \<open>Source literals\<close>

definition unit_of_char :: "char \<Rightarrow> code_unit" where
  "unit_of_char c = of_nat (of_char c)"

definition lit :: "string \<Rightarrow> ustring" where
  "lit s = map unit_of_char s"

lemma unat_unit_of_char [simp]: "unat (unit_of_char c) = of_char c"
proof -
  have "(of_char c :: nat) < 2 ^ LENGTH(16)"
    by (rule less_trans [OF nat_of_char_less_256]) simp
  then show ?thesis
    unfolding unit_of_char_def by (simp add: unat_of_nat take_bit_nat_eq_self del: nat_of_char_less_256)
qed

lemma unit_of_char_inject [simp]: "unit_of_char a = unit_of_char b \<longleftrightarrow> a = b"
  by (metis unat_unit_of_char of_char_eq_iff)

lemma lit_inject [simp]: "lit s = lit t \<longleftrightarrow> s = t"
  by (simp add: lit_def inj_map_eq_map inj_def)

lemma lit_Nil [simp]: "lit [] = []"
  by (simp add: lit_def)

lemma length_lit [simp]: "length (lit s) = length s"
  by (simp add: lit_def)

lemma lit_append: "lit (s @ t) = lit s @ lit t"
  by (simp add: lit_def)

section \<open>Association lists under an injective renaming of keys\<close>

lemma map_of_inj_key: "inj f \<Longrightarrow> map_of (map (\<lambda>(s, x). (f s, x)) al) (f k) = map_of al k"
  by (induction al) (auto dest: injD)

lemma map_of_inj_Some:
  assumes "inj f"
  shows "map_of (map (\<lambda>(s, x). (f s, x)) al) k = Some c \<longleftrightarrow> (\<exists>s. k = f s \<and> map_of al s = Some c)"
proof (cases "\<exists>s. k = f s")
  case True
  then obtain s where k: "k = f s" by blast
  then show ?thesis using map_of_inj_key [OF assms, of al s] assms by (metis injD)
next
  case False
  then have "map_of (map (\<lambda>(s, x). (f s, x)) al) k = None" by (auto simp: map_of_eq_None_iff)
  with False show ?thesis by simp
qed

lemma inj_lit [simp]: "inj lit"
  by (simp add: inj_def)

lemma map_of_rev_keys: "distinct (map fst xs) \<Longrightarrow> map_of (rev xs) = map_of xs"
  by (subst map_of_inject_set) (simp_all add: rev_map [symmetric])

section \<open>Pointwise relations\<close>

lemma list_all2_map_ex:
  "list_all2 (\<lambda>k x. \<exists>i. P k i \<and> x = g i) ks xs \<longleftrightarrow> (\<exists>is. list_all2 P ks is \<and> xs = map g is)"
proof -
  have graph: "list_all2 (\<lambda>i x. x = g i) is xs \<longleftrightarrow> xs = map g is" for "is" xs
    by (induction "is" arbitrary: xs) (auto simp: list_all2_Cons1)
  have "list_all2 (\<lambda>k x. \<exists>i. P k i \<and> x = g i) = list_all2 P OO list_all2 (\<lambda>i x. x = g i)"
    unfolding list.rel_compp [symmetric] by (simp add: relcompp.simps fun_eq_iff OO_def)
  then show ?thesis by (auto simp: OO_def graph)
qed

end
