(* ===== verification/JS_Text.thy ===== *)
theory JS_Text
  imports JS_Prelude
begin

text \<open>
  The parts of the language and of Node's standard library that turn text into other
  text or into bytes, as the client sources use them: decimal numerals
  (\<open>BigInt(value)\<close>, \<open>integer.toString()\<close>, \<open>String(value)\<close>), UTF-16 well-formedness
  (\<open>value.isWellFormed()\<close>), UTF-8 (\<open>Buffer.from(value, "utf8")\<close>,
  \<open>buffer.toString("utf8")\<close>, \<open>Buffer.byteLength\<close>) and unpadded base64url
  (\<open>Buffer.from(value, "base64url")\<close>, \<open>buffer.toString("base64url")\<close>).  The regular
  expressions the sources test text with are predicates on code units; without the
  \<open>m\<close> flag their \<open>^\<close> and \<open>$\<close> match only at the two ends of the input.
\<close>

section \<open>Decimal numerals\<close>

fun dec :: "nat \<Rightarrow> ustring" where
  "dec n = (if n < 10 then [of_nat (48 + n)] else dec (n div 10) @ [of_nat (48 + n mod 10)])"

declare dec.simps [simp del]

definition is_digit :: "code_unit \<Rightarrow> bool" where
  "is_digit u \<longleftrightarrow> 48 \<le> unat u \<and> unat u \<le> 57"

definition digit_value :: "code_unit \<Rightarrow> nat" where
  "digit_value u = unat u - 48"

definition decimal_value :: "ustring \<Rightarrow> nat" where
  "decimal_value s = foldl (\<lambda>a u. 10 * a + digit_value u) 0 s"

text \<open>\<open>/^(0|[1-9][0-9]*)$/\<close> and \<open>/^[1-9][0-9]*$/\<close>\<close>

definition canonical_decimal :: "ustring \<Rightarrow> bool" where
  "canonical_decimal s \<longleftrightarrow> s = lit ''0'' \<or> (s \<noteq> [] \<and> hd s \<noteq> 48 \<and> list_all is_digit s)"

definition positive_decimal :: "ustring \<Rightarrow> bool" where
  "positive_decimal s \<longleftrightarrow> s \<noteq> [] \<and> hd s \<noteq> 48 \<and> list_all is_digit s"

text \<open>\<open>toString()\<close> of a BigInt or of an integral Number\<close>

definition int_text :: "int \<Rightarrow> ustring" where
  "int_text i = (if i < 0 then lit ''-'' @ dec (nat (- i)) else dec (nat i))"

section \<open>UTF-16 and UTF-8\<close>

definition is_high :: "code_unit \<Rightarrow> bool" where
  "is_high u \<longleftrightarrow> 55296 \<le> unat u \<and> unat u \<le> 56319"

definition is_low :: "code_unit \<Rightarrow> bool" where
  "is_low u \<longleftrightarrow> 56320 \<le> unat u \<and> unat u \<le> 57343"

fun isWellFormed :: "ustring \<Rightarrow> bool" where
  "isWellFormed [] = True"
| "isWellFormed [u] = (\<not> is_high u \<and> \<not> is_low u)"
| "isWellFormed (u # v # s) =
     (if is_high u \<and> is_low v then isWellFormed s
      else \<not> is_high u \<and> \<not> is_low u \<and> isWellFormed (v # s))"

definition pair_point :: "code_unit \<Rightarrow> code_unit \<Rightarrow> nat" where
  "pair_point u v = 65536 + (unat u - 55296) * 1024 + (unat v - 56320)"

definition unit_point :: "code_unit \<Rightarrow> nat" where
  "unit_point u = (if is_high u \<or> is_low u then 65533 else unat u)"

fun code_points :: "ustring \<Rightarrow> nat list" where
  "code_points [] = []"
| "code_points [u] = [unit_point u]"
| "code_points (u # v # s) =
     (if is_high u \<and> is_low v then pair_point u v # code_points s
      else unit_point u # code_points (v # s))"

definition utf8_point :: "nat \<Rightarrow> bytes" where
  "utf8_point n =
     (if n < 128 then [of_nat n]
      else if n < 2048 then [of_nat (192 + n div 64), of_nat (128 + n mod 64)]
      else if n < 65536 then
        [of_nat (224 + n div 4096), of_nat (128 + n div 64 mod 64), of_nat (128 + n mod 64)]
      else [of_nat (240 + n div 262144), of_nat (128 + n div 4096 mod 64),
            of_nat (128 + n div 64 mod 64), of_nat (128 + n mod 64)])"

definition utf8 :: "ustring \<Rightarrow> bytes" where
  "utf8 s = concat (map utf8_point (code_points s))"

definition byteLength :: "ustring \<Rightarrow> nat" where
  "byteLength s = length (utf8 s)"

definition utf16_point :: "nat \<Rightarrow> ustring" where
  "utf16_point n =
     (if n < 65536 then [of_nat n]
      else [of_nat (55296 + (n - 65536) div 1024), of_nat (56320 + (n - 65536) mod 1024)])"

definition is_cont :: "byte \<Rightarrow> bool" where
  "is_cont b \<longleftrightarrow> 128 \<le> unat b \<and> unat b \<le> 191"

text \<open>
  Decoding replaces each maximal ill-formed part by one U+FFFD, as the Encoding Standard
  prescribes and \<open>buffer.toString("utf8")\<close> does.
\<close>

fun utf8_points :: "bytes \<Rightarrow> nat list" where
  "utf8_points [] = []"
| "utf8_points (a # r) =
     (if unat a < 128 then unat a # utf8_points r
      else if 194 \<le> unat a \<and> unat a \<le> 223 then
        (case r of b # r1 \<Rightarrow>
           if is_cont b then ((unat a - 192) * 64 + (unat b - 128)) # utf8_points r1
           else 65533 # utf8_points r
         | [] \<Rightarrow> [65533])
      else if 224 \<le> unat a \<and> unat a \<le> 239 then
        (case r of b # r1 \<Rightarrow>
           if (if unat a = 224 then 160 else 128) \<le> unat b \<and>
              unat b \<le> (if unat a = 237 then 159 else 191) then
             (case r1 of c # r2 \<Rightarrow>
                if is_cont c then
                  ((unat a - 224) * 4096 + (unat b - 128) * 64 + (unat c - 128)) # utf8_points r2
                else 65533 # utf8_points r1
              | [] \<Rightarrow> [65533])
           else 65533 # utf8_points r
         | [] \<Rightarrow> [65533])
      else if 240 \<le> unat a \<and> unat a \<le> 244 then
        (case r of b # r1 \<Rightarrow>
           if (if unat a = 240 then 144 else 128) \<le> unat b \<and>
              unat b \<le> (if unat a = 244 then 143 else 191) then
             (case r1 of c # r2 \<Rightarrow>
                if is_cont c then
                  (case r2 of d # r3 \<Rightarrow>
                     if is_cont d then
                       ((unat a - 240) * 262144 + (unat b - 128) * 4096 + (unat c - 128) * 64
                         + (unat d - 128)) # utf8_points r3
                     else 65533 # utf8_points r2
                   | [] \<Rightarrow> [65533])
                else 65533 # utf8_points r1
              | [] \<Rightarrow> [65533])
           else 65533 # utf8_points r
         | [] \<Rightarrow> [65533])
      else 65533 # utf8_points r)"

definition utf8_decode :: "bytes \<Rightarrow> ustring" where
  "utf8_decode bs = concat (map utf16_point (utf8_points bs))"

section \<open>Base64url\<close>

definition b64_char :: "nat \<Rightarrow> code_unit" where
  "b64_char n =
     of_nat (if n < 26 then 65 + n else if n < 52 then 71 + n else if n < 62 then n - 4
             else if n = 62 then 45 else 95)"

definition is_b64 :: "code_unit \<Rightarrow> bool" where
  "is_b64 u \<longleftrightarrow> (65 \<le> unat u \<and> unat u \<le> 90) \<or> (97 \<le> unat u \<and> unat u \<le> 122) \<or>
     (48 \<le> unat u \<and> unat u \<le> 57) \<or> unat u = 45 \<or> unat u = 95"

text \<open>\<open>/^[A-Za-z0-9_-]+$/\<close>\<close>

definition b64_text :: "ustring \<Rightarrow> bool" where
  "b64_text s \<longleftrightarrow> s \<noteq> [] \<and> list_all is_b64 s"

text \<open>The decoder also reads the two characters of the ordinary alphabet.\<close>

definition sextet :: "code_unit \<Rightarrow> nat option" where
  "sextet u =
     (if 65 \<le> unat u \<and> unat u \<le> 90 then Some (unat u - 65)
      else if 97 \<le> unat u \<and> unat u \<le> 122 then Some (unat u - 71)
      else if 48 \<le> unat u \<and> unat u \<le> 57 then Some (unat u + 4)
      else if unat u = 45 \<or> unat u = 43 then Some 62
      else if unat u = 95 \<or> unat u = 47 then Some 63 else None)"

fun b64url :: "bytes \<Rightarrow> ustring" where
  "b64url [] = []"
| "b64url [a] = [b64_char (unat a div 4), b64_char (unat a mod 4 * 16)]"
| "b64url [a, b] =
     [b64_char (unat a div 4), b64_char (unat a mod 4 * 16 + unat b div 16),
      b64_char (unat b mod 16 * 4)]"
| "b64url (a # b # c # r) =
     b64_char (unat a div 4) # b64_char (unat a mod 4 * 16 + unat b div 16) #
     b64_char (unat b mod 16 * 4 + unat c div 64) # b64_char (unat c mod 64) # b64url r"

fun unsextets :: "nat list \<Rightarrow> bytes" where
  "unsextets (p # q # r # s # t) =
     of_nat (p * 4 + q div 16) # of_nat (q mod 16 * 16 + r div 4) # of_nat (r mod 4 * 64 + s)
     # unsextets t"
| "unsextets [p, q, r] = [of_nat (p * 4 + q div 16), of_nat (q mod 16 * 16 + r div 4)]"
| "unsextets [p, q] = [of_nat (p * 4 + q div 16)]"
| "unsextets _ = []"

definition b64url_decode :: "ustring \<Rightarrow> bytes" where
  "b64url_decode s = unsextets (List.map_filter sextet s)"

section \<open>Lemmas on words and numerals\<close>

lemma unat_of_nat_8: "n < 256 \<Longrightarrow> unat (of_nat n :: 8 word) = n"
  by (simp add: unat_of_nat)

lemma unat_of_nat_16: "n < 65536 \<Longrightarrow> unat (of_nat n :: 16 word) = n"
  by (simp add: unat_of_nat)

lemma unat_lt_8 [simp]: "unat (b :: 8 word) < 256"
  using unsigned_less [of b, where ?'a = nat] by (simp del: unsigned_less)

lemma unat_lt_16 [simp]: "unat (u :: 16 word) < 65536"
  using unsigned_less [of u, where ?'a = nat] by (simp del: unsigned_less)

lemma dec_small: "n < 10 \<Longrightarrow> dec n = [of_nat (48 + n)]"
  by (simp add: dec.simps)

lemma dec_step: "10 \<le> n \<Longrightarrow> dec n = dec (n div 10) @ [of_nat (48 + n mod 10)]"
  by (subst dec.simps) simp

lemma dec_induct [case_names small step]:
  assumes "\<And>n. n < 10 \<Longrightarrow> P n" and "\<And>n. 10 \<le> n \<Longrightarrow> P (n div 10) \<Longrightarrow> P n"
  shows "P (n :: nat)"
proof (induction n rule: less_induct)
  case (less n)
  show ?case
  proof (cases "n < 10")
    case False
    then have "n div 10 < n" by simp
    with less.IH assms(2) False show ?thesis by force
  qed (use assms(1) in simp)
qed

lemma digit_unit: "d < 10 \<Longrightarrow> unat (of_nat (48 + d) :: code_unit) = 48 + d"
  by (intro unat_of_nat_16) simp

lemma is_digit_unit [simp]: "d < 10 \<Longrightarrow> is_digit (of_nat (48 + d))"
  by (simp add: is_digit_def digit_unit del: of_nat_add)

lemma digit_value_unit [simp]: "d < 10 \<Longrightarrow> digit_value (of_nat (48 + d)) = d"
  by (simp add: digit_value_def digit_unit del: of_nat_add)

lemma unit_digit_value: "is_digit u \<Longrightarrow> of_nat (48 + digit_value u) = u"
  unfolding is_digit_def digit_value_def by (simp del: of_nat_add)

lemma digit_value_less: "is_digit u \<Longrightarrow> digit_value u < 10"
  unfolding is_digit_def digit_value_def by linarith

lemma dec_digits [simp]: "list_all is_digit (dec n)"
proof (induction n rule: dec_induct)
  case (small n)
  then show ?case by (simp add: dec_small del: of_nat_add)
next
  case (step n)
  then show ?case by (simp add: dec_step del: of_nat_add)
qed

lemma dec_nonempty [simp]: "dec n \<noteq> []"
  by (subst dec.simps) simp

lemma dec_Suc_hd: "0 < n \<Longrightarrow> hd (dec n) \<noteq> 48"
proof (induction n rule: dec_induct)
  case (small n)
  have "unat (of_nat (48 + n) :: code_unit) \<noteq> unat (48 :: code_unit)"
    using small by (subst digit_unit) simp_all
  then have "(of_nat (48 + n) :: code_unit) \<noteq> 48" by metis
  with small show ?case by (simp add: dec_small del: of_nat_add)
next
  case (step n)
  then have "0 < n div 10" by simp
  with step show ?case by (simp add: dec_step)
qed

lemma decimal_value_snoc: "decimal_value (s @ [u]) = 10 * decimal_value s + digit_value u"
  by (simp add: decimal_value_def)

lemma decimal_value_dec [simp]: "decimal_value (dec n) = n"
proof (induction n rule: dec_induct)
  case (small n)
  then show ?case by (simp add: dec_small decimal_value_def del: of_nat_add)
next
  case (step n)
  then show ?case by (simp add: dec_step decimal_value_snoc del: of_nat_add)
qed

lemma dec_inject [simp]: "dec m = dec n \<longleftrightarrow> m = n"
  by (metis decimal_value_dec)

lemma lit_zero: "lit ''0'' = [48]"
  by (simp add: lit_def unit_of_char_def)

lemma dec_zero: "dec 0 = lit ''0''"
  by (simp add: dec_small lit_zero)

lemma canonical_dec [simp]: "canonical_decimal (dec n)"
  by (cases "n = 0") (auto simp: canonical_decimal_def dec_zero dec_Suc_hd)

lemma positive_dec [simp]: "positive_decimal (dec n) \<longleftrightarrow> 0 < n"
  by (cases "n = 0") (auto simp: positive_decimal_def dec_zero lit_zero dec_Suc_hd)

lemma decimal_value_pos: "s \<noteq> [] \<Longrightarrow> hd s \<noteq> 48 \<Longrightarrow> list_all is_digit s \<Longrightarrow> 0 < decimal_value s"
proof (induction s rule: rev_induct)
  case (snoc u s)
  show ?case
  proof (cases "s = []")
    case True
    with snoc.prems have "is_digit u" "u \<noteq> 48" by simp_all
    then have "digit_value u \<noteq> 0"
      using unit_digit_value [of u] by (metis add.right_neutral of_nat_numeral)
    with True show ?thesis by (simp add: decimal_value_def)
  next
    case False
    with snoc show ?thesis by (simp add: decimal_value_snoc)
  qed
qed simp

lemma dec_decimal_value_positive: "positive_decimal s \<Longrightarrow> dec (decimal_value s) = s"
  unfolding positive_decimal_def
proof (induction s rule: rev_induct)
  case (snoc u s)
  then have u: "is_digit u" by simp
  show ?case
  proof (cases "s = []")
    case True
    with u show ?thesis
      by (simp add: decimal_value_def dec_small digit_value_less unit_digit_value del: of_nat_add)
  next
    case False
    with snoc have s: "0 < decimal_value s" "dec (decimal_value s) = s"
      by (auto intro: decimal_value_pos)
    from u have d: "digit_value u < 10" by (rule digit_value_less)
    with s(1) have "10 \<le> 10 * decimal_value s + digit_value u" by simp
    then show ?thesis
      using s(2) d u by (simp add: decimal_value_snoc dec_step unit_digit_value del: of_nat_add)
  qed
qed simp

lemma dec_decimal_value: "canonical_decimal s \<Longrightarrow> dec (decimal_value s) = s"
  using dec_decimal_value_positive [of s] dec_zero
  by (auto simp: canonical_decimal_def positive_decimal_def decimal_value_def lit_zero digit_value_def)

lemma positive_canonical: "positive_decimal s \<longleftrightarrow> canonical_decimal s \<and> 0 < decimal_value s"
  by (metis dec_decimal_value dec_decimal_value_positive positive_dec canonical_dec)

lemma length_dec_le: "0 < k \<Longrightarrow> length (dec n) \<le> k \<longleftrightarrow> n < 10 ^ k"
proof (induction n arbitrary: k rule: dec_induct)
  case (small n)
  then have "(10::nat) \<le> 10 ^ k" by (cases k) simp_all
  with small show ?case by (simp add: dec_small Suc_leI)
next
  case (step n)
  show ?case
  proof (cases "k = 1")
    case True
    with step.hyps show ?thesis by (simp add: dec_step)
  next
    case False
    then obtain j where k: "k = Suc j" "0 < j" using step.prems by (cases k) auto
    have "length (dec n) \<le> k \<longleftrightarrow> length (dec (n div 10)) \<le> j"
      using step.hyps k by (simp add: dec_step)
    also have "\<dots> \<longleftrightarrow> n div 10 < 10 ^ j" using step.IH k by blast
    also have "\<dots> \<longleftrightarrow> n < 10 ^ k" by (simp add: k div_less_iff_less_mult mult.commute)
    finally show ?thesis .
  qed
qed

section \<open>Base64url round trip\<close>

lemma b64_char_unat:
  "n < 64 \<Longrightarrow> unat (b64_char n) = (if n < 26 then 65 + n else if n < 52 then 71 + n
     else if n < 62 then n - 4 else if n = 62 then 45 else 95)"
  unfolding b64_char_def by (intro unat_of_nat_16) (auto split: if_splits)

lemma sextet_b64_char [simp]: "n < 64 \<Longrightarrow> sextet (b64_char n) = Some n"
  by (auto simp: sextet_def b64_char_unat)

lemma is_b64_char [simp]: "n < 64 \<Longrightarrow> is_b64 (b64_char n)"
  by (auto simp: is_b64_def b64_char_unat)

lemma byte_parts [simp]:
  "unat (a :: byte) div 4 < 64" "unat (a :: byte) div 16 < 16" "unat (a :: byte) div 64 < 4"
  using unat_lt_8 [of a] by (auto simp: div_less_iff_less_mult simp del: unat_lt_8)

lemma sextet_parts [simp]:
  "unat (a :: byte) mod 4 * 16 + unat (b :: byte) div 16 < 64"
  "unat (a :: byte) mod 4 * 16 < 64"
  "unat (a :: byte) mod 16 * 4 + unat (b :: byte) div 64 < 64"
  "unat (a :: byte) mod 16 * 4 < 64"
proof -
  have m: "x mod 4 < 4" "x mod 16 < 16" for x :: nat by simp_all
  show "unat a mod 4 * 16 + unat b div 16 < 64" "unat a mod 4 * 16 < 64"
    using m(1) [of "unat a"] byte_parts(2) [of b] by linarith+
  show "unat a mod 16 * 4 + unat b div 64 < 64" "unat a mod 16 * 4 < 64"
    using m(2) [of "unat a"] byte_parts(3) [of b] by linarith+
qed

lemma b64url_chars [simp]: "list_all is_b64 (b64url bs)"
  by (induction bs rule: b64url.induct) simp_all

lemma b64url_Nil_iff [simp]: "b64url bs = [] \<longleftrightarrow> bs = []"
  by (cases bs rule: b64url.cases) simp_all

lemma b64_text_b64url [simp]: "b64_text (b64url bs) \<longleftrightarrow> bs \<noteq> []"
  by (simp add: b64_text_def)

lemma length_b64url: "length (b64url bs) = (4 * length bs + 2) div 3"
  by (induction bs rule: b64url.induct) simp_all

lemma map_filter_simps2 [simp]:
  "List.map_filter f [] = []"
  "f x = Some y \<Longrightarrow> List.map_filter f (x # xs) = y # List.map_filter f xs"
  by (simp_all add: map_filter_simps)

lemma byte_of_parts:
  "of_nat (unat a div 4 * 4 + (unat a mod 4 * 16 + unat b div 16) div 16) = (a :: byte)"
  "of_nat (unat a div 4 * 4 + unat a mod 4 * 16 div 16) = (a :: byte)"
  "of_nat ((unat a mod 4 * 16 + unat b div 16) mod 16 * 16 + (unat b mod 16 * 4 + unat c div 64) div 4)
     = (b :: byte)"
  "of_nat ((unat a mod 4 * 16 + unat b div 16) mod 16 * 16 + unat b mod 16 * 4 div 4) = (b :: byte)"
  "of_nat ((unat b mod 16 * 4 + unat c div 64) mod 4 * 64 + unat c mod 64) = (c :: byte)"
proof -
  have b: "unat b div 16 < 16" and c: "unat c div 64 < 4" by simp_all
  have "unat a div 4 * 4 + (unat a mod 4 * 16 + unat b div 16) div 16 = unat a"
    using b by (simp add: div_mult_mod_eq)
  then show "of_nat (unat a div 4 * 4 + (unat a mod 4 * 16 + unat b div 16) div 16) = a"
    by (simp only: of_nat_unat ucast_id)
  have "unat a div 4 * 4 + unat a mod 4 * 16 div 16 = unat a"
    by (simp add: div_mult_mod_eq)
  then show "of_nat (unat a div 4 * 4 + unat a mod 4 * 16 div 16) = a"
    by (simp only: of_nat_unat ucast_id)
  have "(unat a mod 4 * 16 + unat b div 16) mod 16 * 16 + (unat b mod 16 * 4 + unat c div 64) div 4
      = unat b"
    using b c by (simp add: div_mult_mod_eq)
  then show "of_nat ((unat a mod 4 * 16 + unat b div 16) mod 16 * 16 +
      (unat b mod 16 * 4 + unat c div 64) div 4) = b"
    by (simp only: of_nat_unat ucast_id)
  have "(unat a mod 4 * 16 + unat b div 16) mod 16 * 16 + unat b mod 16 * 4 div 4 = unat b"
    using b by (simp add: div_mult_mod_eq)
  then show "of_nat ((unat a mod 4 * 16 + unat b div 16) mod 16 * 16 + unat b mod 16 * 4 div 4) = b"
    by (simp only: of_nat_unat ucast_id)
  have "(unat b mod 16 * 4 + unat c div 64) mod 4 * 64 + unat c mod 64 = unat c"
    using c by (simp add: div_mult_mod_eq)
  then show "of_nat ((unat b mod 16 * 4 + unat c div 64) mod 4 * 64 + unat c mod 64) = c"
    by (simp only: of_nat_unat ucast_id)
qed

lemma b64url_decode_b64url [simp]: "b64url_decode (b64url bs) = bs"
  unfolding b64url_decode_def
  by (induction bs rule: b64url.induct) (simp_all add: byte_of_parts del: of_nat_add)

lemma b64url_inject [simp]: "b64url a = b64url b \<longleftrightarrow> a = b"
  by (metis b64url_decode_b64url)

section \<open>UTF-8 round trip and well-formedness\<close>

text \<open>The text a buffer round trip returns: every lone surrogate becomes U+FFFD.\<close>

fun toWellFormed :: "ustring \<Rightarrow> ustring" where
  "toWellFormed [] = []"
| "toWellFormed [u] = (if is_high u \<or> is_low u then [65533] else [u])"
| "toWellFormed (u # v # s) =
     (if is_high u \<and> is_low v then u # v # toWellFormed s
      else (if is_high u \<or> is_low u then 65533 else u) # toWellFormed (v # s))"

definition scalar_value :: "nat \<Rightarrow> bool" where
  "scalar_value n \<longleftrightarrow> n < 1114112 \<and> \<not> (55296 \<le> n \<and> n \<le> 57343)"

lemma unit_point_scalar: "scalar_value (unit_point u)"
  using unat_lt_16 [of u]
  by (auto simp: scalar_value_def unit_point_def is_high_def is_low_def simp del: unat_lt_16)

lemma pair_point_bounds:
  "is_high u \<Longrightarrow> is_low v \<Longrightarrow> 65536 \<le> pair_point u v \<and> pair_point u v < 1114112"
  by (auto simp: pair_point_def is_high_def is_low_def)

lemma code_points_scalar: "list_all scalar_value (code_points s)"
proof (induction s rule: code_points.induct)
  case (3 u v s)
  then show ?case
    using pair_point_bounds [of u v] by (auto simp: unit_point_scalar) (simp add: scalar_value_def)
qed (simp_all add: unit_point_scalar)

lemma utf8_points_1: "n < 128 \<Longrightarrow> utf8_points (utf8_point n @ r) = n # utf8_points r"
  by (simp add: utf8_point_def unat_of_nat_8)

lemma utf8_points_2:
  assumes "128 \<le> n" "n < 2048"
  shows "utf8_points (utf8_point n @ r) = n # utf8_points r"
proof -
  have "n div 64 < 32" "2 \<le> n div 64" using assms by (auto simp: div_less_iff_less_mult)
  then show ?thesis
    using assms by (simp add: utf8_point_def unat_of_nat_8 is_cont_def del: of_nat_add)
qed

lemma base64_digits:
  "(n::nat) = n div 4096 * 4096 + n div 64 mod 64 * 64 + n mod 64"
  "(n::nat) = n div 262144 * 262144 + n div 4096 mod 64 * 4096 + n div 64 mod 64 * 64 + n mod 64"
proof -
  have step: "n div k = n div (k * 64) * 64 + n div k mod 64" for k
    using div_mult2_eq [of n k 64] div_mult_mod_eq [of "n div k" 64] by simp
  have two: "n div 64 = n div 4096 * 64 + n div 64 mod 64"
    and three: "n div 4096 = n div 262144 * 64 + n div 4096 mod 64"
    using step [of 64] step [of 4096] by simp_all
  show "n = n div 4096 * 4096 + n div 64 mod 64 * 64 + n mod 64"
    using div_mult_mod_eq [of n 64] two by linarith
  then show "n = n div 262144 * 262144 + n div 4096 mod 64 * 4096 + n div 64 mod 64 * 64 + n mod 64"
    using three by linarith
qed

lemma utf8_points_3:
  assumes "2048 \<le> n" "n < 65536" "scalar_value n"
  shows "utf8_points (utf8_point n @ r) = n # utf8_points r"
proof -
  define a b c where "a = n div 4096" and "b = n div 64 mod 64" and "c = n mod 64"
  have n: "n = a * 4096 + b * 64 + c" and bc: "b < 64" "c < 64" and a: "a < 16"
    using assms(2) base64_digits(1) [of n] unfolding a_def b_def c_def
    by (simp_all add: div_less_iff_less_mult)
  have lo: "a = 0 \<Longrightarrow> 32 \<le> b" using assms(1) n bc by simp
  have hi: "a = 13 \<Longrightarrow> b \<le> 31"
    using assms(3) n bc unfolding scalar_value_def by simp
  have "utf8_point n = [of_nat (224 + a), of_nat (128 + b), of_nat (128 + c)]"
    using assms by (simp add: utf8_point_def a_def b_def c_def)
  moreover have "(224 + a - 224) * 4096 + (128 + b - 128) * 64 + (128 + c - 128) = n"
    using n by simp
  ultimately show ?thesis
    using a bc lo hi by (simp add: unat_of_nat_8 is_cont_def n del: of_nat_add)
qed

lemma utf8_points_4:
  assumes "65536 \<le> n" "n < 1114112"
  shows "utf8_points (utf8_point n @ r) = n # utf8_points r"
proof -
  define a b c d where "a = n div 262144" and "b = n div 4096 mod 64" and "c = n div 64 mod 64"
    and "d = n mod 64"
  have n: "n = a * 262144 + b * 4096 + c * 64 + d" and bcd: "b < 64" "c < 64" "d < 64"
    and a: "a < 5"
    using assms(2) base64_digits(2) [of n] unfolding a_def b_def c_def d_def
    by (simp_all add: div_less_iff_less_mult)
  have lo: "a = 0 \<Longrightarrow> 16 \<le> b" using assms(1) n bcd by simp
  have hi: "a = 4 \<Longrightarrow> b \<le> 15" using assms(2) n bcd by simp
  have "utf8_point n = [of_nat (240 + a), of_nat (128 + b), of_nat (128 + c), of_nat (128 + d)]"
    using assms by (simp add: utf8_point_def a_def b_def c_def d_def)
  then show ?thesis
    using a bcd lo hi by (simp add: unat_of_nat_8 is_cont_def n del: of_nat_add)
qed

lemma utf8_points_point: "scalar_value n \<Longrightarrow> utf8_points (utf8_point n @ r) = n # utf8_points r"
  using utf8_points_1 utf8_points_2 utf8_points_3 utf8_points_4
  by (metis linorder_not_less scalar_value_def)

lemma utf8_points_utf8: "utf8_points (utf8 s) = code_points s"
proof -
  have "list_all scalar_value ns \<Longrightarrow> utf8_points (concat (map utf8_point ns)) = ns" for ns
    by (induction ns) (simp_all add: utf8_points_point)
  then show ?thesis using code_points_scalar by (simp add: utf8_def)
qed

lemma utf16_pair: "is_high u \<Longrightarrow> is_low v \<Longrightarrow> utf16_point (pair_point u v) = [u, v]"
proof -
  assume uv: "is_high u" "is_low v"
  define i j where "i = unat u - 55296" and "j = unat v - 56320"
  have ij: "unat u = 55296 + i" "unat v = 56320 + j" "i < 1024" "j < 1024"
    using uv by (auto simp: i_def j_def is_high_def is_low_def)
  have "pair_point u v = 65536 + (i * 1024 + j)"
    by (simp add: pair_point_def i_def j_def)
  then have "utf16_point (pair_point u v) = [of_nat (unat u), of_nat (unat v)]"
    using ij by (simp add: utf16_point_def del: of_nat_add of_nat_unat)
  then show ?thesis by simp
qed

lemma utf16_unit:
  "utf16_point (unit_point u) = [if is_high u \<or> is_low u then 65533 else u]"
  by (simp add: unit_point_def utf16_point_def)

lemma utf8_decode_utf8: "utf8_decode (utf8 s) = toWellFormed s"
  unfolding utf8_decode_def utf8_points_utf8
  by (induction s rule: toWellFormed.induct) (simp_all add: utf16_pair utf16_unit)

lemma replacement_not_surrogate: "\<not> is_high 65533" "\<not> is_low 65533"
  by (simp_all add: is_high_def is_low_def)

lemma toWellFormed_id: "toWellFormed s = s \<longleftrightarrow> isWellFormed s"
  by (induction s rule: toWellFormed.induct) (auto simp: replacement_not_surrogate)

text \<open>The two tests the sources use for well-formed text are the same test.\<close>

lemma utf8_round_trip [simp]: "utf8_decode (utf8 s) = s \<longleftrightarrow> isWellFormed s"
  by (simp add: utf8_decode_utf8 toWellFormed_id)

section \<open>Literals of the sources\<close>

lemma lit_no_surrogate: "\<not> is_high (unit_of_char c)" "\<not> is_low (unit_of_char c)"
proof -
  have small: "of_char c < (256::nat)" by (rule nat_of_char_less_256)
  show "\<not> is_high (unit_of_char c)" "\<not> is_low (unit_of_char c)"
    using small unfolding is_high_def is_low_def unat_unit_of_char by linarith+
qed

lemma lit_well_formed [simp]: "isWellFormed (lit s)"
proof -
  have "isWellFormed (map unit_of_char s)" by (induction s rule: induct_list012) (auto simp: lit_no_surrogate)
  then show ?thesis by (simp add: lit_def)
qed

lemma code_points_lit: "code_points (lit s) = map of_char s"
proof -
  have "code_points (map unit_of_char s) = map of_char s"
    by (induction s rule: induct_list012) (auto simp: lit_no_surrogate unit_point_def)
  then show ?thesis by (simp add: lit_def)
qed

lemma byteLength_lit: "list_all (\<lambda>c. of_char c < (128::nat)) s \<Longrightarrow> byteLength (lit s) = length s"
  unfolding byteLength_def utf8_def code_points_lit by (induction s) (simp_all add: utf8_point_def)

lemma ascii_text:
  assumes "list_all (\<lambda>u. unat u < 128) s"
  shows "isWellFormed s" "byteLength s = length s"
proof -
  have n: "\<not> is_high u \<and> \<not> is_low u" if "unat u < 128" for u using that by (simp add: is_high_def is_low_def)
  show "isWellFormed s" using assms by (induction s rule: induct_list012) (auto simp: n)
  have "code_points s = map unat s" using assms by (induction s rule: induct_list012) (auto simp: n unit_point_def)
  moreover have "length (concat (map utf8_point (map unat s))) = length s" using assms by (induction s) (auto simp: utf8_point_def)
  ultimately show "byteLength s = length s" by (simp add: byteLength_def utf8_def)
qed

end
