(* ===== verification/JS_Values.thy ===== *)
theory JS_Values
  imports JS_Text
begin

text \<open>
  JavaScript values as the client sources observe them.  A property is a data property or
  an accessor, each with its \<open>enumerable\<close> flag; keys are strings or symbols; an object
  carries which of the two builtin prototypes it has, if any.  An array is its indexed slots
  (a hole is \<open>None\<close>), the non-enumerable \<open>length\<close> and any further properties.  Reading an
  accessor yields the value its getter returns; getters are taken to be pure.

  An integral Number is \<open>Number n\<close>; a Number with no integral value (a fraction,
  \<open>NaN\<close>, an infinity) is \<open>NonInt\<close> with its printed form.  \<open>Func\<close> stands for the
  values that are neither primitive data nor objects of the kinds above.
\<close>

datatype proto = ObjectProto | ArrayProto | OtherProto

datatype pkey = SKey ustring | Sym nat

datatype 'a jsprop = Data bool 'a | Accessor bool 'a

datatype jsval =
    Undefined
  | Null
  | Boolean bool
  | Number int
  | NonInt string
  | BigInt int
  | Str ustring
  | Buf bytes
  | Func
  | Arr proto "jsval jsprop option list" "(pkey \<times> jsval jsprop) list"
  | Obj proto "(pkey \<times> jsval jsprop) list"

abbreviation js :: "string \<Rightarrow> jsval" where
  "js s \<equiv> Str (lit s)"

fun enumerable :: "'a jsprop \<Rightarrow> bool" where
  "enumerable (Data e x) = e"
| "enumerable (Accessor e x) = e"

fun is_data :: "'a jsprop \<Rightarrow> bool" where
  "is_data (Data e x) = True"
| "is_data (Accessor e x) = False"

fun read_prop :: "'a jsprop \<Rightarrow> 'a" where
  "read_prop (Data e x) = x"
| "read_prop (Accessor e x) = x"

fun string_key :: "pkey \<Rightarrow> bool" where
  "string_key (SKey s) = True"
| "string_key (Sym n) = False"

section \<open>Objects\<close>

text \<open>\<open>typeof value === "object"\<close> for a value that is not \<open>null\<close>\<close>

fun isObject :: "jsval \<Rightarrow> bool" where
  "isObject (Buf bs) = True"
| "isObject (Arr p sl ex) = True"
| "isObject (Obj p ps) = True"
| "isObject _ = False"

fun isArray :: "jsval \<Rightarrow> bool" where
  "isArray (Arr p sl ex) = True"
| "isArray _ = False"

text \<open>\<open>Object.getPrototypeOf(value) === Object.prototype\<close>, and the same for arrays\<close>

fun plainProto :: "jsval \<Rightarrow> bool" where
  "plainProto (Arr p sl ex) = (p = ObjectProto)"
| "plainProto (Obj p ps) = (p = ObjectProto)"
| "plainProto _ = False"

fun arrayProto :: "jsval \<Rightarrow> bool" where
  "arrayProto (Arr p sl ex) = (p = ArrayProto)"
| "arrayProto (Obj p ps) = (p = ArrayProto)"
| "arrayProto _ = False"

text \<open>\<open>Object.getOwnPropertyDescriptors\<close>, in the order of \<open>Reflect.ownKeys\<close>\<close>

fun index_props :: "nat \<Rightarrow> 'a jsprop option list \<Rightarrow> (pkey \<times> 'a jsprop) list" where
  "index_props n [] = []"
| "index_props n (None # r) = index_props (Suc n) r"
| "index_props n (Some p # r) = (SKey (dec n), p) # index_props (Suc n) r"

fun own_props :: "jsval \<Rightarrow> (pkey \<times> jsval jsprop) list" where
  "own_props (Obj p ps) = ps"
| "own_props (Arr p sl ex) =
     index_props 0 sl @ [(SKey (lit ''length''), Data False (Number (int (length sl))))] @ ex"
| "own_props (Buf bs) = index_props 0 (map (\<lambda>b. Some (Data True (Number (uint b)))) bs)"
| "own_props _ = []"

definition ownKeys :: "jsval \<Rightarrow> pkey list" where
  "ownKeys v = map fst (own_props v)"

definition objectKeys :: "jsval \<Rightarrow> ustring list" where
  "objectKeys v = List.map_filter
     (\<lambda>(k, p). case k of SKey s \<Rightarrow> if enumerable p then Some s else None | Sym n \<Rightarrow> None)
     (own_props v)"

definition hasOwnU :: "jsval \<Rightarrow> ustring \<Rightarrow> bool" where
  "hasOwnU v k \<longleftrightarrow> SKey k \<in> set (ownKeys v)"

abbreviation hasOwn :: "jsval \<Rightarrow> string \<Rightarrow> bool" where
  "hasOwn v k \<equiv> hasOwnU v (lit k)"

text \<open>\<open>value[key]\<close> for an object value; other values have no own members here\<close>

definition memU :: "jsval \<Rightarrow> ustring \<Rightarrow> jsval" where
  "memU v k = (case map_of (own_props v) (SKey k) of None \<Rightarrow> Undefined | Some p \<Rightarrow> read_prop p)"

abbreviation mem :: "jsval \<Rightarrow> string \<Rightarrow> jsval" where
  "mem v k \<equiv> memU v (lit k)"

lemma memU_Undefined [simp]: "memU Undefined k = Undefined"
  by (simp add: memU_def)

text \<open>Object and array literals, the spread \<open>{ ...value }\<close>, assignment and \<open>delete\<close>\<close>

definition obj :: "(string \<times> jsval) list \<Rightarrow> jsval" where
  "obj ps = Obj ObjectProto (map (\<lambda>(k, x). (SKey (lit k), Data True x)) ps)"

definition arr :: "jsval list \<Rightarrow> jsval" where
  "arr xs = Arr ArrayProto (map (\<lambda>x. Some (Data True x)) xs) []"

definition spread :: "jsval \<Rightarrow> jsval" where
  "spread v = Obj ObjectProto
     (map (\<lambda>(k, p). (k, Data True (read_prop p))) (filter (\<lambda>(k, p). enumerable p) (own_props v)))"

fun setm :: "string \<Rightarrow> jsval \<Rightarrow> jsval \<Rightarrow> jsval" where
  "setm k x (Obj p ps) = Obj p (AList.update (SKey (lit k)) (Data True x) ps)"
| "setm k x v = v"

fun setU :: "ustring \<Rightarrow> jsval \<Rightarrow> jsval \<Rightarrow> jsval" where
  "setU k x (Obj p ps) = Obj p (AList.update (SKey k) (Data True x) ps)"
| "setU k x v = v"

definition with_members :: "jsval \<Rightarrow> (string \<times> jsval) list \<Rightarrow> jsval" where
  "with_members v ms = fold (\<lambda>(k, x). setm k x) ms v"

fun deletem :: "string \<Rightarrow> jsval \<Rightarrow> jsval" where
  "deletem k (Obj p ps) = Obj p (AList.delete (SKey (lit k)) ps)"
| "deletem k v = v"

fun slot_value :: "jsval jsprop option \<Rightarrow> jsval" where
  "slot_value None = Undefined"
| "slot_value (Some p) = read_prop p"

text \<open>The values \<open>for (const x of array)\<close> visits, and \<open>array.length\<close>\<close>

fun elements :: "jsval \<Rightarrow> jsval list" where
  "elements (Arr p sl ex) = map slot_value sl"
| "elements _ = []"

section \<open>Scalars\<close>

fun isSafeInteger :: "jsval \<Rightarrow> bool" where
  "isSafeInteger (Number n) = (\<bar>n\<bar> \<le> 9007199254740991)"
| "isSafeInteger _ = False"

fun isBoolean :: "jsval \<Rightarrow> bool" where
  "isBoolean (Boolean b) = True"
| "isBoolean _ = False"

fun isString :: "jsval \<Rightarrow> bool" where
  "isString (Str s) = True"
| "isString _ = False"

lemma isString_iff: "isString v \<longleftrightarrow> (\<exists>s. v = Str s)"
  by (cases v) simp_all

definition one_of :: "jsval \<Rightarrow> string list \<Rightarrow> bool" where
  "one_of v ss \<longleftrightarrow> v \<in> set (map js ss)"

section \<open>Closed objects\<close>

text \<open>
  Three readings of "exactly these members" occur in the sources: by counting the enumerable
  string keys, by inspecting every own descriptor, and by both.
\<close>

definition closedKeys :: "jsval \<Rightarrow> string list \<Rightarrow> bool" where
  "closedKeys v ks \<longleftrightarrow> isObject v \<and> \<not> isArray v \<and> plainProto v \<and>
     length (objectKeys v) = length ks \<and> list_all (hasOwn v) ks"

definition closedOwn :: "jsval \<Rightarrow> string list \<Rightarrow> bool" where
  "closedOwn v ks \<longleftrightarrow> isObject v \<and> plainProto v \<and> length (ownKeys v) = length ks \<and>
     list_all (\<lambda>(k, p). k \<in> set (map (\<lambda>s. SKey (lit s)) ks) \<and> is_data p \<and> enumerable p)
       (own_props v)"

definition plainData :: "jsval \<Rightarrow> bool" where
  "plainData v \<longleftrightarrow> isObject v \<and> plainProto v \<and>
     list_all (\<lambda>(k, p). string_key k \<and> is_data p \<and> enumerable p) (own_props v)"

definition closedPlain :: "jsval \<Rightarrow> string list \<Rightarrow> bool" where
  "closedPlain v ks \<longleftrightarrow> plainData v \<and> length (objectKeys v) = length ks \<and> list_all (hasOwn v) ks"

text \<open>\<open>dense\<close>: an ordinary array whose own keys are exactly \<open>length\<close> and its indices\<close>

definition denseArray :: "nat \<Rightarrow> jsval \<Rightarrow> bool" where
  "denseArray n v \<longleftrightarrow> isArray v \<and> arrayProto v \<and> length (elements v) \<le> n \<and>
     length (ownKeys v) = length (elements v) + 1 \<and>
     list_all (\<lambda>(k, p). k = SKey (lit ''length'') \<or>
       (case k of SKey s \<Rightarrow> canonical_decimal s \<and> decimal_value s < length (elements v) | Sym m \<Rightarrow> False)
       \<and> is_data p \<and> enumerable p) (own_props v)"

text \<open>The values \<open>JSON.parse\<close> can return.\<close>

fun json :: "jsval \<Rightarrow> bool" where
  "json Null = True"
| "json (Boolean b) = True"
| "json (Number n) = True"
| "json (NonInt s) = True"
| "json (Str s) = True"
| "json (Arr p sl ex) \<longleftrightarrow> p = ArrayProto \<and> ex = [] \<and>
     list_all (\<lambda>s. case s of Some (Data True x) \<Rightarrow> json x | _ \<Rightarrow> False) sl"
| "json (Obj p ps) \<longleftrightarrow> p = ObjectProto \<and> distinct (map fst ps) \<and>
     list_all (\<lambda>kp. case kp of (SKey s, Data True x) \<Rightarrow> json x | _ \<Rightarrow> False) ps"
| "json _ = False"

section \<open>Members of literals, spreads and updates\<close>

lemma own_props_obj [member_simps]:
  "own_props (obj ps) = map (\<lambda>(k, x). (SKey (lit k), Data True x)) ps"
  by (simp add: obj_def)

lemma obj_shape [member_simps]:
  "isObject (obj ps)" "\<not> isArray (obj ps)" "plainProto (obj ps)" "obj ps \<noteq> Null"
  "obj ps \<noteq> Undefined" "obj ps \<noteq> Str s"
  by (simp_all add: obj_def)

lemma map_of_obj_props:
  "map_of (map (\<lambda>(k, x). (SKey (lit k), Data True x)) ps) (SKey (lit k)) = map_option (Data True) (map_of ps k)"
  by (induction ps) auto

lemma mem_obj [member_simps]:
  "mem (obj ps) k = (case map_of ps k of None \<Rightarrow> Undefined | Some x \<Rightarrow> x)"
  by (simp add: memU_def own_props_obj map_of_obj_props split: option.split)

lemma ownKeys_obj [member_simps]: "ownKeys (obj ps) = map (\<lambda>(k, x). SKey (lit k)) ps"
  by (simp add: ownKeys_def own_props_obj comp_def case_prod_unfold)

lemma hasOwn_obj [member_simps]: "hasOwn (obj ps) k \<longleftrightarrow> k \<in> set (map fst ps)"
  by (force simp: hasOwnU_def ownKeys_obj)

lemma objectKeys_obj [member_simps]: "objectKeys (obj ps) = map (\<lambda>(k, x). lit k) ps"
  by (induction ps) (auto simp: objectKeys_def own_props_obj map_filter_simps)

lemma closedKeys_obj [member_simps]:
  "closedKeys (obj ps) ks \<longleftrightarrow> length ps = length ks \<and> list_all (\<lambda>k. k \<in> set (map fst ps)) ks"
  by (simp add: closedKeys_def member_simps)

lemma plainData_obj [member_simps]: "plainData (obj ps)"
  by (auto simp: plainData_def member_simps list_all_iff)

lemma closedPlain_obj [member_simps]:
  "closedPlain (obj ps) ks \<longleftrightarrow> length ps = length ks \<and> list_all (\<lambda>k. k \<in> set (map fst ps)) ks"
  by (simp add: closedPlain_def member_simps)

lemma closedOwn_obj [member_simps]:
  "closedOwn (obj ps) ks \<longleftrightarrow> length ps = length ks \<and> list_all (\<lambda>(k, x). k \<in> set ks) ps"
  by (auto simp: closedOwn_def member_simps list_all_iff)

lemma setU_lit: "setU (lit k) x v = setm k x v"
  by (cases v) simp_all

lemma update_fresh: "k \<notin> fst ` set ps \<Longrightarrow> AList.update k x ps = ps @ [(k, x)]"
  by (induction ps) auto

lemma isObj_setm [simp]: "isObject (setm k x v) = isObject v" "plainProto (setm k x v) = plainProto v"
  "isArray (setm k x v) = isArray v"
  by (cases v; simp)+

lemma mem_setm: "mem (setm k x (Obj p ps)) k' = (if k = k' then x else mem (Obj p ps) k')"
  by (simp add: memU_def update_conv')

lemma setm_Obj: "\<exists>qs. setm k x (Obj p ps) = Obj p qs"
  by simp

lemma with_members_Nil [simp]: "with_members v [] = v"
  by (simp add: with_members_def)

lemma with_members_Cons: "with_members v ((k, x) # ms) = with_members (setm k x v) ms"
  by (simp add: with_members_def)

lemma with_members_append: "with_members v (ms @ ns) = with_members (with_members v ms) ns"
  by (simp add: with_members_def)

lemma mem_with_members:
  "mem (with_members (Obj p ps) ms) k =
     (case map_of (rev ms) k of Some x \<Rightarrow> x | None \<Rightarrow> mem (Obj p ps) k)"
proof (induction ms arbitrary: ps)
  case (Cons m ms)
  obtain k' x where m: "m = (k', x)" by (cases m)
  show ?case
    using Cons.IH [of "AList.update (SKey (lit k')) (Data True x) ps"]
    by (auto simp: m with_members_Cons memU_def update_conv' map_add_def split: option.split)
qed simp

lemma spread_obj [simp]: "spread (obj ps) = obj ps"
  by (simp add: spread_def own_props_obj obj_def comp_def case_prod_unfold)

lemma with_member_obj: "k \<notin> fst ` set ps \<Longrightarrow> with_members (obj ps) [(k, x)] = obj (ps @ [(k, x)])"
proof -
  assume "k \<notin> fst ` set ps"
  then have "SKey (lit k) \<notin> fst ` set (map (\<lambda>(k, x). (SKey (lit k), Data True x)) ps)" by force
  from update_fresh [OF this] show ?thesis by (simp add: with_members_Cons obj_def)
qed

lemma with_members_Obj: "\<exists>qs. with_members (Obj p ps) ms = Obj p qs"
proof (induction ms arbitrary: ps)
  case (Cons m ms)
  then show ?case by (cases m) (simp add: with_members_Cons)
qed simp

text \<open>A read through the enumerable own properties only, which is what a spread copies.\<close>

lemma mem_spread_plain: "plainData v \<Longrightarrow> mem (spread v) k = mem v k"
proof -
  assume "plainData v"
  then have all: "list_all (\<lambda>(k, p). enumerable p) (own_props v)"
    by (auto simp: plainData_def list_all_iff)
  have "list_all (\<lambda>(k, p). enumerable p) qs \<Longrightarrow>
    map_of (map (\<lambda>(k, p). (k, Data True (read_prop p))) (filter (\<lambda>(k, p). enumerable p) qs)) key
      = map_option (\<lambda>p. Data True (read_prop p)) (map_of qs key)"
    for qs :: "(pkey \<times> jsval jsprop) list" and key
    by (induction qs) auto
  from this [OF all] show ?thesis
    by (simp add: memU_def spread_def split: option.split)
qed

lemma spread_Obj: "\<exists>ps. spread v = Obj ObjectProto ps"
  by (simp add: spread_def)

lemma mem_spread_with:
  assumes "plainData v"
  shows "mem (with_members (spread v) ms) k =
    (case map_of (rev ms) k of Some x \<Rightarrow> x | None \<Rightarrow> mem v k)"
proof -
  obtain ps where "spread v = Obj ObjectProto ps" using spread_Obj by blast
  then show ?thesis
    using mem_spread_plain [OF assms, of k] mem_with_members [of ObjectProto ps ms k]
    by (simp split: option.split)
qed

lemma mem_spread_over:
  "map_of (rev ms) k = Some x \<Longrightarrow> mem (with_members (spread v) ms) k = x"
  using spread_Obj [of v] mem_with_members [of ObjectProto _ ms k] by force

lemma spread_with_shape [member_simps]:
  "isObject (with_members (spread v) ms)" "\<not> isArray (with_members (spread v) ms)"
  "plainProto (with_members (spread v) ms)"
  using with_members_Obj [of ObjectProto _ ms] by (auto simp: spread_def) (metis isObject.simps isArray.simps plainProto.simps)+

text \<open>
  The loop \<open>for (const key of keys) { result[key] = f(value[key]); if (refused) return null; }\<close>
\<close>

fun read_loop :: "(string \<Rightarrow> jsval \<Rightarrow> jsval option) \<Rightarrow> jsval \<Rightarrow> string list \<Rightarrow> jsval \<Rightarrow> jsval option" where
  "read_loop f v [] result = Some result"
| "read_loop f v (k # ks) result =
     (case f k (mem v k) of None \<Rightarrow> None | Some x \<Rightarrow> read_loop f v ks (setm k x result))"

lemma read_loop_iff:
  "read_loop f v ks result = Some r \<longleftrightarrow>
     (\<exists>xs. list_all2 (\<lambda>k x. f k (mem v k) = Some x) ks xs \<and> r = with_members result (zip ks xs))"
proof (induction ks arbitrary: result)
  case (Cons k ks)
  show ?case
  proof (cases "f k (mem v k)")
    case None
    then show ?thesis by (auto simp: list_all2_Cons1)
  next
    case (Some x)
    then show ?thesis
      by (auto simp: Cons.IH list_all2_Cons1 with_members_Cons)
  qed
qed auto

declare read_loop.simps [simp del]

text \<open>The loop \<open>for (const x of xs) { const y = f(x); if (y === null) return null; result.push(y); }\<close>\<close>

fun traverse :: "('a \<Rightarrow> 'b option) \<Rightarrow> 'a list \<Rightarrow> 'b list option" where
  "traverse f [] = Some []"
| "traverse f (x # xs) = (case f x of None \<Rightarrow> None | Some y \<Rightarrow> map_option (\<lambda>ys. y # ys) (traverse f xs))"

lemma traverse_iff: "traverse f xs = Some ys \<longleftrightarrow> list_all2 (\<lambda>x y. f x = Some y) xs ys"
  by (induction xs arbitrary: ys) (auto simp: list_all2_Cons1 split: option.splits)

section \<open>The three readings of a closed object\<close>

lemma closed_primitive [simp]:
  "\<not> closedKeys Null ks" "\<not> closedKeys Undefined ks" "\<not> closedKeys (Str s) ks"
  "\<not> closedOwn Null ks" "\<not> closedOwn Undefined ks" "\<not> closedOwn (Str s) ks"
  "\<not> closedPlain Null ks" "\<not> closedPlain Undefined ks" "\<not> closedPlain (Str s) ks"
  "\<not> plainData Null" "\<not> plainData Undefined" "\<not> plainData (Str s)"
  by (simp_all add: closedKeys_def closedOwn_def closedPlain_def plainData_def)

lemma closedPlain_plain: "closedPlain v ks \<Longrightarrow> plainData v"
  by (simp add: closedPlain_def)

lemma closedOwn_plain: "closedOwn v ks \<Longrightarrow> plainData v"
  by (auto simp: closedOwn_def plainData_def list_all_iff)

lemma plain_objectKeys:
  assumes "plainData v"
  shows "map SKey (objectKeys v) = ownKeys v"
proof -
  have "list_all (\<lambda>(k, p). string_key k \<and> is_data p \<and> enumerable p) qs \<Longrightarrow>
    map SKey (List.map_filter (\<lambda>(k, p). case k of SKey s \<Rightarrow> if enumerable p then Some s else None
      | Sym n \<Rightarrow> None) qs) = map fst qs" for qs :: "(pkey \<times> jsval jsprop) list"
  proof (induction qs)
    case (Cons q qs)
    then show ?case by (cases q, cases "fst q") (auto simp: map_filter_simps)
  qed simp
  with assms show ?thesis
    by (simp add: plainData_def objectKeys_def ownKeys_def)
qed

lemma plain_length_keys: "plainData v \<Longrightarrow> length (objectKeys v) = length (ownKeys v)"
  using plain_objectKeys [of v] by (metis length_map)

lemma pigeonhole_lists:
  assumes "distinct xs" "distinct ys" "length xs = length ys"
  shows "set xs \<subseteq> set ys \<longleftrightarrow> set ys \<subseteq> set xs"
  using assms by (metis card_subset_eq distinct_card finite_set order_refl)

text \<open>On an inert object with distinct keys the readings agree: exactly the required names.\<close>

lemma closed_readings:
  assumes "plainData v" "distinct (ownKeys v)" "distinct ks" "\<not> isArray v"
  shows "closedKeys v ks \<longleftrightarrow> set (ownKeys v) = (\<lambda>k. SKey (lit k)) ` set ks"
    and "closedPlain v ks \<longleftrightarrow> closedKeys v ks"
    and "closedOwn v ks \<longleftrightarrow> closedKeys v ks"
proof -
  let ?ks = "map (\<lambda>k. SKey (lit k)) ks"
  have d: "distinct ?ks" using assms(3) by (simp add: distinct_map inj_on_def)
  have len: "length (objectKeys v) = length ks \<longleftrightarrow> length (ownKeys v) = length ?ks"
    using plain_length_keys [OF assms(1)] by simp
  have shape: "isObject v" "plainProto v" using assms(1) by (simp_all add: plainData_def)
  have has: "list_all (hasOwn v) ks \<longleftrightarrow> set ?ks \<subseteq> set (ownKeys v)"
    by (auto simp: list_all_iff hasOwnU_def)
  have eq: "length (ownKeys v) = length ?ks \<and> set ?ks \<subseteq> set (ownKeys v) \<longleftrightarrow> set (ownKeys v) = set ?ks"
    using pigeonhole_lists [OF d assms(2)] distinct_card [OF d] distinct_card [OF assms(2)]
    by (metis order_refl subset_antisym)
  show k: "closedKeys v ks \<longleftrightarrow> set (ownKeys v) = (\<lambda>k. SKey (lit k)) ` set ks"
    using eq len has shape assms(4) by (simp add: closedKeys_def)
  show "closedPlain v ks \<longleftrightarrow> closedKeys v ks"
    using shape assms(1,4) by (simp add: closedPlain_def closedKeys_def)
  have "closedOwn v ks \<longleftrightarrow> length (ownKeys v) = length ?ks \<and> set (ownKeys v) \<subseteq> set ?ks"
    using assms(1) by (auto simp: closedOwn_def plainData_def list_all_iff ownKeys_def)
  also have "\<dots> \<longleftrightarrow> set (ownKeys v) = set ?ks"
    using pigeonhole_lists [OF d assms(2)] distinct_card [OF d] distinct_card [OF assms(2)]
    by (metis order_refl subset_antisym)
  finally show "closedOwn v ks \<longleftrightarrow> closedKeys v ks" using k by simp
qed

text \<open>Parsed JSON objects are inert, so for them the three readings agree.\<close>

lemma json_prop:
  "(case kp of (SKey s, Data True x) \<Rightarrow> json x | _ \<Rightarrow> False) \<longleftrightarrow>
     (\<exists>s x. kp = (SKey s, Data True x) \<and> json x)"
  by (cases kp) (auto split: pkey.splits jsprop.splits bool.splits)

lemma json_plain: "json v \<Longrightarrow> isObject v \<Longrightarrow> \<not> isArray v \<Longrightarrow> plainData v \<and> distinct (ownKeys v)"
proof (cases v)
  case (Obj p ps)
  assume "json v"
  with Obj show ?thesis
    by (auto simp: plainData_def ownKeys_def list_all_iff json_prop)
qed simp_all

lemma json_mem: "json v \<Longrightarrow> memU v k \<noteq> Undefined \<Longrightarrow> isObject v \<Longrightarrow> \<not> isArray v \<Longrightarrow> json (memU v k)"
proof (cases v)
  case (Obj p ps)
  assume "json v" "memU v k \<noteq> Undefined"
  with Obj obtain q where "map_of ps (SKey k) = Some q" "memU v k = read_prop q"
    by (auto simp: memU_def split: option.splits)
  moreover from this(1) have "(SKey k, q) \<in> set ps" by (rule map_of_SomeD)
  ultimately show ?thesis
    using \<open>json v\<close> Obj by (auto simp: list_all_iff json_prop)
qed simp_all

lemma json_member_plain:
  assumes "json v" "isObject v" "\<not> isArray v" "isObject (memU v k)" "\<not> isArray (memU v k)"
  shows "plainData (memU v k)"
proof -
  have "memU v k \<noteq> Undefined" using assms(4) by auto
  then show ?thesis using json_mem json_plain assms by blast
qed

text \<open>An object that is not an array has only enumerable data members under string keys.\<close>

definition inert :: "jsval \<Rightarrow> bool" where
  "inert v \<longleftrightarrow> (isObject v \<and> \<not> isArray v \<longrightarrow> plainData v)"

lemma json_inert: "json v \<Longrightarrow> inert v"
  by (simp add: inert_def json_plain)

lemma index_props_slots: "(k, p) \<in> set (index_props n sl) \<Longrightarrow> Some p \<in> set sl"
  by (induction n sl rule: index_props.induct) auto

lemma json_memU: "json v \<Longrightarrow> memU v k \<noteq> Undefined \<Longrightarrow> json (memU v k)"
proof (cases v)
  case (Arr p sl ex)
  assume j: "json v" "memU v k \<noteq> Undefined"
  with Arr obtain q where m: "map_of (own_props v) (SKey k) = Some q" "memU v k = read_prop q"
    by (auto simp: memU_def split: option.splits)
  from map_of_SomeD [OF m(1)] j(1) Arr consider "Some q \<in> set sl" | "q = Data False (Number (int (length sl)))"
    by (auto dest: index_props_slots)
  then show ?thesis
  proof cases
    case 1
    with j(1) Arr m(2) show ?thesis by (fastforce simp: list_all_iff split: jsprop.splits bool.splits)
  qed (simp add: m(2))
next
  case (Obj p ps)
  assume "json v" "memU v k \<noteq> Undefined"
  then show ?thesis using json_mem Obj by simp
qed (simp_all add: memU_def)

lemma json_member_inert: "json v \<Longrightarrow> inert (memU v k)"
  using json_memU json_inert by (metis inert_def isObject.simps(4))

lemma inert_plain: "inert v \<Longrightarrow> isObject v \<Longrightarrow> \<not> isArray v \<Longrightarrow> plainData v"
  by (simp add: inert_def)

section \<open>Arrays\<close>

lemma arr_shape [member_simps]:
  "isArray (arr xs)" "arrayProto (arr xs)" "elements (arr xs) = xs" "arr xs \<noteq> Null" "isObject (arr xs)"
  by (simp_all add: arr_def comp_def)

lemma length_elements [simp]: "length (elements (Arr p sl ex)) = length sl"
  by simp

lemma index_props_full:
  "index_props n (map (\<lambda>x. Some (Data True x)) xs) = map (\<lambda>i. (SKey (dec (n + i)), Data True (xs ! i))) [0..<length xs]"
proof (induction xs arbitrary: n)
  case (Cons x xs)
  then show ?case
    by (simp add: map_upt_Suc del: upt_Suc)
qed simp

lemma denseArray_arr [member_simps]: "denseArray n (arr xs) \<longleftrightarrow> length xs \<le> n"
  by (auto simp: denseArray_def member_simps ownKeys_def arr_def index_props_full list_all_iff comp_def)

lemma dec_not_length [simp]: "dec n \<noteq> lit ''length''"
proof
  assume "dec n = lit ''length''"
  then have "list_all is_digit (lit ''length'')" using dec_digits [of n] by simp
  then show False by (simp add: lit_def is_digit_def)
qed

lemmas length_not_dec [simp] = dec_not_length [symmetric]

lemma index_props_length: "length (index_props n sl) \<le> length sl"
  by (induction n sl rule: index_props.induct) simp_all

lemma index_props_no_hole:
  "length (index_props n sl) = length sl \<Longrightarrow> None \<notin> set sl"
proof (induction n sl rule: index_props.induct)
  case (2 n r)
  then show ?case using index_props_length [of "Suc n" r] by simp
qed simp_all

lemma index_props_data:
  "list_all (\<lambda>(k, p). is_data p \<and> enumerable p) (index_props n sl) \<Longrightarrow> None \<notin> set sl \<Longrightarrow>
   sl = map (\<lambda>x. Some (Data True x)) (map slot_value sl)"
proof (induction n sl rule: index_props.induct)
  case (3 n p r)
  then show ?case by (cases p) simp_all
qed simp_all

text \<open>
  In JavaScript an array's further properties are never named \<open>length\<close> or by an index below
  its length; then \<open>dense\<close> admits exactly the ordinary arrays of data.
\<close>

definition array_extras_ok :: "jsval \<Rightarrow> bool" where
  "array_extras_ok v \<longleftrightarrow> (case v of Arr p sl ex \<Rightarrow>
     list_all (\<lambda>(k, q). k \<noteq> SKey (lit ''length'') \<and>
       (case k of SKey s \<Rightarrow> \<not> (canonical_decimal s \<and> decimal_value s < length sl) | Sym m \<Rightarrow> True)) ex
     | _ \<Rightarrow> True)"

lemma denseArray_iff:
  assumes "array_extras_ok v"
  shows "denseArray n v \<longleftrightarrow> (\<exists>xs. v = arr xs \<and> length xs \<le> n)"
proof
  assume d: "denseArray n v"
  then obtain p sl ex where v: "v = Arr p sl ex"
    by (cases v) (auto simp: denseArray_def)
  have ex: "ex = []"
    using d assms by (cases ex) (auto simp: v denseArray_def array_extras_ok_def split: pkey.splits)
  have p: "p = ArrayProto" and n: "length sl \<le> n" using d by (auto simp: v denseArray_def)
  have "length (index_props 0 sl) = length sl"
    using d by (simp add: v ex denseArray_def ownKeys_def)
  then have holes: "None \<notin> set sl" by (rule index_props_no_hole)
  have keys: "(k, q) \<in> set (index_props m sl) \<Longrightarrow> k \<noteq> SKey (lit ''length'')" for k q m sl
    by (induction m sl rule: index_props.induct) auto
  have "list_all (\<lambda>(k, p). is_data p \<and> enumerable p) (index_props 0 sl)"
    using d keys [of _ _ 0 sl] by (fastforce simp: v denseArray_def list_all_iff)
  then have "sl = map (\<lambda>x. Some (Data True x)) (map slot_value sl)"
    using holes by (rule index_props_data)
  then have "v = arr (map slot_value sl)" by (simp add: arr_def v ex p)
  then show "\<exists>xs. v = arr xs \<and> length xs \<le> n" using n by (intro exI [of _ "map slot_value sl"]) simp
qed (auto simp: member_simps)

end
