(* ===== verification/Wire_Scalars.thy ===== *)
theory Wire_Scalars
  imports JS_Values
begin

text \<open>
  The scalars of the public session protocol: opaque identities are canonical unpadded
  base64url text for one to \<open>m\<close> bytes, quantities are canonical decimal text, public
  text is well-formed and bounded in UTF-8 bytes, and digests are 64 lowercase hexadecimal
  characters.  Every decoder module of the client carries its own copy of the readers; this
  theory states once what each of them has to be, as the interface \<open>wire_scalar\<close>, and the
  component theories prove their copies equal to the readers here (collection
  \<open>copy_eqs\<close>).
\<close>

section \<open>Readers\<close>

definition identity_within :: "nat \<Rightarrow> jsval \<Rightarrow> bytes option" where
  "identity_within m v = (case v of
     Str s \<Rightarrow> if b64_text s \<and> 1 \<le> length (b64url_decode s) \<and> length (b64url_decode s) \<le> m \<and>
                b64url (b64url_decode s) = s
             then Some (b64url_decode s) else None
   | _ \<Rightarrow> None)"

definition quantity_within :: "nat \<Rightarrow> nat option \<Rightarrow> jsval \<Rightarrow> nat option" where
  "quantity_within lo hi v = (case v of
     Str s \<Rightarrow> if canonical_decimal s \<and> lo \<le> decimal_value s \<and>
                (case hi of None \<Rightarrow> True | Some h \<Rightarrow> decimal_value s \<le> h)
             then Some (decimal_value s) else None
   | _ \<Rightarrow> None)"

definition text_within :: "nat \<Rightarrow> nat \<Rightarrow> jsval \<Rightarrow> bool" where
  "text_within lo hi v = (case v of
     Str s \<Rightarrow> isWellFormed s \<and> lo \<le> byteLength s \<and> byteLength s \<le> hi
   | _ \<Rightarrow> False)"

definition is_hex :: "code_unit \<Rightarrow> bool" where
  "is_hex u \<longleftrightarrow> (48 \<le> unat u \<and> unat u \<le> 57) \<or> (97 \<le> unat u \<and> unat u \<le> 102)"

text \<open>\<open>/^[0-9a-f]{64}$/\<close>\<close>

definition hex_digest :: "jsval \<Rightarrow> bool" where
  "hex_digest v = (case v of Str s \<Rightarrow> length s = 64 \<and> list_all is_hex s | _ \<Rightarrow> False)"

abbreviation u64 :: nat where
  "u64 \<equiv> 18446744073709551615"

text \<open>A member that may be \<open>null\<close>: absent content is \<open>Some None\<close>, a refusal \<open>None\<close>.\<close>

definition nullable :: "(jsval \<Rightarrow> 'a option) \<Rightarrow> jsval \<Rightarrow> 'a option option" where
  "nullable f v = (if v = Null then Some None else map_option Some (f v))"

definition or_null :: "('a \<Rightarrow> jsval) \<Rightarrow> 'a option \<Rightarrow> jsval" where
  "or_null f x = (case x of None \<Rightarrow> Null | Some y \<Rightarrow> f y)"

abbreviation big :: "nat \<Rightarrow> jsval" where
  "big n \<equiv> BigInt (int n)"

abbreviation wire_id :: "bytes \<Rightarrow> jsval" where
  "wire_id bs \<equiv> Str (b64url bs)"

abbreviation wire_nat :: "nat \<Rightarrow> jsval" where
  "wire_nat n \<equiv> Str (dec n)"

definition id_ok :: "nat \<Rightarrow> bytes \<Rightarrow> bool" where
  "id_ok m bs \<longleftrightarrow> 1 \<le> length bs \<and> length bs \<le> m"

definition nat_ok :: "nat \<Rightarrow> nat option \<Rightarrow> nat \<Rightarrow> bool" where
  "nat_ok lo hi n \<longleftrightarrow> lo \<le> n \<and> (case hi of None \<Rightarrow> True | Some h \<Rightarrow> n \<le> h)"

section \<open>The interface of a scalar\<close>

locale wire_scalar =
  fixes rd :: "jsval \<Rightarrow> 'a option"
    and wr :: "'a \<Rightarrow> jsval"
    and ok :: "'a \<Rightarrow> bool"
  assumes read_iff: "rd v = Some x \<longleftrightarrow> ok x \<and> v = wr x"
begin

lemma read_write: "ok x \<Longrightarrow> rd (wr x) = Some x"
  by (simp add: read_iff)

lemma read_inj: "rd v = Some x \<Longrightarrow> rd w = Some x \<Longrightarrow> v = w"
  by (simp add: read_iff)

lemma write_inj: "ok x \<Longrightarrow> ok y \<Longrightarrow> wr x = wr y \<Longrightarrow> x = y"
  using read_iff [of "wr x" x] read_iff [of "wr x" y] by simp

lemma read_None: "rd v = None \<longleftrightarrow> (\<forall>x. ok x \<longrightarrow> v \<noteq> wr x)"
  using read_iff [of v] by (cases "rd v") auto

lemma read_nullable:
  assumes "\<And>x. ok x \<Longrightarrow> wr x \<noteq> Null"
  shows "nullable rd v = Some y \<longleftrightarrow> (\<forall>x. y = Some x \<longrightarrow> ok x) \<and> v = or_null wr y"
  using assms assms [THEN not_sym] read_iff [of v] by (cases y) (auto simp: nullable_def or_null_def)

end

lemma identity_within_iff:
  "identity_within m v = Some bs \<longleftrightarrow> id_ok m bs \<and> v = wire_id bs"
proof
  assume "identity_within m v = Some bs"
  then obtain s where v: "v = Str s" and s: "b64url (b64url_decode s) = s" "bs = b64url_decode s"
    and l: "1 \<le> length bs" "length bs \<le> m"
    by (auto simp: identity_within_def split: jsval.splits if_splits)
  then show "id_ok m bs \<and> v = wire_id bs" by (simp add: id_ok_def)
next
  assume "id_ok m bs \<and> v = wire_id bs"
  then have "1 \<le> length bs" "length bs \<le> m" "v = wire_id bs" by (simp_all add: id_ok_def)
  then show "identity_within m v = Some bs" by (auto simp: identity_within_def)
qed

lemma quantity_within_iff:
  "quantity_within lo hi v = Some n \<longleftrightarrow> nat_ok lo hi n \<and> v = wire_nat n"
proof
  assume "quantity_within lo hi v = Some n"
  then obtain s where v: "v = Str s" and s: "canonical_decimal s" "n = decimal_value s" "nat_ok lo hi n"
    by (auto simp: quantity_within_def nat_ok_def split: jsval.splits if_splits)
  then show "nat_ok lo hi n \<and> v = wire_nat n" by (simp add: dec_decimal_value)
qed (auto simp: quantity_within_def nat_ok_def split: option.split)

interpretation identity_scalar: wire_scalar "identity_within m" wire_id "id_ok m" for m
  by unfold_locales (rule identity_within_iff)

interpretation quantity_scalar: wire_scalar "quantity_within lo hi" wire_nat "nat_ok lo hi" for lo hi
  by unfold_locales (rule quantity_within_iff)

lemma wire_scalar_not_null [simp]: "wire_id bs \<noteq> Null" "wire_nat n \<noteq> Null" "js s \<noteq> Null"
  by simp_all

lemma nullable_identity_iff:
  "nullable (identity_within m) v = Some y \<longleftrightarrow>
     (\<forall>x. y = Some x \<longrightarrow> id_ok m x) \<and> v = or_null wire_id y"
  by (rule identity_scalar.read_nullable) simp

lemma nullable_quantity_iff:
  "nullable (quantity_within lo hi) v = Some y \<longleftrightarrow>
     (\<forall>x. y = Some x \<longrightarrow> nat_ok lo hi x) \<and> v = or_null wire_nat y"
  by (rule quantity_scalar.read_nullable) simp

lemmas scalar_iffs = identity_within_iff quantity_within_iff nullable_identity_iff nullable_quantity_iff

lemma nat_ok_single: "nat_ok k (Some k) n \<longleftrightarrow> n = k"
  by (auto simp: nat_ok_def)

lemma text_within_Str: "text_within lo hi v \<Longrightarrow> \<exists>s. v = Str s"
  by (auto simp: text_within_def split: jsval.splits)

lemma hex_digest_Str: "hex_digest v \<Longrightarrow> \<exists>s. v = Str s"
  by (auto simp: hex_digest_def split: jsval.splits)

lemma one_of_js: "one_of v ss \<Longrightarrow> \<exists>s. v = js s \<and> s \<in> set ss"
  by (auto simp: one_of_def)

lemma one_of_js_iff [simp]: "one_of (js s) ss \<longleftrightarrow> s \<in> set ss"
  by (auto simp: one_of_def)

lemma null_or_one_of:
  "v = Null \<or> one_of v ss \<longleftrightarrow> (\<exists>s. v = or_null js s \<and> (\<forall>x. s = Some x \<longrightarrow> x \<in> set ss))"
proof
  assume "v = Null \<or> one_of v ss"
  then consider "v = Null" | x where "v = js x" "x \<in> set ss" by (auto dest: one_of_js)
  then show "\<exists>s. v = or_null js s \<and> (\<forall>x. s = Some x \<longrightarrow> x \<in> set ss)"
  proof cases
    case 1
    then show ?thesis by (intro exI [of _ None]) (simp add: or_null_def)
  next
    case (2 x)
    then show ?thesis by (intro exI [of _ "Some x"]) (simp add: or_null_def)
  qed
qed (auto simp: or_null_def split: option.splits)

lemma or_null_eq_Null: "or_null f x = Null \<longleftrightarrow> x = None \<or> (\<exists>y. x = Some y \<and> f y = Null)"
  by (auto simp: or_null_def split: option.splits)

section \<open>Facts that make the copies agree\<close>

lemma identity_length_guard: "id_ok m bs \<Longrightarrow> length (b64url bs) \<le> (4 * m + 2) div 3"
  by (auto simp: id_ok_def length_b64url intro: div_le_mono)

lemma identity_text_guard:
  "b64url (b64url_decode s) = s \<Longrightarrow> length (b64url_decode s) \<le> m \<Longrightarrow> length s \<le> (4 * m + 2) div 3"
  by (metis div_le_mono add_le_mono1 length_b64url mult_le_mono2)

lemma identity_copy_bind:
  assumes "(4 * m + 2) div 3 \<le> l"
  shows "(case v of Str i \<Rightarrow>
      if l < length i \<or> \<not> b64_text i then None
      else let bs = b64url_decode i in
        if 1 \<le> length bs \<and> length bs \<le> m \<and> b64url bs = i then f bs else None
    | _ \<Rightarrow> None) = Option.bind (identity_within m v) f"
proof (cases v)
  case (Str i)
  have "b64url (b64url_decode i) = i \<Longrightarrow> length (b64url_decode i) \<le> m \<Longrightarrow> \<not> l < length i"
    using identity_text_guard [of i m] assms by simp
  with Str show ?thesis by (auto simp: identity_within_def Let_def)
qed (simp_all add: identity_within_def)

lemma identity_copy:
  assumes "(4 * m + 2) div 3 \<le> l"
  shows "(case v of Str i \<Rightarrow>
      if l < length i \<or> \<not> b64_text i then None
      else let bs = b64url_decode i in
        if 1 \<le> length bs \<and> length bs \<le> m \<and> b64url bs = i then Some bs else None
    | _ \<Rightarrow> None) = identity_within m v"
  using identity_copy_bind [OF assms, where v = v and f = Some] by simp

lemma u64_digits: "n \<le> u64 \<Longrightarrow> length (dec n) \<le> 20"
  by (subst length_dec_le) simp_all

lemma u64_text_guard: "canonical_decimal s \<Longrightarrow> decimal_value s \<le> u64 \<Longrightarrow> length s \<le> 20"
  using u64_digits [of "decimal_value s"] by (simp add: dec_decimal_value)

end
