(* ===== verification/Payload_Codec.thy ===== *)
theory Payload_Codec
  imports Wire_Scalars
begin

text \<open>
  The interface of the payload modules that both encode and decode (\<open>active-bounds.mjs\<close>,
  \<open>command-bounds.mjs\<close>, \<open>open-interaction.mjs\<close>).  A codec rebuilds its result, so a round
  trip returns the argument in the codec's own member order: \<open>norm\<close> is that reordering of
  a well-formed payload and \<open>ok\<close> what a payload has to satisfy to be an object at all.
\<close>

locale payload_codec =
  fixes encode :: "jsval \<Rightarrow> jsval option"
    and decode :: "jsval \<Rightarrow> jsval option"
    and norm :: "jsval \<Rightarrow> jsval"
    and ok :: "jsval \<Rightarrow> bool"
  assumes encode_decode: "ok v \<Longrightarrow> encode v = Some w \<Longrightarrow> ok w \<and> decode w = Some (norm v)"
    and decode_encode: "ok w \<Longrightarrow> decode w = Some v \<Longrightarrow> ok v \<and> encode v = Some (norm w)"
begin

text \<open>Nothing that is encoded is lost: equal encodings come from equal payloads.\<close>

lemma encode_inj: "ok v \<Longrightarrow> ok v' \<Longrightarrow> encode v = Some w \<Longrightarrow> encode v' = Some w \<Longrightarrow> norm v = norm v'"
  using encode_decode [of v w] encode_decode [of v' w] by simp

lemma decode_inj: "ok w \<Longrightarrow> ok w' \<Longrightarrow> decode w = Some v \<Longrightarrow> decode w' = Some v \<Longrightarrow> norm w = norm w'"
  using decode_encode [of w v] decode_encode [of w' v] by simp

text \<open>Whatever one direction produces, the other accepts.\<close>

lemma decode_accepts: "ok v \<Longrightarrow> encode v = Some w \<Longrightarrow> decode w \<noteq> None"
  using encode_decode by fastforce

lemma encode_accepts: "ok w \<Longrightarrow> decode w = Some v \<Longrightarrow> encode v \<noteq> None"
  using decode_encode by fastforce

text \<open>A second trip changes nothing further.\<close>

lemma normal_form: "ok w \<Longrightarrow> decode w = Some v \<Longrightarrow> decode (norm w) = Some (norm v)"
  using decode_encode encode_decode by blast

end

text \<open>The two directions of one decimal quantity within bounds.\<close>

definition quantity_cell :: "bool \<Rightarrow> nat \<Rightarrow> nat option \<Rightarrow> jsval \<Rightarrow> jsval \<Rightarrow> bool" where
  "quantity_cell encode lo hi v x \<longleftrightarrow>
     (\<exists>n. nat_ok lo hi n \<and> v = (if encode then big n else wire_nat n) \<and> x = (if encode then wire_nat n else big n))"

lemma quantity_cell_flip: "quantity_cell (\<not> e) lo hi v x \<longleftrightarrow> quantity_cell e lo hi x v"
  by (auto simp: quantity_cell_def)

fun bigint_of :: "jsval \<Rightarrow> int option" where
  "bigint_of (BigInt i) = Some i"
| "bigint_of _ = None"

lemma bigint_of_Some: "bigint_of v = Some i \<longleftrightarrow> v = BigInt i"
  by (cases v) auto

lemma int_text_nat [simp]: "int_text (int n) = dec n"
  by (simp add: int_text_def)

section \<open>Rewriting members of a closed object\<close>

text \<open>
  A codec copies a closed inert object and overwrites some of its members.  Such a result keeps
  the keys and their order, so it is determined by its members.
\<close>

lemma closedPlain_Obj:
  assumes "closedPlain v ks"
  obtains ps where "v = Obj ObjectProto ps" "list_all (\<lambda>(k, q). string_key k \<and> is_data q \<and> enumerable q) ps"
  using assms by (cases v) (auto simp: closedPlain_def plainData_def)

lemma closedPlain_keys:
  assumes "closedPlain v ks" "distinct ks"
  shows "distinct (ownKeys v) \<and> set (ownKeys v) = (\<lambda>k. SKey (lit k)) ` set ks"
proof -
  let ?ks = "map (\<lambda>k. SKey (lit k)) ks"
  have d: "distinct ?ks" using assms(2) by (simp add: distinct_map inj_on_def)
  have l: "length (ownKeys v) = length ?ks" and s: "set ?ks \<subseteq> set (ownKeys v)"
    using assms(1) plain_length_keys [of v] by (auto simp: closedPlain_def list_all_iff hasOwnU_def)
  have "card (set ?ks) = length (ownKeys v)" using distinct_card [OF d] l by simp
  with s have "set ?ks = set (ownKeys v)"
    by (metis card_length card_seteq finite_set)
  with \<open>card (set ?ks) = length (ownKeys v)\<close> show ?thesis by (simp add: card_distinct)
qed

lemma update_keys_present: "k \<in> fst ` set ps \<Longrightarrow> map fst (AList.update k x ps) = map fst ps"
  by (induction ps) auto

lemma update_data:
  "list_all (\<lambda>(k, q). string_key k \<and> is_data q \<and> enumerable q) ps \<Longrightarrow>
   list_all (\<lambda>(k, q). string_key k \<and> is_data q \<and> enumerable q) (AList.update (SKey s) (Data True x) ps)"
  by (induction ps) auto

lemma closedPlain_setm:
  assumes "closedPlain v ks" "distinct ks" "k \<in> set ks"
  shows "closedPlain (setm k x v) ks \<and> ownKeys (setm k x v) = ownKeys v"
proof -
  obtain ps where v: "v = Obj ObjectProto ps" and d: "list_all (\<lambda>(k, q). string_key k \<and> is_data q \<and> enumerable q) ps"
    using closedPlain_Obj [OF assms(1)] by blast
  have "SKey (lit k) \<in> fst ` set ps"
    using closedPlain_keys [OF assms(1,2)] assms(3) by (auto simp: v ownKeys_def)
  then have o: "ownKeys (setm k x v) = ownKeys v" by (simp add: v ownKeys_def update_keys_present)
  have p: "plainData (setm k x v)" using update_data [OF d] by (simp add: v plainData_def)
  have "length (objectKeys (setm k x v)) = length (objectKeys v)"
    using plain_length_keys [OF p] plain_length_keys [of v] o assms(1) by (simp add: closedPlain_def)
  with assms(1) o p show ?thesis by (simp add: closedPlain_def hasOwnU_def list_all_iff)
qed

lemma closedPlain_with_members:
  "closedPlain v ks \<Longrightarrow> distinct ks \<Longrightarrow> fst ` set ms \<subseteq> set ks \<Longrightarrow>
     closedPlain (with_members v ms) ks \<and> ownKeys (with_members v ms) = ownKeys v"
proof (induction ms arbitrary: v)
  case (Cons m ms)
  obtain k x where m: "m = (k, x)" by (cases m)
  have "closedPlain (setm k x v) ks" "ownKeys (setm k x v) = ownKeys v"
    using closedPlain_setm [OF Cons.prems(1,2)] Cons.prems(3) m by auto
  with Cons.IH [of "setm k x v"] Cons.prems show ?case by (simp add: m with_members_Cons)
qed simp

lemma mem_with_closed:
  assumes "closedPlain v ks"
  shows "mem (with_members v ms) k = (case map_of (rev ms) k of Some x \<Rightarrow> x | None \<Rightarrow> mem v k)"
  by (rule closedPlain_Obj [OF assms]) (simp add: mem_with_members split: option.split)

lemma map_of_data_ext:
  assumes "map fst ps = map fst qs" "distinct (map fst ps)"
    "\<And>k. k \<in> set (map fst ps) \<Longrightarrow> map_of ps k = map_of qs k"
  shows "ps = qs"
  using assms
proof (induction ps arbitrary: qs)
  case (Cons p ps)
  then obtain q rs where q: "qs = q # rs" "fst p = fst q" "map fst ps = map fst rs" by (cases qs) auto
  have "snd p = snd q" using Cons.prems(3) [of "fst p"] q by (cases p; cases q) auto
  moreover have "ps = rs"
  proof (rule Cons.IH)
    show "map_of ps k = map_of rs k" if "k \<in> set (map fst ps)" for k
      using Cons.prems(2) Cons.prems(3) [of k] that q by (cases p; cases q) (auto split: if_splits)
  qed (use Cons.prems(2) q in auto)
  ultimately show ?case using q by (simp add: prod_eq_iff)
qed simp

lemma closedPlain_ext:
  assumes "closedPlain v ks" "closedPlain w ks" "distinct ks" "ownKeys v = ownKeys w"
    "\<And>k. k \<in> set ks \<Longrightarrow> mem v k = mem w k"
  shows "v = w"
proof -
  obtain ps where v: "v = Obj ObjectProto ps" and d: "list_all (\<lambda>(k, q). string_key k \<and> is_data q \<and> enumerable q) ps"
    using closedPlain_Obj [OF assms(1)] by blast
  obtain qs where w: "w = Obj ObjectProto qs" and e: "list_all (\<lambda>(k, q). string_key k \<and> is_data q \<and> enumerable q) qs"
    using closedPlain_Obj [OF assms(2)] by blast
  have data: "map_of xs k = Some q \<Longrightarrow> q = Data True (read_prop q)"
    if "list_all (\<lambda>(k, q). string_key k \<and> is_data q \<and> enumerable q) xs" for xs k and q :: "jsval jsprop"
    using that by (cases q) (auto simp: list_all_iff dest!: map_of_SomeD)
  have "ps = qs"
  proof (rule map_of_data_ext)
    show keys: "map fst ps = map fst qs" using assms(4) by (simp add: v w ownKeys_def)
    show "distinct (map fst ps)" using closedPlain_keys [OF assms(1,3)] by (simp add: v ownKeys_def)
    fix k assume k: "k \<in> set (map fst ps)"
    then obtain s where s: "s \<in> set ks" "k = SKey (lit s)"
      using closedPlain_keys [OF assms(1,3)] by (auto simp: v ownKeys_def)
    obtain p q where pq: "map_of ps k = Some p" "map_of qs k = Some q"
      using k keys by (metis list.set_map map_of_eq_None_iff not_Some_eq)
    then have "read_prop p = read_prop q" using assms(5) [OF s(1)] s(2) by (simp add: memU_def v w)
    with pq data [OF d pq(1)] data [OF e pq(2)] show "map_of ps k = map_of qs k" by simp
  qed
  then show ?thesis by (simp add: v w)
qed

lemma spread_closedPlain: "closedPlain v ks \<Longrightarrow> spread v = v"
proof -
  assume "closedPlain v ks"
  then obtain ps where v: "v = Obj ObjectProto ps" and d: "list_all (\<lambda>(k, q). string_key k \<and> is_data q \<and> enumerable q) ps"
    using closedPlain_Obj by blast
  have "map (\<lambda>(k, p). (k, Data True (read_prop p))) (filter (\<lambda>(k, p). enumerable p) ps) = ps"
    using d
  proof (induction ps)
    case (Cons q qs)
    then show ?case by (cases q, cases "snd q") auto
  qed simp
  then show ?thesis by (simp add: spread_def v)
qed

end
