(* ===== verification/Open_Interaction.thy ===== *)
theory Open_Interaction
  imports Payload_Codec
begin

text \<open>
  \<open>clients/node/open-interaction.mjs\<close>: a pending question or an answered policy question at a
  public cursor, and the event that admits a policy answer.  Both are codecs; the flag
  \<open>encode\<close> selects the direction.
\<close>

definition open_keys :: "string list" where
  "open_keys = [''interaction_id'', ''run_id'', ''turn'', ''tool_call_id'', ''status'', ''prompt'', ''choices'',
     ''expires_at'', ''producer'', ''kind'']"

definition open_answer_keys :: "string list" where
  "open_answer_keys = open_keys @ [''answer_choice_id'', ''answer_command_id'']"

definition open_event_keys :: "string list" where
  "open_event_keys = [''interaction_id'', ''run_id'', ''turn'', ''tool_call_id'', ''producer'', ''interaction_kind'',
     ''status'', ''answer_choice_id'', ''answer_command_id'']"

definition open_plain :: "jsval \<Rightarrow> bool" where
  "open_plain value \<longleftrightarrow> isObject value \<and> plainProto value \<and>
     list_all (\<lambda>(k, p). string_key k \<and> is_data p \<and> enumerable p) (own_props value)"

definition open_closed :: "jsval \<Rightarrow> string list \<Rightarrow> bool" where
  "open_closed value required \<longleftrightarrow> open_plain value \<and> length (objectKeys value) = length required \<and>
     list_all (hasOwn value) required"

definition open_dense :: "jsval \<Rightarrow> nat \<Rightarrow> bool" where
  "open_dense value maximum \<longleftrightarrow> isArray value \<and> arrayProto value \<and> length (elements value) \<le> maximum \<and>
     length (ownKeys value) = length (elements value) + 1 \<and>
     list_all (\<lambda>(k, p). k = SKey (lit ''length'') \<or>
       (case k of SKey s \<Rightarrow> canonical_decimal s \<and> decimal_value s < length (elements value) | Sym m \<Rightarrow> False)
       \<and> is_data p \<and> enumerable p) (own_props value)"

definition open_text :: "jsval \<Rightarrow> nat \<Rightarrow> bool" where
  "open_text value maximum = (case value of
     Str s \<Rightarrow> 1 \<le> byteLength s \<and> byteLength s \<le> maximum \<and> utf8_decode (utf8 s) = s
   | _ \<Rightarrow> False)"

definition open_identity :: "jsval \<Rightarrow> nat \<Rightarrow> bool \<Rightarrow> jsval option" where
  "open_identity value maximum encode =
     (if encode then
        (case value of Buf b \<Rightarrow> if 1 \<le> length b \<and> length b \<le> maximum then Some (Str (b64url b)) else None
         | _ \<Rightarrow> None)
      else case value of
        Str s \<Rightarrow> if 87382 < length s \<or> \<not> b64_text s then None
          else let bytes = b64url_decode s in
            if 1 \<le> length bytes \<and> length bytes \<le> maximum \<and> b64url bytes = s then Some (Buf bytes) else None
      | _ \<Rightarrow> None)"

definition open_quantity :: "jsval \<Rightarrow> nat \<Rightarrow> nat option \<Rightarrow> bool \<Rightarrow> jsval option" where
  "open_quantity value minimum maximum encode =
     (case (if encode then bigint_of value
            else case value of Str s \<Rightarrow> if canonical_decimal s then Some (int (decimal_value s)) else None
              | _ \<Rightarrow> None) of
        None \<Rightarrow> None
      | Some integer \<Rightarrow>
          if (\<not> encode \<and> Str (int_text integer) \<noteq> value) \<or> integer < int minimum \<or>
             (case maximum of None \<Rightarrow> False | Some m \<Rightarrow> int m < integer) then None
          else Some (if encode then Str (int_text integer) else BigInt integer))"

text \<open>
  \<open>same(left, right, encode)\<close> compares two texts or two buffers by content, which is
  equality here.  The loop over the choices keeps the pairs pushed so far.
\<close>

definition ordered_id :: "nat \<Rightarrow> bytes" where
  "ordered_id n = utf8 (lit ''choice-'' @ dec n)"

fun open_choices :: "jsval \<Rightarrow> bool \<Rightarrow> jsval list \<Rightarrow> (jsval \<times> jsval) list \<Rightarrow> (jsval \<times> jsval) list option" where
  "open_choices producer encode [] choices = Some choices"
| "open_choices producer encode (choice # rest) choices =
     (if \<not> open_closed choice [''id'', ''label''] \<or> \<not> open_text (mem choice ''label'') 256 then None
      else case open_identity (mem choice ''id'') 64 encode of
        None \<Rightarrow> None
      | Some ident \<Rightarrow>
          if list_ex (\<lambda>(pid, plabel). pid = ident) choices then None
          else let ordered = ordered_id (length choices + 1) in
            if producer = js ''model_tool'' \<and>
               (ident \<noteq> (if encode then Str (b64url ordered) else Buf ordered) \<or>
                list_ex (\<lambda>(pid, plabel). plabel = mem choice ''label'') choices) then None
            else open_choices producer encode rest (choices @ [(ident, mem choice ''label'')]))"

definition choice_obj :: "jsval \<times> jsval \<Rightarrow> jsval" where
  "choice_obj = (\<lambda>(ident, label). obj [(''id'', ident), (''label'', label)])"

definition open_header :: "jsval \<Rightarrow> bool" where
  "open_header value \<longleftrightarrow> open_plain value \<and>
     (let answered = (mem value ''status'' = js ''answered'') in
      open_closed value (if answered then open_answer_keys else open_keys) \<and>
      (if answered then mem value ''producer'' = js ''policy_defer'' \<and> mem value ''kind'' = js ''choice''
       else mem value ''status'' = js ''pending'') \<and>
      one_of (mem value ''producer'') [''model_tool'', ''policy_defer''] \<and>
      one_of (mem value ''kind'') [''choice'', ''text''] \<and>
      open_text (mem value ''prompt'') 2048 \<and> open_dense (mem value ''choices'') 8)"

definition open_answer :: "jsval \<Rightarrow> bool \<Rightarrow> (jsval \<times> jsval) list \<Rightarrow> jsval \<Rightarrow> jsval option" where
  "open_answer value encode choices result = do {
     choice \<leftarrow> open_identity (mem value ''answer_choice_id'') 64 encode;
     command \<leftarrow> open_identity (mem value ''answer_command_id'') 65536 encode;
     if \<not> list_ex (\<lambda>(offered, label). offered = choice) choices then None
     else Some (with_members result [(''answer_choice_id'', choice), (''answer_command_id'', command)])
   }"

text \<open>The kind against the choices, the rewritten members, and the answer when there is one\<close>

definition open_finish :: "jsval \<Rightarrow> bool \<Rightarrow> jsval \<Rightarrow> jsval \<Rightarrow> jsval \<Rightarrow> (jsval \<times> jsval) list \<Rightarrow> jsval option" where
  "open_finish value encode result turn expires choices =
     (if (if mem value ''kind'' = js ''text'' then mem value ''producer'' \<noteq> js ''model_tool'' \<or> choices \<noteq> []
          else choices = []) then None
      else let result = with_members result [(''turn'', turn), (''expires_at'', expires),
          (''choices'', arr (map choice_obj choices))] in
        if mem value ''status'' = js ''answered'' then open_answer value encode choices result
        else Some result)"

definition open_project :: "jsval \<Rightarrow> bool \<Rightarrow> jsval option" where
  "open_project value encode =
     (if \<not> open_header value then None
      else do {
        result \<leftarrow> read_loop (\<lambda>key member. open_identity member 65536 encode) value
          [''interaction_id'', ''run_id'', ''tool_call_id''] (spread value);
        turn \<leftarrow> open_quantity (mem value ''turn'') 1 None encode;
        expires \<leftarrow> open_quantity (mem value ''expires_at'') 0 (Some u64) encode;
        choices \<leftarrow> open_choices (mem value ''producer'') encode (elements (mem value ''choices'')) [];
        open_finish value encode result turn expires choices
      })"

definition decodeOpenInteraction :: "jsval \<Rightarrow> jsval option" where
  "decodeOpenInteraction value = open_project value False"

definition encodeOpenInteraction :: "jsval \<Rightarrow> jsval option" where
  "encodeOpenInteraction value = open_project value True"

definition admitted :: "jsval \<Rightarrow> bool \<Rightarrow> jsval option" where
  "admitted value encode =
     (if \<not> open_closed value open_event_keys \<or> mem value ''producer'' \<noteq> js ''policy_defer'' \<or>
         mem value ''interaction_kind'' \<noteq> js ''choice'' \<or> mem value ''status'' \<noteq> js ''answered'' then None
      else do {
        turn \<leftarrow> open_quantity (mem value ''turn'') 1 None encode;
        read_loop (\<lambda>key member. open_identity member (if key = ''answer_choice_id'' then 64 else 65536) encode) value
          [''interaction_id'', ''run_id'', ''tool_call_id'', ''answer_choice_id'', ''answer_command_id'']
          (setm ''turn'' turn (spread value))
      })"

definition decodeAnswerAdmitted :: "jsval \<Rightarrow> jsval option" where
  "decodeAnswerAdmitted value = admitted value False"

definition encodeAnswerAdmitted :: "jsval \<Rightarrow> jsval option" where
  "encodeAnswerAdmitted value = admitted value True"

section \<open>Typed view\<close>

text \<open>The two spellings of an identity and of a quantity: native on the encoder's side.\<close>

definition id_at :: "bool \<Rightarrow> bytes \<Rightarrow> jsval" where
  "id_at native b = (if native then Buf b else wire_id b)"

definition nat_at :: "bool \<Rightarrow> nat \<Rightarrow> jsval" where
  "nat_at native n = (if native then big n else wire_nat n)"

record interaction =
  in_id :: bytes
  in_run :: bytes
  in_turn :: nat
  in_call :: bytes
  in_prompt :: ustring
  in_choices :: "(bytes \<times> ustring) list"
  in_expires :: nat
  in_model :: bool
  in_text :: bool
  in_answer :: "(bytes \<times> bytes) option"

text \<open>What the choices already accepted allow of the next one\<close>

fun choices_ok :: "bool \<Rightarrow> (bytes \<times> ustring) list \<Rightarrow> (bytes \<times> ustring) list \<Rightarrow> bool" where
  "choices_ok model seen [] = True"
| "choices_ok model seen ((b, l) # cs) \<longleftrightarrow> id_ok 64 b \<and> text_within 1 256 (Str l) \<and> b \<notin> fst ` set seen \<and>
     (model \<longrightarrow> b = ordered_id (length seen + 1) \<and> l \<notin> snd ` set seen) \<and> choices_ok model (seen @ [(b, l)]) cs"

definition interaction_ok :: "interaction \<Rightarrow> bool" where
  "interaction_ok x \<longleftrightarrow> id_ok 65536 (in_id x) \<and> id_ok 65536 (in_run x) \<and> id_ok 65536 (in_call x) \<and>
     1 \<le> in_turn x \<and> in_expires x \<le> u64 \<and> text_within 1 2048 (Str (in_prompt x)) \<and>
     length (in_choices x) \<le> 8 \<and> choices_ok (in_model x) [] (in_choices x) \<and>
     (if in_text x then in_model x \<and> in_choices x = [] else in_choices x \<noteq> []) \<and>
     (\<forall>c cmd. in_answer x = Some (c, cmd) \<longrightarrow>
        \<not> in_model x \<and> \<not> in_text x \<and> c \<in> fst ` set (in_choices x) \<and> id_ok 64 c \<and> id_ok 65536 cmd)"

definition spells_choice :: "bool \<Rightarrow> bytes \<times> ustring \<Rightarrow> jsval \<Rightarrow> bool" where
  "spells_choice native c v \<longleftrightarrow> closedPlain v [''id'', ''label''] \<and> mem v ''id'' = id_at native (fst c) \<and>
     mem v ''label'' = Str (snd c)"

definition choice_at :: "bool \<Rightarrow> bytes \<times> ustring \<Rightarrow> jsval" where
  "choice_at native c = obj [(''id'', id_at native (fst c)), (''label'', Str (snd c))]"

definition interaction_keys :: "interaction \<Rightarrow> string list" where
  "interaction_keys x = (if in_answer x = None then open_keys else open_answer_keys)"

text \<open>The members a codec rewrites, and all that an object has to have\<close>

fun answer_at :: "bool \<Rightarrow> (bytes \<times> bytes) option \<Rightarrow> (string \<times> jsval) list" where
  "answer_at native None = []"
| "answer_at native (Some (c, cmd)) = [(''answer_choice_id'', id_at native c), (''answer_command_id'', id_at native cmd)]"

definition interaction_members :: "bool \<Rightarrow> interaction \<Rightarrow> (string \<times> jsval) list" where
  "interaction_members native x =
     [(''interaction_id'', id_at native (in_id x)), (''run_id'', id_at native (in_run x)),
      (''tool_call_id'', id_at native (in_call x)), (''turn'', nat_at native (in_turn x)),
      (''expires_at'', nat_at native (in_expires x)),
      (''choices'', arr (map (choice_at native) (in_choices x)))] @ answer_at native (in_answer x)"

definition spells_interaction :: "bool \<Rightarrow> interaction \<Rightarrow> jsval \<Rightarrow> bool" where
  "spells_interaction native x v \<longleftrightarrow> closedPlain v (interaction_keys x) \<and>
     mem v ''status'' = js (if in_answer x = None then ''pending'' else ''answered'') \<and>
     mem v ''producer'' = js (if in_model x then ''model_tool'' else ''policy_defer'') \<and>
     mem v ''kind'' = js (if in_text x then ''text'' else ''choice'') \<and> mem v ''prompt'' = Str (in_prompt x) \<and>
     mem v ''interaction_id'' = id_at native (in_id x) \<and> mem v ''run_id'' = id_at native (in_run x) \<and>
     mem v ''tool_call_id'' = id_at native (in_call x) \<and> mem v ''turn'' = nat_at native (in_turn x) \<and>
     mem v ''expires_at'' = nat_at native (in_expires x) \<and>
     denseArray 8 (mem v ''choices'') \<and> list_all2 (spells_choice native) (in_choices x) (elements (mem v ''choices'')) \<and>
     (\<forall>(k, y) \<in> set (answer_at native (in_answer x)). mem v k = y)"

section \<open>Lemmas\<close>

lemma open_plain_eq [copy_eqs]: "open_plain = plainData"
  by (simp add: fun_eq_iff open_plain_def plainData_def)

lemma open_closed_eq [copy_eqs]: "open_closed = closedPlain"
  by (simp add: fun_eq_iff open_closed_def closedPlain_def copy_eqs)

lemma open_dense_eq [copy_eqs]: "open_dense v n = denseArray n v"
  by (simp add: open_dense_def denseArray_def)

lemma open_text_eq [copy_eqs]: "open_text v n = text_within 1 n v"
  by (auto simp: open_text_def text_within_def split: jsval.split)

lemma id_at_inject [simp]: "id_at n a = id_at n b \<longleftrightarrow> a = b"
  by (simp add: id_at_def)

lemma nat_at_inject [simp]: "nat_at n a = nat_at n b \<longleftrightarrow> a = b"
  by (simp add: nat_at_def)

lemma open_identity_iff:
  assumes "m \<le> 65536"
  shows "open_identity v m e = Some x \<longleftrightarrow> (\<exists>b. id_ok m b \<and> v = id_at e b \<and> x = id_at (\<not> e) b)"
proof (cases e)
  case True
  then show ?thesis by (cases v) (auto simp: open_identity_def id_at_def id_ok_def)
next
  case False
  have g: "(4 * m + 2) div 3 \<le> 87382" using assms by auto
  have "open_identity v m False = map_option Buf (identity_within m v)"
    using identity_copy_bind [OF g, where v = v and f = "\<lambda>b. Some (Buf b)"]
    by (cases "identity_within m v") (simp_all add: open_identity_def)
  with False show ?thesis by (auto simp: identity_within_iff id_at_def)
qed

lemma open_quantity_encode:
  "open_quantity v lo hi True = Some x \<longleftrightarrow> (\<exists>n. nat_ok lo hi n \<and> v = big n \<and> x = wire_nat n)"
proof (cases v)
  case (BigInt i)
  show ?thesis
  proof (cases "i < 0")
    case False
    then obtain n where "i = int n" by (metis nonneg_int_cases not_le)
    with BigInt show ?thesis by (auto simp: open_quantity_def nat_ok_def split: option.splits)
  qed (use BigInt in \<open>auto simp: open_quantity_def\<close>)
qed (auto simp: open_quantity_def)

lemma open_quantity_decode:
  "open_quantity v lo hi False = Some x \<longleftrightarrow> (\<exists>n. nat_ok lo hi n \<and> v = wire_nat n \<and> x = big n)"
proof (cases v)
  case (Str s)
  show ?thesis
  proof (cases "canonical_decimal s")
    case True
    then show ?thesis using Str
      by (auto simp: open_quantity_def nat_ok_def dec_decimal_value split: option.splits)
  qed (use Str in \<open>auto simp: open_quantity_def\<close>)
qed (auto simp: open_quantity_def)

lemma open_quantity_iff:
  "open_quantity v lo hi e = Some x \<longleftrightarrow> (\<exists>n. nat_ok lo hi n \<and> v = nat_at e n \<and> x = nat_at (\<not> e) n)"
  by (cases e) (simp_all add: open_quantity_encode open_quantity_decode nat_at_def)

definition pair_at :: "bool \<Rightarrow> bytes \<times> ustring \<Rightarrow> jsval \<times> jsval" where
  "pair_at native c = (id_at native (fst c), Str (snd c))"

lemma choice_obj_pair: "choice_obj (pair_at n c) = choice_at n c"
  by (simp add: choice_obj_def pair_at_def choice_at_def)

lemma open_choices_iff:
  assumes "p = js (if model then ''model_tool'' else ''policy_defer'')"
  shows "open_choices p e xs (map (pair_at (\<not> e)) seen) = Some r \<longleftrightarrow>
    (\<exists>cs. list_all2 (spells_choice e) cs xs \<and> choices_ok model seen cs \<and> r = map (pair_at (\<not> e)) (seen @ cs))"
proof (induction xs arbitrary: seen)
  case (Cons x xs)
  have seen_id: "list_ex (\<lambda>(pid, pl). pid = id_at (\<not> e) b) (map (pair_at (\<not> e)) seen) \<longleftrightarrow> b \<in> fst ` set seen" for b
    by (auto simp: list_ex_iff pair_at_def image_iff)
  have seen_label: "list_ex (\<lambda>(pid, pl). pl = Str l) (map (pair_at (\<not> e)) seen) \<longleftrightarrow> l \<in> snd ` set seen" for l
    by (force simp: list_ex_iff pair_at_def image_iff)
  have ord: "(if e then Str (b64url q) else Buf q) = id_at (\<not> e) q" for q by (simp add: id_at_def)
  have step: "open_choices p e (x # xs) (map (pair_at (\<not> e)) seen) = Some r \<longleftrightarrow>
    (\<exists>b l. spells_choice e (b, l) x \<and> id_ok 64 b \<and> text_within 1 256 (Str l) \<and> b \<notin> fst ` set seen \<and>
      (model \<longrightarrow> b = ordered_id (length seen + 1) \<and> l \<notin> snd ` set seen) \<and>
      open_choices p e xs (map (pair_at (\<not> e)) (seen @ [(b, l)])) = Some r)" (is "?l \<longleftrightarrow> ?r")
  proof (cases "closedPlain x [''id'', ''label''] \<and> text_within 1 256 (mem x ''label'') \<and>
      (\<exists>b. id_ok 64 b \<and> mem x ''id'' = id_at e b)")
    case True
    then obtain b l where b: "closedPlain x [''id'', ''label'']" "id_ok 64 b" "mem x ''id'' = id_at e b"
      "mem x ''label'' = Str l" "text_within 1 256 (Str l)" using text_within_Str by metis
    then have "open_identity (mem x ''id'') 64 e = Some (id_at (\<not> e) b)" by (auto simp: open_identity_iff)
    with b have "?l \<longleftrightarrow> b \<notin> fst ` set seen \<and> (model \<longrightarrow> b = ordered_id (length seen + 1) \<and> l \<notin> snd ` set seen) \<and>
      open_choices p e xs (map (pair_at (\<not> e)) (seen @ [(b, l)])) = Some r"
      using assms by (simp add: copy_eqs seen_id seen_label ord pair_at_def Let_def)
    with b show ?thesis by (auto simp: spells_choice_def)
  next
    case False
    then have "\<not> ?r" by (auto simp: spells_choice_def)
    moreover have "\<not> ?l" using False by (auto simp: copy_eqs open_identity_iff split: option.splits if_splits)
    ultimately show ?thesis by blast
  qed
  have cons: "(\<exists>cs. list_all2 (spells_choice e) cs (x # xs) \<and> Q cs) \<longleftrightarrow>
    (\<exists>b l cs. spells_choice e (b, l) x \<and> list_all2 (spells_choice e) cs xs \<and> Q ((b, l) # cs))" for Q
    by (force simp: list_all2_Cons2)
  show ?case unfolding step Cons.IH cons by (simp only: choices_ok.simps append_Cons append_Nil append_assoc) blast
qed auto

lemma open_header_iff:
  "open_header v \<longleftrightarrow> (\<exists>x. closedPlain v (interaction_keys x) \<and>
     mem v ''status'' = js (if in_answer x = None then ''pending'' else ''answered'') \<and>
     mem v ''producer'' = js (if in_model x then ''model_tool'' else ''policy_defer'') \<and>
     mem v ''kind'' = js (if in_text x then ''text'' else ''choice'') \<and>
     (in_answer x \<noteq> None \<longrightarrow> \<not> in_model x \<and> \<not> in_text x) \<and>
     mem v ''prompt'' = Str (in_prompt x) \<and> text_within 1 2048 (Str (in_prompt x)) \<and> denseArray 8 (mem v ''choices''))"
  (is "_ \<longleftrightarrow> (\<exists>x. ?P x)")
proof
  assume h: "open_header v"
  then have "text_within 1 2048 (mem v ''prompt'')" by (simp add: open_header_def copy_eqs Let_def)
  then obtain s where s: "mem v ''prompt'' = Str s" using text_within_Str by blast
  let ?x = "undefined\<lparr>in_answer := if mem v ''status'' = js ''answered'' then Some undefined else None,
    in_model := (mem v ''producer'' = js ''model_tool''), in_text := (mem v ''kind'' = js ''text''), in_prompt := s\<rparr>"
  have "?P ?x"
    using h s by (auto simp: open_header_def copy_eqs Let_def interaction_keys_def one_of_def split: if_splits)
  then show "\<exists>x. ?P x" by blast
next
  assume "\<exists>x. ?P x"
  then obtain x where x: "?P x" by blast
  then have "plainData v" using closedPlain_plain by blast
  with x show "open_header v"
    by (auto simp: open_header_def copy_eqs Let_def interaction_keys_def split: if_splits)
qed

lemma identity_loop:
  "read_loop (\<lambda>key member. open_identity member 65536 e) v [''interaction_id'', ''run_id'', ''tool_call_id''] w = Some r \<longleftrightarrow>
     (\<exists>a b c. id_ok 65536 a \<and> id_ok 65536 b \<and> id_ok 65536 c \<and> mem v ''interaction_id'' = id_at e a \<and>
       mem v ''run_id'' = id_at e b \<and> mem v ''tool_call_id'' = id_at e c \<and>
       r = with_members w [(''interaction_id'', id_at (\<not> e) a), (''run_id'', id_at (\<not> e) b), (''tool_call_id'', id_at (\<not> e) c)])"
  by (auto simp: read_loop_iff list_all2_Cons1 open_identity_iff)

lemma open_answer_iff:
  "open_answer v e (map (pair_at (\<not> e)) cs) w = Some r \<longleftrightarrow> (\<exists>c cmd. id_ok 64 c \<and> id_ok 65536 cmd \<and> c \<in> fst ` set cs \<and>
     mem v ''answer_choice_id'' = id_at e c \<and> mem v ''answer_command_id'' = id_at e cmd \<and>
     r = with_members w [(''answer_choice_id'', id_at (\<not> e) c), (''answer_command_id'', id_at (\<not> e) cmd)])"
proof -
  have "list_ex (\<lambda>(pid, pl). pid = id_at (\<not> e) b) (map (pair_at (\<not> e)) cs) \<longleftrightarrow> b \<in> fst ` set cs" for b
    by (auto simp: list_ex_iff pair_at_def image_iff)
  then show ?thesis
    by (auto simp: open_answer_def bind_eq_Some_conv open_identity_iff)
qed

definition answered_by :: "jsval \<Rightarrow> bool \<Rightarrow> (bytes \<times> ustring) list \<Rightarrow> (bytes \<times> bytes) option \<Rightarrow> bool" where
  "answered_by v e cs ans \<longleftrightarrow> (ans \<noteq> None \<longleftrightarrow> mem v ''status'' = js ''answered'') \<and>
     (\<forall>c cmd. ans = Some (c, cmd) \<longrightarrow> id_ok 64 c \<and> id_ok 65536 cmd \<and> c \<in> fst ` set cs) \<and>
     (\<forall>(k, y) \<in> set (answer_at e ans). mem v k = y)"

lemma open_finish_iff:
  assumes "mem v ''producer'' = js (if model then ''model_tool'' else ''policy_defer'')"
  shows "open_finish v e w t x (map (pair_at (\<not> e)) cs) = Some r \<longleftrightarrow>
    (if mem v ''kind'' = js ''text'' then model \<and> cs = [] else cs \<noteq> []) \<and>
    (\<exists>ans. answered_by v e cs ans \<and>
      r = with_members w ([(''turn'', t), (''expires_at'', x), (''choices'', arr (map (choice_at (\<not> e)) cs))] @ answer_at (\<not> e) ans))"
proof -
  have objs: "map choice_obj (map (pair_at n) cs) = map (choice_at n) cs" for n
    by (simp add: choice_obj_pair)
  let ?w = "with_members w [(''turn'', t), (''expires_at'', x), (''choices'', arr (map (choice_at (\<not> e)) cs))]"
  have "(if mem v ''status'' = js ''answered'' then open_answer v e (map (pair_at (\<not> e)) cs) ?w else Some ?w) = Some r \<longleftrightarrow>
    (\<exists>ans. answered_by v e cs ans \<and> r = with_members ?w (answer_at (\<not> e) ans))"
    unfolding split_option_ex split_paired_Ex answered_by_def by (auto simp: open_answer_iff)
  moreover have "mem v ''producer'' \<noteq> js ''model_tool'' \<longleftrightarrow> \<not> model" using assms by simp
  ultimately show ?thesis
    unfolding open_finish_def objs Let_def with_members_append
    by (cases "mem v ''kind'' = js ''text''"; cases model; cases "cs = []") simp_all
qed

text \<open>What the body reads once the header is accepted\<close>

lemma open_body_iff:
  assumes "open_header v" "mem v ''producer'' = js (if model then ''model_tool'' else ''policy_defer'')"
  shows "open_project v e = Some r \<longleftrightarrow> (\<exists>a b c t x cs. id_ok 65536 a \<and> id_ok 65536 b \<and> id_ok 65536 c \<and>
    mem v ''interaction_id'' = id_at e a \<and> mem v ''run_id'' = id_at e b \<and> mem v ''tool_call_id'' = id_at e c \<and>
    1 \<le> t \<and> mem v ''turn'' = nat_at e t \<and> x \<le> u64 \<and> mem v ''expires_at'' = nat_at e x \<and>
    list_all2 (spells_choice e) cs (elements (mem v ''choices'')) \<and> choices_ok model [] cs \<and>
    open_finish v e (with_members (spread v) [(''interaction_id'', id_at (\<not> e) a), (''run_id'', id_at (\<not> e) b),
       (''tool_call_id'', id_at (\<not> e) c)]) (nat_at (\<not> e) t) (nat_at (\<not> e) x) (map (pair_at (\<not> e)) cs) = Some r)"
proof -
  have choices: "open_choices (mem v ''producer'') e xs [] = Some r \<longleftrightarrow>
    (\<exists>cs. list_all2 (spells_choice e) cs xs \<and> choices_ok model [] cs \<and> r = map (pair_at (\<not> e)) cs)" for xs r
    using open_choices_iff [OF assms(2), of e xs "[]" r] by simp
  have "open_project v e = Some r \<longleftrightarrow> (\<exists>w tv xv cv.
    read_loop (\<lambda>key member. open_identity member 65536 e) v [''interaction_id'', ''run_id'', ''tool_call_id''] (spread v) = Some w \<and>
    open_quantity (mem v ''turn'') 1 None e = Some tv \<and> open_quantity (mem v ''expires_at'') 0 (Some u64) e = Some xv \<and>
    open_choices (mem v ''producer'') e (elements (mem v ''choices'')) [] = Some cv \<and>
    open_finish v e w tv xv cv = Some r)"
    unfolding open_project_def using assms(1) by (simp add: bind_eq_Some_conv)
  also have "\<dots> \<longleftrightarrow> (\<exists>a b c t x cs. id_ok 65536 a \<and> id_ok 65536 b \<and> id_ok 65536 c \<and>
    mem v ''interaction_id'' = id_at e a \<and> mem v ''run_id'' = id_at e b \<and> mem v ''tool_call_id'' = id_at e c \<and>
    nat_ok 1 None t \<and> mem v ''turn'' = nat_at e t \<and> nat_ok 0 (Some u64) x \<and> mem v ''expires_at'' = nat_at e x \<and>
    list_all2 (spells_choice e) cs (elements (mem v ''choices'')) \<and> choices_ok model [] cs \<and>
    open_finish v e (with_members (spread v) [(''interaction_id'', id_at (\<not> e) a), (''run_id'', id_at (\<not> e) b),
       (''tool_call_id'', id_at (\<not> e) c)]) (nat_at (\<not> e) t) (nat_at (\<not> e) x) (map (pair_at (\<not> e)) cs) = Some r)"
    unfolding identity_loop open_quantity_iff choices by blast
  finally show ?thesis by (simp add: nat_ok_def)
qed

lemma open_project_sound:
  assumes "open_project v e = Some r"
  shows "\<exists>x. interaction_ok x \<and> spells_interaction e x v \<and> r = with_members v (interaction_members (\<not> e) x)"
proof -
  from assms have h: "open_header v" by (simp add: open_project_def split: if_splits)
  then obtain y where y: "closedPlain v (interaction_keys y)"
     "mem v ''status'' = js (if in_answer y = None then ''pending'' else ''answered'')"
     "mem v ''producer'' = js (if in_model y then ''model_tool'' else ''policy_defer'')"
     "mem v ''kind'' = js (if in_text y then ''text'' else ''choice'')"
     "in_answer y \<noteq> None \<longrightarrow> \<not> in_model y \<and> \<not> in_text y"
     "mem v ''prompt'' = Str (in_prompt y)" "text_within 1 2048 (Str (in_prompt y))" "denseArray 8 (mem v ''choices'')"
    unfolding open_header_iff by blast
  from assms obtain a b c t x cs where i: "id_ok 65536 a" "id_ok 65536 b" "id_ok 65536 c"
    "mem v ''interaction_id'' = id_at e a" "mem v ''run_id'' = id_at e b" "mem v ''tool_call_id'' = id_at e c"
    "1 \<le> t" "mem v ''turn'' = nat_at e t" "x \<le> u64" "mem v ''expires_at'' = nat_at e x"
    "list_all2 (spells_choice e) cs (elements (mem v ''choices''))" "choices_ok (in_model y) [] cs"
    and f: "open_finish v e (with_members (spread v) [(''interaction_id'', id_at (\<not> e) a), (''run_id'', id_at (\<not> e) b),
       (''tool_call_id'', id_at (\<not> e) c)]) (nat_at (\<not> e) t) (nat_at (\<not> e) x) (map (pair_at (\<not> e)) cs) = Some r"
    unfolding open_body_iff [OF h y(3)] by blast
  from f obtain ans where ans: "answered_by v e cs ans"
    and kind: "if mem v ''kind'' = js ''text'' then in_model y \<and> cs = [] else cs \<noteq> []"
    and r: "r = with_members v ([(''interaction_id'', id_at (\<not> e) a), (''run_id'', id_at (\<not> e) b), (''tool_call_id'', id_at (\<not> e) c)] @
      [(''turn'', nat_at (\<not> e) t), (''expires_at'', nat_at (\<not> e) x), (''choices'', arr (map (choice_at (\<not> e)) cs))] @
      answer_at (\<not> e) ans)"
    unfolding open_finish_iff [OF y(3)] with_members_append [symmetric] spread_closedPlain [OF y(1)] by blast
  have len: "length cs \<le> 8" using i(11) y(8) by (auto simp: denseArray_def dest: list_all2_lengthD)
  have some: "ans = None \<longleftrightarrow> in_answer y = None" using ans y(2) unfolding answered_by_def by (cases ans; cases "in_answer y") simp_all
  let ?x = "\<lparr>in_id = a, in_run = b, in_turn = t, in_call = c, in_prompt = in_prompt y, in_choices = cs, in_expires = x,
    in_model = in_model y, in_text = in_text y, in_answer = ans\<rparr>"
  have "interaction_ok ?x"
    using i(1-3,7,9,12) y(4,5,7) kind len ans some unfolding interaction_ok_def answered_by_def by (auto split: if_splits)
  moreover have "spells_interaction e ?x v"
    using i y(1-4,6,8) ans some by (auto simp: spells_interaction_def interaction_keys_def answered_by_def)
  moreover have "r = with_members v (interaction_members (\<not> e) ?x)"
    using r by (simp add: interaction_members_def)
  ultimately show ?thesis by blast
qed

lemma open_project_complete:
  assumes x: "interaction_ok x" "spells_interaction e x v"
  shows "open_project v e = Some (with_members v (interaction_members (\<not> e) x))"
proof -
  have c: "closedPlain v (interaction_keys x)"
    and p: "mem v ''producer'' = js (if in_model x then ''model_tool'' else ''policy_defer'')"
    using x(2) by (simp_all add: spells_interaction_def)
  have h: "open_header v" unfolding open_header_iff using x
    by (intro exI [of _ x]) (auto simp: spells_interaction_def interaction_ok_def)
  have ans: "answered_by v e (in_choices x) (in_answer x)"
    using x by (auto simp: answered_by_def spells_interaction_def interaction_ok_def)
  have kind: "if mem v ''kind'' = js ''text'' then in_model x \<and> in_choices x = [] else in_choices x \<noteq> []"
    using x by (auto simp: spells_interaction_def interaction_ok_def split: if_splits)
  have f: "open_finish v e (with_members (spread v) [(''interaction_id'', id_at (\<not> e) (in_id x)), (''run_id'', id_at (\<not> e) (in_run x)),
       (''tool_call_id'', id_at (\<not> e) (in_call x))]) (nat_at (\<not> e) (in_turn x)) (nat_at (\<not> e) (in_expires x))
       (map (pair_at (\<not> e)) (in_choices x)) = Some (with_members v (interaction_members (\<not> e) x))"
    unfolding open_finish_iff [OF p] with_members_append [symmetric] spread_closedPlain [OF c]
    using ans kind by (intro conjI exI [of _ "in_answer x"]) (simp_all add: interaction_members_def)
  show ?thesis
    unfolding open_body_iff [OF h p]
    using x f by (intro exI conjI) (auto simp: spells_interaction_def interaction_ok_def)
qed

lemma open_project_iff:
  "open_project v e = Some r \<longleftrightarrow> (\<exists>x. interaction_ok x \<and> spells_interaction e x v \<and>
     r = with_members v (interaction_members (\<not> e) x))"
  using open_project_sound open_project_complete by blast

section \<open>Round trips\<close>

text \<open>A round trip rebuilds each choice with its identity first; nothing else moves.\<close>

definition open_norm :: "jsval \<Rightarrow> jsval" where
  "open_norm v = setm ''choices'' (arr (map (\<lambda>x. obj [(''id'', mem x ''id''), (''label'', mem x ''label'')])
     (elements (mem v ''choices'')))) v"

lemma interaction_keys_distinct: "distinct (interaction_keys x)"
  by (simp add: interaction_keys_def open_keys_def open_answer_keys_def)

lemma answer_at_keys:
  "map fst (answer_at n a) = (if a = None then [] else [''answer_choice_id'', ''answer_command_id''])"
  by (cases "(n, a)" rule: answer_at.cases) simp_all

lemma interaction_member_names:
  "map fst (interaction_members n x) = [''interaction_id'', ''run_id'', ''tool_call_id'', ''turn'', ''expires_at'', ''choices''] @
     (if in_answer x = None then [] else [''answer_choice_id'', ''answer_command_id''])"
  by (simp add: interaction_members_def answer_at_keys)

lemma interaction_members_keys: "fst ` set (interaction_members n x) \<subseteq> set (interaction_keys x)"
  unfolding list.set_map [symmetric] interaction_member_names
  by (simp add: interaction_keys_def open_keys_def open_answer_keys_def)

lemma interaction_members_distinct: "distinct (map fst (interaction_members n x))"
  unfolding interaction_member_names by simp

lemma mem_interaction:
  assumes "spells_interaction e x v"
  shows "mem (with_members v (interaction_members n x)) k =
    (case map_of (interaction_members n x) k of Some y \<Rightarrow> y | None \<Rightarrow> mem v k)"
proof -
  have "closedPlain v (interaction_keys x)" using assms by (simp add: spells_interaction_def)
  from mem_with_closed [OF this] show ?thesis by (simp add: map_of_rev_keys [OF interaction_members_distinct])
qed

lemma interaction_untouched:
  "map_of (interaction_members n x) ''status'' = None" "map_of (interaction_members n x) ''producer'' = None"
  "map_of (interaction_members n x) ''kind'' = None" "map_of (interaction_members n x) ''prompt'' = None"
  unfolding map_of_eq_None_iff list.set_map [symmetric] interaction_member_names by simp_all

lemma interaction_rewritten:
  "map_of (interaction_members n x) ''interaction_id'' = Some (id_at n (in_id x))"
  "map_of (interaction_members n x) ''run_id'' = Some (id_at n (in_run x))"
  "map_of (interaction_members n x) ''tool_call_id'' = Some (id_at n (in_call x))"
  "map_of (interaction_members n x) ''turn'' = Some (nat_at n (in_turn x))"
  "map_of (interaction_members n x) ''expires_at'' = Some (nat_at n (in_expires x))"
  "map_of (interaction_members n x) ''choices'' = Some (arr (map (choice_at n) (in_choices x)))"
  by (simp_all add: interaction_members_def)

lemma answer_members_of:
  "(k, y) \<in> set (answer_at n (in_answer x)) \<Longrightarrow> map_of (interaction_members n x) k = Some y"
  by (rule map_of_is_SomeI [OF interaction_members_distinct]) (simp add: interaction_members_def)

lemma spells_choices_at: "list_all2 (spells_choice n) cs (map (choice_at n) cs)"
  by (simp add: list_all2_conv_all_nth spells_choice_def choice_at_def member_simps)

lemma spells_converted:
  assumes "interaction_ok x" "spells_interaction e x v"
  shows "spells_interaction n x (with_members v (interaction_members n x))"
proof -
  have c: "closedPlain (with_members v (interaction_members n x)) (interaction_keys x)"
    using closedPlain_with_members [OF _ interaction_keys_distinct interaction_members_keys] assms(2)
    by (simp add: spells_interaction_def)
  have ans: "\<forall>(k, y) \<in> set (answer_at n (in_answer x)). mem (with_members v (interaction_members n x)) k = y"
    using answer_members_of [of _ _ n x] by (auto simp: mem_interaction [OF assms(2)])
  have l: "length (in_choices x) \<le> 8" using assms(1) by (simp add: interaction_ok_def)
  show ?thesis
    using assms(2) c ans l spells_choices_at [of n "in_choices x"]
    by (simp add: spells_interaction_def mem_interaction [OF assms(2)] interaction_untouched interaction_rewritten member_simps)
qed

lemma spelled_choices_norm:
  "list_all2 (spells_choice e) cs xs \<Longrightarrow>
     map (\<lambda>x. obj [(''id'', mem x ''id''), (''label'', mem x ''label'')]) xs = map (choice_at e) cs"
  by (induction rule: list_all2_induct) (simp_all add: spells_choice_def choice_at_def)

lemma open_norm_spelled:
  assumes "spells_interaction e x v"
  shows "with_members v (interaction_members e x) = open_norm v"
proof (rule closedPlain_ext [OF _ _ interaction_keys_distinct [of x]])
  have c: "closedPlain v (interaction_keys x)" using assms by (simp add: spells_interaction_def)
  have k: "''choices'' \<in> set (interaction_keys x)" by (simp add: interaction_keys_def open_keys_def open_answer_keys_def)
  note w = closedPlain_with_members [OF c interaction_keys_distinct interaction_members_keys [of e x]]
  note s = closedPlain_setm [OF c interaction_keys_distinct k]
  show "closedPlain (with_members v (interaction_members e x)) (interaction_keys x)"
    and "closedPlain (open_norm v) (interaction_keys x)"
    and "ownKeys (with_members v (interaction_members e x)) = ownKeys (open_norm v)"
    using w s by (simp_all add: open_norm_def)
  have n: "map (\<lambda>x. obj [(''id'', mem x ''id''), (''label'', mem x ''label'')]) (elements (mem v ''choices'')) =
    map (choice_at e) (in_choices x)" using assms spelled_choices_norm by (simp add: spells_interaction_def)
  have norm: "mem (open_norm v) j = (if j = ''choices'' then arr (map (choice_at e) (in_choices x)) else mem v j)" for j
    using mem_with_closed [OF c, of "[(''choices'', arr (map (choice_at e) (in_choices x)))]" j]
    by (auto simp: open_norm_def n with_members_Cons)
  show "mem (with_members v (interaction_members e x)) j = mem (open_norm v) j" for j
  proof (cases "map_of (interaction_members e x) j")
    case (Some y)
    have "(j, y) \<in> set (interaction_members e x)" using Some by (rule map_of_SomeD)
    with assms Some show ?thesis unfolding mem_interaction [OF assms] norm
      by (auto simp: interaction_members_def spells_interaction_def)
  next
    case None
    then have "j \<noteq> ''choices''" using interaction_rewritten(6) by auto
    with None show ?thesis by (simp add: mem_interaction [OF assms] norm)
  qed
qed

lemma open_trip:
  assumes "open_project v e = Some w"
  shows "open_project w (\<not> e) = Some (open_norm v)"
proof -
  from assms obtain x where x: "interaction_ok x" "spells_interaction e x v" "w = with_members v (interaction_members (\<not> e) x)"
    unfolding open_project_iff by blast
  have s: "spells_interaction (\<not> e) x w" using spells_converted [OF x(1,2)] x(3) by simp
  have c: "closedPlain v (interaction_keys x)" "closedPlain w (interaction_keys x)"
    using x(2) s by (simp_all add: spells_interaction_def)
  have "with_members w (interaction_members e x) = with_members v (interaction_members e x)"
  proof (rule closedPlain_ext [OF _ _ interaction_keys_distinct [of x]])
    note w = closedPlain_with_members [OF _ interaction_keys_distinct interaction_members_keys]
    show "closedPlain (with_members w (interaction_members e x)) (interaction_keys x)"
      "closedPlain (with_members v (interaction_members e x)) (interaction_keys x)" using w c by blast+
    show "ownKeys (with_members w (interaction_members e x)) = ownKeys (with_members v (interaction_members e x))"
      using w c x(3) by metis
    have keys: "map_of (interaction_members m x) j = None \<longleftrightarrow> map_of (interaction_members n x) j = None" for m n j
      unfolding map_of_eq_None_iff list.set_map [symmetric] interaction_member_names ..
    show "mem (with_members w (interaction_members e x)) j = mem (with_members v (interaction_members e x)) j" for j
    proof (cases "map_of (interaction_members e x) j")
      case None
      then have "map_of (interaction_members (\<not> e) x) j = None" using keys by blast
      then have "mem w j = mem v j" unfolding x(3) mem_interaction [OF x(2)] by simp
      with None show ?thesis
        by (simp add: mem_interaction [OF s] mem_interaction [OF x(2)])
    qed (simp add: mem_interaction [OF s] mem_interaction [OF x(2)])
  qed
  also have "\<dots> = open_norm v" by (rule open_norm_spelled [OF x(2)])
  finally show ?thesis using open_project_complete [OF x(1) s] by simp
qed

interpretation open_codec: payload_codec encodeOpenInteraction decodeOpenInteraction open_norm "\<lambda>v. True"
  by unfold_locales (use open_trip in \<open>fastforce simp: encodeOpenInteraction_def decodeOpenInteraction_def\<close>)+

section \<open>The admitted answer\<close>

record admitted_answer =
  aa_id :: bytes
  aa_run :: bytes
  aa_turn :: nat
  aa_call :: bytes
  aa_choice :: bytes
  aa_command :: bytes

definition admitted_ok :: "admitted_answer \<Rightarrow> bool" where
  "admitted_ok a \<longleftrightarrow> id_ok 65536 (aa_id a) \<and> id_ok 65536 (aa_run a) \<and> 1 \<le> aa_turn a \<and> id_ok 65536 (aa_call a) \<and>
     id_ok 64 (aa_choice a) \<and> id_ok 65536 (aa_command a)"

definition admitted_members :: "bool \<Rightarrow> admitted_answer \<Rightarrow> (string \<times> jsval) list" where
  "admitted_members native a = [(''turn'', nat_at native (aa_turn a)), (''interaction_id'', id_at native (aa_id a)),
     (''run_id'', id_at native (aa_run a)), (''tool_call_id'', id_at native (aa_call a)),
     (''answer_choice_id'', id_at native (aa_choice a)), (''answer_command_id'', id_at native (aa_command a))]"

definition spells_admitted :: "bool \<Rightarrow> admitted_answer \<Rightarrow> jsval \<Rightarrow> bool" where
  "spells_admitted native a v \<longleftrightarrow> closedPlain v open_event_keys \<and> mem v ''producer'' = js ''policy_defer'' \<and>
     mem v ''interaction_kind'' = js ''choice'' \<and> mem v ''status'' = js ''answered'' \<and>
     (\<forall>(k, y) \<in> set (admitted_members native a). mem v k = y)"

lemma admitted_iff:
  "admitted v e = Some r \<longleftrightarrow> (\<exists>a. admitted_ok a \<and> spells_admitted e a v \<and> r = with_members v (admitted_members (\<not> e) a))"
proof
  assume "admitted v e = Some r"
  then obtain t a b c d f where h: "closedPlain v open_event_keys" "mem v ''producer'' = js ''policy_defer''"
     "mem v ''interaction_kind'' = js ''choice''" "mem v ''status'' = js ''answered''"
    and q: "1 \<le> t" "mem v ''turn'' = nat_at e t" "id_ok 65536 a" "mem v ''interaction_id'' = id_at e a"
      "id_ok 65536 b" "mem v ''run_id'' = id_at e b" "id_ok 65536 c" "mem v ''tool_call_id'' = id_at e c"
      "id_ok 64 d" "mem v ''answer_choice_id'' = id_at e d" "id_ok 65536 f" "mem v ''answer_command_id'' = id_at e f"
    and r: "r = with_members (setm ''turn'' (nat_at (\<not> e) t) (spread v)) [(''interaction_id'', id_at (\<not> e) a),
      (''run_id'', id_at (\<not> e) b), (''tool_call_id'', id_at (\<not> e) c), (''answer_choice_id'', id_at (\<not> e) d),
      (''answer_command_id'', id_at (\<not> e) f)]"
    by (auto simp: admitted_def copy_eqs bind_eq_Some_conv read_loop_iff list_all2_Cons1 open_identity_iff
        open_quantity_iff nat_ok_def split: if_splits)
  let ?a = "\<lparr>aa_id = a, aa_run = b, aa_turn = t, aa_call = c, aa_choice = d, aa_command = f\<rparr>"
  have "admitted_ok ?a" using q by (simp add: admitted_ok_def)
  moreover have "spells_admitted e ?a v" using h q by (simp add: spells_admitted_def admitted_members_def)
  moreover have "r = with_members v (admitted_members (\<not> e) ?a)"
    using r by (simp add: admitted_members_def with_members_Cons spread_closedPlain [OF h(1)])
  ultimately show "\<exists>a. admitted_ok a \<and> spells_admitted e a v \<and> r = with_members v (admitted_members (\<not> e) a)" by blast
next
  assume "\<exists>a. admitted_ok a \<and> spells_admitted e a v \<and> r = with_members v (admitted_members (\<not> e) a)"
  then obtain a where a: "admitted_ok a" "spells_admitted e a v" "r = with_members v (admitted_members (\<not> e) a)" by blast
  have i: "open_identity (id_at e b) m e = Some (id_at (\<not> e) b)" if "id_ok m b" "m \<le> 65536" for b m
    using that by (auto simp: open_identity_iff)
  have n: "open_quantity (nat_at e (aa_turn a)) 1 None e = Some (nat_at (\<not> e) (aa_turn a))"
    using a(1) by (auto simp: open_quantity_iff admitted_ok_def nat_ok_def)
  have "closedPlain v open_event_keys" using a(2) by (simp add: spells_admitted_def)
  with a i n show "admitted v e = Some r"
    by (simp add: admitted_def copy_eqs spells_admitted_def admitted_ok_def admitted_members_def read_loop.simps
        spread_closedPlain with_members_Cons)
qed

lemma spells_admitted_converted:
  assumes "spells_admitted e a v"
  shows "spells_admitted n a (with_members v (admitted_members n a))"
    and "with_members (with_members v (admitted_members n a)) (admitted_members e a) = v"
proof -
  have c: "closedPlain v open_event_keys" using assms by (simp add: spells_admitted_def)
  have d: "distinct open_event_keys" by (simp add: open_event_keys_def)
  have k: "fst ` set (admitted_members m a) \<subseteq> set open_event_keys" for m
    by (simp add: admitted_members_def open_event_keys_def)
  note w = closedPlain_with_members [OF c d k]
  note ww = closedPlain_with_members [OF conjunct1 [OF w [of n]] d k [of e]]
  show "spells_admitted n a (with_members v (admitted_members n a))"
    using assms w [of n] by (simp add: spells_admitted_def mem_with_closed [OF c] admitted_members_def)
  show "with_members (with_members v (admitted_members n a)) (admitted_members e a) = v"
  proof (rule closedPlain_ext [OF _ c d])
    show "closedPlain (with_members (with_members v (admitted_members n a)) (admitted_members e a)) open_event_keys"
      "ownKeys (with_members (with_members v (admitted_members n a)) (admitted_members e a)) = ownKeys v"
      using w [of n] ww by auto
    have c': "closedPlain (with_members v (admitted_members n a)) open_event_keys" using w by blast
    fix j assume "j \<in> set open_event_keys"
    then show "mem (with_members (with_members v (admitted_members n a)) (admitted_members e a)) j = mem v j"
      unfolding mem_with_closed [OF c'] mem_with_closed [OF c]
      using assms by (simp add: spells_admitted_def admitted_members_def)
  qed
qed

interpretation admitted_codec: payload_codec encodeAnswerAdmitted decodeAnswerAdmitted "\<lambda>v. v" "\<lambda>v. True"
proof -
  have trip: "admitted w (\<not> e) = Some v" if "admitted v e = Some w" for v w e
  proof -
    from that obtain a where a: "admitted_ok a" "spells_admitted e a v" "w = with_members v (admitted_members (\<not> e) a)"
      unfolding admitted_iff by blast
    from spells_admitted_converted [OF a(2), of "\<not> e"] a show ?thesis unfolding admitted_iff by auto
  qed
  show "payload_codec encodeAnswerAdmitted decodeAnswerAdmitted (\<lambda>v. v) (\<lambda>v. True)"
    by unfold_locales (use trip in \<open>fastforce simp: encodeAnswerAdmitted_def decodeAnswerAdmitted_def\<close>)+
qed

section \<open>Properties\<close>

text \<open>C31. An open question survives both trips between wire and native form; only the members of each choice are put in order.\<close>

theorem open_question_round_trip:
  "(encodeOpenInteraction v = Some w \<longrightarrow> decodeOpenInteraction w = Some (open_norm v)) \<and>
   (decodeOpenInteraction w = Some v \<longrightarrow> encodeOpenInteraction v = Some (open_norm w))"
  using open_codec.encode_decode open_codec.decode_encode by blast

definition sample_question :: "bool \<Rightarrow> jsval" where
  "sample_question native = obj [(''interaction_id'', id_at native [1]), (''run_id'', id_at native [2]), (''turn'', nat_at native 1),
     (''tool_call_id'', id_at native [3]), (''status'', js ''pending''), (''prompt'', js ''p''),
     (''choices'', arr [choice_at native ([4], lit ''l'')]), (''expires_at'', nat_at native 9), (''producer'', js ''policy_defer''),
     (''kind'', js ''choice'')]"

theorem open_question_round_trip_witness:
  "\<exists>w. encodeOpenInteraction (sample_question True) = Some w \<and> decodeOpenInteraction w = Some (open_norm (sample_question True))"
proof -
  let ?x = "\<lparr>in_id = [1], in_run = [2], in_turn = 1, in_call = [3], in_prompt = lit ''p'', in_choices = [([4], lit ''l'')], in_expires = 9,
    in_model = False, in_text = False, in_answer = None\<rparr>"
  have "interaction_ok ?x" by (simp add: interaction_ok_def id_ok_def text_within_def byteLength_lit)
  moreover have "spells_interaction True ?x (sample_question True)"
    by (simp add: spells_interaction_def sample_question_def interaction_keys_def open_keys_def member_simps spells_choice_def choice_at_def)
  ultimately have "\<exists>w. encodeOpenInteraction (sample_question True) = Some w"
    unfolding encodeOpenInteraction_def open_project_iff by blast
  then show ?thesis using open_question_round_trip by blast
qed

text \<open>An admitted answer survives both trips unchanged.\<close>

theorem admitted_answer_round_trip:
  "(encodeAnswerAdmitted v = Some w \<longrightarrow> decodeAnswerAdmitted w = Some v) \<and>
   (decodeAnswerAdmitted w = Some v \<longrightarrow> encodeAnswerAdmitted v = Some w)"
  using admitted_codec.encode_decode admitted_codec.decode_encode by blast

definition sample_admitted :: jsval where
  "sample_admitted = obj [(''interaction_id'', Buf [1]), (''run_id'', Buf [2]), (''turn'', BigInt 1), (''tool_call_id'', Buf [3]),
     (''producer'', js ''policy_defer''), (''interaction_kind'', js ''choice''), (''status'', js ''answered''),
     (''answer_choice_id'', Buf [4]), (''answer_command_id'', Buf [5])]"

lemma sample_admitted_encodes: "\<exists>w. encodeAnswerAdmitted sample_admitted = Some w"
proof -
  let ?a = "\<lparr>aa_id = [1], aa_run = [2], aa_turn = 1, aa_call = [3], aa_choice = [4], aa_command = [5]\<rparr>"
  have "admitted_ok ?a" by (simp add: admitted_ok_def id_ok_def)
  moreover have "spells_admitted True ?a sample_admitted"
    by (simp add: spells_admitted_def sample_admitted_def admitted_members_def open_event_keys_def member_simps id_at_def nat_at_def)
  ultimately show ?thesis unfolding encodeAnswerAdmitted_def admitted_iff by blast
qed

theorem admitted_answer_round_trip_witness:
  "\<exists>w. encodeAnswerAdmitted sample_admitted = Some w \<and> decodeAnswerAdmitted w = Some sample_admitted"
  using sample_admitted_encodes admitted_answer_round_trip by blast

end
