(* ===== verification/Inert_Objects.thy ===== *)
theory Inert_Objects
  imports Payload_Codec
begin

text \<open>
  Inert objects under assignment and deletion.  Modules that wrap another codec copy an object,
  add and delete members and read the result again; for such code the set of names and the
  members are all that matters.
\<close>

definition inertObj :: "jsval \<Rightarrow> bool" where
  "inertObj v \<longleftrightarrow> plainData v \<and> distinct (ownKeys v)"

definition names :: "jsval \<Rightarrow> string set" where
  "names v = {k. SKey (lit k) \<in> set (ownKeys v)}"

text \<open>Every own key is the name of a source literal\<close>

definition named :: "jsval \<Rightarrow> bool" where
  "named v \<longleftrightarrow> set (ownKeys v) \<subseteq> range (\<lambda>k. SKey (lit k))"

lemma plainData_Obj: "plainData v \<Longrightarrow> \<exists>ps. v = Obj ObjectProto ps"
  by (cases v) (auto simp: plainData_def)

lemma inertObj_Obj: "inertObj v \<Longrightarrow> \<exists>ps. v = Obj ObjectProto ps"
  by (simp add: inertObj_def plainData_Obj)

lemma closedPlain_iff:
  assumes "distinct ks"
  shows "closedPlain v ks \<longleftrightarrow> inertObj v \<and> named v \<and> names v = set ks"
proof
  assume c: "closedPlain v ks"
  from closedPlain_keys [OF this assms] have k: "distinct (ownKeys v)" "set (ownKeys v) = (\<lambda>k. SKey (lit k)) ` set ks" by auto
  with c show "inertObj v \<and> named v \<and> names v = set ks"
    by (auto simp: inertObj_def closedPlain_plain named_def names_def)
next
  assume h: "inertObj v \<and> named v \<and> names v = set ks"
  then have s: "set (ownKeys v) = (\<lambda>k. SKey (lit k)) ` set ks"
    unfolding named_def names_def by blast
  have "\<not> isArray v" using h inertObj_Obj by fastforce
  with closed_readings [of v ks] h s assms show "closedPlain v ks" by (auto simp: inertObj_def)
qed

lemma inert_spread: "inertObj v \<Longrightarrow> spread v = v"
proof -
  assume "inertObj v"
  then obtain ps where v: "v = Obj ObjectProto ps" and p: "plainData v"
    using inertObj_Obj inertObj_def by blast
  have "list_all (\<lambda>(k, q). string_key k \<and> is_data q \<and> enumerable q) ps" using p by (simp add: plainData_def v)
  then have "map (\<lambda>(k, p). (k, Data True (read_prop p))) (filter (\<lambda>(k, p). enumerable p) ps) = ps"
  proof (induction ps)
    case (Cons q qs)
    then show ?case by (cases q, cases "snd q") auto
  qed simp
  then show ?thesis by (simp add: spread_def v)
qed

lemma update_keys_set: "set (map fst (AList.update k x ps)) = insert k (set (map fst ps))"
  by (simp add: dom_update)

lemma inert_setm [simp]:
  assumes "inertObj v"
  shows "inertObj (setm k x v)" "names (setm k x v) = insert k (names v)"
    "named (setm k x v) = named v" "mem (setm k x v) j = (if j = k then x else mem v j)"
proof -
  obtain ps where v: "v = Obj ObjectProto ps" using assms inertObj_Obj by blast
  have d: "list_all (\<lambda>(k, q). string_key k \<and> is_data q \<and> enumerable q) ps" "distinct (map fst ps)"
    using assms by (simp_all add: inertObj_def plainData_def v ownKeys_def)
  show "inertObj (setm k x v)" using update_data [OF d(1)] distinct_update [OF d(2)]
    by (simp add: v inertObj_def plainData_def ownKeys_def)
  have s: "set (ownKeys (setm k x v)) = insert (SKey (lit k)) (set (ownKeys v))"
    by (simp add: v ownKeys_def dom_update)
  then show "names (setm k x v) = insert k (names v)" "named (setm k x v) = named v"
    by (auto simp: names_def named_def)
  show "mem (setm k x v) j = (if j = k then x else mem v j)" using mem_setm [of k x ObjectProto ps j] by (auto simp: v)
qed

lemma inert_deletem [simp]:
  assumes "inertObj v"
  shows "inertObj (deletem k v)" "names (deletem k v) = names v - {k}"
    "named v \<Longrightarrow> named (deletem k v)" "mem (deletem k v) j = (if j = k then Undefined else mem v j)"
proof -
  obtain ps where v: "v = Obj ObjectProto ps" using assms inertObj_Obj by blast
  have d: "list_all (\<lambda>(k, q). string_key k \<and> is_data q \<and> enumerable q) ps" "distinct (map fst ps)"
    using assms by (simp_all add: inertObj_def plainData_def v ownKeys_def)
  have "list_all (\<lambda>(k, q). string_key k \<and> is_data q \<and> enumerable q) (AList.delete (SKey (lit k)) ps)"
    using d(1) by (induction ps) auto
  moreover have "distinct (map fst (AList.delete (SKey (lit k)) ps))" using d(2) by (rule distinct_delete)
  ultimately show "inertObj (deletem k v)" by (simp add: v inertObj_def plainData_def ownKeys_def)
  have s: "set (ownKeys (deletem k v)) = set (ownKeys v) - {SKey (lit k)}"
    using AList.delete_keys [of "SKey (lit k)" ps] by (simp add: v ownKeys_def)
  then show "names (deletem k v) = names v - {k}" "named v \<Longrightarrow> named (deletem k v)"
    by (auto simp: names_def named_def)
  show "mem (deletem k v) j = (if j = k then Undefined else mem v j)"
    by (auto simp: v memU_def AList.delete_conv')
qed

lemma inert_with_members:
  "inertObj v \<Longrightarrow> inertObj (with_members v ms) \<and> names (with_members v ms) = fst ` set ms \<union> names v \<and>
     named (with_members v ms) = named v"
proof (induction ms arbitrary: v)
  case (Cons m ms)
  then show ?case by (cases m) (auto simp: with_members_Cons)
qed simp

lemma inert_with [simp]:
  "inertObj v \<Longrightarrow> inertObj (with_members v ms)"
  "inertObj v \<Longrightarrow> names (with_members v ms) = fst ` set ms \<union> names v"
  "inertObj v \<Longrightarrow> named (with_members v ms) = named v"
  by (simp_all add: inert_with_members)

lemma inert_with_mem [simp]:
  assumes "inertObj v"
  shows "mem (with_members v ms) k = (case map_of (rev ms) k of Some x \<Rightarrow> x | None \<Rightarrow> mem v k)"
proof -
  obtain ps where "v = Obj ObjectProto ps" using assms inertObj_Obj by blast
  then show ?thesis by (simp add: mem_with_members split: option.split)
qed

lemma inert_obj [simp]: "distinct (map fst ps) \<Longrightarrow> inertObj (obj ps)"
  by (auto simp: inertObj_def member_simps distinct_map inj_on_def case_prod_unfold)

lemma names_obj [simp]: "names (obj ps) = fst ` set ps" "named (obj ps)"
  by (force simp: names_def named_def member_simps)+

lemma closedOwn_closedPlain:
  assumes "distinct ks" "distinct (ownKeys v)"
  shows "closedOwn v ks \<longleftrightarrow> closedPlain v ks"
proof (cases "plainData v")
  case True
  then have "\<not> isArray v" using plainData_Obj by fastforce
  with closed_readings [OF True assms(2,1)] show ?thesis by simp
qed (auto simp: closedPlain_def dest: closedOwn_plain)

end
