(* ===== verification/Model_Question.thy ===== *)
theory Model_Question
  imports Open_Interaction Inert_Objects
begin

text \<open>
  \<open>clients/node/model-question-event.mjs\<close>: a model question as it is requested and as it ends.
  Both payloads wrap the open-interaction codec, which is handed the captured question without
  the members that only the event carries.
\<close>

definition mq_captures :: "string list" where
  "mq_captures = [''answer'', ''command_digest'', ''command_id'', ''disposition'', ''settlement_sequence'']"

definition mq_keys :: "string list" where
  "mq_keys = [''interaction_id'', ''run_id'', ''turn'', ''tool_call_id'', ''status'', ''prompt'', ''choices'', ''expires_at'',
     ''producer'', ''interaction_kind''] @ mq_captures"

definition mq_closed :: "jsval \<Rightarrow> string list \<Rightarrow> bool" where
  "mq_closed value required \<longleftrightarrow> isObject value \<and> plainProto value \<and>
     length (ownKeys value) = length required \<and>
     list_all (\<lambda>(k, p). string_key k \<and> k \<in> set (map (\<lambda>s. SKey (lit s)) required) \<and> is_data p \<and> enumerable p)
       (own_props value)"

definition mq_plain :: "jsval \<Rightarrow> bool" where
  "mq_plain value \<longleftrightarrow> isObject value \<and> plainProto value \<and>
     list_all (\<lambda>(k, p). string_key k \<and> is_data p \<and> enumerable p) (own_props value)"

definition mq_identity :: "jsval \<Rightarrow> nat \<Rightarrow> bool \<Rightarrow> jsval option" where
  "mq_identity value maximum encode =
     (if encode then
        (case value of Buf b \<Rightarrow> if 1 \<le> length b \<and> length b \<le> maximum then Some (Str (b64url b)) else None
         | _ \<Rightarrow> None)
      else case value of
        Str s \<Rightarrow> if 87382 < length s \<or> \<not> b64_text s then None
          else let bytes = b64url_decode s in
            if 1 \<le> length bytes \<and> length bytes \<le> maximum \<and> b64url bytes = s then Some (Buf bytes) else None
      | _ \<Rightarrow> None)"

definition settlement :: "jsval \<Rightarrow> bool \<Rightarrow> jsval option" where
  "settlement value encode =
     (case (if encode then bigint_of value
            else case value of Str s \<Rightarrow> if 20 < length s \<or> \<not> positive_decimal s then None else Some (int (decimal_value s))
              | _ \<Rightarrow> None) of
        None \<Rightarrow> None
      | Some integer \<Rightarrow>
          if 1 \<le> integer \<and> integer \<le> int u64 then Some (if encode then Str (int_text integer) else BigInt integer)
          else None)"

definition mq_text :: "jsval \<Rightarrow> nat \<Rightarrow> bool" where
  "mq_text value maximum = (case value of
     Str s \<Rightarrow> 1 \<le> byteLength s \<and> byteLength s \<le> maximum \<and> utf8_decode (utf8 s) = s
   | _ \<Rightarrow> False)"

section \<open>The requested question\<close>

definition mq_project :: "jsval \<Rightarrow> (jsval \<Rightarrow> jsval option) \<Rightarrow> jsval option" where
  "mq_project value codec =
     (if \<not> mq_closed value mq_keys \<or> mem value ''producer'' \<noteq> js ''model_tool'' \<or> mem value ''status'' \<noteq> js ''pending'' \<or>
         \<not> list_all (\<lambda>key. mem value key = Null) mq_captures then None
      else let question = with_members (spread value) [(''kind'', mem value ''interaction_kind'')];
               question = deletem ''interaction_kind'' question;
               question = fold deletem mq_captures question in
        case codec question of
          None \<Rightarrow> None
        | Some projected \<Rightarrow>
            let result = with_members (spread projected) [(''interaction_kind'', mem projected ''kind'')];
                result = deletem ''kind'' result in
            Some (fold (\<lambda>key. setm key Null) mq_captures result))"

definition decodeModelQuestionRequested :: "jsval \<Rightarrow> jsval option" where
  "decodeModelQuestionRequested value = mq_project value decodeOpenInteraction"

definition encodeModelQuestionRequested :: "jsval \<Rightarrow> jsval option" where
  "encodeModelQuestionRequested value = mq_project value encodeOpenInteraction"

section \<open>The terminal question\<close>

definition command_evidence :: "jsval \<Rightarrow> bool \<Rightarrow> jsval option" where
  "command_evidence value encode = do {
     command \<leftarrow> mq_identity (mem value ''command_id'') 65536 encode;
     if \<not> hex_digest (mem value ''command_digest'') then None else Some command
   }"

definition offered_choice :: "jsval \<Rightarrow> jsval list \<Rightarrow> jsval \<Rightarrow> (jsval \<times> (string \<times> jsval) list) option" where
  "offered_choice answer choices ident =
     (case find (\<lambda>member. mem member ''id'' = ident) choices of
        None \<Rightarrow> None
      | Some offered \<Rightarrow>
          if mem answer ''label'' \<noteq> mem offered ''label'' then None
          else Some (obj [(''choice_id'', ident), (''label'', mem offered ''label'')], [(''choice_id'', ident)]))"

text \<open>The answer member and, for a chosen option, the identity repeated beside it\<close>

definition terminal_answer :: "jsval \<Rightarrow> bool \<Rightarrow> jsval \<Rightarrow> (jsval \<times> (string \<times> jsval) list) option" where
  "terminal_answer value encode projected =
     (let answer = mem value ''answer'' in
      if mem value ''disposition'' = js ''declined'' then
        (if \<not> mq_closed answer [''disposition''] \<or> mem answer ''disposition'' \<noteq> js ''declined'' then None
         else Some (obj [(''disposition'', js ''declined'')], []))
      else if mem value ''interaction_kind'' = js ''text'' then
        (if \<not> mq_closed answer [''text''] \<or> \<not> mq_text (mem answer ''text'') 8192 then None
         else Some (obj [(''text'', mem answer ''text'')], []))
      else if \<not> mq_closed answer [''choice_id'', ''label''] then None
      else do {
        ident \<leftarrow> mq_identity (mem value ''choice_id'') 64 encode;
        answerId \<leftarrow> mq_identity (mem answer ''choice_id'') 64 encode;
        if ident \<noteq> answerId then None else offered_choice answer (elements (mem projected ''choices'')) ident
      })"

definition no_evidence :: "(string \<times> jsval) list" where
  "no_evidence = [(''answer'', Null), (''command_id'', Null), (''command_digest'', Null)]"

definition terminal_evidence :: "jsval \<Rightarrow> bool \<Rightarrow> jsval \<Rightarrow> (string \<times> jsval) list option" where
  "terminal_evidence value encode projected =
     (if mem value ''disposition'' = js ''expired'' then
        (if \<not> list_all (\<lambda>key. mem value key = Null) [''answer'', ''command_id'', ''command_digest''] then None
         else Some no_evidence)
      else if mem value ''disposition'' = js ''cancelled'' then
        (if mem value ''answer'' \<noteq> Null then None
         else if mem value ''command_id'' = Null \<and> mem value ''command_digest'' = Null then Some no_evidence
         else do {
           command \<leftarrow> command_evidence value encode;
           Some [(''answer'', Null), (''command_id'', command), (''command_digest'', mem value ''command_digest'')]
         })
      else do {
        command \<leftarrow> command_evidence value encode;
        (answer, evidence) \<leftarrow> terminal_answer value encode projected;
        Some (evidence @ [(''answer'', answer), (''command_id'', command),
          (''command_digest'', mem value ''command_digest'')])
      })"

definition terminal_header :: "jsval \<Rightarrow> bool" where
  "terminal_header value \<longleftrightarrow> mq_plain value \<and>
     one_of (mem value ''disposition'') [''answered'', ''declined'', ''expired'', ''cancelled''] \<and>
     mem value ''status'' = mem value ''disposition'' \<and> mem value ''producer'' = js ''model_tool'' \<and>
     mq_closed value (if mem value ''disposition'' = js ''answered'' \<and> mem value ''interaction_kind'' = js ''choice''
       then mq_keys @ [''choice_id''] else mq_keys)"

definition terminal_question :: "jsval \<Rightarrow> jsval" where
  "terminal_question value =
     (let question = with_members (spread value) [(''kind'', mem value ''interaction_kind''), (''status'', js ''pending'')] in
      fold deletem mq_captures (deletem ''choice_id'' (deletem ''interaction_kind'' question)))"

definition mq_terminal :: "jsval \<Rightarrow> bool \<Rightarrow> jsval option" where
  "mq_terminal value encode =
     (if \<not> terminal_header value then None
      else do {
        projected \<leftarrow> (if encode then encodeOpenInteraction else decodeOpenInteraction) (terminal_question value);
        sequence \<leftarrow> settlement (mem value ''settlement_sequence'') encode;
        evidence \<leftarrow> terminal_evidence value encode projected;
        Some (deletem ''kind'' (with_members (spread projected)
          ([(''interaction_kind'', mem projected ''kind''), (''status'', mem value ''disposition''),
            (''disposition'', mem value ''disposition''), (''settlement_sequence'', sequence)] @ evidence)))
      })"

definition decodeModelQuestionTerminal :: "jsval \<Rightarrow> jsval option" where
  "decodeModelQuestionTerminal value = mq_terminal value False"

definition encodeModelQuestionTerminal :: "jsval \<Rightarrow> jsval option" where
  "encodeModelQuestionTerminal value = mq_terminal value True"

section \<open>Typed view\<close>

text \<open>The captured question, with \<open>interaction_kind\<close> in place of \<open>kind\<close>\<close>

definition spells_asked :: "bool \<Rightarrow> interaction \<Rightarrow> jsval \<Rightarrow> bool" where
  "spells_asked native x v \<longleftrightarrow> mem v ''producer'' = js ''model_tool'' \<and>
     mem v ''interaction_kind'' = js (if in_text x then ''text'' else ''choice'') \<and> mem v ''prompt'' = Str (in_prompt x) \<and>
     mem v ''interaction_id'' = id_at native (in_id x) \<and> mem v ''run_id'' = id_at native (in_run x) \<and>
     mem v ''tool_call_id'' = id_at native (in_call x) \<and> mem v ''turn'' = nat_at native (in_turn x) \<and>
     mem v ''expires_at'' = nat_at native (in_expires x) \<and>
     denseArray 8 (mem v ''choices'') \<and> list_all2 (spells_choice native) (in_choices x) (elements (mem v ''choices''))"

definition asked_ok :: "interaction \<Rightarrow> bool" where
  "asked_ok x \<longleftrightarrow> interaction_ok x \<and> in_model x \<and> in_answer x = None"

definition spells_requested :: "bool \<Rightarrow> interaction \<Rightarrow> jsval \<Rightarrow> bool" where
  "spells_requested native x v \<longleftrightarrow> closedPlain v mq_keys \<and> mem v ''status'' = js ''pending'' \<and> spells_asked native x v \<and>
     list_all (\<lambda>key. mem v key = Null) mq_captures"

section \<open>Lemmas\<close>

lemma mq_closed_eq [copy_eqs]: "mq_closed = closedOwn"
  by (auto simp: fun_eq_iff mq_closed_def closedOwn_def list_all_iff)

lemma mq_plain_eq [copy_eqs]: "mq_plain = plainData"
  by (simp add: fun_eq_iff mq_plain_def plainData_def)

lemma mq_identity_eq [copy_eqs]: "mq_identity = open_identity"
  by (simp add: fun_eq_iff mq_identity_def open_identity_def)

lemma mq_text_eq [copy_eqs]: "mq_text v n = text_within 1 n v"
  by (auto simp: mq_text_def text_within_def split: jsval.split)

lemma mq_keys_distinct [simp]: "distinct mq_keys" "distinct (mq_keys @ [''choice_id''])" "distinct open_keys"
  by (simp_all add: mq_keys_def mq_captures_def open_keys_def)

lemma untouched_keys:
  "k \<in> set open_keys \<Longrightarrow> k \<noteq> ''choice_id'' \<and> k \<noteq> ''interaction_kind'' \<and> k \<notin> set mq_captures"
  unfolding open_keys_def mq_captures_def by (simp, elim disjE) simp_all

lemma requested_question:
  assumes "closedPlain v mq_keys"
  defines "q \<equiv> fold deletem mq_captures (deletem ''interaction_kind'' (with_members (spread v) [(''kind'', mem v ''interaction_kind'')]))"
  shows "closedPlain q open_keys" "mem q ''kind'' = mem v ''interaction_kind''"
    "k \<in> set open_keys \<Longrightarrow> k \<noteq> ''kind'' \<Longrightarrow> mem q k = mem v k"
proof -
  have v: "inertObj v" "named v" "names v = set mq_keys" using assms(1) by (simp_all add: closedPlain_iff)
  have s: "spread v = v" using v(1) by (rule inert_spread)
  have q: "inertObj q" "named q" using v by (simp_all add: q_def s mq_captures_def)
  have n: "names q = set open_keys" using v by (auto simp: q_def s mq_captures_def mq_keys_def open_keys_def)
  show "closedPlain q open_keys" using q n by (simp add: closedPlain_iff)
  show "mem q ''kind'' = mem v ''interaction_kind''" using v by (simp add: q_def s mq_captures_def)
  show "mem q k = mem v k" if "k \<in> set open_keys" "k \<noteq> ''kind''" for k
    using v(1) that untouched_keys [OF that(1)] by (simp add: q_def s mq_captures_def)
qed

text \<open>The question handed to the inner codec spells what the event captured.\<close>

lemma asked_question:
  assumes "closedPlain q open_keys" "mem q ''kind'' = mem v ''interaction_kind''" "mem q ''status'' = js ''pending''"
    "mem v ''producer'' = js ''model_tool''"
    "\<And>k. k \<in> set open_keys \<Longrightarrow> k \<noteq> ''kind'' \<Longrightarrow> k \<noteq> ''status'' \<Longrightarrow> mem q k = mem v k"
  shows "interaction_ok x \<and> spells_interaction e x q \<longleftrightarrow> asked_ok x \<and> spells_asked e x v"
proof -
  have m: "mem q ''producer'' = mem v ''producer''" "mem q ''prompt'' = mem v ''prompt''"
    "mem q ''interaction_id'' = mem v ''interaction_id''" "mem q ''run_id'' = mem v ''run_id''"
    "mem q ''tool_call_id'' = mem v ''tool_call_id''" "mem q ''turn'' = mem v ''turn''"
    "mem q ''expires_at'' = mem v ''expires_at''" "mem q ''choices'' = mem v ''choices''"
    by (simp_all add: assms(5) open_keys_def)
  show ?thesis
    using assms(1-4) m
    by (cases "in_answer x") (auto simp: spells_interaction_def spells_asked_def asked_ok_def interaction_keys_def)
qed

lemma asked_result:
  assumes "asked_ok x" "spells_interaction n x p"
  shows "inertObj p" "named p" "names p = set open_keys" "mem p ''kind'' = js (if in_text x then ''text'' else ''choice'')"
  using assms by (auto simp: spells_interaction_def asked_ok_def interaction_keys_def closedPlain_iff)

lemma spells_asked_same:
  assumes "asked_ok x" "spells_interaction n x p" "mem r ''interaction_kind'' = mem p ''kind''"
    "\<And>k. k \<in> set open_keys \<Longrightarrow> k \<noteq> ''kind'' \<Longrightarrow> k \<noteq> ''status'' \<Longrightarrow> mem r k = mem p k"
  shows "spells_asked n x r"
proof -
  have "mem r ''producer'' = mem p ''producer''" "mem r ''prompt'' = mem p ''prompt''"
    "mem r ''interaction_id'' = mem p ''interaction_id''" "mem r ''run_id'' = mem p ''run_id''"
    "mem r ''tool_call_id'' = mem p ''tool_call_id''" "mem r ''turn'' = mem p ''turn''"
    "mem r ''expires_at'' = mem p ''expires_at''" "mem r ''choices'' = mem p ''choices''"
    by (simp_all add: assms(4) open_keys_def)
  with assms(1-3) show ?thesis by (simp add: spells_interaction_def spells_asked_def asked_ok_def)
qed

lemma requested_result:
  assumes "asked_ok x" "spells_interaction n x p"
  shows "spells_requested n x (fold (\<lambda>key. setm key Null) mq_captures
    (deletem ''kind'' (with_members (spread p) [(''interaction_kind'', mem p ''kind'')])))" (is "spells_requested n x ?r")
proof -
  note p = asked_result [OF assms]
  have s: "spread p = p" using p(1) by (rule inert_spread)
  have "inertObj ?r" "named ?r" using p by (simp_all add: s mq_captures_def)
  moreover have "names ?r = set mq_keys" using p(1,3) by (auto simp: s mq_captures_def mq_keys_def open_keys_def)
  ultimately have c: "closedPlain ?r mq_keys" by (simp add: closedPlain_iff)
  have nulls: "list_all (\<lambda>key. mem ?r key = Null) mq_captures" using p(1) by (simp add: s mq_captures_def)
  have kind: "mem ?r ''interaction_kind'' = mem p ''kind''" using p(1) by (simp add: s mq_captures_def)
  have same: "mem ?r k = mem p k" if "k \<in> set open_keys" "k \<noteq> ''kind''" for k
    using p(1) that untouched_keys [OF that(1)] by (simp add: s mq_captures_def)
  have "mem p ''status'' = js ''pending''" using assms by (simp add: spells_interaction_def asked_ok_def)
  then have "mem ?r ''status'' = js ''pending''" using same [of "''status''"] by (simp add: open_keys_def)
  then show ?thesis
    unfolding spells_requested_def using c nulls spells_asked_same [OF assms kind same] by blast
qed

lemma mq_project_iff:
  assumes "distinct (ownKeys v)"
  shows "mq_project v (\<lambda>q. open_project q e) = Some r \<Longrightarrow>
      \<exists>x. asked_ok x \<and> spells_requested e x v \<and> spells_requested (\<not> e) x r"
    and "asked_ok x \<Longrightarrow> spells_requested e x v \<Longrightarrow>
      \<exists>r. mq_project v (\<lambda>q. open_project q e) = Some r \<and> spells_requested (\<not> e) x r"
proof -
  let ?q = "fold deletem mq_captures (deletem ''interaction_kind'' (with_members (spread v) [(''kind'', mem v ''interaction_kind'')]))"
  let ?r = "\<lambda>p. fold (\<lambda>key. setm key Null) mq_captures
    (deletem ''kind'' (with_members (spread p) [(''interaction_kind'', mem p ''kind'')]))"
  have closed: "closedOwn v mq_keys \<longleftrightarrow> closedPlain v mq_keys"
    by (rule closedOwn_closedPlain) (simp_all add: assms)
  have run: "mq_project v (\<lambda>q. open_project q e) = (if closedPlain v mq_keys \<and> mem v ''producer'' = js ''model_tool'' \<and>
      mem v ''status'' = js ''pending'' \<and> list_all (\<lambda>key. mem v key = Null) mq_captures
      then map_option ?r (open_project ?q e) else None)"
    by (simp add: mq_project_def copy_eqs closed Let_def split: option.split)
  have asked: "interaction_ok y \<and> spells_interaction e y ?q \<longleftrightarrow> asked_ok y \<and> spells_asked e y v"
    if "closedPlain v mq_keys" "mem v ''producer'' = js ''model_tool''" "mem v ''status'' = js ''pending''" for y
    using that requested_question [OF that(1)] by (intro asked_question) (auto simp: open_keys_def)
  show "\<exists>x. asked_ok x \<and> spells_requested e x v \<and> spells_requested (\<not> e) x r"
    if h: "mq_project v (\<lambda>q. open_project q e) = Some r"
  proof -
    from h obtain p where c: "closedPlain v mq_keys" "mem v ''producer'' = js ''model_tool''" "mem v ''status'' = js ''pending''"
      "list_all (\<lambda>key. mem v key = Null) mq_captures" and p: "open_project ?q e = Some p" "r = ?r p"
      unfolding run by (auto split: if_splits)
    from p(1) obtain y where y: "interaction_ok y" "spells_interaction e y ?q" "p = with_members ?q (interaction_members (\<not> e) y)"
      unfolding open_project_iff by blast
    then have a: "asked_ok y" "spells_asked e y v" using asked [OF c(1-3)] by blast+
    have "spells_interaction (\<not> e) y p" using spells_converted [OF y(1,2)] y(3) by simp
    from requested_result [OF a(1) this] a c p(2) show ?thesis by (auto simp: spells_requested_def)
  qed
  show "\<exists>r. mq_project v (\<lambda>q. open_project q e) = Some r \<and> spells_requested (\<not> e) x r"
    if h: "asked_ok x" "spells_requested e x v"
  proof -
    from h(2) have c: "closedPlain v mq_keys" "mem v ''producer'' = js ''model_tool''" "mem v ''status'' = js ''pending''"
      "list_all (\<lambda>key. mem v key = Null) mq_captures" "spells_asked e x v"
      by (auto simp: spells_requested_def spells_asked_def)
    then have y: "interaction_ok x" "spells_interaction e x ?q" using asked h(1) by blast+
    from open_project_complete [OF y] requested_result [OF h(1) spells_converted [OF y]] c
    show ?thesis unfolding run by simp
  qed
qed

section \<open>Endings\<close>

datatype question_ending =
    Chosen bytes ustring bytes ustring
  | Written ustring bytes ustring
  | Question_declined bytes ustring
  | Question_expired
  | Question_cancelled "(bytes \<times> ustring) option"

fun ending_name :: "question_ending \<Rightarrow> string" where
  "ending_name (Chosen c l cmd d) = ''answered''"
| "ending_name (Written s cmd d) = ''answered''"
| "ending_name (Question_declined cmd d) = ''declined''"
| "ending_name Question_expired = ''expired''"
| "ending_name (Question_cancelled c) = ''cancelled''"

fun ending_extra :: "question_ending \<Rightarrow> string list" where
  "ending_extra (Chosen c l cmd d) = [''choice_id'']"
| "ending_extra _ = []"

definition ending_keys :: "question_ending \<Rightarrow> string list" where
  "ending_keys en = mq_keys @ ending_extra en"

definition command_ok :: "bytes \<Rightarrow> ustring \<Rightarrow> bool" where
  "command_ok cmd d \<longleftrightarrow> id_ok 65536 cmd \<and> hex_digest (Str d)"

fun ending_ok :: "interaction \<Rightarrow> question_ending \<Rightarrow> bool" where
  "ending_ok x (Chosen c l cmd d) \<longleftrightarrow> \<not> in_text x \<and> (c, l) \<in> set (in_choices x) \<and> command_ok cmd d"
| "ending_ok x (Written s cmd d) \<longleftrightarrow> in_text x \<and> text_within 1 8192 (Str s) \<and> command_ok cmd d"
| "ending_ok x (Question_declined cmd d) \<longleftrightarrow> command_ok cmd d"
| "ending_ok x Question_expired \<longleftrightarrow> True"
| "ending_ok x (Question_cancelled c) \<longleftrightarrow> (\<forall>cmd d. c = Some (cmd, d) \<longrightarrow> command_ok cmd d)"

definition spells_command :: "bool \<Rightarrow> bytes \<Rightarrow> ustring \<Rightarrow> jsval \<Rightarrow> bool" where
  "spells_command native cmd d v \<longleftrightarrow> mem v ''command_id'' = id_at native cmd \<and> mem v ''command_digest'' = Str d"

fun spells_ending :: "bool \<Rightarrow> question_ending \<Rightarrow> jsval \<Rightarrow> bool" where
  "spells_ending native (Chosen c l cmd d) v \<longleftrightarrow> mem v ''choice_id'' = id_at native c \<and>
     closedOwn (mem v ''answer'') [''choice_id'', ''label''] \<and> mem (mem v ''answer'') ''choice_id'' = id_at native c \<and>
     mem (mem v ''answer'') ''label'' = Str l \<and> spells_command native cmd d v"
| "spells_ending native (Written s cmd d) v \<longleftrightarrow> closedOwn (mem v ''answer'') [''text''] \<and>
     mem (mem v ''answer'') ''text'' = Str s \<and> spells_command native cmd d v"
| "spells_ending native (Question_declined cmd d) v \<longleftrightarrow> closedOwn (mem v ''answer'') [''disposition''] \<and>
     mem (mem v ''answer'') ''disposition'' = js ''declined'' \<and> spells_command native cmd d v"
| "spells_ending native Question_expired v \<longleftrightarrow> mem v ''answer'' = Null \<and> mem v ''command_id'' = Null \<and>
     mem v ''command_digest'' = Null"
| "spells_ending native (Question_cancelled None) v \<longleftrightarrow> mem v ''answer'' = Null \<and> mem v ''command_id'' = Null \<and>
     mem v ''command_digest'' = Null"
| "spells_ending native (Question_cancelled (Some (cmd, d))) v \<longleftrightarrow> mem v ''answer'' = Null \<and> spells_command native cmd d v"

fun ending_members :: "bool \<Rightarrow> question_ending \<Rightarrow> (string \<times> jsval) list" where
  "ending_members native (Chosen c l cmd d) = [(''choice_id'', id_at native c),
     (''answer'', obj [(''choice_id'', id_at native c), (''label'', Str l)]), (''command_id'', id_at native cmd), (''command_digest'', Str d)]"
| "ending_members native (Written s cmd d) =
     [(''answer'', obj [(''text'', Str s)]), (''command_id'', id_at native cmd), (''command_digest'', Str d)]"
| "ending_members native (Question_declined cmd d) =
     [(''answer'', obj [(''disposition'', js ''declined'')]), (''command_id'', id_at native cmd), (''command_digest'', Str d)]"
| "ending_members native Question_expired = no_evidence"
| "ending_members native (Question_cancelled None) = no_evidence"
| "ending_members native (Question_cancelled (Some (cmd, d))) =
     [(''answer'', Null), (''command_id'', id_at native cmd), (''command_digest'', Str d)]"

definition spells_ended :: "bool \<Rightarrow> interaction \<Rightarrow> question_ending \<Rightarrow> nat \<Rightarrow> jsval \<Rightarrow> bool" where
  "spells_ended native x en n v \<longleftrightarrow> closedPlain v (ending_keys en) \<and> mem v ''status'' = js (ending_name en) \<and>
     mem v ''disposition'' = js (ending_name en) \<and> spells_asked native x v \<and> spells_ending native en v \<and>
     mem v ''settlement_sequence'' = nat_at native n"

lemma settlement_iff:
  "settlement v e = Some r \<longleftrightarrow> (\<exists>n. nat_ok 1 (Some u64) n \<and> v = nat_at e n \<and> r = nat_at (\<not> e) n)"
proof (cases e)
  case True
  show ?thesis
  proof (cases v)
    case (BigInt i)
    show ?thesis
    proof (cases "i < 0")
      case False
      then obtain n where "i = int n" by (metis nonneg_int_cases not_le)
      with True BigInt show ?thesis by (auto simp: settlement_def nat_at_def nat_ok_def)
    qed (use True BigInt in \<open>auto simp: settlement_def nat_at_def\<close>)
  qed (use True in \<open>auto simp: settlement_def nat_at_def\<close>)
next
  case False
  show ?thesis
  proof (cases v)
    case (Str s)
    show ?thesis
    proof (cases "positive_decimal s")
      case True
      then have d: "dec (decimal_value s) = s" "canonical_decimal s" "1 \<le> decimal_value s"
        by (auto simp: dec_decimal_value_positive positive_canonical)
      have g: "decimal_value s \<le> u64 \<Longrightarrow> \<not> 20 < length s" using u64_text_guard [OF d(2)] by simp
      have "s = dec n \<longleftrightarrow> n = decimal_value s" for n using d(1) by auto
      with True False Str d g show ?thesis by (auto simp: settlement_def nat_at_def nat_ok_def)
    next
      case p: False
      then have "\<forall>n. nat_ok 1 (Some u64) n \<longrightarrow> s \<noteq> dec n" by (auto simp: nat_ok_def)
      with p False Str show ?thesis by (auto simp: settlement_def nat_at_def)
    qed
  qed (use False in \<open>auto simp: settlement_def nat_at_def\<close>)
qed

lemma command_evidence_iff:
  "command_evidence v e = Some r \<longleftrightarrow> (\<exists>cmd d. command_ok cmd d \<and> spells_command e cmd d v \<and> r = id_at (\<not> e) cmd)"
proof -
  have hex: "hex_digest w \<longleftrightarrow> (\<exists>d. w = Str d \<and> hex_digest (Str d))" for w using hex_digest_Str by metis
  have "command_evidence v e = Some r \<longleftrightarrow> (\<exists>cmd. id_ok 65536 cmd \<and> mem v ''command_id'' = id_at e cmd \<and>
    hex_digest (mem v ''command_digest'') \<and> r = id_at (\<not> e) cmd)"
    by (auto simp: command_evidence_def copy_eqs bind_eq_Some_conv open_identity_iff)
  also have "\<dots> \<longleftrightarrow> (\<exists>cmd d. command_ok cmd d \<and> spells_command e cmd d v \<and> r = id_at (\<not> e) cmd)"
    unfolding hex [of "mem v ''command_digest''"] command_ok_def spells_command_def by blast
  finally show ?thesis .
qed

lemma find_choice:
  "find (\<lambda>m. mem m ''id'' = id_at n c) (map (choice_at n) cs) = map_option (\<lambda>l. choice_at n (c, l)) (map_of cs c)"
  by (induction cs) (auto simp: choice_at_def member_simps)

lemma choices_ok_ids:
  "choices_ok model seen cs \<Longrightarrow> distinct (map fst cs) \<and> fst ` set cs \<inter> fst ` set seen = {} \<and> (\<forall>c \<in> fst ` set cs. id_ok 64 c)"
proof (induction model seen cs rule: choices_ok.induct)
  case (2 model seen b l cs)
  then have h: "id_ok 64 b" "b \<notin> fst ` set seen" "choices_ok model (seen @ [(b, l)]) cs" by simp_all
  from 2(1) [OF h(3)] h show ?case by auto
qed simp

lemma terminal_answer_chosen:
  assumes "mem v ''disposition'' = js ''answered''" "mem v ''interaction_kind'' = js ''choice''"
    "elements (mem p ''choices'') = map (choice_at (\<not> e)) cs" "choices_ok model [] cs"
  shows "terminal_answer v e p = Some r \<longleftrightarrow> (\<exists>c l. (c, l) \<in> set cs \<and> mem v ''choice_id'' = id_at e c \<and>
    closedOwn (mem v ''answer'') [''choice_id'', ''label''] \<and> mem (mem v ''answer'') ''choice_id'' = id_at e c \<and>
    mem (mem v ''answer'') ''label'' = Str l \<and>
    r = (obj [(''choice_id'', id_at (\<not> e) c), (''label'', Str l)], [(''choice_id'', id_at (\<not> e) c)]))"
proof -
  note ids = choices_ok_ids [OF assms(4)]
  have of: "map_of cs c = Some l \<longleftrightarrow> (c, l) \<in> set cs" for c l using ids by simp
  have lab: "mem (choice_at n (c, l)) ''label'' = Str l" for n c l by (simp add: choice_at_def member_simps)
  have look: "offered_choice (mem v ''answer'') (map (choice_at (\<not> e)) cs) (id_at (\<not> e) c) = Some r \<longleftrightarrow> (\<exists>l. map_of cs c = Some l \<and> mem (mem v ''answer'') ''label'' = Str l \<and>
    r = (obj [(''choice_id'', id_at (\<not> e) c), (''label'', Str l)], [(''choice_id'', id_at (\<not> e) c)]))" for c
    unfolding offered_choice_def find_choice by (cases "map_of cs c") (auto simp: lab)
  have "terminal_answer v e p = Some r \<longleftrightarrow> closedOwn (mem v ''answer'') [''choice_id'', ''label''] \<and>
    (\<exists>i. open_identity (mem v ''choice_id'') 64 e = Some i \<and> open_identity (mem (mem v ''answer'') ''choice_id'') 64 e = Some i \<and>
      offered_choice (mem v ''answer'') (map (choice_at (\<not> e)) cs) i = Some r)"
    unfolding terminal_answer_def Let_def copy_eqs assms(3)
    by (auto simp: assms(1,2) bind_eq_Some_conv split: if_splits)
  also have "\<dots> \<longleftrightarrow> closedOwn (mem v ''answer'') [''choice_id'', ''label''] \<and>
    (\<exists>c. id_ok 64 c \<and> mem v ''choice_id'' = id_at e c \<and> mem (mem v ''answer'') ''choice_id'' = id_at e c \<and>
      offered_choice (mem v ''answer'') (map (choice_at (\<not> e)) cs) (id_at (\<not> e) c) = Some r)"
    by (auto simp: open_identity_iff)
  finally have "terminal_answer v e p = Some r \<longleftrightarrow> closedOwn (mem v ''answer'') [''choice_id'', ''label''] \<and>
    (\<exists>c. id_ok 64 c \<and> mem v ''choice_id'' = id_at e c \<and> mem (mem v ''answer'') ''choice_id'' = id_at e c \<and>
      offered_choice (mem v ''answer'') (map (choice_at (\<not> e)) cs) (id_at (\<not> e) c) = Some r)" .
  moreover have "(c, l) \<in> set cs \<Longrightarrow> id_ok 64 c" for c l using ids by force
  ultimately show ?thesis unfolding look of by blast
qed

lemma terminal_answer_written:
  assumes "mem v ''disposition'' = js ''answered''" "mem v ''interaction_kind'' = js ''text''"
  shows "terminal_answer v e p = Some r \<longleftrightarrow> (\<exists>s. text_within 1 8192 (Str s) \<and> closedOwn (mem v ''answer'') [''text''] \<and>
    mem (mem v ''answer'') ''text'' = Str s \<and> r = (obj [(''text'', Str s)], []))"
proof -
  have "text_within 1 8192 w \<longleftrightarrow> (\<exists>s. w = Str s \<and> text_within 1 8192 (Str s))" for w using text_within_Str by metis
  note w = this [of "mem (mem v ''answer'') ''text''"]
  have "terminal_answer v e p = Some r \<longleftrightarrow> closedOwn (mem v ''answer'') [''text''] \<and>
    text_within 1 8192 (mem (mem v ''answer'') ''text'') \<and> r = (obj [(''text'', mem (mem v ''answer'') ''text'')], [])"
    using assms by (auto simp: terminal_answer_def copy_eqs Let_def)
  then show ?thesis unfolding w by auto
qed

lemma terminal_answer_declined:
  assumes "mem v ''disposition'' = js ''declined''"
  shows "terminal_answer v e p = Some r \<longleftrightarrow> closedOwn (mem v ''answer'') [''disposition''] \<and>
    mem (mem v ''answer'') ''disposition'' = js ''declined'' \<and> r = (obj [(''disposition'', js ''declined'')], [])"
  using assms by (auto simp: terminal_answer_def copy_eqs Let_def)

lemma evidence_commanded:
  assumes "mem v ''disposition'' \<notin> {js ''expired'', js ''cancelled''}"
  shows "terminal_evidence v e p = Some ev \<longleftrightarrow> (\<exists>cmd d answer own. command_ok cmd d \<and> spells_command e cmd d v \<and>
    terminal_answer v e p = Some (answer, own) \<and>
    ev = own @ [(''answer'', answer), (''command_id'', id_at (\<not> e) cmd), (''command_digest'', Str d)])"
proof -
  have "terminal_evidence v e p = Some ev \<longleftrightarrow> (\<exists>c answer own. command_evidence v e = Some c \<and>
    terminal_answer v e p = Some (answer, own) \<and>
    ev = own @ [(''answer'', answer), (''command_id'', c), (''command_digest'', mem v ''command_digest'')])"
    using assms by (auto simp: terminal_evidence_def bind_eq_Some_conv)
  then show ?thesis unfolding command_evidence_iff spells_command_def by (auto; metis)
qed

lemma evidence_cancelled:
  assumes "mem v ''disposition'' = js ''cancelled''"
  shows "terminal_evidence v e p = Some ev \<longleftrightarrow>
    (\<exists>c. ending_ok x (Question_cancelled c) \<and> spells_ending e (Question_cancelled c) v \<and> ev = ending_members (\<not> e) (Question_cancelled c))"
proof (cases "mem v ''command_id'' = Null \<and> mem v ''command_digest'' = Null")
  case True
  then have "\<not> spells_command e cmd d v" for cmd d by (simp add: spells_command_def)
  with True assms show ?thesis by (auto simp: terminal_evidence_def split_option_ex)
next
  case False
  have "terminal_evidence v e p = Some ev \<longleftrightarrow> mem v ''answer'' = Null \<and> (\<exists>c. command_evidence v e = Some c \<and>
    ev = [(''answer'', Null), (''command_id'', c), (''command_digest'', mem v ''command_digest'')])"
    using assms False by (auto simp: terminal_evidence_def bind_eq_Some_conv)
  then show ?thesis using False
    unfolding command_evidence_iff split_option_ex split_paired_Ex
    by (auto simp: spells_command_def)
qed

lemma ex_ending:
  "(\<exists>en. P en) \<longleftrightarrow> (\<exists>c l cmd d. P (Chosen c l cmd d)) \<or> (\<exists>s cmd d. P (Written s cmd d)) \<or>
     (\<exists>cmd d. P (Question_declined cmd d)) \<or> P Question_expired \<or> (\<exists>c. P (Question_cancelled c))"
  by (metis question_ending.exhaust)

definition ended_by :: "bool \<Rightarrow> interaction \<Rightarrow> jsval \<Rightarrow> question_ending \<Rightarrow> bool" where
  "ended_by e x v en \<longleftrightarrow> mem v ''disposition'' = js (ending_name en) \<and> ending_ok x en \<and> spells_ending e en v"

lemma terminal_evidence_iff:
  assumes "asked_ok x" "mem v ''interaction_kind'' = js (if in_text x then ''text'' else ''choice'')"
    "elements (mem p ''choices'') = map (choice_at (\<not> e)) (in_choices x)"
    "one_of (mem v ''disposition'') [''answered'', ''declined'', ''expired'', ''cancelled'']"
  shows "terminal_evidence v e p = Some ev \<longleftrightarrow> (\<exists>en. ended_by e x v en \<and> ev = ending_members (\<not> e) en)"
proof -
  have ok: "choices_ok (in_model x) [] (in_choices x)" using assms(1) unfolding asked_ok_def interaction_ok_def by blast
  consider (a) "mem v ''disposition'' = js ''answered''" | (d) "mem v ''disposition'' = js ''declined''"
    | (x) "mem v ''disposition'' = js ''expired''" | (c) "mem v ''disposition'' = js ''cancelled''"
    using assms(4) by (auto simp: one_of_def)
  then show ?thesis
  proof cases
    case a
    then have n: "mem v ''disposition'' \<notin> {js ''expired'', js ''cancelled''}" by simp
    show ?thesis
    proof (cases "in_text x")
      case True
      with assms(2) have k: "mem v ''interaction_kind'' = js ''text''" by simp
      show ?thesis unfolding ex_ending evidence_commanded [OF n] terminal_answer_written [OF a k]
        by (auto simp: ended_by_def a True)
    next
      case False
      with assms(2) have k: "mem v ''interaction_kind'' = js ''choice''" by simp
      show ?thesis unfolding ex_ending evidence_commanded [OF n] terminal_answer_chosen [OF a k assms(3) ok]
        by (auto simp: ended_by_def a False)
    qed
  next
    case d
    then have n: "mem v ''disposition'' \<notin> {js ''expired'', js ''cancelled''}" by simp
    show ?thesis unfolding ex_ending evidence_commanded [OF n] terminal_answer_declined [OF d]
      by (auto simp: ended_by_def d)
  next
    case x
    then show ?thesis unfolding ex_ending by (auto simp: ended_by_def terminal_evidence_def)
  next
    case c
    show ?thesis unfolding ex_ending evidence_cancelled [OF c, of e p ev x] by (simp add: ended_by_def c)
  qed
qed

lemma ending_members_names:
  "map fst (ending_members n en) = ending_extra en @ [''answer'', ''command_id'', ''command_digest'']"
  by (cases "(n, en)" rule: ending_members.cases) (simp_all add: no_evidence_def)

lemma choice_id_fresh [simp]: "''choice_id'' \<notin> set mq_keys"
  by (simp add: mq_keys_def mq_captures_def)

lemma ending_keys_distinct [simp]: "distinct (ending_keys en)"
  by (cases en) (simp_all add: ending_keys_def)

lemma ending_extra_sub: "set (ending_extra en) \<subseteq> {''choice_id''}"
  by (cases en) simp_all

lemma terminal_question_closed:
  assumes "closedPlain v (ending_keys en)"
  shows "closedPlain (terminal_question v) open_keys" "mem (terminal_question v) ''kind'' = mem v ''interaction_kind''"
    "mem (terminal_question v) ''status'' = js ''pending''"
    "k \<in> set open_keys \<Longrightarrow> k \<noteq> ''kind'' \<Longrightarrow> k \<noteq> ''status'' \<Longrightarrow> mem (terminal_question v) k = mem v k"
proof -
  have v: "inertObj v" "named v" "names v = set (ending_keys en)"
    using assms by (simp_all add: closedPlain_iff ending_keys_distinct)
  have s: "spread v = v" using v(1) by (rule inert_spread)
  have q: "inertObj (terminal_question v)" "named (terminal_question v)"
    using v by (simp_all add: terminal_question_def s mq_captures_def Let_def)
  have "names (terminal_question v) = insert ''kind'' (insert ''status'' (set (ending_keys en))) - (insert ''choice_id'' (insert ''interaction_kind'' (set mq_captures)))"
    using v by (auto simp: terminal_question_def s mq_captures_def Let_def)
  also have "\<dots> = insert ''kind'' (insert ''status'' (set mq_keys)) - (insert ''choice_id'' (insert ''interaction_kind'' (set mq_captures)))"
    using ending_extra_sub [of en] by (auto simp only: ending_keys_def set_append)
  also have "\<dots> = set open_keys" by (simp add: mq_keys_def mq_captures_def open_keys_def insert_Diff_if insert_commute)
  finally show "closedPlain (terminal_question v) open_keys" using q by (simp add: closedPlain_iff)
  show "mem (terminal_question v) ''kind'' = mem v ''interaction_kind''" "mem (terminal_question v) ''status'' = js ''pending''"
    using v by (simp_all add: terminal_question_def s mq_captures_def Let_def)
  show "mem (terminal_question v) k = mem v k" if "k \<in> set open_keys" "k \<noteq> ''kind''" "k \<noteq> ''status''" for k
    using v(1) that untouched_keys [OF that(1)] by (simp add: terminal_question_def s mq_captures_def Let_def)
qed

lemma ended_header:
  assumes "distinct (ownKeys v)" "ending_ok x en" "mem v ''disposition'' = js (ending_name en)"
    "mem v ''interaction_kind'' = js (if in_text x then ''text'' else ''choice'')"
  shows "terminal_header v \<longleftrightarrow> closedPlain v (ending_keys en) \<and> mem v ''status'' = js (ending_name en) \<and>
    mem v ''producer'' = js ''model_tool''"
proof -
  have keys: "(if mem v ''disposition'' = js ''answered'' \<and> mem v ''interaction_kind'' = js ''choice''
      then mq_keys @ [''choice_id''] else mq_keys) = ending_keys en"
    using assms(2-4) by (cases en) (auto simp: ending_keys_def)
  have disp: "one_of (mem v ''disposition'') [''answered'', ''declined'', ''expired'', ''cancelled'']"
    using assms(3) by (cases en) auto
  have "closedOwn v (ending_keys en) \<longleftrightarrow> closedPlain v (ending_keys en)"
    by (rule closedOwn_closedPlain) (simp_all add: assms(1))
  then show ?thesis
    unfolding terminal_header_def keys copy_eqs using disp assms(3) closedPlain_plain by auto
qed

definition ended_result :: "jsval \<Rightarrow> string \<Rightarrow> jsval \<Rightarrow> (string \<times> jsval) list \<Rightarrow> jsval" where
  "ended_result p name sequence evidence = deletem ''kind'' (with_members (spread p)
     ([(''interaction_kind'', mem p ''kind''), (''status'', js name), (''disposition'', js name),
       (''settlement_sequence'', sequence)] @ evidence))"

lemma ending_members_fresh:
  "k \<in> {''interaction_kind'', ''status'', ''disposition'', ''settlement_sequence'', ''kind''} \<union> set open_keys \<Longrightarrow>
     map_of (rev (ending_members n en)) k = None"
proof -
  assume k: "k \<in> {''interaction_kind'', ''status'', ''disposition'', ''settlement_sequence'', ''kind''} \<union> set open_keys"
  have "k \<notin> set (map fst (ending_members n en))"
    using k ending_extra_sub [of en] unfolding ending_members_names by (auto simp: open_keys_def)
  then show ?thesis by (simp add: map_of_eq_None_iff)
qed

lemma ended_result_mem:
  assumes "inertObj p" "k \<noteq> ''kind''"
  shows "mem (ended_result p name sequence (ending_members n en)) k =
    (case map_of (rev (ending_members n en)) k of Some y \<Rightarrow> y | None \<Rightarrow>
      if k = ''settlement_sequence'' then sequence else if k = ''disposition'' \<or> k = ''status'' then js name
      else if k = ''interaction_kind'' then mem p ''kind'' else mem p k)"
  using assms by (cases "map_of (rev (ending_members n en)) k") (simp_all add: ended_result_def inert_spread map_add_def)

lemma ending_members_spell:
  assumes "\<And>k y. map_of (rev (ending_members n en)) k = Some y \<Longrightarrow> mem r k = y"
  shows "spells_ending n en r"
  using assms by (cases "(n, en)" rule: ending_members.cases)
    (simp_all add: no_evidence_def spells_command_def member_simps)

lemma ended_result_spells:
  assumes "asked_ok x" "spells_interaction n x p" "nat_ok 1 (Some u64) s"
  shows "spells_ended n x en s (ended_result p (ending_name en) (nat_at n s) (ending_members n en))" (is "spells_ended n x en s ?r")
proof -
  note p = asked_result [OF assms(1,2)]
  have m: "mem ?r k = y" if "map_of (rev (ending_members n en)) k = Some y" for k y
  proof -
    have "k \<noteq> ''kind''" using ending_members_fresh [of k n en] that by auto
    then show ?thesis using that by (simp add: ended_result_mem [OF p(1)])
  qed
  have same: "mem ?r k = mem p k" if "k \<in> set open_keys" "k \<noteq> ''kind''" "k \<noteq> ''status''" for k
    using that untouched_keys [OF that(1)] ending_members_fresh [of k n en]
    by (simp add: ended_result_mem [OF p(1)] mq_captures_def)
  have kind: "mem ?r ''interaction_kind'' = mem p ''kind''"
    using ending_members_fresh [of "''interaction_kind''" n en] by (simp add: ended_result_mem [OF p(1)])
  have names: "names ?r = set (ending_keys en)"
  proof -
    have "fst ` set (ending_members n en) = set (ending_extra en) \<union> {''answer'', ''command_id'', ''command_digest''}"
      using arg_cong [OF ending_members_names [of n en], of set] by simp
    then have "names ?r = (set (ending_extra en) \<union> {''answer'', ''command_id'', ''command_digest''} \<union>
      {''interaction_kind'', ''status'', ''disposition'', ''settlement_sequence''} \<union> set open_keys) - {''kind''}"
      using p(1,3) by (simp add: ended_result_def inert_spread image_Un Un_commute Un_left_commute insert_commute)
    also have "\<dots> = set (ending_extra en) \<union> ({''answer'', ''command_id'', ''command_digest''} \<union>
      {''interaction_kind'', ''status'', ''disposition'', ''settlement_sequence''} \<union> set open_keys - {''kind''})"
      using ending_extra_sub [of en] by auto
    also have "\<dots> = set (ending_keys en)"
      by (simp add: ending_keys_def mq_keys_def mq_captures_def open_keys_def insert_Diff_if insert_commute Un_commute)
    finally show ?thesis .
  qed
  have "closedPlain ?r (ending_keys en)"
    using names p(1,2) by (simp add: closedPlain_iff ended_result_def inert_spread)
  moreover have "mem ?r ''status'' = js (ending_name en)" "mem ?r ''disposition'' = js (ending_name en)"
    "mem ?r ''settlement_sequence'' = nat_at n s"
    using ending_members_fresh [of "''status''" n en] ending_members_fresh [of "''disposition''" n en]
      ending_members_fresh [of "''settlement_sequence''" n en] by (simp_all add: ended_result_mem [OF p(1)])
  ultimately show ?thesis
    unfolding spells_ended_def using ending_members_spell [OF m] spells_asked_same [OF assms(1,2) kind same] by blast
qed

lemma mq_terminal_run:
  "mq_terminal v e = Some r \<longleftrightarrow> terminal_header v \<and> (\<exists>p s ev. open_project (terminal_question v) e = Some p \<and>
     settlement (mem v ''settlement_sequence'') e = Some s \<and> terminal_evidence v e p = Some ev \<and>
     r = deletem ''kind'' (with_members (spread p)
          ([(''interaction_kind'', mem p ''kind''), (''status'', mem v ''disposition''),
            (''disposition'', mem v ''disposition''), (''settlement_sequence'', s)] @ ev)))"
  by (auto simp: mq_terminal_def bind_eq_Some_conv encodeOpenInteraction_def decodeOpenInteraction_def)

lemma asked_choices:
  assumes "asked_ok x" "p = with_members q (interaction_members n x)" "spells_interaction e x q"
  shows "elements (mem p ''choices'') = map (choice_at n) (in_choices x)"
  using assms by (simp add: mem_interaction [OF assms(3)] interaction_rewritten member_simps)

lemma ended_question:
  assumes "closedPlain v (ending_keys en)" "mem v ''producer'' = js ''model_tool''"
  shows "interaction_ok x \<and> spells_interaction e x (terminal_question v) \<longleftrightarrow> asked_ok x \<and> spells_asked e x v"
  using terminal_question_closed [OF assms(1)] assms(2) by (intro asked_question) auto

lemma mq_terminal_sound:
  assumes "distinct (ownKeys v)" "mq_terminal v e = Some r"
  shows "\<exists>x en n. asked_ok x \<and> ending_ok x en \<and> nat_ok 1 (Some u64) n \<and> spells_ended e x en n v \<and> spells_ended (\<not> e) x en n r"
proof -
  from assms(2) obtain p s ev where h: "terminal_header v" and p: "open_project (terminal_question v) e = Some p"
    and s: "settlement (mem v ''settlement_sequence'') e = Some s" and ev: "terminal_evidence v e p = Some ev"
    and r: "r = deletem ''kind'' (with_members (spread p) ([(''interaction_kind'', mem p ''kind''), (''status'', mem v ''disposition''),
            (''disposition'', mem v ''disposition''), (''settlement_sequence'', s)] @ ev))"
    unfolding mq_terminal_run by blast
  have c: "closedPlain v mq_keys \<or> closedPlain v (mq_keys @ [''choice_id''])" "mem v ''producer'' = js ''model_tool''"
    "one_of (mem v ''disposition'') [''answered'', ''declined'', ''expired'', ''cancelled'']"
    using h closedOwn_closedPlain [OF mq_keys_distinct(1) assms(1)] closedOwn_closedPlain [OF mq_keys_distinct(2) assms(1)]
    by (auto simp: terminal_header_def copy_eqs split: if_splits)
  have "ending_keys Question_expired = mq_keys" "ending_keys (Chosen [] [] [] []) = mq_keys @ [''choice_id'']"
    by (simp_all add: ending_keys_def)
  with c(1) obtain en0 where c0: "closedPlain v (ending_keys en0)" by metis
  from p obtain x where x: "interaction_ok x" "spells_interaction e x (terminal_question v)"
    "p = with_members (terminal_question v) (interaction_members (\<not> e) x)" unfolding open_project_iff by blast
  then have a: "asked_ok x" "spells_asked e x v" using ended_question [OF c0 c(2)] by blast+
  have kind: "mem v ''interaction_kind'' = js (if in_text x then ''text'' else ''choice'')"
    using a(2) by (simp add: spells_asked_def)
  from ev obtain en where en: "ended_by e x v en" "ev = ending_members (\<not> e) en"
    unfolding terminal_evidence_iff [OF a(1) kind asked_choices [OF a(1) x(3,2)] c(3)] by blast
  then have d: "mem v ''disposition'' = js (ending_name en)" "ending_ok x en" "spells_ending e en v"
    by (simp_all add: ended_by_def)
  from s obtain n where n: "nat_ok 1 (Some u64) n" "mem v ''settlement_sequence'' = nat_at e n" "s = nat_at (\<not> e) n"
    unfolding settlement_iff by blast
  have "r = ended_result p (ending_name en) (nat_at (\<not> e) n) (ending_members (\<not> e) en)"
    using r d(1) n(3) en(2) by (simp add: ended_result_def)
  moreover have "spells_interaction (\<not> e) x p" using spells_converted [OF x(1,2)] x(3) by simp
  ultimately have "spells_ended (\<not> e) x en n r" using ended_result_spells [OF a(1) _ n(1)] by simp
  moreover have "spells_ended e x en n v"
    using h ended_header [OF assms(1) d(2,1) kind] a d n by (simp add: spells_ended_def)
  ultimately show ?thesis using a(1) d(2) n(1) by blast
qed

lemma mq_terminal_complete:
  assumes "distinct (ownKeys v)" "asked_ok x" "ending_ok x en" "nat_ok 1 (Some u64) n" "spells_ended e x en n v"
  shows "\<exists>r. mq_terminal v e = Some r \<and> spells_ended (\<not> e) x en n r"
proof -
  have v: "closedPlain v (ending_keys en)" "mem v ''status'' = js (ending_name en)" "mem v ''disposition'' = js (ending_name en)"
    "spells_asked e x v" "spells_ending e en v" "mem v ''settlement_sequence'' = nat_at e n"
    using assms(5) by (simp_all add: spells_ended_def)
  have kind: "mem v ''interaction_kind'' = js (if in_text x then ''text'' else ''choice'')"
    and prod: "mem v ''producer'' = js ''model_tool''"
    using v(4) by (simp_all add: spells_asked_def)
  have h: "terminal_header v" using ended_header [OF assms(1,3) v(3) kind] v prod by simp
  have x: "interaction_ok x" "spells_interaction e x (terminal_question v)"
    using ended_question [OF v(1) prod] assms(2) v(4) by blast+
  let ?p = "with_members (terminal_question v) (interaction_members (\<not> e) x)"
  have disp: "one_of (mem v ''disposition'') [''answered'', ''declined'', ''expired'', ''cancelled'']"
    using v(3) by (cases en) auto
  have "terminal_evidence v e ?p = Some (ending_members (\<not> e) en)"
    unfolding terminal_evidence_iff [OF assms(2) kind asked_choices [OF assms(2) refl x(2)] disp]
    using v assms(3) by (auto simp: ended_by_def)
  moreover have "settlement (mem v ''settlement_sequence'') e = Some (nat_at (\<not> e) n)"
    unfolding settlement_iff using v(6) assms(4) by blast
  ultimately have "mq_terminal v e = Some (ended_result ?p (ending_name en) (nat_at (\<not> e) n) (ending_members (\<not> e) en))"
    unfolding mq_terminal_run using h open_project_complete [OF x] v(3) by (auto simp: ended_result_def)
  then show ?thesis using ended_result_spells [OF assms(2) spells_converted [OF x] assms(4)] by blast
qed

section \<open>Properties\<close>

text \<open>C26. An ended model question converts and comes back: encoding a native ending gives a wire ending of the same question, the same
  disposition, evidence and settlement sequence, and decoding that gives them again.\<close>

theorem question_ending_converts:
  assumes "distinct (ownKeys v)" "encodeModelQuestionTerminal v = Some w"
  shows "\<exists>x en n v'. asked_ok x \<and> ending_ok x en \<and> spells_ended True x en n v \<and> spells_ended False x en n w \<and>
    decodeModelQuestionTerminal w = Some v' \<and> spells_ended True x en n v'"
proof -
  from mq_terminal_sound [OF assms(1)] assms(2) obtain x en n where x: "asked_ok x" "ending_ok x en" "nat_ok 1 (Some u64) n"
      "spells_ended True x en n v" "spells_ended False x en n w"
    unfolding encodeModelQuestionTerminal_def by fastforce
  have "distinct (ownKeys w)" using x(5) closedPlain_keys [OF _ ending_keys_distinct] by (auto simp: spells_ended_def)
  from mq_terminal_complete [OF this x(1-3,5)] x show ?thesis unfolding decodeModelQuestionTerminal_def by auto
qed

definition sample_expired :: jsval where
  "sample_expired = obj [(''interaction_id'', id_at True [1]), (''run_id'', id_at True [2]), (''turn'', nat_at True 1),
     (''tool_call_id'', id_at True [3]), (''status'', js ''expired''), (''prompt'', js ''p''), (''choices'', arr []),
     (''expires_at'', nat_at True 9), (''producer'', js ''model_tool''), (''interaction_kind'', js ''text''), (''answer'', Null),
     (''command_digest'', Null), (''command_id'', Null), (''disposition'', js ''expired''), (''settlement_sequence'', nat_at True 7)]"

theorem question_ending_converts_witness:
  "\<exists>w v'. encodeModelQuestionTerminal sample_expired = Some w \<and> decodeModelQuestionTerminal w = Some v'"
proof -
  let ?x = "\<lparr>in_id = [1], in_run = [2], in_turn = 1, in_call = [3], in_prompt = lit ''p'', in_choices = [], in_expires = 9,
    in_model = True, in_text = True, in_answer = None\<rparr>"
  have d: "distinct (ownKeys sample_expired)" by (simp add: sample_expired_def member_simps)
  have "asked_ok ?x" by (simp add: asked_ok_def interaction_ok_def id_ok_def text_within_def byteLength_lit)
  moreover have "spells_ended True ?x Question_expired 7 sample_expired"
    by (simp add: spells_ended_def spells_asked_def sample_expired_def ending_keys_def mq_keys_def mq_captures_def member_simps)
  ultimately obtain w where w: "encodeModelQuestionTerminal sample_expired = Some w"
    using mq_terminal_complete [OF d, of ?x Question_expired 7 True] unfolding encodeModelQuestionTerminal_def
    by (auto simp: nat_ok_def)
  from question_ending_converts [OF d w] w show ?thesis by blast
qed

end
