(* ===== verification/JSON_Text.thy ===== *)
theory JSON_Text
  imports Inert_Objects
begin

text \<open>
  \<open>JSON.stringify\<close> without a replacer or indentation, as the sources use it: the text of a value,
  or \<open>None\<close> where it throws (a BigInt anywhere inside).  Members that are \<open>undefined\<close> or
  functions are left out of objects and become \<open>null\<close> in arrays; a \<open>Buffer\<close> serialises as the
  object its \<open>toJSON\<close> returns.
\<close>

definition hex_char :: "nat \<Rightarrow> code_unit" where
  "hex_char n = of_nat (if n < 10 then 48 + n else 87 + n)"

definition unicode_escape :: "code_unit \<Rightarrow> ustring" where
  "unicode_escape u = lit [CHR 0x5C, CHR ''u''] @
     [hex_char (unat u div 4096), hex_char (unat u div 256 mod 16), hex_char (unat u div 16 mod 16), hex_char (unat u mod 16)]"

definition escape_unit :: "code_unit \<Rightarrow> ustring" where
  "escape_unit u =
     (if unat u = 8 then lit [CHR 0x5C, CHR ''b''] else if unat u = 9 then lit [CHR 0x5C, CHR ''t'']
      else if unat u = 10 then lit [CHR 0x5C, CHR ''n''] else if unat u = 12 then lit [CHR 0x5C, CHR ''f'']
      else if unat u = 13 then lit [CHR 0x5C, CHR ''r''] else if unat u = 34 then lit [CHR 0x5C, CHR 0x22]
      else if unat u = 92 then lit [CHR 0x5C, CHR 0x5C] else if unat u < 32 then unicode_escape u
      else [u])"

fun quote_body :: "ustring \<Rightarrow> ustring" where
  "quote_body [] = []"
| "quote_body [u] = (if is_high u \<or> is_low u then unicode_escape u else escape_unit u)"
| "quote_body (u # v # s) =
     (if is_high u \<and> is_low v then u # v # quote_body s
      else (if is_high u \<or> is_low u then unicode_escape u else escape_unit u) @ quote_body (v # s))"

definition quote :: "ustring \<Rightarrow> ustring" where
  "quote s = [34] @ quote_body s @ [34]"

fun join :: "ustring \<Rightarrow> ustring list \<Rightarrow> ustring" where
  "join sep [] = []"
| "join sep [s] = s"
| "join sep (s # t # r) = s @ sep @ join sep (t # r)"

fun all_some :: "'a option list \<Rightarrow> 'a list option" where
  "all_some [] = Some []"
| "all_some (None # r) = None"
| "all_some (Some x # r) = map_option (\<lambda>xs. x # xs) (all_some r)"

fun omitted :: "jsval \<Rightarrow> bool" where
  "omitted Undefined = True"
| "omitted Func = True"
| "omitted _ = False"

definition number_text :: "string \<Rightarrow> ustring" where
  "number_text s = (if s \<in> {''NaN'', ''Infinity'', ''-Infinity''} then lit ''null'' else lit s)"

definition array_text :: "ustring list \<Rightarrow> ustring" where
  "array_text xs = [91] @ join [44] xs @ [93]"

definition object_text :: "(ustring \<times> ustring) list \<Rightarrow> ustring" where
  "object_text ms = [123] @ join [44] (map (\<lambda>(k, t). quote k @ [58] @ t) ms) @ [125]"

definition buffer_text :: "bytes \<Rightarrow> ustring" where
  "buffer_text bs = object_text [(lit ''type'', quote (lit ''Buffer'')),
     (lit ''data'', array_text (map (\<lambda>b. dec (unat b)) bs))]"

text \<open>The members of an object that are serialised: enumerable string keys with a value that is not omitted\<close>

fun stringify :: "jsval \<Rightarrow> ustring option" where
  "stringify Null = Some (lit ''null'')"
| "stringify (Boolean b) = Some (lit (if b then ''true'' else ''false''))"
| "stringify (Number n) = Some (int_text n)"
| "stringify (NonInt s) = Some (number_text s)"
| "stringify (BigInt i) = None"
| "stringify (Str s) = Some (quote s)"
| "stringify (Buf bs) = Some (buffer_text bs)"
| "stringify Undefined = Some (lit ''null'')"
| "stringify Func = Some (lit ''null'')"
| "stringify (Arr p sl ex) = map_option array_text (all_some (map (\<lambda>s. case s of
       None \<Rightarrow> Some (lit ''null'')
     | Some (Data e x) \<Rightarrow> stringify x
     | Some (Accessor e x) \<Rightarrow> stringify x) sl))"
| "stringify (Obj p ps) = map_option object_text (all_some (concat (map (\<lambda>kq. case kq of
       (SKey k, Data e x) \<Rightarrow> if e \<and> \<not> omitted x then [map_option (Pair k) (stringify x)] else []
     | (SKey k, Accessor e x) \<Rightarrow> if e \<and> \<not> omitted x then [map_option (Pair k) (stringify x)] else []
     | (Sym n, q) \<Rightarrow> []) ps)))"

text \<open>Text without surrogates, quotes, backslashes and control characters is its own quotation.\<close>

definition plain_unit :: "code_unit \<Rightarrow> bool" where
  "plain_unit u \<longleftrightarrow> 32 \<le> unat u \<and> unat u \<noteq> 34 \<and> unat u \<noteq> 92 \<and> unat u < 128"

lemma plain_unit_no_surrogate: "plain_unit u \<Longrightarrow> \<not> is_high u \<and> \<not> is_low u"
  by (auto simp: plain_unit_def is_high_def is_low_def)

lemma plain_text_well_formed: "list_all plain_unit s \<Longrightarrow> isWellFormed s"
  by (induction s rule: isWellFormed.induct) (auto dest: plain_unit_no_surrogate)

lemma escape_plain: "plain_unit u \<Longrightarrow> escape_unit u = [u]"
  by (auto simp: plain_unit_def escape_unit_def)

lemma quote_body_plain: "list_all plain_unit s \<Longrightarrow> quote_body s = s"
  by (induction s rule: quote_body.induct) (auto dest: plain_unit_no_surrogate simp: escape_plain)

lemma dec_plain: "list_all plain_unit (dec n)"
  using dec_digits [of n] by (auto simp: list_all_iff is_digit_def plain_unit_def)

lemma b64url_plain: "list_all plain_unit (b64url bs)"
  using b64url_chars [of bs] by (auto simp: list_all_iff is_b64_def plain_unit_def)

lemma dec_well_formed [simp]: "isWellFormed (dec n)"
  by (rule plain_text_well_formed [OF dec_plain])

lemma b64url_well_formed [simp]: "isWellFormed (b64url bs)"
  by (rule plain_text_well_formed [OF b64url_plain])

end
