(* ===== verification/Policy_Interaction.thy ===== *)
theory Policy_Interaction
  imports Open_Interaction JSON_Text
begin

text \<open>
  \<open>clients/node/policy-interaction-event.mjs\<close>: a policy question as it is requested and as it
  ends.  The native side holds identities as buffers and the resolution; the wire side holds the
  status and never the reason.
\<close>

definition requestKeys :: "string list" where
  "requestKeys = [''interaction_id'', ''run_id'', ''turn'', ''tool_call_id'', ''prompt'', ''choices'', ''expires_at'']"

definition wireRequestKeys :: "string list" where
  "wireRequestKeys = requestKeys @ [''producer'', ''interaction_kind'', ''status'']"

definition terminalKeys :: "string list" where
  "terminalKeys = [''interaction_id'', ''run_id'', ''turn'', ''tool_call_id'', ''resolution'', ''answer_command_id'']"

definition wireTerminalKeys :: "string list" where
  "wireTerminalKeys = [''interaction_id'', ''run_id'', ''turn'', ''tool_call_id'', ''producer'', ''interaction_kind'', ''status'',
     ''answer_choice_id'', ''answer_command_id'']"

definition statuses :: "(string \<times> (string \<times> string) list) list" where
  "statuses = [(''interaction.resolved'', [(''allowed'', ''answered''), (''denied'', ''denied'')]),
     (''interaction.expired'', [(''expired'', ''expired'')]), (''interaction.cancelled'', [(''cancelled'', ''cancelled'')])]"

definition outputRecordBytes :: nat where
  "outputRecordBytes = 2097152"

definition bounded :: "jsval \<Rightarrow> bool" where
  "bounded value = (case stringify value of Some s \<Rightarrow> byteLength s + 1 \<le> outputRecordBytes | None \<Rightarrow> False)"

definition pi_plain :: "jsval \<Rightarrow> bool" where
  "pi_plain value \<longleftrightarrow> isObject value \<and> plainProto value \<and>
     list_all (\<lambda>(k, p). string_key k \<and> is_data p \<and> enumerable p) (own_props value)"

definition pi_closed :: "jsval \<Rightarrow> string list \<Rightarrow> bool" where
  "pi_closed value keys \<longleftrightarrow> pi_plain value \<and> length (objectKeys value) = length keys \<and> list_all (hasOwn value) keys"

definition pi_dense :: "jsval \<Rightarrow> bool" where
  "pi_dense value \<longleftrightarrow> isArray value \<and> arrayProto value \<and> length (elements value) \<le> 8 \<and>
     length (ownKeys value) = length (elements value) + 1 \<and>
     list_all (\<lambda>(k, p). k = SKey (lit ''length'') \<or>
       (case k of SKey s \<Rightarrow> canonical_decimal s \<and> decimal_value s < length (elements value) | Sym m \<Rightarrow> False)
       \<and> is_data p \<and> enumerable p) (own_props value)"

definition textScalar :: "jsval \<Rightarrow> bool" where
  "textScalar value = (case value of Str s \<Rightarrow> utf8_decode (utf8 s) = s | _ \<Rightarrow> False)"

definition requestJSON :: "jsval \<Rightarrow> bool" where
  "requestJSON value \<longleftrightarrow>
     list_all (\<lambda>key. textScalar (mem value key)) (filter (\<lambda>key. key \<noteq> ''choices'') wireRequestKeys) \<and>
     pi_dense (mem value ''choices'') \<and> 1 \<le> length (elements (mem value ''choices'')) \<and>
     length (elements (mem value ''choices'')) \<le> 8 \<and>
     list_all (\<lambda>choice. pi_closed choice [''id'', ''label''] \<and> textScalar (mem choice ''id'') \<and> textScalar (mem choice ''label''))
       (elements (mem value ''choices''))"

definition pi_identity :: "jsval \<Rightarrow> nat \<Rightarrow> bool \<Rightarrow> jsval option" where
  "pi_identity value maximum encode =
     (if encode then
        (case value of Buf b \<Rightarrow> if 1 \<le> length b \<and> length b \<le> maximum then Some (Str (b64url b)) else None
         | _ \<Rightarrow> None)
      else case value of
        Str s \<Rightarrow> if 87382 < length s \<or> \<not> b64_text s then None
          else let bytes = b64url_decode s in
            if 1 \<le> length bytes \<and> length bytes \<le> maximum \<and> b64url bytes = s then Some (Buf bytes) else None
      | _ \<Rightarrow> None)"

section \<open>The requested question\<close>

definition encodePolicyRequested :: "jsval \<Rightarrow> jsval option" where
  "encodePolicyRequested value =
     (if \<not> pi_closed value requestKeys then None
      else case encodeOpenInteraction (with_members (spread value)
          [(''producer'', js ''policy_defer''), (''kind'', js ''choice''), (''status'', js ''pending'')]) of
        None \<Rightarrow> None
      | Some projected \<Rightarrow>
          let wire = deletem ''kind'' (with_members (spread projected) [(''interaction_kind'', js ''choice'')]) in
          if bounded wire then Some wire else None)"

definition decodePolicyRequested :: "jsval \<Rightarrow> jsval option" where
  "decodePolicyRequested value =
     (if \<not> pi_closed value wireRequestKeys \<or> mem value ''producer'' \<noteq> js ''policy_defer'' \<or>
         mem value ''interaction_kind'' \<noteq> js ''choice'' \<or> mem value ''status'' \<noteq> js ''pending'' \<or>
         \<not> requestJSON value \<or> \<not> bounded value then None
      else map_option (\<lambda>projected. obj (map (\<lambda>key. (key, mem projected key)) requestKeys))
        (decodeOpenInteraction (deletem ''interaction_kind'' (with_members (spread value) [(''kind'', js ''choice'')]))))"

section \<open>The terminal question\<close>

definition pair :: "jsval \<Rightarrow> jsval \<Rightarrow> jsval \<Rightarrow> bool" where
  "pair status choice command =
     (if one_of status [''answered'', ''denied''] then choice \<noteq> Null \<and> command \<noteq> Null
      else one_of status [''expired'', ''cancelled''] \<and> (choice = Null \<longleftrightarrow> command = Null))"

definition terminal_turn :: "jsval \<Rightarrow> bool \<Rightarrow> jsval option" where
  "terminal_turn value encode =
     (if encode then (case value of BigInt i \<Rightarrow> if i \<le> 0 then None else Some (Str (int_text i)) | _ \<Rightarrow> None)
      else case value of Str s \<Rightarrow> if positive_decimal s then Some (big (decimal_value s)) else None | _ \<Rightarrow> None)"

fun scalar_loop :: "bool \<Rightarrow> (string \<times> jsval) list \<Rightarrow> jsval \<Rightarrow> jsval option" where
  "scalar_loop encode [] result = Some result"
| "scalar_loop encode ((key, member) # rest) result =
     (let optional = key = ''answer_choice_id'' \<or> key = ''answer_command_id'' in
      if member = Null \<and> optional then scalar_loop encode rest (setm key Null result)
      else case pi_identity member (if key = ''answer_choice_id'' then 64 else 65536) encode of
        None \<Rightarrow> None
      | Some scalar \<Rightarrow> scalar_loop encode rest (setm key scalar result))"

definition terminalScalars :: "jsval \<Rightarrow> jsval \<Rightarrow> bool \<Rightarrow> jsval option" where
  "terminalScalars value choice encode = do {
     turn \<leftarrow> terminal_turn (mem value ''turn'') encode;
     scalar_loop encode [(''interaction_id'', mem value ''interaction_id''), (''run_id'', mem value ''run_id''),
       (''tool_call_id'', mem value ''tool_call_id''), (''answer_command_id'', mem value ''answer_command_id''),
       (''answer_choice_id'', choice)] (obj [(''turn'', turn)])
   }"

text \<open>\<open>Object.hasOwn(statuses, kind)\<close> with \<open>kind\<close> a string, and \<open>statuses[kind]\<close>\<close>

definition status_row :: "jsval \<Rightarrow> (string \<times> string) list option" where
  "status_row kind = (case kind of Str k \<Rightarrow> map_of (map (\<lambda>(s, x). (lit s, x)) statuses) k | _ \<Rightarrow> None)"

definition resolution_status :: "(string \<times> string) list \<Rightarrow> jsval \<Rightarrow> string option" where
  "resolution_status row resolution = (case resolution of
     Str s \<Rightarrow> map_of (map (\<lambda>(k, x). (lit k, x)) row) s | _ \<Rightarrow> None)"

definition native_shape :: "jsval \<Rightarrow> bool" where
  "native_shape value \<longleftrightarrow> pi_plain value \<and>
     (let keys = terminalKeys @ (if hasOwn value ''choice_id'' then [''choice_id''] else []) @
        (if hasOwn value ''reason'' then [''reason''] else []) in pi_closed value keys) \<and>
     (hasOwn value ''reason'' \<longrightarrow> (case mem value ''reason'' of Buf b \<Rightarrow> length b \<le> 65536 | _ \<Rightarrow> False)) \<and>
     (if mem value ''answer_command_id'' = Null then \<not> hasOwn value ''choice_id''
      else hasOwn value ''choice_id'' \<and> mem value ''choice_id'' \<noteq> Null)"

definition encodePolicyTerminal :: "jsval \<Rightarrow> jsval \<Rightarrow> jsval option" where
  "encodePolicyTerminal kind value =
     (case status_row kind of None \<Rightarrow> None | Some row \<Rightarrow>
        if \<not> native_shape value then None
        else case resolution_status row (mem value ''resolution'') of None \<Rightarrow> None | Some status \<Rightarrow>
          let choice = (if mem value ''answer_command_id'' = Null then Null else mem value ''choice_id'') in
          if \<not> pair (js status) choice (mem value ''answer_command_id'') then None
          else do {
            scalars \<leftarrow> terminalScalars value choice True;
            (let wire = with_members (spread scalars) [(''producer'', js ''policy_defer''), (''interaction_kind'', js ''choice''),
                (''status'', js status)] in if bounded wire then Some wire else None)
          })"

definition wire_shape :: "jsval \<Rightarrow> bool" where
  "wire_shape value \<longleftrightarrow>
     list_all (\<lambda>key. textScalar (mem value key))
       (filter (\<lambda>key. key \<notin> {''answer_choice_id'', ''answer_command_id''}) wireTerminalKeys) \<and>
     list_all (\<lambda>key. mem value key = Null \<or> textScalar (mem value key)) [''answer_choice_id'', ''answer_command_id''] \<and>
     bounded value"

definition decodePolicyTerminal :: "jsval \<Rightarrow> jsval \<Rightarrow> jsval option" where
  "decodePolicyTerminal kind value =
     (if \<not> pi_closed value wireTerminalKeys \<or> mem value ''producer'' \<noteq> js ''policy_defer'' \<or>
         mem value ''interaction_kind'' \<noteq> js ''choice'' then None
      else case status_row kind of None \<Rightarrow> None | Some row \<Rightarrow>
        case find (\<lambda>(resolution, status). js status = mem value ''status'') row of None \<Rightarrow> None
        | Some (resolution, status) \<Rightarrow>
          if \<not> pair (mem value ''status'') (mem value ''answer_choice_id'') (mem value ''answer_command_id'') \<or>
             \<not> wire_shape value then None
          else do {
            scalars \<leftarrow> terminalScalars value (mem value ''answer_choice_id'') False;
            (let native = deletem ''answer_choice_id'' (with_members (spread scalars) [(''resolution'', js resolution)]) in
             Some (if mem scalars ''answer_choice_id'' \<noteq> Null
               then setm ''choice_id'' (mem scalars ''answer_choice_id'') native else native))
          })"

section \<open>Typed view of a request\<close>

definition policy_ok :: "interaction \<Rightarrow> bool" where
  "policy_ok x \<longleftrightarrow> interaction_ok x \<and> \<not> in_model x \<and> \<not> in_text x \<and> in_answer x = None"

definition spells_policy :: "bool \<Rightarrow> interaction \<Rightarrow> jsval \<Rightarrow> bool" where
  "spells_policy native x v \<longleftrightarrow> mem v ''prompt'' = Str (in_prompt x) \<and>
     mem v ''interaction_id'' = id_at native (in_id x) \<and> mem v ''run_id'' = id_at native (in_run x) \<and>
     mem v ''tool_call_id'' = id_at native (in_call x) \<and> mem v ''turn'' = nat_at native (in_turn x) \<and>
     mem v ''expires_at'' = nat_at native (in_expires x) \<and>
     denseArray 8 (mem v ''choices'') \<and> list_all2 (spells_choice native) (in_choices x) (elements (mem v ''choices''))"

definition policy_native :: "interaction \<Rightarrow> jsval \<Rightarrow> bool" where
  "policy_native x v \<longleftrightarrow> closedPlain v requestKeys \<and> spells_policy True x v"

definition policy_wire :: "interaction \<Rightarrow> jsval \<Rightarrow> bool" where
  "policy_wire x v \<longleftrightarrow> closedPlain v wireRequestKeys \<and> mem v ''producer'' = js ''policy_defer'' \<and>
     mem v ''interaction_kind'' = js ''choice'' \<and> mem v ''status'' = js ''pending'' \<and> spells_policy False x v"

section \<open>Lemmas\<close>

lemma pi_plain_eq [copy_eqs]: "pi_plain = plainData"
  by (simp add: fun_eq_iff pi_plain_def plainData_def)

lemma pi_closed_eq [copy_eqs]: "pi_closed = closedPlain"
  by (simp add: fun_eq_iff pi_closed_def closedPlain_def copy_eqs)

lemma pi_dense_eq [copy_eqs]: "pi_dense = denseArray 8"
  by (simp add: fun_eq_iff pi_dense_def denseArray_def)

lemma pi_identity_eq [copy_eqs]: "pi_identity = open_identity"
  by (simp add: fun_eq_iff pi_identity_def open_identity_def)

lemma textScalar_Str [simp]: "textScalar (Str s) = isWellFormed s"
  by (simp add: textScalar_def)

lemma request_keys_distinct [simp]: "distinct requestKeys" "distinct wireRequestKeys" "distinct wireTerminalKeys"
  by (simp_all add: requestKeys_def wireRequestKeys_def wireTerminalKeys_def)

lemma wire_id_scalar [simp]: "textScalar (id_at False b)" "textScalar (nat_at False n)"
  by (simp_all add: id_at_def nat_at_def)

lemma choices_ok_labels: "choices_ok model seen cs \<Longrightarrow> (b, l) \<in> set cs \<Longrightarrow> text_within 1 256 (Str l)"
  by (induction model seen cs rule: choices_ok.induct) auto

lemma text_within_wf: "text_within lo hi (Str s) \<Longrightarrow> isWellFormed s"
  by (simp add: text_within_def)

lemma policy_wire_json:
  assumes "policy_ok x" "policy_wire x v"
  shows "requestJSON v"
proof -
  have ok: "interaction_ok x" "in_choices x \<noteq> []" using assms(1) by (auto simp: policy_ok_def interaction_ok_def)
  then have co: "choices_ok (in_model x) [] (in_choices x)" "text_within 1 2048 (Str (in_prompt x))"
    unfolding interaction_ok_def by blast+
  have s: "spells_policy False x v" using assms(2) by (simp add: policy_wire_def)
  then have l2: "list_all2 (spells_choice False) (in_choices x) (elements (mem v ''choices''))"
    and dn: "denseArray 8 (mem v ''choices'')" by (simp_all add: spells_policy_def)
  have each: "closedPlain y [''id'', ''label''] \<and> textScalar (mem y ''id'') \<and> textScalar (mem y ''label'')"
    if y: "y \<in> set (elements (mem v ''choices''))" for y
  proof -
    obtain i where "i < length (elements (mem v ''choices''))" "y = elements (mem v ''choices'') ! i"
      using y by (auto simp: in_set_conv_nth)
    then obtain c where c: "c \<in> set (in_choices x)" "spells_choice False c y"
      using l2 by (metis list_all2_conv_all_nth nth_mem)
    then have "text_within 1 256 (Str (snd c))" using choices_ok_labels [OF co(1), of "fst c" "snd c"] by simp
    with c(2) show ?thesis by (simp add: spells_choice_def text_within_wf)
  qed
  have len: "length (elements (mem v ''choices'')) = length (in_choices x)" using l2 by (simp add: list_all2_lengthD)
  have lits: "isWellFormed (lit ''policy_defer'')" "isWellFormed (lit ''choice'')" "isWellFormed (lit ''pending'')"
    by simp_all
  have scal: "list_all (\<lambda>key. textScalar (mem v key)) (filter (\<lambda>key. key \<noteq> ''choices'') wireRequestKeys)"
    using s assms(2) lits text_within_wf [OF co(2)]
    by (simp add: wireRequestKeys_def requestKeys_def spells_policy_def policy_wire_def)
  have "1 \<le> length (in_choices x)" "length (in_choices x) \<le> 8" using ok by (auto simp: interaction_ok_def Suc_le_eq)
  then show ?thesis unfolding requestJSON_def copy_eqs using scal dn len each by (simp add: list_all_iff)
qed

lemma policy_question:
  assumes "closedPlain q open_keys" "mem q ''kind'' = js ''choice''" "mem q ''status'' = js ''pending''"
    "mem q ''producer'' = js ''policy_defer''" "\<And>k. k \<in> set requestKeys \<Longrightarrow> mem q k = mem v k"
  shows "interaction_ok x \<and> spells_interaction e x q \<longleftrightarrow> policy_ok x \<and> spells_policy e x v"
proof -
  have m: "mem q ''prompt'' = mem v ''prompt''"
    "mem q ''interaction_id'' = mem v ''interaction_id''" "mem q ''run_id'' = mem v ''run_id''"
    "mem q ''tool_call_id'' = mem v ''tool_call_id''" "mem q ''turn'' = mem v ''turn''"
    "mem q ''expires_at'' = mem v ''expires_at''" "mem q ''choices'' = mem v ''choices''"
    by (simp_all add: assms(5) requestKeys_def)
  show ?thesis
    using assms(1-4) m
    by (cases "in_answer x") (auto simp: spells_interaction_def spells_policy_def policy_ok_def interaction_keys_def)
qed

lemma request_names:
  "set open_keys = {''producer'', ''kind'', ''status''} \<union> set requestKeys"
  "set wireRequestKeys = insert ''interaction_kind'' (set open_keys) - {''kind''}"
  "k \<in> set requestKeys \<Longrightarrow> k \<notin> {''producer'', ''kind'', ''status'', ''interaction_kind''}"
  by (auto simp: open_keys_def requestKeys_def wireRequestKeys_def)

lemma open_keys_distinct [simp]: "distinct open_keys"
  by (simp add: open_keys_def)

lemma encode_question:
  assumes "closedPlain v requestKeys"
  defines "q \<equiv> with_members (spread v) [(''producer'', js ''policy_defer''), (''kind'', js ''choice''), (''status'', js ''pending'')]"
  shows "interaction_ok x \<and> spells_interaction True x q \<longleftrightarrow> policy_ok x \<and> spells_policy True x v"
proof (rule policy_question)
  have v: "inertObj v" "named v" "names v = set requestKeys" using assms(1) by (simp_all add: closedPlain_iff)
  have s: "spread v = v" using v(1) by (rule inert_spread)
  show "closedPlain q open_keys"
    using v by (simp add: closedPlain_iff q_def s request_names(1) insert_commute)
  show "mem q ''kind'' = js ''choice''" "mem q ''status'' = js ''pending''" "mem q ''producer'' = js ''policy_defer''"
    using v(1) by (simp_all add: q_def s)
  show "mem q k = mem v k" if "k \<in> set requestKeys" for k
    using v(1) request_names(3) [OF that] by (simp add: q_def s)
qed

lemma decode_question:
  assumes "closedPlain v wireRequestKeys" "mem v ''producer'' = js ''policy_defer''" "mem v ''status'' = js ''pending''"
  defines "q \<equiv> deletem ''interaction_kind'' (with_members (spread v) [(''kind'', js ''choice'')])"
  shows "interaction_ok x \<and> spells_interaction False x q \<longleftrightarrow> policy_ok x \<and> spells_policy False x v"
proof (rule policy_question)
  have v: "inertObj v" "named v" "names v = set wireRequestKeys" using assms(1) by (simp_all add: closedPlain_iff)
  have s: "spread v = v" using v(1) by (rule inert_spread)
  have ik: "''interaction_kind'' \<notin> set open_keys" "''kind'' \<in> set open_keys" by (simp_all add: open_keys_def)
  have "names q = insert ''kind'' (set wireRequestKeys) - {''interaction_kind''}" using v by (simp add: q_def s)
  also have "\<dots> = set open_keys" unfolding request_names(2) using ik by auto
  finally show "closedPlain q open_keys" using v by (simp add: closedPlain_iff q_def s)
  show "mem q ''kind'' = js ''choice''" "mem q ''status'' = js ''pending''" "mem q ''producer'' = js ''policy_defer''"
    using v(1) assms(2,3) by (simp_all add: q_def s)
  show "mem q k = mem v k" if "k \<in> set requestKeys" for k
    using v(1) request_names(3) [OF that] by (simp add: q_def s)
qed

lemma policy_result:
  assumes "policy_ok x" "spells_interaction n x p"
  shows "inertObj p" "named p" "names p = set open_keys" "mem p ''status'' = js ''pending''"
    "mem p ''producer'' = js ''policy_defer''" "spells_policy n x p"
  using assms by (auto simp: spells_interaction_def policy_ok_def interaction_keys_def closedPlain_iff spells_policy_def)

lemma spells_policy_cong:
  assumes "\<And>k. k \<in> set requestKeys \<Longrightarrow> mem w k = mem v k"
  shows "spells_policy n x w \<longleftrightarrow> spells_policy n x v"
proof -
  have "mem w ''prompt'' = mem v ''prompt''"
    "mem w ''interaction_id'' = mem v ''interaction_id''" "mem w ''run_id'' = mem v ''run_id''"
    "mem w ''tool_call_id'' = mem v ''tool_call_id''" "mem w ''turn'' = mem v ''turn''"
    "mem w ''expires_at'' = mem v ''expires_at''" "mem w ''choices'' = mem v ''choices''"
    by (simp_all add: assms requestKeys_def)
  then show ?thesis by (simp add: spells_policy_def)
qed

lemma encoded_policy_wire:
  assumes "policy_ok x" "spells_interaction False x p"
  shows "policy_wire x (deletem ''kind'' (with_members (spread p) [(''interaction_kind'', js ''choice'')]))" (is "policy_wire x ?w")
proof -
  note p = policy_result [OF assms]
  have s: "spread p = p" using p(1) by (rule inert_spread)
  have c: "closedPlain ?w wireRequestKeys"
    using p(1-3) by (simp add: closedPlain_iff s request_names(2))
  have "spells_policy False x ?w \<longleftrightarrow> spells_policy False x p"
  proof (rule spells_policy_cong)
    show "mem ?w k = mem p k" if "k \<in> set requestKeys" for k
      using p(1) request_names(3) [OF that] by (simp add: s)
  qed
  with c p show ?thesis by (simp add: policy_wire_def s)
qed

lemma decoded_policy_native:
  assumes "policy_ok x" "spells_interaction True x p"
  shows "policy_native x (obj (map (\<lambda>key. (key, mem p key)) requestKeys))" (is "policy_native x ?v")
proof -
  have "spells_policy True x ?v \<longleftrightarrow> spells_policy True x p"
    by (rule spells_policy_cong) (auto simp: member_simps map_of_map_keys requestKeys_def)
  moreover have "closedPlain ?v requestKeys" by (simp add: member_simps list_all_iff requestKeys_def)
  ultimately show ?thesis using policy_result [OF assms] by (simp add: policy_native_def)
qed

lemma encodePolicyRequested_sound:
  assumes "encodePolicyRequested v = Some w"
  shows "\<exists>x. policy_ok x \<and> policy_native x v \<and> policy_wire x w \<and> bounded w"
proof -
  let ?q = "with_members (spread v) [(''producer'', js ''policy_defer''), (''kind'', js ''choice''), (''status'', js ''pending'')]"
  from assms obtain p where c: "closedPlain v requestKeys" and p: "open_project ?q True = Some p" and b: "bounded w"
    and w: "w = deletem ''kind'' (with_members (spread p) [(''interaction_kind'', js ''choice'')])"
    by (auto simp: encodePolicyRequested_def copy_eqs encodeOpenInteraction_def Let_def split: if_splits option.splits)
  from p obtain x where x: "interaction_ok x" "spells_interaction True x ?q" "p = with_members ?q (interaction_members False x)"
    unfolding open_project_iff by auto
  then have o: "policy_ok x" "spells_policy True x v" using encode_question [OF c] by blast+
  have "spells_interaction False x p" using spells_converted [OF x(1,2)] x(3) by simp
  with o c b w encoded_policy_wire show ?thesis unfolding policy_native_def by blast
qed

lemma encodePolicyRequested_complete:
  assumes "policy_ok x" "policy_native x v"
  shows "\<exists>w. policy_wire x w \<and> encodePolicyRequested v = (if bounded w then Some w else None)"
proof -
  let ?q = "with_members (spread v) [(''producer'', js ''policy_defer''), (''kind'', js ''choice''), (''status'', js ''pending'')]"
  have c: "closedPlain v requestKeys" and s: "spells_policy True x v" using assms(2) by (simp_all add: policy_native_def)
  have x: "interaction_ok x" "spells_interaction True x ?q" using encode_question [OF c] assms(1) s by blast+
  from open_project_complete [OF x] encoded_policy_wire [OF assms(1) spells_converted [OF x]] c show ?thesis
    by (auto simp: encodePolicyRequested_def copy_eqs encodeOpenInteraction_def Let_def)
qed

lemma decodePolicyRequested_sound:
  assumes "decodePolicyRequested w = Some v"
  shows "\<exists>x. policy_ok x \<and> policy_wire x w \<and> bounded w \<and> policy_native x v"
proof -
  let ?q = "deletem ''interaction_kind'' (with_members (spread w) [(''kind'', js ''choice'')])"
  from assms obtain p where c: "closedPlain w wireRequestKeys" "mem w ''producer'' = js ''policy_defer''"
      "mem w ''status'' = js ''pending''" "mem w ''interaction_kind'' = js ''choice''" "bounded w"
    and p: "open_project ?q False = Some p" and v: "v = obj (map (\<lambda>key. (key, mem p key)) requestKeys)"
    by (auto simp: decodePolicyRequested_def copy_eqs decodeOpenInteraction_def split: if_splits)
  from p obtain x where x: "interaction_ok x" "spells_interaction False x ?q" "p = with_members ?q (interaction_members True x)"
    unfolding open_project_iff by auto
  then have o: "policy_ok x" "spells_policy False x w" using decode_question [OF c(1-3)] by blast+
  have "spells_interaction True x p" using spells_converted [OF x(1,2)] x(3) by simp
  with o c v decoded_policy_native show ?thesis unfolding policy_wire_def by blast
qed

lemma decodePolicyRequested_complete:
  assumes "policy_ok x" "policy_wire x w" "bounded w"
  shows "\<exists>v. decodePolicyRequested w = Some v \<and> policy_native x v"
proof -
  let ?q = "deletem ''interaction_kind'' (with_members (spread w) [(''kind'', js ''choice'')])"
  have c: "closedPlain w wireRequestKeys" "mem w ''producer'' = js ''policy_defer''" "mem w ''status'' = js ''pending''"
    "mem w ''interaction_kind'' = js ''choice''" and s: "spells_policy False x w" using assms(2) by (simp_all add: policy_wire_def)
  have x: "interaction_ok x" "spells_interaction False x ?q" using decode_question [OF c(1-3)] assms(1) s by blast+
  from open_project_complete [OF x] decoded_policy_native [OF assms(1) spells_converted [OF x]] c assms(3)
    policy_wire_json [OF assms(1,2)]
  show ?thesis by (auto simp: decodePolicyRequested_def copy_eqs decodeOpenInteraction_def)
qed

section \<open>Endings\<close>

datatype policy_ending = Allowed | Denied | Policy_expired | Policy_cancelled

fun ending_kind :: "policy_ending \<Rightarrow> string" where
  "ending_kind Allowed = ''interaction.resolved''"
| "ending_kind Denied = ''interaction.resolved''"
| "ending_kind Policy_expired = ''interaction.expired''"
| "ending_kind Policy_cancelled = ''interaction.cancelled''"

fun ending_resolution :: "policy_ending \<Rightarrow> string" where
  "ending_resolution Allowed = ''allowed''"
| "ending_resolution Denied = ''denied''"
| "ending_resolution Policy_expired = ''expired''"
| "ending_resolution Policy_cancelled = ''cancelled''"

fun ending_status :: "policy_ending \<Rightarrow> string" where
  "ending_status Allowed = ''answered''"
| "ending_status Denied = ''denied''"
| "ending_status Policy_expired = ''expired''"
| "ending_status Policy_cancelled = ''cancelled''"

record policy_end =
  po_id :: bytes
  po_run :: bytes
  po_turn :: nat
  po_call :: bytes
  po_answer :: "(bytes \<times> bytes) option"
  po_ending :: policy_ending

definition policy_end_ok :: "policy_end \<Rightarrow> bool" where
  "policy_end_ok p \<longleftrightarrow> id_ok 65536 (po_id p) \<and> id_ok 65536 (po_run p) \<and> 1 \<le> po_turn p \<and> id_ok 65536 (po_call p) \<and>
     (\<forall>c cmd. po_answer p = Some (c, cmd) \<longrightarrow> id_ok 64 c \<and> id_ok 65536 cmd) \<and>
     (po_ending p \<in> {Allowed, Denied} \<longrightarrow> po_answer p \<noteq> None)"

definition end_scalars :: "bool \<Rightarrow> policy_end \<Rightarrow> (string \<times> jsval) list" where
  "end_scalars native p = [(''turn'', nat_at native (po_turn p)), (''interaction_id'', id_at native (po_id p)),
     (''run_id'', id_at native (po_run p)), (''tool_call_id'', id_at native (po_call p)),
     (''answer_command_id'', or_null (id_at native) (map_option snd (po_answer p)))]"

definition end_choice :: "bool \<Rightarrow> policy_end \<Rightarrow> jsval" where
  "end_choice native p = or_null (id_at native) (map_option fst (po_answer p))"

definition end_wire :: "policy_end \<Rightarrow> jsval" where
  "end_wire p = obj (end_scalars False p @ [(''answer_choice_id'', end_choice False p), (''producer'', js ''policy_defer''),
     (''interaction_kind'', js ''choice''), (''status'', js (ending_status (po_ending p)))])"

definition end_native :: "policy_end \<Rightarrow> jsval" where
  "end_native p = obj (end_scalars True p @ [(''resolution'', js (ending_resolution (po_ending p)))] @
     (if po_answer p = None then [] else [(''choice_id'', end_choice True p)]))"

definition end_shape :: "bool \<Rightarrow> bool \<Rightarrow> jsval \<Rightarrow> bool" where
  "end_shape answered reason v \<longleftrightarrow> closedPlain v (terminalKeys @ (if answered then [''choice_id''] else []) @
       (if reason then [''reason''] else [])) \<and>
     (reason \<longrightarrow> (\<exists>b. mem v ''reason'' = Buf b \<and> length b \<le> 65536))"

definition spells_end_native :: "policy_end \<Rightarrow> jsval \<Rightarrow> bool" where
  "spells_end_native p v \<longleftrightarrow> (\<exists>reason. end_shape (po_answer p \<noteq> None) reason v) \<and>
     mem v ''resolution'' = js (ending_resolution (po_ending p)) \<and>
     (\<forall>(k, y) \<in> set (end_scalars True p). mem v k = y) \<and> (po_answer p \<noteq> None \<longrightarrow> mem v ''choice_id'' = end_choice True p)"

definition spells_end_wire :: "policy_end \<Rightarrow> jsval \<Rightarrow> bool" where
  "spells_end_wire p v \<longleftrightarrow> closedPlain v wireTerminalKeys \<and> mem v ''producer'' = js ''policy_defer'' \<and>
     mem v ''interaction_kind'' = js ''choice'' \<and> mem v ''status'' = js (ending_status (po_ending p)) \<and>
     (\<forall>(k, y) \<in> set (end_scalars False p). mem v k = y) \<and> mem v ''answer_choice_id'' = end_choice False p"

lemma terminal_turn_iff:
  "terminal_turn v e = Some x \<longleftrightarrow> (\<exists>n. 1 \<le> n \<and> v = nat_at e n \<and> x = nat_at (\<not> e) n)"
proof (cases e)
  case True
  show ?thesis
  proof (cases v)
    case (BigInt i)
    show ?thesis
    proof (cases "0 < i")
      case pos: True
      then obtain n where "i = int n" "0 < n" by (metis pos_int_cases)
      with True BigInt show ?thesis by (auto simp: terminal_turn_def nat_at_def)
    qed (use True BigInt in \<open>auto simp: terminal_turn_def nat_at_def\<close>)
  qed (use True in \<open>auto simp: terminal_turn_def nat_at_def\<close>)
next
  case False
  show ?thesis
  proof (cases v)
    case (Str s)
    show ?thesis
    proof (cases "positive_decimal s")
      case True
      then have "dec (decimal_value s) = s" "1 \<le> decimal_value s"
        by (auto simp: dec_decimal_value_positive positive_canonical)
      moreover have "s = dec n \<longleftrightarrow> n = decimal_value s" for n using calculation(1) by auto
      ultimately show ?thesis using True False Str by (auto simp: terminal_turn_def nat_at_def)
    next
      case p: False
      then have "\<forall>n. 1 \<le> n \<longrightarrow> s \<noteq> dec n" by auto
      with p False Str show ?thesis by (auto simp: terminal_turn_def nat_at_def)
    qed
  qed (use False in \<open>auto simp: terminal_turn_def nat_at_def\<close>)
qed

lemma id_at_not_null [simp]: "id_at n b \<noteq> Null" "nat_at n m \<noteq> Null" "Null \<noteq> id_at n b"
  by (simp_all add: id_at_def nat_at_def)

lemma required_scalar:
  assumes "k \<noteq> ''answer_choice_id''" "k \<noteq> ''answer_command_id''"
  shows "scalar_loop e ((k, m) # rest) w = Some r \<longleftrightarrow>
    (\<exists>b. id_ok 65536 b \<and> m = id_at e b \<and> scalar_loop e rest (setm k (id_at (\<not> e) b) w) = Some r)"
proof -
  have "scalar_loop e ((k, m) # rest) w = Some r \<longleftrightarrow>
    (\<exists>x. open_identity m 65536 e = Some x \<and> scalar_loop e rest (setm k x w) = Some r)"
    using assms by (simp add: copy_eqs Let_def split: option.split)
  then show ?thesis by (auto simp: open_identity_iff)
qed

lemma optional_scalar:
  assumes "k = ''answer_choice_id'' \<or> k = ''answer_command_id''"
  shows "scalar_loop e ((k, m) # rest) w = Some r \<longleftrightarrow>
    (\<exists>b. (\<forall>x. b = Some x \<longrightarrow> id_ok (if k = ''answer_choice_id'' then 64 else 65536) x) \<and> m = or_null (id_at e) b \<and>
      scalar_loop e rest (setm k (or_null (id_at (\<not> e)) b) w) = Some r)" (is "?l \<longleftrightarrow> (\<exists>b. ?P b)")
proof (cases "m = Null")
  case True
  then show ?thesis using assms by (simp add: split_option_ex or_null_def)
next
  case False
  let ?m = "if k = ''answer_choice_id'' then 64 else 65536"
  have "?l \<longleftrightarrow> (\<exists>x. open_identity m ?m e = Some x \<and> scalar_loop e rest (setm k x w) = Some r)"
    using assms False by (auto simp: copy_eqs Let_def split: option.split)
  moreover have "open_identity m ?m e = Some x \<longleftrightarrow> (\<exists>b. id_ok ?m b \<and> m = id_at e b \<and> x = id_at (\<not> e) b)" for x
    by (simp add: open_identity_iff)
  ultimately show ?thesis using False by (auto simp: split_option_ex or_null_def)
qed

lemma terminalScalars_iff:
  "terminalScalars v ch e = Some r \<longleftrightarrow> (\<exists>t a b c m h. 1 \<le> t \<and> mem v ''turn'' = nat_at e t \<and>
     id_ok 65536 a \<and> mem v ''interaction_id'' = id_at e a \<and> id_ok 65536 b \<and> mem v ''run_id'' = id_at e b \<and>
     id_ok 65536 c \<and> mem v ''tool_call_id'' = id_at e c \<and>
     (\<forall>x. m = Some x \<longrightarrow> id_ok 65536 x) \<and> mem v ''answer_command_id'' = or_null (id_at e) m \<and>
     (\<forall>x. h = Some x \<longrightarrow> id_ok 64 x) \<and> ch = or_null (id_at e) h \<and>
     r = obj [(''turn'', nat_at (\<not> e) t), (''interaction_id'', id_at (\<not> e) a), (''run_id'', id_at (\<not> e) b),
       (''tool_call_id'', id_at (\<not> e) c), (''answer_command_id'', or_null (id_at (\<not> e)) m),
       (''answer_choice_id'', or_null (id_at (\<not> e)) h)])"
proof -
  have fold: "setm ''answer_choice_id'' h' (setm ''answer_command_id'' m' (setm ''tool_call_id'' c' (setm ''run_id'' b'
      (setm ''interaction_id'' a' (obj [(''turn'', t')]))))) =
    obj [(''turn'', t'), (''interaction_id'', a'), (''run_id'', b'), (''tool_call_id'', c'), (''answer_command_id'', m'),
       (''answer_choice_id'', h')]" for t' a' b' c' m' h'
    by (simp add: obj_def)
  have "terminalScalars v ch e = Some r \<longleftrightarrow> (\<exists>t. 1 \<le> t \<and> mem v ''turn'' = nat_at e t \<and>
    scalar_loop e [(''interaction_id'', mem v ''interaction_id''), (''run_id'', mem v ''run_id''),
       (''tool_call_id'', mem v ''tool_call_id''), (''answer_command_id'', mem v ''answer_command_id''),
       (''answer_choice_id'', ch)] (obj [(''turn'', nat_at (\<not> e) t)]) = Some r)"
    by (auto simp: terminalScalars_def bind_eq_Some_conv terminal_turn_iff)
  then show ?thesis
    by (simp add: required_scalar optional_scalar fold del: scalar_loop.simps(2)) (auto simp: eq_commute [of r])
qed

definition ending_row :: "policy_ending \<Rightarrow> (string \<times> string) list" where
  "ending_row en = (case en of Policy_expired \<Rightarrow> [(''expired'', ''expired'')] | Policy_cancelled \<Rightarrow> [(''cancelled'', ''cancelled'')]
     | _ \<Rightarrow> [(''allowed'', ''answered''), (''denied'', ''denied'')])"

lemma text_lookup:
  "(case v of Str s \<Rightarrow> map_of (map (\<lambda>(k, x). (lit k, x)) al) s | _ \<Rightarrow> None) = Some y \<longleftrightarrow>
     (\<exists>k. v = js k \<and> map_of al k = Some y)"
proof (cases v)
  case (Str s)
  then show ?thesis using map_of_inj_Some [OF inj_lit, of al s y] by simp
qed simp_all

lemma statuses_distinct: "distinct (map fst statuses)"
  by (simp add: statuses_def)

lemma ending_row_distinct: "distinct (map fst (ending_row en))"
  by (cases en) (simp_all add: ending_row_def)

lemma status_row_iff: "status_row kind = Some row \<longleftrightarrow> (\<exists>en. kind = js (ending_kind en) \<and> row = ending_row en)"
proof -
  have ex: "(\<exists>en. P en) \<longleftrightarrow> P Allowed \<or> P Denied \<or> P Policy_expired \<or> P Policy_cancelled" for P
    by (metis policy_ending.exhaust)
  have "status_row kind = Some row \<longleftrightarrow> (\<exists>s. kind = js s \<and> map_of statuses s = Some row)"
    unfolding status_row_def by (rule text_lookup)
  also have "\<dots> \<longleftrightarrow> (\<exists>en. kind = js (ending_kind en) \<and> row = ending_row en)"
    unfolding ex map_of_eq_Some_iff [OF statuses_distinct] by (auto simp: statuses_def ending_row_def)
  finally show ?thesis .
qed

lemma resolution_status_iff:
  "resolution_status (ending_row en) res = Some st \<longleftrightarrow>
     (\<exists>en'. ending_kind en' = ending_kind en \<and> res = js (ending_resolution en') \<and> st = ending_status en')"
proof -
  have ex: "(\<exists>en. P en) \<longleftrightarrow> P Allowed \<or> P Denied \<or> P Policy_expired \<or> P Policy_cancelled" for P
    by (metis policy_ending.exhaust)
  have "resolution_status (ending_row en) res = Some st \<longleftrightarrow> (\<exists>s. res = js s \<and> map_of (ending_row en) s = Some st)"
    unfolding resolution_status_def by (rule text_lookup)
  also have "\<dots> \<longleftrightarrow> (\<exists>en'. ending_kind en' = ending_kind en \<and> res = js (ending_resolution en') \<and> st = ending_status en')"
    unfolding ex map_of_eq_Some_iff [OF ending_row_distinct] by (cases en) (auto simp: ending_row_def)
  finally show ?thesis .
qed

lemma status_found:
  "find (\<lambda>(resolution, status). js status = v) (ending_row en) = Some (res, st) \<longleftrightarrow>
     (\<exists>en'. ending_kind en' = ending_kind en \<and> v = js (ending_status en') \<and> res = ending_resolution en' \<and> st = ending_status en')"
proof -
  have ex: "(\<exists>en. P en) \<longleftrightarrow> P Allowed \<or> P Denied \<or> P Policy_expired \<or> P Policy_cancelled" for P
    by (metis policy_ending.exhaust)
  show ?thesis unfolding ex by (cases en) (auto simp: ending_row_def)
qed

lemma pair_iff:
  "pair (js (ending_status en)) (or_null (id_at n) h) (or_null (id_at n) m) \<longleftrightarrow>
     (h = None \<longleftrightarrow> m = None) \<and> (en \<in> {Allowed, Denied} \<longrightarrow> h \<noteq> None)"
  by (cases en; cases h; cases m) (simp_all add: pair_def or_null_def)

lemma hasOwn_names: "hasOwn v k \<longleftrightarrow> k \<in> names v"
  by (simp add: hasOwnU_def names_def)

lemma native_shape_iff:
  "native_shape v \<longleftrightarrow> (\<exists>answered reason. end_shape answered reason v \<and>
     (answered \<longleftrightarrow> mem v ''answer_command_id'' \<noteq> Null) \<and> (answered \<longrightarrow> mem v ''choice_id'' \<noteq> Null))" (is "_ \<longleftrightarrow> (\<exists>a r. ?P a r)")
proof
  assume n: "native_shape v"
  have "?P (hasOwn v ''choice_id'') (hasOwn v ''reason'')"
    using n by (auto simp: native_shape_def end_shape_def copy_eqs Let_def split: if_splits jsval.splits)
  then show "\<exists>a r. ?P a r" by blast
next
  assume "\<exists>a r. ?P a r"
  then obtain a r where "?P a r" by blast
  note p = this [unfolded end_shape_def]
  let ?ks = "terminalKeys @ (if a then [''choice_id''] else []) @ (if r then [''reason''] else [])"
  have d: "distinct ?ks" by (simp add: terminalKeys_def)
  have "names v = set ?ks" using p closedPlain_iff [OF d] by blast
  then have h: "hasOwn v ''choice_id'' = a" "hasOwn v ''reason'' = r" unfolding hasOwn_names by (simp_all add: terminalKeys_def)
  have "plainData v" using p closedPlain_plain by blast
  then show "native_shape v"
    unfolding native_shape_def h copy_eqs Let_def using p by auto
qed

lemma or_null_pair:
  "(h = None \<longleftrightarrow> m = None) \<longleftrightarrow> (\<exists>ans. h = map_option fst ans \<and> m = map_option snd ans)"
  by (cases h; cases m) (auto simp: split_option_ex)

lemma encodePolicyTerminal_sound:
  assumes "encodePolicyTerminal kind v = Some w"
  shows "\<exists>p. policy_end_ok p \<and> kind = js (ending_kind (po_ending p)) \<and> spells_end_native p v \<and> w = end_wire p \<and> bounded w"
proof -
  from assms obtain row st s where row: "status_row kind = Some row" and sh: "native_shape v"
    and st: "resolution_status row (mem v ''resolution'') = Some st"
    and pr: "pair (js st) (if mem v ''answer_command_id'' = Null then Null else mem v ''choice_id'') (mem v ''answer_command_id'')"
    and s: "terminalScalars v (if mem v ''answer_command_id'' = Null then Null else mem v ''choice_id'') True = Some s"
    and w: "w = with_members (spread s) [(''producer'', js ''policy_defer''), (''interaction_kind'', js ''choice''), (''status'', js st)]"
      "bounded w"
    by (auto simp: encodePolicyTerminal_def Let_def bind_eq_Some_conv split: option.splits if_splits)
  from row obtain en0 where en0: "kind = js (ending_kind en0)" "row = ending_row en0" unfolding status_row_iff by blast
  from st obtain en where en': "ending_kind en = ending_kind en0" "mem v ''resolution'' = js (ending_resolution en)" "st = ending_status en"
    unfolding en0(2) resolution_status_iff by blast
  with en0(1) have en: "kind = js (ending_kind en)" "mem v ''resolution'' = js (ending_resolution en)" "st = ending_status en" by simp_all
  from s obtain t a b c m h where q: "1 \<le> t" "mem v ''turn'' = nat_at True t" "id_ok 65536 a" "mem v ''interaction_id'' = id_at True a"
      "id_ok 65536 b" "mem v ''run_id'' = id_at True b" "id_ok 65536 c" "mem v ''tool_call_id'' = id_at True c"
      "\<forall>x. m = Some x \<longrightarrow> id_ok 65536 x" "mem v ''answer_command_id'' = or_null (id_at True) m" "\<forall>x. h = Some x \<longrightarrow> id_ok 64 x"
    and ch: "(if mem v ''answer_command_id'' = Null then Null else mem v ''choice_id'') = or_null (id_at True) h"
    and r: "s = obj [(''turn'', nat_at False t), (''interaction_id'', id_at False a), (''run_id'', id_at False b),
       (''tool_call_id'', id_at False c), (''answer_command_id'', or_null (id_at False) m), (''answer_choice_id'', or_null (id_at False) h)]"
    unfolding terminalScalars_iff by auto
  have hm: "h = None \<longleftrightarrow> m = None" "en \<in> {Allowed, Denied} \<longrightarrow> h \<noteq> None"
  proof -
    have "pair (js (ending_status en)) (or_null (id_at True) h) (or_null (id_at True) m)"
      using pr unfolding ch en(3) unfolding q(10) .
    then show "h = None \<longleftrightarrow> m = None" "en \<in> {Allowed, Denied} \<longrightarrow> h \<noteq> None" unfolding pair_iff by blast+
  qed
  then obtain ans where ans: "h = map_option fst ans" "m = map_option snd ans" unfolding or_null_pair by blast
  let ?p = "\<lparr>po_id = a, po_run = b, po_turn = t, po_call = c, po_answer = ans, po_ending = en\<rparr>"
  have "policy_end_ok ?p" using q hm ans by (auto simp: policy_end_ok_def)
  moreover have "w = end_wire ?p"
    unfolding w(1) r ans en(3) spread_obj
    by (simp add: end_wire_def end_scalars_def end_choice_def with_members_Cons) (simp add: obj_def)
  moreover have "spells_end_native ?p v"
  proof -
    have nn: "mem v ''answer_command_id'' = Null \<longleftrightarrow> ans = None" using q(10) ans by (cases ans) (auto simp: or_null_def)
    have "ans \<noteq> None \<longrightarrow> mem v ''choice_id'' = end_choice True ?p" using ch nn ans by (auto simp: end_choice_def)
    moreover obtain reason where "end_shape (ans \<noteq> None) reason v" using sh unfolding native_shape_iff nn by blast
    ultimately show ?thesis using q ans en by (auto simp: spells_end_native_def end_scalars_def)
  qed
  ultimately show ?thesis using en(1) w(2) by (intro exI [of _ ?p]) simp
qed

lemma terminalScalars_spelled:
  assumes "policy_end_ok p" "\<forall>(k, y) \<in> set (end_scalars e p). mem v k = y"
  shows "terminalScalars v (end_choice e p) e = Some (obj (end_scalars (\<not> e) p @ [(''answer_choice_id'', end_choice (\<not> e) p)]))"
  unfolding terminalScalars_iff
  by (rule exI [of _ "po_turn p"], rule exI [of _ "po_id p"], rule exI [of _ "po_run p"], rule exI [of _ "po_call p"],
      rule exI [of _ "map_option snd (po_answer p)"], rule exI [of _ "map_option fst (po_answer p)"])
    (use assms in \<open>auto simp: policy_end_ok_def end_scalars_def end_choice_def\<close>)

lemma end_pair: "policy_end_ok p \<Longrightarrow> pair (js (ending_status (po_ending p))) (end_choice n p)
    (or_null (id_at n) (map_option snd (po_answer p)))"
  by (auto simp: end_choice_def pair_iff policy_end_ok_def)

lemma encodePolicyTerminal_complete:
  assumes "policy_end_ok p" "spells_end_native p v"
  shows "encodePolicyTerminal (js (ending_kind (po_ending p))) v = (if bounded (end_wire p) then Some (end_wire p) else None)"
proof -
  have m: "mem v ''answer_command_id'' = or_null (id_at True) (map_option snd (po_answer p))"
    and res: "mem v ''resolution'' = js (ending_resolution (po_ending p))"
    and sc: "\<forall>(k, y) \<in> set (end_scalars True p). mem v k = y"
    using assms(2) by (auto simp: spells_end_native_def end_scalars_def)
  have nn: "mem v ''answer_command_id'' = Null \<longleftrightarrow> po_answer p = None" unfolding m by (cases "po_answer p") (auto simp: or_null_def)
  have ch: "(if mem v ''answer_command_id'' = Null then Null else mem v ''choice_id'') = end_choice True p"
    using assms(2) unfolding nn spells_end_native_def by (auto simp: end_choice_def or_null_def)
  have cn: "po_answer p \<noteq> None \<longrightarrow> mem v ''choice_id'' \<noteq> Null" using ch nn by (auto simp: end_choice_def or_null_def)
  have sh: "native_shape v"
    unfolding native_shape_iff nn using assms(2) cn unfolding spells_end_native_def by blast
  have row: "status_row (js (ending_kind (po_ending p))) = Some (ending_row (po_ending p))" unfolding status_row_iff by blast
  have st: "resolution_status (ending_row (po_ending p)) (js (ending_resolution (po_ending p))) = Some (ending_status (po_ending p))"
    unfolding resolution_status_iff by blast
  have w: "with_members (obj (end_scalars False p @ [(''answer_choice_id'', end_choice False p)]))
     [(''producer'', js ''policy_defer''), (''interaction_kind'', js ''choice''), (''status'', js (ending_status (po_ending p)))] = end_wire p"
    by (simp add: end_wire_def end_scalars_def with_members_Cons) (simp add: obj_def)
  show ?thesis
    unfolding encodePolicyTerminal_def row Let_def ch res
    using sh st end_pair [OF assms(1), of True] m terminalScalars_spelled [OF assms(1) sc] w by (simp add: Let_def)
qed

lemma end_wire_shape:
  assumes "policy_end_ok p" "spells_end_wire p v" "bounded v"
  shows "wire_shape v"
proof -
  have t: "textScalar (id_at False b)" "textScalar (nat_at False n)" "or_null (id_at False) x = Null \<or> textScalar (or_null (id_at False) x)"
    for b n x by (auto simp: or_null_def split: option.split)
  have "textScalar (js (ending_status en))" for en by (cases en) simp_all
  with assms(2,3) t show ?thesis
    by (simp add: wire_shape_def wireTerminalKeys_def spells_end_wire_def end_scalars_def end_choice_def)
qed

lemma end_native_result:
  "(let native = deletem ''answer_choice_id'' (with_members (spread s) [(''resolution'', js (ending_resolution (po_ending p)))]) in
     if mem s ''answer_choice_id'' \<noteq> Null then setm ''choice_id'' (mem s ''answer_choice_id'') native else native) = end_native p"
  if "s = obj (end_scalars True p @ [(''answer_choice_id'', end_choice True p)])"
  unfolding that spread_obj
  by (cases "po_answer p")
    (simp_all add: end_native_def end_scalars_def end_choice_def with_members_Cons member_simps or_null_def, simp_all add: obj_def)

lemma decodePolicyTerminal_iff:
  "decodePolicyTerminal kind w = Some v \<longleftrightarrow>
     (\<exists>p. policy_end_ok p \<and> kind = js (ending_kind (po_ending p)) \<and> spells_end_wire p w \<and> bounded w \<and> v = end_native p)"
proof
  assume "decodePolicyTerminal kind w = Some v"
  then obtain row res st s where c: "closedPlain w wireTerminalKeys" "mem w ''producer'' = js ''policy_defer''"
      "mem w ''interaction_kind'' = js ''choice''"
    and row: "status_row kind = Some row"
    and f: "find (\<lambda>(resolution, status). js status = mem w ''status'') row = Some (res, st)"
    and pr: "pair (mem w ''status'') (mem w ''answer_choice_id'') (mem w ''answer_command_id'')" and sh: "wire_shape w"
    and s: "terminalScalars w (mem w ''answer_choice_id'') False = Some s"
    and v: "v = (if mem s ''answer_choice_id'' \<noteq> Null then setm ''choice_id'' (mem s ''answer_choice_id'')
        (deletem ''answer_choice_id'' (with_members (spread s) [(''resolution'', js res)]))
      else deletem ''answer_choice_id'' (with_members (spread s) [(''resolution'', js res)]))"
    by (auto simp: decodePolicyTerminal_def copy_eqs bind_eq_Some_conv Let_def split: option.splits if_splits)
  from row obtain en0 where en0: "kind = js (ending_kind en0)" "row = ending_row en0" unfolding status_row_iff by blast
  from f obtain en where en': "ending_kind en = ending_kind en0" "mem w ''status'' = js (ending_status en)" "res = ending_resolution en"
    unfolding en0(2) status_found by blast
  with en0(1) have en: "kind = js (ending_kind en)" by simp
  from s obtain t a b c' m h where q: "1 \<le> t" "mem w ''turn'' = nat_at False t" "id_ok 65536 a" "mem w ''interaction_id'' = id_at False a"
      "id_ok 65536 b" "mem w ''run_id'' = id_at False b" "id_ok 65536 c'" "mem w ''tool_call_id'' = id_at False c'"
      "\<forall>x. m = Some x \<longrightarrow> id_ok 65536 x" "mem w ''answer_command_id'' = or_null (id_at False) m" "\<forall>x. h = Some x \<longrightarrow> id_ok 64 x"
      "mem w ''answer_choice_id'' = or_null (id_at False) h"
    unfolding terminalScalars_iff by auto
  have hm: "h = None \<longleftrightarrow> m = None" "en \<in> {Allowed, Denied} \<longrightarrow> h \<noteq> None"
    using pr unfolding q(10,12) en'(2) pair_iff by blast+
  then obtain ans where ans: "h = map_option fst ans" "m = map_option snd ans" unfolding or_null_pair by blast
  let ?p = "\<lparr>po_id = a, po_run = b, po_turn = t, po_call = c', po_answer = ans, po_ending = en\<rparr>"
  have ok: "policy_end_ok ?p" using q hm ans by (auto simp: policy_end_ok_def)
  have sp: "spells_end_wire ?p w" using c q en' ans by (simp add: spells_end_wire_def end_scalars_def end_choice_def)
  have sc: "\<forall>(k, y) \<in> set (end_scalars False ?p). mem w k = y" and ch: "mem w ''answer_choice_id'' = end_choice False ?p"
    using sp by (simp_all add: spells_end_wire_def)
  have sv: "s = obj (end_scalars True ?p @ [(''answer_choice_id'', end_choice True ?p)])"
    using s terminalScalars_spelled [OF ok sc] unfolding ch by simp
  have "v = end_native ?p" using end_native_result [OF sv] unfolding v Let_def en'(3) by (simp only: policy_end.simps)
  moreover have "bounded w" using sh by (simp add: wire_shape_def)
  ultimately show "\<exists>p. policy_end_ok p \<and> kind = js (ending_kind (po_ending p)) \<and> spells_end_wire p w \<and> bounded w \<and> v = end_native p"
    using ok sp en by (intro exI [of _ ?p]) simp
next
  assume "\<exists>p. policy_end_ok p \<and> kind = js (ending_kind (po_ending p)) \<and> spells_end_wire p w \<and> bounded w \<and> v = end_native p"
  then obtain p where p: "policy_end_ok p" "kind = js (ending_kind (po_ending p))" "spells_end_wire p w" "bounded w" "v = end_native p" by blast
  have c: "closedPlain w wireTerminalKeys" "mem w ''producer'' = js ''policy_defer''" "mem w ''interaction_kind'' = js ''choice''"
    "mem w ''status'' = js (ending_status (po_ending p))" "mem w ''answer_choice_id'' = end_choice False p"
    "mem w ''answer_command_id'' = or_null (id_at False) (map_option snd (po_answer p))"
    and sc: "\<forall>(k, y) \<in> set (end_scalars False p). mem w k = y"
    using p(3) by (simp_all add: spells_end_wire_def end_scalars_def)
  have row: "status_row kind = Some (ending_row (po_ending p))" unfolding status_row_iff p(2) by blast
  have f: "find (\<lambda>(resolution, status). js status = js (ending_status (po_ending p))) (ending_row (po_ending p)) =
    Some (ending_resolution (po_ending p), ending_status (po_ending p))" unfolding status_found by blast
  show "decodePolicyTerminal kind w = Some v"
    unfolding decodePolicyTerminal_def row copy_eqs p(5)
    using c f end_pair [OF p(1), of False] end_wire_shape [OF p(1,3,4)] terminalScalars_spelled [OF p(1) sc]
      end_native_result [OF refl, of p] by (simp add: Let_def cong: if_cong split del: if_split)
qed

lemma end_wire_spelled: "policy_end_ok p \<Longrightarrow> spells_end_wire p (end_wire p)"
  by (simp add: spells_end_wire_def end_wire_def wireTerminalKeys_def end_scalars_def member_simps list_all_iff)

lemma end_native_spelled: "spells_end_native p (end_native p)"
  unfolding spells_end_native_def
proof (intro conjI exI [of _ False])
  show "end_shape (po_answer p \<noteq> None) False (end_native p)"
    by (simp add: end_shape_def end_native_def terminalKeys_def end_scalars_def member_simps list_all_iff)
qed (simp_all add: end_native_def end_scalars_def member_simps)

section \<open>Properties\<close>

text \<open>\<open>decodePolicyTerminal\<close> accepts exactly the wire payloads of an allowed, denied, expired or cancelled policy question under the
  event kind of that ending, within the output bound, and rebuilds the native payload with its resolution and no reason.\<close>

theorem policy_terminal_exact:
  "decodePolicyTerminal kind w = Some v \<longleftrightarrow>
     (\<exists>p. policy_end_ok p \<and> kind = js (ending_kind (po_ending p)) \<and> spells_end_wire p w \<and> bounded w \<and> v = end_native p)"
  by (rule decodePolicyTerminal_iff)

text \<open>\<open>encodePolicyRequested\<close> answers a well-formed native policy request with a wire request of the same question, unless that
  exceeds the output bound; any other value is refused.\<close>

theorem policy_request_encoding:
  "(\<exists>x w. policy_ok x \<and> policy_native x v \<and> policy_wire x w \<and> encodePolicyRequested v = (if bounded w then Some w else None)) \<or>
   (\<nexists>x. policy_ok x \<and> policy_native x v) \<and> encodePolicyRequested v = None"
proof (cases "\<exists>x. policy_ok x \<and> policy_native x v")
  case True
  then show ?thesis using encodePolicyRequested_complete by blast
next
  case False
  then show ?thesis using encodePolicyRequested_sound by (cases "encodePolicyRequested v") blast+
qed

end
