(* ===== verification/Interaction_Event.thy ===== *)
theory Interaction_Event
  imports Model_Question Policy_Interaction
begin

text \<open>
  \<open>clients/node/interaction-event.mjs\<close>: the selection of an interaction payload codec by the
  enclosing event kind and the producer.
\<close>

definition modelEndings :: "(string \<times> string) list" where
  "modelEndings = [(''interaction.answered'', ''answered''), (''interaction.declined'', ''declined''),
     (''interaction.expired'', ''expired''), (''interaction.cancelled'', ''cancelled'')]"

definition policyEndings :: "string list" where
  "policyEndings = [''interaction.resolved'', ''interaction.expired'', ''interaction.cancelled'']"

definition ie_plain :: "jsval \<Rightarrow> bool" where
  "ie_plain value \<longleftrightarrow> isObject value \<and> plainProto value \<and>
     list_all (\<lambda>(k, p). string_key k \<and> is_data p \<and> enumerable p) (own_props value)"

definition model_ending :: "jsval \<Rightarrow> jsval option" where
  "model_ending kind = (case kind of Str s \<Rightarrow> map_of (map (\<lambda>(k, d). (lit k, js d)) modelEndings) s | _ \<Rightarrow> None)"

definition ie_project :: "jsval \<Rightarrow> jsval \<Rightarrow> bool \<Rightarrow> jsval option" where
  "ie_project kind value encode =
     (if \<not> isString kind \<or> \<not> ie_plain value then None
      else let producer = mem value ''producer'' in
      if kind = js ''interaction.answer_admitted'' then
        (if producer = js ''policy_defer'' then (if encode then encodeAnswerAdmitted else decodeAnswerAdmitted) value else None)
      else if kind = js ''interaction.requested'' then
        (if producer = js ''model_tool'' then (if encode then encodeModelQuestionRequested else decodeModelQuestionRequested) value
         else if (if encode then \<not> hasOwn value ''producer'' else producer = js ''policy_defer'') then
           (if encode then encodePolicyRequested else decodePolicyRequested) value
         else None)
      else if producer = js ''model_tool'' then
        (if model_ending kind = None \<or> Some (mem value ''disposition'') \<noteq> model_ending kind then None
         else (if encode then encodeModelQuestionTerminal else decodeModelQuestionTerminal) value)
      else if one_of kind policyEndings \<and> (if encode then \<not> hasOwn value ''producer'' else producer = js ''policy_defer'') then
        (if encode then encodePolicyTerminal else decodePolicyTerminal) kind value
      else None)"

definition encodeInteractionEvent :: "jsval \<Rightarrow> jsval \<Rightarrow> jsval option" where
  "encodeInteractionEvent kind value = ie_project kind value True"

definition decodeInteractionEvent :: "jsval \<Rightarrow> jsval \<Rightarrow> jsval option" where
  "decodeInteractionEvent kind value = ie_project kind value False"

lemma ie_plain_eq [copy_eqs]: "ie_plain = plainData"
  by (simp add: fun_eq_iff ie_plain_def plainData_def)

definition question_dispositions :: "string list" where
  "question_dispositions = [''answered'', ''declined'', ''expired'', ''cancelled'']"

lemma modelEndings_eq: "modelEndings = map (\<lambda>d. (''interaction.'' @ d, d)) question_dispositions"
  by (simp add: modelEndings_def question_dispositions_def)

lemma model_ending_iff:
  "model_ending kind = Some y \<longleftrightarrow> (\<exists>d \<in> set question_dispositions. kind = js (''interaction.'' @ d) \<and> y = js d)"
proof -
  define al where "al = map (\<lambda>d. (''interaction.'' @ d, js d)) question_dispositions"
  have "model_ending kind = (case kind of Str s \<Rightarrow> map_of (map (\<lambda>(k, x). (lit k, x)) al) s | _ \<Rightarrow> None)"
    by (cases kind) (simp_all add: model_ending_def modelEndings_eq al_def comp_def)
  then have "model_ending kind = Some y \<longleftrightarrow> (\<exists>k. kind = js k \<and> map_of al k = Some y)"
    by (simp only: text_lookup)
  moreover have d: "distinct (map fst al)" by (simp add: al_def question_dispositions_def)
  ultimately have "model_ending kind = Some y \<longleftrightarrow> (\<exists>k. kind = js k \<and> (k, y) \<in> set al)"
    by (simp only: map_of_eq_Some_iff [OF d])
  then show ?thesis unfolding al_def by auto
qed

section \<open>What each selected codec accepts carries its own producer\<close>

lemma admitted_producer: "admitted v e = Some r \<Longrightarrow> plainData v \<and> mem v ''producer'' = js ''policy_defer''"
  by (auto simp: admitted_iff spells_admitted_def closedPlain_plain)

lemma mq_producer: "mq_project v c = Some r \<Longrightarrow> plainData v \<and> mem v ''producer'' = js ''model_tool''"
  by (auto simp: mq_project_def copy_eqs dest: closedOwn_plain split: if_splits)

lemma mq_ended_producer: "mq_terminal v e = Some r \<Longrightarrow> plainData v \<and> mem v ''producer'' = js ''model_tool'' \<and>
    one_of (mem v ''disposition'') [''answered'', ''declined'', ''expired'', ''cancelled'']"
  unfolding mq_terminal_run terminal_header_def copy_eqs by blast

lemma closedPlain_no_producer: "closedPlain v ks \<Longrightarrow> distinct ks \<Longrightarrow> ''producer'' \<notin> set ks \<Longrightarrow> plainData v \<and> \<not> hasOwn v ''producer''"
  by (simp add: closedPlain_iff hasOwn_names) (simp add: inertObj_def)

lemma unowned_Undefined: "\<not> hasOwn v k \<Longrightarrow> mem v k = Undefined"
  by (auto simp: hasOwnU_def memU_def ownKeys_def map_of_eq_None_iff split: option.splits dest!: map_of_SomeD)
    force

lemma policy_encode_shape:
  "encodePolicyRequested v = Some r \<Longrightarrow> plainData v \<and> \<not> hasOwn v ''producer''"
  by (rule closedPlain_no_producer [of v requestKeys]) (auto simp: encodePolicyRequested_def copy_eqs requestKeys_def split: if_splits)

lemma policy_decode_shape:
  "decodePolicyRequested v = Some r \<Longrightarrow> plainData v \<and> mem v ''producer'' = js ''policy_defer''"
  by (auto simp: decodePolicyRequested_def copy_eqs closedPlain_plain split: if_splits)

lemma policy_end_encode_shape:
  assumes "encodePolicyTerminal kind v = Some r"
  shows "plainData v \<and> \<not> hasOwn v ''producer'' \<and> one_of kind policyEndings"
proof -
  from encodePolicyTerminal_sound [OF assms] obtain p where p: "kind = js (ending_kind (po_ending p))" "spells_end_native p v" by blast
  from p(2) obtain reason where "end_shape (po_answer p \<noteq> None) reason v" by (auto simp: spells_end_native_def)
  then have "plainData v \<and> \<not> hasOwn v ''producer''"
    unfolding end_shape_def by (intro closedPlain_no_producer) (auto simp: terminalKeys_def)
  moreover have "one_of kind policyEndings" unfolding p(1) by (cases "po_ending p") (simp_all add: policyEndings_def)
  ultimately show ?thesis by blast
qed

lemma policy_end_decode_shape:
  assumes "decodePolicyTerminal kind v = Some r"
  shows "plainData v \<and> mem v ''producer'' = js ''policy_defer'' \<and> one_of kind policyEndings"
proof -
  from assms obtain p where p: "kind = js (ending_kind (po_ending p))" "spells_end_wire p v" unfolding decodePolicyTerminal_iff by blast
  have "one_of kind policyEndings" unfolding p(1) by (cases "po_ending p") (simp_all add: policyEndings_def)
  with p(2) show ?thesis by (auto simp: spells_end_wire_def closedPlain_plain)
qed

lemma one_of_policyEndings: "one_of kind policyEndings \<Longrightarrow> isString kind \<and> kind \<noteq> js ''interaction.answer_admitted'' \<and> kind \<noteq> js ''interaction.requested''"
  by (auto simp: one_of_def policyEndings_def)

lemma model_ending_kind: "model_ending kind = Some y \<Longrightarrow> isString kind \<and> kind \<noteq> js ''interaction.answer_admitted'' \<and> kind \<noteq> js ''interaction.requested''"
  by (auto simp: model_ending_iff) (simp_all add: question_dispositions_def)

lemma producers_differ [simp]: "js ''policy_defer'' \<noteq> js ''model_tool''" "js ''model_tool'' \<noteq> js ''policy_defer''"
  by simp_all

lemma decode_dispatch:
  "ie_project kind v False = Some r \<longleftrightarrow>
     kind = js ''interaction.answer_admitted'' \<and> decodeAnswerAdmitted v = Some r \<or>
     kind = js ''interaction.requested'' \<and> (decodeModelQuestionRequested v = Some r \<or> decodePolicyRequested v = Some r) \<or>
     model_ending kind = Some (mem v ''disposition'') \<and> decodeModelQuestionTerminal v = Some r \<or>
     decodePolicyTerminal kind v = Some r" (is "?l \<longleftrightarrow> ?a \<or> ?b \<or> ?c \<or> ?d")
proof
  assume ?l
  then show "?a \<or> ?b \<or> ?c \<or> ?d" by (auto simp: ie_project_def Let_def split: if_splits)
next
  have "?l" if ?a
    using that admitted_producer [of v False r] by (auto simp: ie_project_def copy_eqs decodeAnswerAdmitted_def)
  moreover have "?l" if ?b
    using that mq_producer [of v _ r] policy_decode_shape [of v r]
    by (auto simp: ie_project_def copy_eqs decodeModelQuestionRequested_def)
  moreover have "?l" if c: ?c
    using c mq_ended_producer [of v False r] model_ending_kind [of kind]
    by (auto simp: ie_project_def copy_eqs decodeModelQuestionTerminal_def)
  moreover have "?l" if d: ?d
    using d policy_end_decode_shape [OF d] one_of_policyEndings [of kind] by (auto simp: ie_project_def copy_eqs)
  ultimately show "?l" if "?a \<or> ?b \<or> ?c \<or> ?d" using that by blast
qed

lemma encode_dispatch:
  "ie_project kind v True = Some r \<longleftrightarrow>
     kind = js ''interaction.answer_admitted'' \<and> encodeAnswerAdmitted v = Some r \<or>
     kind = js ''interaction.requested'' \<and> (encodeModelQuestionRequested v = Some r \<or> encodePolicyRequested v = Some r) \<or>
     model_ending kind = Some (mem v ''disposition'') \<and> encodeModelQuestionTerminal v = Some r \<or>
     encodePolicyTerminal kind v = Some r" (is "?l \<longleftrightarrow> ?a \<or> ?b \<or> ?c \<or> ?d")
proof
  assume ?l
  then show "?a \<or> ?b \<or> ?c \<or> ?d" by (auto simp: ie_project_def Let_def split: if_splits)
next
  have "?l" if ?a
    using that admitted_producer [of v True r] by (auto simp: ie_project_def copy_eqs encodeAnswerAdmitted_def)
  moreover have "?l" if ?b
    using that mq_producer [of v _ r] policy_encode_shape [of v r] unowned_Undefined [of v "''producer''"]
    by (auto simp: ie_project_def copy_eqs encodeModelQuestionRequested_def)
  moreover have "?l" if c: ?c
    using c mq_ended_producer [of v True r] model_ending_kind [of kind]
    by (auto simp: ie_project_def copy_eqs encodeModelQuestionTerminal_def)
  moreover have "?l" if d: ?d
    using policy_end_encode_shape [OF d] d one_of_policyEndings [of kind] unowned_Undefined [of v "''producer''"]
    by (auto simp: ie_project_def copy_eqs)
  ultimately show "?l" if "?a \<or> ?b \<or> ?c \<or> ?d" using that by blast
qed

section \<open>Every encoded event is one the decoder accepts\<close>

lemma closedPlain_distinct: "closedPlain v ks \<Longrightarrow> distinct ks \<Longrightarrow> distinct (ownKeys v)"
  by (auto simp: closedPlain_iff inertObj_def)

lemma policy_requested_decodes:
  "encodePolicyRequested v = Some w \<Longrightarrow> \<exists>v'. decodePolicyRequested w = Some v'"
  using encodePolicyRequested_sound decodePolicyRequested_complete by blast

lemma policy_terminal_decodes:
  "encodePolicyTerminal kind v = Some w \<Longrightarrow> \<exists>v'. decodePolicyTerminal kind w = Some v'"
  using encodePolicyTerminal_sound [of kind v w] end_wire_spelled unfolding decodePolicyTerminal_iff by blast

lemma question_requested_decodes:
  assumes "distinct (ownKeys v)" "encodeModelQuestionRequested v = Some w"
  shows "\<exists>v'. decodeModelQuestionRequested w = Some v'"
proof -
  have e: "encodeOpenInteraction = (\<lambda>q. open_project q True)" "decodeOpenInteraction = (\<lambda>q. open_project q False)"
    by (simp_all add: fun_eq_iff encodeOpenInteraction_def decodeOpenInteraction_def)
  from mq_project_iff(1) [OF assms(1)] assms(2) obtain x where x: "asked_ok x" "spells_requested False x w"
    unfolding encodeModelQuestionRequested_def e by fastforce
  then have "distinct (ownKeys w)" using closedPlain_distinct mq_keys_distinct(1) by (auto simp: spells_requested_def)
  from mq_project_iff(2) [OF this x] show ?thesis unfolding decodeModelQuestionRequested_def e by blast
qed

lemma question_terminal_decodes:
  assumes "distinct (ownKeys v)" "encodeModelQuestionTerminal v = Some w"
  shows "\<exists>v'. decodeModelQuestionTerminal w = Some v' \<and> mem w ''disposition'' = mem v ''disposition''"
proof -
  from mq_terminal_sound [OF assms(1)] assms(2) obtain x en n where x: "asked_ok x" "ending_ok x en" "nat_ok 1 (Some u64) n"
      "spells_ended True x en n v" "spells_ended False x en n w"
    unfolding encodeModelQuestionTerminal_def by fastforce
  then have "distinct (ownKeys w)" using closedPlain_distinct ending_keys_distinct by (auto simp: spells_ended_def)
  from mq_terminal_complete [OF this x(1-3,5)] x(4,5) show ?thesis
    unfolding decodeModelQuestionTerminal_def by (auto simp: spells_ended_def)
qed

lemma admitted_decodes: "encodeAnswerAdmitted v = Some w \<Longrightarrow> \<exists>v'. decodeAnswerAdmitted w = Some v'"
  using admitted_codec.encode_decode by blast

section \<open>Properties\<close>

text \<open>C22. Dispatch of \<open>decodeInteractionEvent\<close>: an event is decoded exactly when one of the five
  payload codecs accepts it under an event kind of that codec; the tests of the producer in the
  dispatcher neither lose nor add an event.\<close>

theorem interaction_decode_dispatch:
  "decodeInteractionEvent kind v = Some r \<longleftrightarrow>
     kind = js ''interaction.answer_admitted'' \<and> decodeAnswerAdmitted v = Some r \<or>
     kind = js ''interaction.requested'' \<and> (decodeModelQuestionRequested v = Some r \<or> decodePolicyRequested v = Some r) \<or>
     (\<exists>d \<in> set question_dispositions. kind = js (''interaction.'' @ d) \<and>
        mem v ''disposition'' = js d \<and> decodeModelQuestionTerminal v = Some r) \<or>
     decodePolicyTerminal kind v = Some r"
  unfolding decodeInteractionEvent_def decode_dispatch model_ending_iff by blast

text \<open>C25. Every event \<open>encodeInteractionEvent\<close> produces is one that \<open>decodeInteractionEvent\<close>
  accepts under the same kind.\<close>

theorem interaction_encode_decodes:
  assumes "distinct (ownKeys v)" "encodeInteractionEvent kind v = Some w"
  shows "\<exists>v'. decodeInteractionEvent kind w = Some v'"
proof -
  let ?ok = "\<exists>v'. ie_project kind w False = Some v'"
  from assms(2) [unfolded encodeInteractionEvent_def encode_dispatch]
  consider (a) "kind = js ''interaction.answer_admitted''" "encodeAnswerAdmitted v = Some w"
    | (q) "kind = js ''interaction.requested''" "encodeModelQuestionRequested v = Some w"
    | (p) "kind = js ''interaction.requested''" "encodePolicyRequested v = Some w"
    | (e) "model_ending kind = Some (mem v ''disposition'')" "encodeModelQuestionTerminal v = Some w"
    | (t) "encodePolicyTerminal kind v = Some w" by blast
  then have ?ok
  proof cases
    case a
    then show ?thesis unfolding decode_dispatch using admitted_decodes by blast
  next
    case q
    then show ?thesis unfolding decode_dispatch using question_requested_decodes [OF assms(1)] by blast
  next
    case p
    then show ?thesis unfolding decode_dispatch using policy_requested_decodes by blast
  next
    case e
    then show ?thesis unfolding decode_dispatch using question_terminal_decodes [OF assms(1)] by fastforce
  next
    case t
    then show ?thesis unfolding decode_dispatch using policy_terminal_decodes by blast
  qed
  then show ?thesis unfolding decodeInteractionEvent_def .
qed

lemma sample_event_encodes: "encodeInteractionEvent (js ''interaction.answer_admitted'') sample_admitted \<noteq> None"
  using sample_admitted_encodes unfolding encodeInteractionEvent_def encode_dispatch not_None_eq by blast

theorem interaction_encode_decodes_witness:
  "\<exists>w v'. encodeInteractionEvent (js ''interaction.answer_admitted'') sample_admitted = Some w \<and>
     decodeInteractionEvent (js ''interaction.answer_admitted'') w = Some v'"
proof -
  have "distinct (ownKeys sample_admitted)" by (simp add: sample_admitted_def member_simps)
  from interaction_encode_decodes [OF this] sample_event_encodes show ?thesis by blast
qed

end
