(* ===== verification/Checkpoint_Owner.thy ===== *)
theory Checkpoint_Owner
  imports Wire_Scalars
begin

text \<open>
  \<open>clients/node/checkpoint-owner.mjs\<close>: the owner of a public checkpoint, either a run or a
  compact command, named by an opaque identity.  The typed view \<open>owner\<close> is what an owner
  object means; the decoder admits exactly the closed objects that spell one.
\<close>

definition decodeCheckpointOwner :: "jsval \<Rightarrow> jsval option" where
  "decodeCheckpointOwner value =
     (if \<not> isObject value \<or> isArray value \<or> \<not> plainProto value \<or>
         length (objectKeys value) \<noteq> 2 \<or> \<not> hasOwn value ''kind'' \<or> \<not> hasOwn value ''id'' \<or>
         \<not> one_of (mem value ''kind'') [''run'', ''compact'']
      then None
      else case mem value ''id'' of
        Str i \<Rightarrow>
          if 87382 < length i \<or> \<not> b64_text i then None
          else let id = b64url_decode i in
            if 1 \<le> length id \<and> length id \<le> 65536 \<and> b64url id = i
            then Some (obj [(''kind'', mem value ''kind''), (''id'', Buf id)]) else None
      | _ \<Rightarrow> None)"

datatype owner = Run_owner bytes | Compact_owner bytes

fun owner_kind :: "owner \<Rightarrow> string" where
  "owner_kind (Run_owner i) = ''run''"
| "owner_kind (Compact_owner i) = ''compact''"

fun owner_id :: "owner \<Rightarrow> bytes" where
  "owner_id (Run_owner i) = i"
| "owner_id (Compact_owner i) = i"

definition owner_native :: "owner \<Rightarrow> jsval" where
  "owner_native w = obj [(''kind'', js (owner_kind w)), (''id'', Buf (owner_id w))]"

definition owner_wire :: "owner \<Rightarrow> jsval" where
  "owner_wire w = obj [(''kind'', js (owner_kind w)), (''id'', wire_id (owner_id w))]"

definition spells_owner :: "owner \<Rightarrow> jsval \<Rightarrow> bool" where
  "spells_owner w v \<longleftrightarrow> closedKeys v [''kind'', ''id''] \<and> id_ok 65536 (owner_id w) \<and>
     mem v ''kind'' = js (owner_kind w) \<and> mem v ''id'' = wire_id (owner_id w)"

lemma owner_kind_cases:
  assumes "one_of k [''run'', ''compact'']"
  shows "\<exists>w. k = js (owner_kind w) \<and> owner_id w = i"
proof -
  from assms consider "k = js ''run''" | "k = js ''compact''" by (auto simp: one_of_def)
  then show ?thesis
  proof cases
    case 1
    then show ?thesis by (intro exI [of _ "Run_owner i"]) simp
  next
    case 2
    then show ?thesis by (intro exI [of _ "Compact_owner i"]) simp
  qed
qed

lemma decodeCheckpointOwner_eq:
  "decodeCheckpointOwner v =
     (if closedKeys v [''kind'', ''id''] \<and> one_of (mem v ''kind'') [''run'', ''compact'']
      then Option.bind (identity_within 65536 (mem v ''id''))
        (\<lambda>id. Some (obj [(''kind'', mem v ''kind''), (''id'', Buf id)])) else None)"
  by (simp add: decodeCheckpointOwner_def closedKeys_def identity_copy_bind)

lemma decodeCheckpointOwner_iff:
  "decodeCheckpointOwner v = Some r \<longleftrightarrow> (\<exists>w. spells_owner w v \<and> r = owner_native w)"
proof
  assume "decodeCheckpointOwner v = Some r"
  then obtain i where c: "closedKeys v [''kind'', ''id'']" and i: "id_ok 65536 i" "mem v ''id'' = wire_id i"
    and k: "one_of (mem v ''kind'') [''run'', ''compact'']"
    and r: "r = obj [(''kind'', mem v ''kind''), (''id'', Buf i)]"
    by (auto simp: decodeCheckpointOwner_eq bind_eq_Some_conv identity_within_iff split: if_splits)
  from k obtain w where "mem v ''kind'' = js (owner_kind w)" "owner_id w = i"
    using owner_kind_cases [OF k, of i] by blast
  with c i r show "\<exists>w. spells_owner w v \<and> r = owner_native w"
    by (auto simp: spells_owner_def owner_native_def intro!: exI [of _ w])
next
  assume "\<exists>w. spells_owner w v \<and> r = owner_native w"
  then obtain w where w: "spells_owner w v" "r = owner_native w" by blast
  then have "one_of (mem v ''kind'') [''run'', ''compact'']"
    by (cases w) (simp_all add: spells_owner_def one_of_def)
  with w show "decodeCheckpointOwner v = Some r"
    by (auto simp: decodeCheckpointOwner_eq bind_eq_Some_conv identity_within_iff spells_owner_def
        owner_native_def)
qed

lemma spells_owner_unique: "spells_owner w v \<Longrightarrow> spells_owner w' v \<Longrightarrow> w = w'"
  by (cases w; cases w') (auto simp: spells_owner_def)

lemma spells_owner_wire: "id_ok 65536 (owner_id w) \<Longrightarrow> spells_owner w (owner_wire w)"
  by (simp add: spells_owner_def owner_wire_def member_simps)

lemma owner_native_members [member_simps]:
  "mem (owner_native w) ''kind'' = js (owner_kind w)" "mem (owner_native w) ''id'' = Buf (owner_id w)"
  by (simp_all add: owner_native_def member_simps)

section \<open>Properties\<close>

text \<open>An owner is decoded exactly when it is a closed object that spells one run or compact owner,
  that owner is unique, and the result carries its kind and its bytes.\<close>

theorem owner_decoding_exact:
  "decodeCheckpointOwner v = Some r \<longleftrightarrow> (\<exists>!w. spells_owner w v \<and> r = owner_native w)"
  unfolding decodeCheckpointOwner_iff using spells_owner_unique by blast

end
