(* ===== verification/Configuration.thy ===== *)
theory Configuration
  imports Wire_Scalars
begin

text \<open>
  \<open>clients/node/configuration.mjs\<close>: the committed configuration of a session and the
  payload of its change event.  The typed view \<open>configuration\<close> lists the seven public
  members with their exact quantities.
\<close>

definition configuration_keys :: "string list" where
  "configuration_keys = [''configuration_version'', ''model'', ''reasoning'', ''max_tokens'',
     ''context_token_budget'', ''system_class_tokens'', ''instructions'']"

definition configuration_text :: "jsval \<Rightarrow> bool" where
  "configuration_text value = (case value of
     Str s \<Rightarrow> 1 \<le> byteLength s \<and> byteLength s \<le> 131072 \<and> utf8_decode (utf8 s) = s
   | _ \<Rightarrow> False)"

definition configuration_closed :: "jsval \<Rightarrow> string list \<Rightarrow> bool" where
  "configuration_closed value required \<longleftrightarrow> isObject value \<and> \<not> isArray value \<and>
     plainProto value \<and> length (objectKeys value) = length required \<and>
     list_all (hasOwn value) required"

definition is_alnum :: "code_unit \<Rightarrow> bool" where
  "is_alnum u \<longleftrightarrow> (65 \<le> unat u \<and> unat u \<le> 90) \<or> (97 \<le> unat u \<and> unat u \<le> 122) \<or>
     (48 \<le> unat u \<and> unat u \<le> 57)"

text \<open>\<open>/[A-Za-z0-9._-]/\<close>\<close>

definition is_version_char :: "code_unit \<Rightarrow> bool" where
  "is_version_char u \<longleftrightarrow> is_alnum u \<or> unat u = 46 \<or> unat u = 95 \<or> unat u = 45"

definition instruction_version :: "jsval \<Rightarrow> bool" where
  "instruction_version value = (case value of
     Str s \<Rightarrow> 1 \<le> length s \<and> length s \<le> 64 \<and> is_alnum (hd s) \<and> list_all is_version_char s
   | _ \<Rightarrow> False)"

definition configuration_quantity :: "string \<Rightarrow> jsval \<Rightarrow> jsval option" where
  "configuration_quantity key value = (case value of
     Str s \<Rightarrow> if \<not> positive_decimal s then None
       else let integer = decimal_value s in
         if dec integer \<noteq> s \<or> (key \<noteq> ''configuration_version'' \<and> u64 < integer) then None
         else Some (big integer)
   | _ \<Rightarrow> None)"

definition decodeConfiguration :: "jsval \<Rightarrow> jsval option" where
  "decodeConfiguration value =
     (if \<not> configuration_closed value configuration_keys \<or> \<not> configuration_text (mem value ''model'') \<or>
         \<not> one_of (mem value ''reasoning'') [''default'', ''none'', ''low'', ''medium'', ''high''] \<or>
         \<not> configuration_closed (mem value ''instructions'') [''version'', ''digest'']
      then None
      else let version = mem (mem value ''instructions'') ''version'';
               digest = mem (mem value ''instructions'') ''digest'' in
        if \<not> instruction_version version \<or> \<not> hex_digest digest then None
        else read_loop configuration_quantity value
          [''configuration_version'', ''max_tokens'', ''context_token_budget'', ''system_class_tokens'']
          (setm ''instructions'' (obj [(''version'', version), (''digest'', digest)]) (spread value)))"

definition decodeConfiguredEvent :: "jsval \<Rightarrow> jsval option" where
  "decodeConfiguredEvent value =
     (if \<not> configuration_closed value [''command_id'', ''configuration''] then None
      else case mem value ''command_id'' of
        Str i \<Rightarrow>
          if 87382 < length i \<or> \<not> b64_text i then None
          else let command = b64url_decode i; configuration = decodeConfiguration (mem value ''configuration'') in
            if length command < 1 \<or> 65536 < length command \<or> b64url command \<noteq> i then None
            else (case configuration of None \<Rightarrow> None
              | Some c \<Rightarrow> Some (obj [(''command_id'', Buf command), (''configuration'', c)]))
      | _ \<Rightarrow> None)"

section \<open>Typed view\<close>

record configuration =
  cfg_version :: nat
  cfg_model :: ustring
  cfg_reasoning :: string
  cfg_max_tokens :: nat
  cfg_context_budget :: nat
  cfg_system_tokens :: nat
  cfg_instr_version :: ustring
  cfg_instr_digest :: ustring

definition reasoning_levels :: "string list" where
  "reasoning_levels = [''default'', ''none'', ''low'', ''medium'', ''high'']"

definition configuration_ok :: "configuration \<Rightarrow> bool" where
  "configuration_ok c \<longleftrightarrow> 1 \<le> cfg_version c \<and> text_within 1 131072 (Str (cfg_model c)) \<and>
     cfg_reasoning c \<in> set reasoning_levels \<and>
     nat_ok 1 (Some u64) (cfg_max_tokens c) \<and> nat_ok 1 (Some u64) (cfg_context_budget c) \<and>
     nat_ok 1 (Some u64) (cfg_system_tokens c) \<and>
     instruction_version (Str (cfg_instr_version c)) \<and> hex_digest (Str (cfg_instr_digest c))"

definition spells_configuration :: "configuration \<Rightarrow> jsval \<Rightarrow> bool" where
  "spells_configuration c v \<longleftrightarrow> closedKeys v configuration_keys \<and> configuration_ok c \<and>
     mem v ''configuration_version'' = wire_nat (cfg_version c) \<and>
     mem v ''model'' = Str (cfg_model c) \<and> mem v ''reasoning'' = js (cfg_reasoning c) \<and>
     mem v ''max_tokens'' = wire_nat (cfg_max_tokens c) \<and>
     mem v ''context_token_budget'' = wire_nat (cfg_context_budget c) \<and>
     mem v ''system_class_tokens'' = wire_nat (cfg_system_tokens c) \<and>
     closedKeys (mem v ''instructions'') [''version'', ''digest''] \<and>
     mem (mem v ''instructions'') ''version'' = Str (cfg_instr_version c) \<and>
     mem (mem v ''instructions'') ''digest'' = Str (cfg_instr_digest c)"

definition configuration_native :: "configuration \<Rightarrow> jsval \<Rightarrow> jsval" where
  "configuration_native c v = with_members (spread v)
     [(''instructions'', obj [(''version'', Str (cfg_instr_version c)), (''digest'', Str (cfg_instr_digest c))]),
      (''configuration_version'', big (cfg_version c)), (''max_tokens'', big (cfg_max_tokens c)),
      (''context_token_budget'', big (cfg_context_budget c)),
      (''system_class_tokens'', big (cfg_system_tokens c))]"

section \<open>Lemmas\<close>

lemma configuration_closed_eq [copy_eqs]: "configuration_closed = closedKeys"
  by (simp add: fun_eq_iff configuration_closed_def closedKeys_def)

lemma configuration_text_eq [copy_eqs]: "configuration_text = text_within 1 131072"
  by (auto simp: fun_eq_iff configuration_text_def text_within_def split: jsval.split)

lemma configuration_quantity_iff:
  "configuration_quantity key v = Some x \<longleftrightarrow>
     (\<exists>n. nat_ok 1 (if key = ''configuration_version'' then None else Some u64) n \<and> v = wire_nat n \<and> x = big n)"
  by (auto simp: configuration_quantity_def nat_ok_def dec_decimal_value_positive Let_def
      positive_canonical split: jsval.splits if_splits)

lemma instruction_version_Str: "instruction_version v \<Longrightarrow> \<exists>s. v = Str s"
  by (auto simp: instruction_version_def split: jsval.splits)

lemma decodeConfiguration_sound:
  assumes "decodeConfiguration v = Some r"
  shows "\<exists>c. spells_configuration c v \<and> r = configuration_native c v"
proof -
  let ?i = "mem v ''instructions''"
  from assms have closed: "closedKeys v configuration_keys" "closedKeys ?i [''version'', ''digest'']"
    and scalars: "text_within 1 131072 (mem v ''model'')" "one_of (mem v ''reasoning'') reasoning_levels"
      "instruction_version (mem ?i ''version'')" "hex_digest (mem ?i ''digest'')"
    and loop: "read_loop configuration_quantity v
      [''configuration_version'', ''max_tokens'', ''context_token_budget'', ''system_class_tokens'']
      (setm ''instructions'' (obj [(''version'', mem ?i ''version''), (''digest'', mem ?i ''digest'')])
        (spread v)) = Some r"
    by (auto simp: decodeConfiguration_def reasoning_levels_def copy_eqs Let_def split: if_splits)
  from scalars obtain m k iv d where s: "mem v ''model'' = Str m" "mem v ''reasoning'' = js k"
    "k \<in> set reasoning_levels" "mem ?i ''version'' = Str iv" "mem ?i ''digest'' = Str d"
    using text_within_Str one_of_js instruction_version_Str hex_digest_Str by metis
  from loop obtain n1 n2 n3 n4 where n: "nat_ok 1 None n1" "mem v ''configuration_version'' = wire_nat n1"
    "nat_ok 1 (Some u64) n2" "mem v ''max_tokens'' = wire_nat n2"
    "nat_ok 1 (Some u64) n3" "mem v ''context_token_budget'' = wire_nat n3"
    "nat_ok 1 (Some u64) n4" "mem v ''system_class_tokens'' = wire_nat n4"
    and r: "r = with_members (setm ''instructions'' (obj [(''version'', mem ?i ''version''), (''digest'', mem ?i ''digest'')])
        (spread v)) [(''configuration_version'', big n1), (''max_tokens'', big n2),
        (''context_token_budget'', big n3), (''system_class_tokens'', big n4)]"
    by (auto simp: read_loop_iff list_all2_Cons1 configuration_quantity_iff)
  let ?c = "\<lparr>cfg_version = n1, cfg_model = m, cfg_reasoning = k, cfg_max_tokens = n2,
    cfg_context_budget = n3, cfg_system_tokens = n4, cfg_instr_version = iv, cfg_instr_digest = d\<rparr>"
  have "spells_configuration ?c v"
    using closed scalars s n by (simp add: spells_configuration_def configuration_ok_def nat_ok_def)
  moreover have "r = configuration_native ?c v"
    using r s by (simp add: configuration_native_def with_members_Cons)
  ultimately show ?thesis by blast
qed

lemma decodeConfiguration_complete:
  assumes "spells_configuration c v"
  shows "decodeConfiguration v = Some (configuration_native c v)"
proof -
  have q: "configuration_quantity k (wire_nat n) = Some (big n)"
    if "nat_ok 1 (if k = ''configuration_version'' then None else Some u64) n" for k n
    using that by (simp add: configuration_quantity_iff)
  show ?thesis
    using assms
    by (simp add: decodeConfiguration_def spells_configuration_def configuration_ok_def copy_eqs
        reasoning_levels_def q nat_ok_def configuration_native_def with_members_Cons read_loop.simps)
qed

lemma decodeConfiguration_iff:
  "decodeConfiguration v = Some r \<longleftrightarrow>
     (\<exists>c. spells_configuration c v \<and> r = configuration_native c v)"
  using decodeConfiguration_sound decodeConfiguration_complete by blast

lemma configuration_native_members [member_simps]:
  "mem (configuration_native c v) ''configuration_version'' = big (cfg_version c)"
  "mem (configuration_native c v) ''max_tokens'' = big (cfg_max_tokens c)"
  "mem (configuration_native c v) ''context_token_budget'' = big (cfg_context_budget c)"
  "mem (configuration_native c v) ''system_class_tokens'' = big (cfg_system_tokens c)"
  unfolding configuration_native_def by (rule mem_spread_over; simp)+

lemma decodeConfiguredEvent_iff:
  "decodeConfiguredEvent v = Some r \<longleftrightarrow> closedKeys v [''command_id'', ''configuration''] \<and>
     (\<exists>cmd c. identity_within 65536 (mem v ''command_id'') = Some cmd \<and>
        decodeConfiguration (mem v ''configuration'') = Some c \<and>
        r = obj [(''command_id'', Buf cmd), (''configuration'', c)])"
proof -
  have id: "length bs < 1 \<or> 65536 < length bs \<or> b64url bs \<noteq> i \<longleftrightarrow>
    \<not> (1 \<le> length bs \<and> length bs \<le> 65536 \<and> b64url bs = i)" for bs i
    by (cases bs) auto
  have "decodeConfiguredEvent v = (if closedKeys v [''command_id'', ''configuration''] then
    Option.bind (identity_within 65536 (mem v ''command_id'')) (\<lambda>command.
      Option.bind (decodeConfiguration (mem v ''configuration'')) (\<lambda>c.
        Some (obj [(''command_id'', Buf command), (''configuration'', c)]))) else None)"
    unfolding identity_copy_bind [of 65536 87382, symmetric, simplified]
    by (simp add: decodeConfiguredEvent_def copy_eqs id Suc_le_eq Let_def Option.bind_def
        split: jsval.split option.split)
  then show ?thesis by (auto simp: bind_eq_Some_conv)
qed

section \<open>A concrete configuration\<close>

definition sample_configuration :: jsval where
  "sample_configuration = obj [(''configuration_version'', js ''1''), (''model'', js ''m''), (''reasoning'', js ''low''),
     (''max_tokens'', js ''5''), (''context_token_budget'', js ''9''), (''system_class_tokens'', js ''2''),
     (''instructions'', obj [(''version'', js ''v1''), (''digest'', js (replicate 64 CHR ''a''))])]"

definition sample_settings :: configuration where
  "sample_settings = \<lparr>cfg_version = 1, cfg_model = lit ''m'', cfg_reasoning = ''low'', cfg_max_tokens = 5, cfg_context_budget = 9,
     cfg_system_tokens = 2, cfg_instr_version = lit ''v1'', cfg_instr_digest = lit (replicate 64 CHR ''a'')\<rparr>"

lemma sample_texts:
  "lit ''1'' = dec 1" "lit ''5'' = dec 5" "lit ''9'' = dec 9" "lit ''2'' = dec 2" "lit ''0'' = dec 0" "lit ''AQ'' = b64url [1]"
  by code_simp+

lemma sample_configuration_spelled:
  "spells_configuration sample_settings sample_configuration"
proof -
  have m: "text_within 1 131072 (js ''m'')" "instruction_version (js ''v1'')" "hex_digest (js (replicate 64 CHR ''a''))"
    by (simp_all add: text_within_def byteLength_lit instruction_version_def hex_digest_def)
      (simp_all add: lit_def is_alnum_def is_version_char_def is_hex_def list_all_iff)
  show ?thesis
    using m by (simp add: spells_configuration_def sample_configuration_def sample_settings_def configuration_keys_def configuration_ok_def
        reasoning_levels_def nat_ok_def member_simps sample_texts)
qed

section \<open>Properties\<close>

text \<open>C33. \<open>decodeConfiguration\<close> accepts exactly the closed objects that spell a well-formed configuration (a positive
  configuration version of any size, positive 64-bit ceilings for the reply, the context and the system class, a known
  reasoning level, a bounded model and instruction version, a SHA-256 digest), and returns it.\<close>

theorem configuration_exact:
  "decodeConfiguration v = Some r \<longleftrightarrow> (\<exists>c. spells_configuration c v \<and> r = configuration_native c v)"
  by (rule decodeConfiguration_iff)

end
