(* ===== verification/Checkpoint.thy ===== *)
theory Checkpoint
  imports Checkpoint_Owner Configuration
begin

text \<open>
  \<open>clients/node/checkpoint.mjs\<close>: the complete checkpoint projection with its owner, the
  covered range of original sources and the exact token usage.
\<close>

section \<open>The module's own scalar readers\<close>

definition checkpoint_quantity :: "jsval \<Rightarrow> nat \<Rightarrow> nat option" where
  "checkpoint_quantity value minimum = (case value of
     Str s \<Rightarrow> if \<not> canonical_decimal s then None
       else let result = decimal_value s in
         if dec result = s \<and> minimum \<le> result then Some result else None
   | _ \<Rightarrow> None)"

definition checkpoint_identity :: "jsval \<Rightarrow> bytes option" where
  "checkpoint_identity value = (case value of
     Str s \<Rightarrow> if 87382 < length s \<or> \<not> b64_text s then None
       else let bytes = b64url_decode s in
         if 1 \<le> length bytes \<and> length bytes \<le> 65536 \<and> b64url bytes = s then Some bytes else None
   | _ \<Rightarrow> None)"

definition checkpoint_text :: "jsval \<Rightarrow> bool" where
  "checkpoint_text value = (case value of
     Str s \<Rightarrow> 1 \<le> byteLength s \<and> byteLength s \<le> 131072 \<and> utf8_decode (utf8 s) = s
   | _ \<Rightarrow> False)"

definition checkpoint_closed :: "jsval \<Rightarrow> string list \<Rightarrow> bool" where
  "checkpoint_closed value keys \<longleftrightarrow> isObject value \<and> \<not> isArray value \<and> plainProto value \<and>
     length (objectKeys value) = length keys \<and> list_all (hasOwn value) keys"

section \<open>Source references, ranges and usage\<close>

definition source_variants :: "(string \<times> string list) list" where
  "source_variants =
     [(''session_command'', [''kind'', ''run_id'', ''command_id'']),
      (''session_assistant'', [''kind'', ''run_id'', ''turn'']),
      (''session_tool_result'', [''kind'', ''run_id'', ''turn'', ''call_id''])]"

definition variant_keys :: "jsval \<Rightarrow> string list option" where
  "variant_keys kind = map_option snd (find (\<lambda>(k, ks). kind = js k) source_variants)"

definition reference :: "jsval \<Rightarrow> jsval option" where
  "reference value =
     (if \<not> isObject value then None
      else case variant_keys (mem value ''kind'') of None \<Rightarrow> None | Some keys \<Rightarrow>
        if \<not> checkpoint_closed value keys then None
        else case checkpoint_identity (mem value ''run_id'') of None \<Rightarrow> None | Some run \<Rightarrow>
          if mem value ''kind'' = js ''session_command'' then
            (case checkpoint_identity (mem value ''command_id'') of None \<Rightarrow> None | Some command \<Rightarrow>
               Some (with_members (spread value) [(''run_id'', Buf run), (''command_id'', Buf command)]))
          else case checkpoint_quantity (mem value ''turn'') 1 of None \<Rightarrow> None | Some turn \<Rightarrow>
            if mem value ''kind'' = js ''session_tool_result'' then
              (case checkpoint_identity (mem value ''call_id'') of None \<Rightarrow> None | Some call \<Rightarrow>
                 Some (with_members (spread value)
                   [(''run_id'', Buf run), (''turn'', big turn), (''call_id'', Buf call)]))
            else Some (with_members (spread value) [(''run_id'', Buf run), (''turn'', big turn)]))"

text \<open>\<open>equals\<close> on two decoded buffers is equality of the two \<open>Buf\<close> values.\<close>

definition sameReference :: "jsval \<Rightarrow> jsval \<Rightarrow> bool" where
  "sameReference left right =
     (if mem left ''kind'' \<noteq> mem right ''kind'' \<or> mem left ''run_id'' \<noteq> mem right ''run_id'' then False
      else if mem left ''kind'' = js ''session_command''
        then mem left ''command_id'' = mem right ''command_id''
      else mem left ''turn'' = mem right ''turn'' \<and>
        (mem left ''kind'' \<noteq> js ''session_tool_result'' \<or> mem left ''call_id'' = mem right ''call_id''))"

definition decodeRange :: "jsval \<Rightarrow> jsval option" where
  "decodeRange value =
     (if \<not> checkpoint_closed value [''unit_count'', ''record_count'', ''source_count'', ''first'', ''last'',
           ''first_kept'', ''digest''] \<or> \<not> hex_digest (mem value ''digest'') then None
      else do {
        units \<leftarrow> checkpoint_quantity (mem value ''unit_count'') 1;
        records \<leftarrow> checkpoint_quantity (mem value ''record_count'') 1;
        sources \<leftarrow> checkpoint_quantity (mem value ''source_count'') 1;
        first \<leftarrow> reference (mem value ''first'');
        last \<leftarrow> reference (mem value ''last'');
        kept \<leftarrow> nullable reference (mem value ''first_kept'');
        if sources < units \<or> sources < records \<or>
           (case kept of None \<Rightarrow> False | Some k \<Rightarrow> sameReference first k \<or> sameReference last k)
        then None
        else Some (with_members (spread value)
          [(''unit_count'', big units), (''record_count'', big records), (''source_count'', big sources),
           (''first'', first), (''last'', last), (''first_kept'', or_null (\<lambda>k. k) kept)])
      })"

definition checkpoint_usage :: "jsval \<Rightarrow> jsval option" where
  "checkpoint_usage value =
     (let keys = [''attempts'', ''reported_tokens'', ''estimated_tokens'', ''total_tokens''] in
      if \<not> checkpoint_closed value keys then None
      else case read_loop (\<lambda>key member. map_option big (checkpoint_quantity member 0)) value keys (obj [])
        of None \<Rightarrow> None
         | Some result \<Rightarrow>
             (case (mem result ''total_tokens'', mem result ''reported_tokens'', mem result ''estimated_tokens'')
              of (BigInt t, BigInt a, BigInt e) \<Rightarrow> if t = a + e then Some result else None
               | _ \<Rightarrow> None))"

section \<open>The checkpoint\<close>

definition checkpoint_keys :: "string list" where
  "checkpoint_keys = [''checkpoint_id'', ''episode_id'', ''covered_range'', ''prior_checkpoint_id'',
     ''strategy'', ''strategy_revision'', ''model'', ''reasoning'', ''configuration_version'', ''usage'',
     ''owner'', ''source_excerpted'']"

definition decodeCheckpoint :: "jsval \<Rightarrow> jsval option" where
  "decodeCheckpoint value =
     (if \<not> checkpoint_closed value checkpoint_keys \<or>
         mem value ''strategy'' \<noteq> js ''loopex.compaction.reference'' \<or>
         mem value ''strategy_revision'' \<noteq> Number 3 \<or> mem value ''reasoning'' \<noteq> js ''none'' \<or>
         \<not> isBoolean (mem value ''source_excerpted'') \<or> \<not> checkpoint_text (mem value ''model'')
      then None
      else do {
        checkpoint \<leftarrow> checkpoint_identity (mem value ''checkpoint_id'');
        episode \<leftarrow> checkpoint_identity (mem value ''episode_id'');
        prior \<leftarrow> nullable checkpoint_identity (mem value ''prior_checkpoint_id'');
        owner \<leftarrow> decodeCheckpointOwner (mem value ''owner'');
        version \<leftarrow> checkpoint_quantity (mem value ''configuration_version'') 1;
        range \<leftarrow> decodeRange (mem value ''covered_range'');
        usage \<leftarrow> checkpoint_usage (mem value ''usage'');
        if prior = Some checkpoint then None
        else Some (with_members (spread value)
          [(''checkpoint_id'', Buf checkpoint), (''episode_id'', Buf episode),
           (''prior_checkpoint_id'', or_null Buf prior), (''owner'', owner),
           (''configuration_version'', big version), (''covered_range'', range), (''usage'', usage)])
      })"

section \<open>Typed view\<close>

datatype source_ref =
    Command_ref bytes bytes
  | Assistant_ref bytes nat
  | Tool_ref bytes nat bytes

fun spells_ref :: "source_ref \<Rightarrow> jsval \<Rightarrow> bool" where
  "spells_ref (Command_ref run cmd) v \<longleftrightarrow> closedKeys v [''kind'', ''run_id'', ''command_id''] \<and>
     mem v ''kind'' = js ''session_command'' \<and>
     identity_within 65536 (mem v ''run_id'') = Some run \<and>
     identity_within 65536 (mem v ''command_id'') = Some cmd"
| "spells_ref (Assistant_ref run turn) v \<longleftrightarrow> closedKeys v [''kind'', ''run_id'', ''turn''] \<and>
     mem v ''kind'' = js ''session_assistant'' \<and>
     identity_within 65536 (mem v ''run_id'') = Some run \<and>
     quantity_within 1 None (mem v ''turn'') = Some turn"
| "spells_ref (Tool_ref run turn call) v \<longleftrightarrow> closedKeys v [''kind'', ''run_id'', ''turn'', ''call_id''] \<and>
     mem v ''kind'' = js ''session_tool_result'' \<and>
     identity_within 65536 (mem v ''run_id'') = Some run \<and>
     quantity_within 1 None (mem v ''turn'') = Some turn \<and>
     identity_within 65536 (mem v ''call_id'') = Some call"

fun ref_members :: "source_ref \<Rightarrow> (string \<times> jsval) list" where
  "ref_members (Command_ref run cmd) = [(''run_id'', Buf run), (''command_id'', Buf cmd)]"
| "ref_members (Assistant_ref run turn) = [(''run_id'', Buf run), (''turn'', big turn)]"
| "ref_members (Tool_ref run turn call) =
     [(''run_id'', Buf run), (''turn'', big turn), (''call_id'', Buf call)]"

definition ref_native :: "source_ref \<Rightarrow> jsval \<Rightarrow> jsval" where
  "ref_native s v = with_members (spread v) (ref_members s)"

record token_usage =
  us_attempts :: nat
  us_reported :: nat
  us_estimated :: nat
  us_total :: nat

definition spells_usage :: "token_usage \<Rightarrow> jsval \<Rightarrow> bool" where
  "spells_usage u v \<longleftrightarrow>
     closedKeys v [''attempts'', ''reported_tokens'', ''estimated_tokens'', ''total_tokens''] \<and>
     mem v ''attempts'' = wire_nat (us_attempts u) \<and> mem v ''reported_tokens'' = wire_nat (us_reported u) \<and>
     mem v ''estimated_tokens'' = wire_nat (us_estimated u) \<and> mem v ''total_tokens'' = wire_nat (us_total u) \<and>
     us_total u = us_reported u + us_estimated u"

definition usage_native :: "token_usage \<Rightarrow> jsval" where
  "usage_native u = obj [(''attempts'', big (us_attempts u)), (''reported_tokens'', big (us_reported u)),
     (''estimated_tokens'', big (us_estimated u)), (''total_tokens'', big (us_total u))]"

section \<open>Lemmas\<close>

lemma checkpoint_quantity_eq [copy_eqs]: "checkpoint_quantity v m = quantity_within m None v"
  by (auto simp: checkpoint_quantity_def quantity_within_def dec_decimal_value Let_def split: jsval.split)

lemma checkpoint_identity_eq [copy_eqs]: "checkpoint_identity = identity_within 65536"
  by (simp add: fun_eq_iff checkpoint_identity_def identity_copy)

lemma checkpoint_text_eq [copy_eqs]: "checkpoint_text = text_within 1 131072"
  by (auto simp: fun_eq_iff checkpoint_text_def text_within_def split: jsval.split)

lemma checkpoint_closed_eq [copy_eqs]: "checkpoint_closed = closedKeys"
  by (simp add: fun_eq_iff checkpoint_closed_def closedKeys_def)

lemma variant_keys_eq:
  "variant_keys k = (if k = js ''session_command'' then Some [''kind'', ''run_id'', ''command_id'']
     else if k = js ''session_assistant'' then Some [''kind'', ''run_id'', ''turn'']
     else if k = js ''session_tool_result'' then Some [''kind'', ''run_id'', ''turn'', ''call_id''] else None)"
  by (simp add: variant_keys_def source_variants_def)

lemma closedKeys_isObject: "closedKeys v ks \<Longrightarrow> isObject v \<and> \<not> isArray v"
  by (simp add: closedKeys_def)

lemma reference_sound: "reference v = Some r \<Longrightarrow> \<exists>s. spells_ref s v \<and> r = ref_native s v"
  unfolding reference_def copy_eqs variant_keys_eq ref_native_def
  by (auto split: if_splits option.splits
      intro: exI [of _ "Command_ref _ _"] exI [of _ "Assistant_ref _ _"] exI [of _ "Tool_ref _ _ _"])

lemma reference_complete: "spells_ref s v \<Longrightarrow> reference v = Some (ref_native s v)"
  by (cases s) (auto simp: reference_def copy_eqs variant_keys_eq ref_native_def dest: closedKeys_isObject)

lemma reference_iff: "reference v = Some r \<longleftrightarrow> (\<exists>s. spells_ref s v \<and> r = ref_native s v)"
  using reference_sound reference_complete by blast

lemma usage_native_eq:
  "with_members (obj []) [(''attempts'', a), (''reported_tokens'', b), (''estimated_tokens'', c), (''total_tokens'', d)]
   = obj [(''attempts'', a), (''reported_tokens'', b), (''estimated_tokens'', c), (''total_tokens'', d)]"
  by (simp add: with_members_Cons obj_def)

lemma usage_loop_iff:
  "read_loop (\<lambda>key member. map_option big (quantity_within 0 None member)) v
     [''attempts'', ''reported_tokens'', ''estimated_tokens'', ''total_tokens''] (obj []) = Some x \<longleftrightarrow>
   (\<exists>a b c d. mem v ''attempts'' = wire_nat a \<and> mem v ''reported_tokens'' = wire_nat b \<and>
      mem v ''estimated_tokens'' = wire_nat c \<and> mem v ''total_tokens'' = wire_nat d \<and>
      x = obj [(''attempts'', big a), (''reported_tokens'', big b), (''estimated_tokens'', big c),
        (''total_tokens'', big d)])"
  by (auto simp: read_loop_iff list_all2_Cons1 quantity_within_iff nat_ok_def usage_native_eq)

lemma checkpoint_usage_sound:
  assumes "checkpoint_usage v = Some r"
  shows "\<exists>u. spells_usage u v \<and> r = usage_native u"
proof -
  from assms obtain a b c d where c: "closedKeys v [''attempts'', ''reported_tokens'', ''estimated_tokens'', ''total_tokens'']"
    and m: "mem v ''attempts'' = wire_nat a" "mem v ''reported_tokens'' = wire_nat b"
      "mem v ''estimated_tokens'' = wire_nat c" "mem v ''total_tokens'' = wire_nat d" "int d = int b + int c"
    and r: "r = obj [(''attempts'', big a), (''reported_tokens'', big b), (''estimated_tokens'', big c),
        (''total_tokens'', big d)]"
    by (auto simp: checkpoint_usage_def Let_def copy_eqs usage_loop_iff member_simps
        split: if_splits option.splits)
  then show ?thesis
    by (intro exI [of _ "\<lparr>us_attempts = a, us_reported = b, us_estimated = c, us_total = d\<rparr>"])
      (simp add: spells_usage_def usage_native_def)
qed

lemma checkpoint_usage_complete: "spells_usage u v \<Longrightarrow> checkpoint_usage v = Some (usage_native u)"
proof -
  assume u: "spells_usage u v"
  then have "read_loop (\<lambda>key member. map_option big (quantity_within 0 None member)) v
     [''attempts'', ''reported_tokens'', ''estimated_tokens'', ''total_tokens''] (obj []) = Some (usage_native u)"
    by (simp add: usage_loop_iff spells_usage_def usage_native_def)
  with u show ?thesis
    by (simp add: checkpoint_usage_def copy_eqs spells_usage_def usage_native_def member_simps)
qed

lemma checkpoint_usage_iff:
  "checkpoint_usage v = Some r \<longleftrightarrow> (\<exists>u. spells_usage u v \<and> r = usage_native u)"
  using checkpoint_usage_sound checkpoint_usage_complete by blast

section \<open>Ranges and checkpoints, typed\<close>

record covered_range =
  cr_units :: nat
  cr_records :: nat
  cr_sources :: nat
  cr_first :: source_ref
  cr_last :: source_ref
  cr_kept :: "source_ref option"

definition covered_range_ok :: "covered_range \<Rightarrow> bool" where
  "covered_range_ok c \<longleftrightarrow> 1 \<le> cr_units c \<and> 1 \<le> cr_records c \<and> cr_units c \<le> cr_sources c \<and>
     cr_records c \<le> cr_sources c \<and> cr_kept c \<noteq> Some (cr_first c) \<and> cr_kept c \<noteq> Some (cr_last c)"

definition spells_range :: "covered_range \<Rightarrow> jsval \<Rightarrow> bool" where
  "spells_range c v \<longleftrightarrow> closedKeys v [''unit_count'', ''record_count'', ''source_count'', ''first'',
       ''last'', ''first_kept'', ''digest''] \<and> hex_digest (mem v ''digest'') \<and>
     mem v ''unit_count'' = wire_nat (cr_units c) \<and> mem v ''record_count'' = wire_nat (cr_records c) \<and>
     mem v ''source_count'' = wire_nat (cr_sources c) \<and> spells_ref (cr_first c) (mem v ''first'') \<and>
     spells_ref (cr_last c) (mem v ''last'') \<and>
     (case cr_kept c of None \<Rightarrow> mem v ''first_kept'' = Null
      | Some k \<Rightarrow> mem v ''first_kept'' \<noteq> Null \<and> spells_ref k (mem v ''first_kept''))"

definition range_native :: "covered_range \<Rightarrow> jsval \<Rightarrow> jsval" where
  "range_native c v = with_members (spread v)
     [(''unit_count'', big (cr_units c)), (''record_count'', big (cr_records c)),
      (''source_count'', big (cr_sources c)), (''first'', ref_native (cr_first c) (mem v ''first'')),
      (''last'', ref_native (cr_last c) (mem v ''last'')),
      (''first_kept'', or_null (\<lambda>k. ref_native k (mem v ''first_kept'')) (cr_kept c))]"

lemma ref_native_members:
  assumes "spells_ref s v" "plainData v"
  shows "mem (ref_native s v) k = (case map_of (rev (ref_members s)) k of Some x \<Rightarrow> x | None \<Rightarrow> mem v k)"
  using mem_spread_with [OF assms(2)] by (simp add: ref_native_def)

lemma sameReference_native:
  assumes "spells_ref s v" "plainData v" "spells_ref t w" "plainData w"
  shows "sameReference (ref_native s v) (ref_native t w) \<longleftrightarrow> s = t"
  unfolding sameReference_def ref_native_members [OF assms(1,2)] ref_native_members [OF assms(3,4)]
  using assms(1,3) by (cases s; cases t) auto

lemma nullable_Some_iff:
  "nullable f v = Some y \<longleftrightarrow> (v = Null \<and> y = None) \<or> (v \<noteq> Null \<and> (\<exists>x. f v = Some x \<and> y = Some x))"
  by (auto simp: nullable_def)

lemma kept_references:
  "nullable reference v = Some y \<longleftrightarrow>
     (\<exists>k. (case k of None \<Rightarrow> v = Null | Some s \<Rightarrow> v \<noteq> Null \<and> spells_ref s v) \<and>
        y = map_option (\<lambda>s. ref_native s v) k)"
proof
  assume "nullable reference v = Some y"
  then consider "v = Null" "y = None" | s where "v \<noteq> Null" "spells_ref s v" "y = Some (ref_native s v)"
    by (auto simp: nullable_Some_iff reference_iff)
  then show "\<exists>k. (case k of None \<Rightarrow> v = Null | Some s \<Rightarrow> v \<noteq> Null \<and> spells_ref s v) \<and>
        y = map_option (\<lambda>s. ref_native s v) k"
    by cases (auto intro: exI [of _ None] exI [of _ "Some s" for s])
qed (auto simp: nullable_Some_iff reference_complete split: option.splits)

lemma spells_ref_closed: "spells_ref s v \<Longrightarrow> isObject v \<and> \<not> isArray v"
  by (cases s) (auto dest: closedKeys_isObject)

lemma or_null_map: "or_null f (map_option g x) = or_null (\<lambda>y. f (g y)) x"
  by (simp add: or_null_def option.case_eq_if option.map_sel)

text \<open>What \<open>decodeRange\<close> admits, for any value: the comparison is on the decoded references.\<close>

lemma decodeRange_eq:
  "decodeRange v = Some r \<longleftrightarrow>
     (\<exists>c. spells_range c v \<and> 1 \<le> cr_units c \<and> 1 \<le> cr_records c \<and>
        cr_units c \<le> cr_sources c \<and> cr_records c \<le> cr_sources c \<and>
        (case cr_kept c of None \<Rightarrow> True | Some k \<Rightarrow>
           \<not> sameReference (ref_native (cr_first c) (mem v ''first'')) (ref_native k (mem v ''first_kept'')) \<and>
           \<not> sameReference (ref_native (cr_last c) (mem v ''last'')) (ref_native k (mem v ''first_kept''))) \<and>
        r = range_native c v)" (is "_ \<longleftrightarrow> (\<exists>c. ?P c)")
proof
  assume "decodeRange v = Some r"
  then obtain u rc sc F L K where shape: "closedKeys v [''unit_count'', ''record_count'', ''source_count'',
      ''first'', ''last'', ''first_kept'', ''digest'']" "hex_digest (mem v ''digest'')"
    and n: "mem v ''unit_count'' = wire_nat u" "mem v ''record_count'' = wire_nat rc"
      "mem v ''source_count'' = wire_nat sc" "1 \<le> u" "1 \<le> rc" "1 \<le> sc" "u \<le> sc" "rc \<le> sc"
    and refs: "reference (mem v ''first'') = Some F" "reference (mem v ''last'') = Some L"
      "nullable reference (mem v ''first_kept'') = Some K"
    and apart: "case K of None \<Rightarrow> True | Some k \<Rightarrow> \<not> sameReference F k \<and> \<not> sameReference L k"
    and r: "r = with_members (spread v)
     [(''unit_count'', big u), (''record_count'', big rc), (''source_count'', big sc),
      (''first'', F), (''last'', L), (''first_kept'', or_null (\<lambda>k. k) K)]"
    by (auto simp: decodeRange_def copy_eqs bind_eq_Some_conv quantity_within_iff nat_ok_def
        split: if_splits option.splits)
  from refs obtain f l k where typed: "spells_ref f (mem v ''first'')" "F = ref_native f (mem v ''first'')"
    "spells_ref l (mem v ''last'')" "L = ref_native l (mem v ''last'')"
    and kept: "case k of None \<Rightarrow> mem v ''first_kept'' = Null
      | Some s \<Rightarrow> mem v ''first_kept'' \<noteq> Null \<and> spells_ref s (mem v ''first_kept'')"
      "K = map_option (\<lambda>s. ref_native s (mem v ''first_kept'')) k"
    unfolding reference_iff kept_references by blast
  have "?P \<lparr>cr_units = u, cr_records = rc, cr_sources = sc, cr_first = f, cr_last = l, cr_kept = k\<rparr>"
    using shape n typed kept apart r
    by (cases k) (simp_all add: spells_range_def range_native_def or_null_def)
  then show "\<exists>c. ?P c" by blast
next
  assume "\<exists>c. ?P c"
  then obtain c where c: "?P c" by blast
  have k: "nullable reference (mem v ''first_kept'') =
    Some (map_option (\<lambda>s. ref_native s (mem v ''first_kept'')) (cr_kept c))"
    using c unfolding kept_references spells_range_def by blast
  show "decodeRange v = Some r"
    using c
    by (auto simp: decodeRange_def copy_eqs spells_range_def quantity_scalar.read_write nat_ok_def
        reference_complete k range_native_def or_null_def split: option.splits)
qed

text \<open>On parsed JSON the comparison is equality of the typed references.\<close>

lemma decodeRange_iff:
  assumes "json v"
  shows "decodeRange v = Some r \<longleftrightarrow> (\<exists>c. spells_range c v \<and> covered_range_ok c \<and> r = range_native c v)"
proof -
  have apart: "(case cr_kept c of None \<Rightarrow> True | Some k \<Rightarrow>
       \<not> sameReference (ref_native (cr_first c) (mem v ''first'')) (ref_native k (mem v ''first_kept'')) \<and>
       \<not> sameReference (ref_native (cr_last c) (mem v ''last'')) (ref_native k (mem v ''first_kept'')))
     \<longleftrightarrow> cr_kept c \<noteq> Some (cr_first c) \<and> cr_kept c \<noteq> Some (cr_last c)" if c: "spells_range c v" for c
  proof (cases "cr_kept c")
    case (Some k)
    have o: "isObject v" "\<not> isArray v" using c closedKeys_isObject by (auto simp: spells_range_def)
    have spelt: "spells_ref (cr_first c) (mem v ''first'')" "spells_ref (cr_last c) (mem v ''last'')"
      "spells_ref k (mem v ''first_kept'')" using c Some by (simp_all add: spells_range_def)
    then have "plainData (mem v ''first'')" "plainData (mem v ''last'')" "plainData (mem v ''first_kept'')"
      using json_member_plain [OF assms o] spells_ref_closed by blast+
    with spelt Some show ?thesis by (auto simp: sameReference_native)
  qed simp
  show ?thesis
    unfolding decodeRange_eq covered_range_ok_def by (rule iff_exI) (simp add: apart cong: conj_cong)
qed

record checkpoint =
  ck_id :: bytes
  ck_episode :: bytes
  ck_prior :: "bytes option"
  ck_owner :: owner
  ck_version :: nat
  ck_range :: covered_range
  ck_usage :: token_usage
  ck_model :: ustring
  ck_excerpted :: bool

definition checkpoint_ok :: "checkpoint \<Rightarrow> bool" where
  "checkpoint_ok c \<longleftrightarrow> id_ok 65536 (ck_id c) \<and> id_ok 65536 (ck_episode c) \<and>
     (\<forall>p. ck_prior c = Some p \<longrightarrow> id_ok 65536 p \<and> p \<noteq> ck_id c) \<and> 1 \<le> ck_version c \<and>
     covered_range_ok (ck_range c) \<and> text_within 1 131072 (Str (ck_model c))"

definition spells_checkpoint :: "checkpoint \<Rightarrow> jsval \<Rightarrow> bool" where
  "spells_checkpoint c v \<longleftrightarrow> closedKeys v checkpoint_keys \<and>
     mem v ''strategy'' = js ''loopex.compaction.reference'' \<and> mem v ''strategy_revision'' = Number 3 \<and>
     mem v ''reasoning'' = js ''none'' \<and> mem v ''source_excerpted'' = Boolean (ck_excerpted c) \<and>
     mem v ''model'' = Str (ck_model c) \<and> mem v ''checkpoint_id'' = wire_id (ck_id c) \<and>
     mem v ''episode_id'' = wire_id (ck_episode c) \<and>
     mem v ''prior_checkpoint_id'' = or_null wire_id (ck_prior c) \<and>
     spells_owner (ck_owner c) (mem v ''owner'') \<and>
     mem v ''configuration_version'' = wire_nat (ck_version c) \<and>
     spells_range (ck_range c) (mem v ''covered_range'') \<and> spells_usage (ck_usage c) (mem v ''usage'')"

definition checkpoint_native :: "checkpoint \<Rightarrow> jsval \<Rightarrow> jsval" where
  "checkpoint_native c v = with_members (spread v)
     [(''checkpoint_id'', Buf (ck_id c)), (''episode_id'', Buf (ck_episode c)),
      (''prior_checkpoint_id'', or_null Buf (ck_prior c)), (''owner'', owner_native (ck_owner c)),
      (''configuration_version'', big (ck_version c)),
      (''covered_range'', range_native (ck_range c) (mem v ''covered_range'')),
      (''usage'', usage_native (ck_usage c))]"

lemma spells_range_object: "spells_range c v \<Longrightarrow> isObject v \<and> \<not> isArray v"
  by (auto simp: spells_range_def dest: closedKeys_isObject)

lemma decodeRange_object: "decodeRange v = Some r \<Longrightarrow> isObject v \<and> \<not> isArray v"
  using spells_range_object unfolding decodeRange_eq by blast

lemma decodeCheckpoint_sound:
  assumes "json v" "decodeCheckpoint v = Some r"
  shows "\<exists>c. spells_checkpoint c v \<and> checkpoint_ok c \<and> r = checkpoint_native c v"
proof -
  from assms(2) obtain i e p ow n rg u where closed: "closedKeys v checkpoint_keys"
    and fixed: "mem v ''strategy'' = js ''loopex.compaction.reference''" "mem v ''strategy_revision'' = Number 3"
      "mem v ''reasoning'' = js ''none''" "isBoolean (mem v ''source_excerpted'')"
      "text_within 1 131072 (mem v ''model'')"
    and ids: "id_ok 65536 i" "mem v ''checkpoint_id'' = wire_id i" "id_ok 65536 e" "mem v ''episode_id'' = wire_id e"
      "\<forall>x. p = Some x \<longrightarrow> id_ok 65536 x" "mem v ''prior_checkpoint_id'' = or_null wire_id p" "p \<noteq> Some i"
      "1 \<le> n" "mem v ''configuration_version'' = wire_nat n"
    and parts: "decodeCheckpointOwner (mem v ''owner'') = Some ow"
      "decodeRange (mem v ''covered_range'') = Some rg" "checkpoint_usage (mem v ''usage'') = Some u"
    and r: "r = with_members (spread v)
          [(''checkpoint_id'', Buf i), (''episode_id'', Buf e), (''prior_checkpoint_id'', or_null Buf p),
           (''owner'', ow), (''configuration_version'', big n), (''covered_range'', rg), (''usage'', u)]"
    by (auto simp: decodeCheckpoint_def copy_eqs bind_eq_Some_conv scalar_iffs nat_ok_def split: if_splits)
  have o: "isObject v" "\<not> isArray v" using closed closedKeys_isObject by auto
  have "mem v ''covered_range'' \<noteq> Undefined"
    using decodeRange_object [OF parts(2)] by auto
  then have "json (mem v ''covered_range'')" using json_mem assms(1) o by blast
  with parts obtain w c us where typed: "spells_owner w (mem v ''owner'')" "ow = owner_native w"
    "spells_range c (mem v ''covered_range'')" "covered_range_ok c"
    "rg = range_native c (mem v ''covered_range'')"
    "spells_usage us (mem v ''usage'')" "u = usage_native us"
    unfolding decodeCheckpointOwner_iff checkpoint_usage_iff using decodeRange_iff by blast
  obtain m where m: "mem v ''model'' = Str m" using fixed text_within_Str by blast
  obtain x where x: "mem v ''source_excerpted'' = Boolean x" using fixed(4) by (cases "mem v ''source_excerpted''") auto
  show ?thesis
    using closed fixed ids typed m x r
    by (intro exI [of _ "\<lparr>ck_id = i, ck_episode = e, ck_prior = p, ck_owner = w, ck_version = n,
          ck_range = c, ck_usage = us, ck_model = m, ck_excerpted = x\<rparr>"])
      (auto simp: spells_checkpoint_def checkpoint_ok_def checkpoint_native_def)
qed

lemma decodeCheckpoint_complete:
  assumes "json v" "spells_checkpoint c v" "checkpoint_ok c"
  shows "decodeCheckpoint v = Some (checkpoint_native c v)"
proof -
  have o: "isObject v" "\<not> isArray v"
    using assms(2) closedKeys_isObject by (auto simp: spells_checkpoint_def)
  have rg: "spells_range (ck_range c) (mem v ''covered_range'')" "covered_range_ok (ck_range c)"
    using assms(2,3) by (simp_all add: spells_checkpoint_def checkpoint_ok_def)
  then have "mem v ''covered_range'' \<noteq> Undefined" using spells_range_object by force
  then have "json (mem v ''covered_range'')" using json_mem assms(1) o by blast
  with rg have range: "decodeRange (mem v ''covered_range'') = Some (range_native (ck_range c) (mem v ''covered_range''))"
    using decodeRange_iff by blast
  have owner: "decodeCheckpointOwner (mem v ''owner'') = Some (owner_native (ck_owner c))"
    using assms(2) decodeCheckpointOwner_iff by (auto simp: spells_checkpoint_def)
  have usage: "checkpoint_usage (mem v ''usage'') = Some (usage_native (ck_usage c))"
    using assms(2) checkpoint_usage_complete by (auto simp: spells_checkpoint_def)
  have prior: "nullable (identity_within 65536) (or_null wire_id (ck_prior c)) = Some (ck_prior c)"
    using assms(3) by (auto simp: nullable_identity_iff checkpoint_ok_def)
  show ?thesis
    using assms(2,3)
    by (auto simp: decodeCheckpoint_def copy_eqs spells_checkpoint_def checkpoint_ok_def checkpoint_native_def
        identity_scalar.read_write quantity_scalar.read_write nat_ok_def range owner usage prior)
qed

lemma decodeCheckpoint_iff:
  assumes "json v"
  shows "decodeCheckpoint v = Some r \<longleftrightarrow>
    (\<exists>c. spells_checkpoint c v \<and> checkpoint_ok c \<and> r = checkpoint_native c v)"
  using decodeCheckpoint_sound [OF assms] decodeCheckpoint_complete [OF assms] by blast

lemma checkpoint_native_version [member_simps]:
  "mem (checkpoint_native c v) ''configuration_version'' = big (ck_version c)"
  unfolding checkpoint_native_def by (rule mem_spread_over) simp

section \<open>Properties\<close>

text \<open>C32. \<open>decodeCheckpoint\<close> accepts a parsed checkpoint exactly when it spells a well-formed one: it does not name itself as its
  predecessor, its covered range counts at least as many sources as units and records, and the first kept source, if there is one, is
  neither the first nor the last of the range.\<close>

theorem checkpoint_exact:
  assumes "json v"
  shows "decodeCheckpoint v = Some r \<longleftrightarrow> (\<exists>c. spells_checkpoint c v \<and> checkpoint_ok c \<and> r = checkpoint_native c v)"
  by (rule decodeCheckpoint_iff [OF assms])

definition sample_reference :: jsval where
  "sample_reference = obj [(''kind'', js ''session_command''), (''run_id'', wire_id [1]), (''command_id'', wire_id [2])]"

definition sample_range :: jsval where
  "sample_range = obj [(''unit_count'', wire_nat 1), (''record_count'', wire_nat 1), (''source_count'', wire_nat 1),
     (''first'', sample_reference), (''last'', sample_reference), (''first_kept'', Null), (''digest'', js (replicate 64 CHR ''a''))]"

definition sample_checkpoint :: jsval where
  "sample_checkpoint = obj [(''checkpoint_id'', wire_id [1]), (''episode_id'', wire_id [2]), (''covered_range'', sample_range),
     (''prior_checkpoint_id'', Null), (''strategy'', js ''loopex.compaction.reference''), (''strategy_revision'', Number 3),
     (''model'', js ''m''), (''reasoning'', js ''none''), (''configuration_version'', wire_nat 1),
     (''usage'', obj [(''attempts'', wire_nat 1), (''reported_tokens'', wire_nat 2), (''estimated_tokens'', wire_nat 3),
       (''total_tokens'', wire_nat 5)]), (''owner'', owner_wire (Compact_owner [3])), (''source_excerpted'', Boolean False)]"

theorem checkpoint_exact_witness:
  "\<exists>r. decodeCheckpoint sample_checkpoint = Some r"
proof -
  have j: "json sample_checkpoint"
    by (simp add: sample_checkpoint_def sample_range_def sample_reference_def owner_wire_def obj_def)
  let ?c = "\<lparr>ck_id = [1], ck_episode = [2], ck_prior = None, ck_owner = Compact_owner [3], ck_version = 1,
    ck_range = \<lparr>cr_units = 1, cr_records = 1, cr_sources = 1, cr_first = Command_ref [1] [2], cr_last = Command_ref [1] [2], cr_kept = None\<rparr>,
    ck_usage = \<lparr>us_attempts = 1, us_reported = 2, us_estimated = 3, us_total = 5\<rparr>, ck_model = lit ''m'', ck_excerpted = False\<rparr>"
  have ref: "spells_ref (Command_ref [1] [2]) sample_reference"
    unfolding spells_ref.simps identity_within_iff sample_reference_def by (simp add: member_simps id_ok_def del: b64url.simps)
  have dg: "hex_digest (js (replicate 64 CHR ''a''))" by (simp add: hex_digest_def) (simp add: lit_def is_hex_def list_all_iff)
  have rg: "spells_range (ck_range ?c) sample_range"
    using ref dg by (simp add: spells_range_def sample_range_def member_simps)
  have own: "spells_owner (Compact_owner [3]) (owner_wire (Compact_owner [3]))"
    by (simp add: spells_owner_def owner_wire_def member_simps id_ok_def del: b64url.simps)
  have "spells_checkpoint ?c sample_checkpoint"
    using rg own by (simp add: spells_checkpoint_def sample_checkpoint_def checkpoint_keys_def member_simps or_null_def
        spells_usage_def del: b64url.simps)
  moreover have "checkpoint_ok ?c"
    by (simp add: checkpoint_ok_def covered_range_ok_def id_ok_def text_within_def byteLength_lit)
  ultimately show ?thesis using checkpoint_exact [OF j] by blast
qed

end
