(* ===== verification/Maintenance_View.thy ===== *)
theory Maintenance_View
  imports Checkpoint
begin

text \<open>
  \<open>clients/node/maintenance-view.mjs\<close>: the active-maintenance payload of public events and
  snapshots.  A compact command is admitted under three bounds of its own, a run under five.
\<close>

definition maintenance_quantity :: "jsval \<Rightarrow> nat \<Rightarrow> nat option \<Rightarrow> nat option" where
  "maintenance_quantity value minimum maximum = (case value of
     Str s \<Rightarrow> if \<not> canonical_decimal s then None
       else let integer = decimal_value s in
         if dec integer = s \<and> minimum \<le> integer \<and>
            (case maximum of None \<Rightarrow> True | Some m \<Rightarrow> integer \<le> m) then Some integer else None
   | _ \<Rightarrow> None)"

definition maintenance_identity :: "jsval \<Rightarrow> bytes option" where
  "maintenance_identity value = (case value of
     Str s \<Rightarrow> if 87382 < length s \<or> \<not> b64_text s then None
       else let bytes = b64url_decode s in
         if 1 \<le> length bytes \<and> length bytes \<le> 65536 \<and> b64url bytes = s then Some bytes else None
   | _ \<Rightarrow> None)"

definition maintenance_text :: "jsval \<Rightarrow> bool" where
  "maintenance_text value = (case value of
     Str s \<Rightarrow> 1 \<le> byteLength s \<and> byteLength s \<le> 131072 \<and> utf8_decode (utf8 s) = s
   | _ \<Rightarrow> False)"

definition maintenance_closed :: "jsval \<Rightarrow> string list \<Rightarrow> bool" where
  "maintenance_closed value keys \<longleftrightarrow> isObject value \<and> \<not> isArray value \<and> plainProto value \<and>
     length (objectKeys value) = length keys \<and> list_all (hasOwn value) keys"

definition decodeBounds :: "jsval \<Rightarrow> jsval \<Rightarrow> jsval option" where
  "decodeBounds value kind =
     (if kind = js ''compact'' then
        (if \<not> maintenance_closed value [''max_attempts'', ''deadline_ms'', ''token_budget''] then None
         else do {
           attempts \<leftarrow> maintenance_quantity (mem value ''max_attempts'') 1 (Some 4);
           duration \<leftarrow> maintenance_quantity (mem value ''deadline_ms'') 1 (Some 60000);
           tokens \<leftarrow> maintenance_quantity (mem value ''token_budget'') 1 (Some 32768);
           Some (obj [(''max_attempts'', big attempts), (''deadline_ms'', big duration),
             (''token_budget'', big tokens)])
         })
      else if \<not> maintenance_closed value [''max_attempts'', ''max_turns'', ''token_budget'', ''deadline_ms'',
          ''run_deadline''] then None
      else do {
        attempts \<leftarrow> maintenance_quantity (mem value ''max_attempts'') 4 (Some 4);
        turns \<leftarrow> maintenance_quantity (mem value ''max_turns'') 1 None;
        tokens \<leftarrow> maintenance_quantity (mem value ''token_budget'') 1 None;
        duration \<leftarrow> maintenance_quantity (mem value ''deadline_ms'') 1 (Some u64);
        deadline \<leftarrow> nullable (\<lambda>d. maintenance_quantity d 0 (Some u64)) (mem value ''run_deadline'');
        Some (obj [(''max_attempts'', big attempts), (''max_turns'', big turns), (''token_budget'', big tokens),
          (''deadline_ms'', big duration), (''run_deadline'', or_null big deadline)])
      })"

definition maintenance_keys :: "string list" where
  "maintenance_keys = [''episode_id'', ''owner'', ''model'', ''reasoning'', ''configuration_version'', ''bounds'']"

definition decodeMaintenanceView :: "jsval \<Rightarrow> jsval option" where
  "decodeMaintenanceView value =
     (if \<not> maintenance_closed value [''active_maintenance''] then None
      else if mem value ''active_maintenance'' = Null then Some (obj [(''active_maintenance'', Null)])
      else let view = mem value ''active_maintenance'' in
        if \<not> maintenance_closed view maintenance_keys \<or> \<not> maintenance_text (mem view ''model'') \<or>
           mem view ''reasoning'' \<noteq> js ''none'' then None
        else do {
          episode \<leftarrow> maintenance_identity (mem view ''episode_id'');
          owner \<leftarrow> decodeCheckpointOwner (mem view ''owner'');
          version \<leftarrow> maintenance_quantity (mem view ''configuration_version'') 1 None;
          bounds \<leftarrow> decodeBounds (mem view ''bounds'') (mem owner ''kind'');
          Some (obj [(''active_maintenance'', with_members (spread view)
            [(''episode_id'', Buf episode), (''owner'', owner), (''configuration_version'', big version),
             (''bounds'', bounds)])])
        })"

section \<open>Typed view\<close>

datatype maintenance_bounds =
    Compact_bounds nat nat nat
  | Run_bounds nat nat nat "nat option"

record maintenance =
  mt_episode :: bytes
  mt_owner :: owner
  mt_model :: ustring
  mt_version :: nat
  mt_bounds :: maintenance_bounds

fun bounds_fit :: "owner \<Rightarrow> maintenance_bounds \<Rightarrow> bool" where
  "bounds_fit (Compact_owner i) (Compact_bounds attempts duration tokens) \<longleftrightarrow>
     1 \<le> attempts \<and> attempts \<le> 4 \<and> 1 \<le> duration \<and> duration \<le> 60000 \<and> 1 \<le> tokens \<and> tokens \<le> 32768"
| "bounds_fit (Run_owner i) (Run_bounds turns tokens duration deadline) \<longleftrightarrow>
     1 \<le> turns \<and> 1 \<le> tokens \<and> 1 \<le> duration \<and> duration \<le> u64 \<and> (\<forall>d. deadline = Some d \<longrightarrow> d \<le> u64)"
| "bounds_fit _ _ = False"

fun spells_bounds :: "maintenance_bounds \<Rightarrow> jsval \<Rightarrow> bool" where
  "spells_bounds (Compact_bounds attempts duration tokens) v \<longleftrightarrow>
     closedKeys v [''max_attempts'', ''deadline_ms'', ''token_budget''] \<and>
     mem v ''max_attempts'' = wire_nat attempts \<and> mem v ''deadline_ms'' = wire_nat duration \<and>
     mem v ''token_budget'' = wire_nat tokens"
| "spells_bounds (Run_bounds turns tokens duration deadline) v \<longleftrightarrow>
     closedKeys v [''max_attempts'', ''max_turns'', ''token_budget'', ''deadline_ms'', ''run_deadline''] \<and>
     mem v ''max_attempts'' = wire_nat 4 \<and> mem v ''max_turns'' = wire_nat turns \<and>
     mem v ''token_budget'' = wire_nat tokens \<and> mem v ''deadline_ms'' = wire_nat duration \<and>
     mem v ''run_deadline'' = or_null wire_nat deadline"

fun bounds_native :: "maintenance_bounds \<Rightarrow> jsval" where
  "bounds_native (Compact_bounds attempts duration tokens) =
     obj [(''max_attempts'', big attempts), (''deadline_ms'', big duration), (''token_budget'', big tokens)]"
| "bounds_native (Run_bounds turns tokens duration deadline) =
     obj [(''max_attempts'', big 4), (''max_turns'', big turns), (''token_budget'', big tokens),
          (''deadline_ms'', big duration), (''run_deadline'', or_null big deadline)]"

definition spells_maintenance :: "maintenance \<Rightarrow> jsval \<Rightarrow> bool" where
  "spells_maintenance m v \<longleftrightarrow> closedKeys v maintenance_keys \<and>
     text_within 1 131072 (mem v ''model'') \<and> mem v ''model'' = Str (mt_model m) \<and>
     mem v ''reasoning'' = js ''none'' \<and> id_ok 65536 (mt_episode m) \<and>
     mem v ''episode_id'' = wire_id (mt_episode m) \<and> spells_owner (mt_owner m) (mem v ''owner'') \<and>
     1 \<le> mt_version m \<and> mem v ''configuration_version'' = wire_nat (mt_version m) \<and>
     bounds_fit (mt_owner m) (mt_bounds m) \<and> spells_bounds (mt_bounds m) (mem v ''bounds'')"

definition maintenance_native :: "maintenance \<Rightarrow> jsval \<Rightarrow> jsval" where
  "maintenance_native m v = with_members (spread v)
     [(''episode_id'', Buf (mt_episode m)), (''owner'', owner_native (mt_owner m)),
      (''configuration_version'', big (mt_version m)), (''bounds'', bounds_native (mt_bounds m))]"

section \<open>Lemmas\<close>

lemma maintenance_quantity_eq [copy_eqs]: "maintenance_quantity v lo hi = quantity_within lo hi v"
  by (auto simp: maintenance_quantity_def quantity_within_def dec_decimal_value Let_def split: jsval.split)

lemma maintenance_identity_eq [copy_eqs]: "maintenance_identity = identity_within 65536"
  by (simp add: fun_eq_iff maintenance_identity_def identity_copy)

lemma maintenance_text_eq [copy_eqs]: "maintenance_text = text_within 1 131072"
  by (auto simp: fun_eq_iff maintenance_text_def text_within_def split: jsval.split)

lemma maintenance_closed_eq [copy_eqs]: "maintenance_closed = closedKeys"
  by (simp add: fun_eq_iff maintenance_closed_def closedKeys_def)

lemma decodeBounds_compact:
  "decodeBounds v (js ''compact'') = Some b \<longleftrightarrow>
     (\<exists>x. bounds_fit (Compact_owner i) x \<and> spells_bounds x v \<and> b = bounds_native x)"
proof
  assume "decodeBounds v (js ''compact'') = Some b"
  then obtain p q r where "spells_bounds (Compact_bounds p q r) v" "bounds_fit (Compact_owner i) (Compact_bounds p q r)"
    "b = bounds_native (Compact_bounds p q r)"
    by (auto simp: decodeBounds_def copy_eqs bind_eq_Some_conv quantity_within_iff nat_ok_def split: if_splits)
  then show "\<exists>x. bounds_fit (Compact_owner i) x \<and> spells_bounds x v \<and> b = bounds_native x" by blast
next
  assume "\<exists>x. bounds_fit (Compact_owner i) x \<and> spells_bounds x v \<and> b = bounds_native x"
  then obtain x where x: "bounds_fit (Compact_owner i) x" "spells_bounds x v" "b = bounds_native x" by blast
  then show "decodeBounds v (js ''compact'') = Some b"
    by (cases x) (auto simp: decodeBounds_def copy_eqs bind_eq_Some_conv quantity_within_iff nat_ok_def)
qed

lemma decodeBounds_run:
  "decodeBounds v (js ''run'') = Some b \<longleftrightarrow>
     (\<exists>x. bounds_fit (Run_owner i) x \<and> spells_bounds x v \<and> b = bounds_native x)"
proof
  assume "decodeBounds v (js ''run'') = Some b"
  then obtain p q r d where "closedKeys v [''max_attempts'', ''max_turns'', ''token_budget'', ''deadline_ms'', ''run_deadline'']"
    "mem v ''max_attempts'' = wire_nat 4" "nat_ok 1 None p" "mem v ''max_turns'' = wire_nat p"
    "nat_ok 1 None q" "mem v ''token_budget'' = wire_nat q" "nat_ok 1 (Some u64) r"
    "mem v ''deadline_ms'' = wire_nat r" "\<forall>x. d = Some x \<longrightarrow> nat_ok 0 (Some u64) x"
    "mem v ''run_deadline'' = or_null wire_nat d" "b = bounds_native (Run_bounds p q r d)"
    by (auto simp: decodeBounds_def copy_eqs bind_eq_Some_conv scalar_iffs nat_ok_single split: if_splits)
  then have "spells_bounds (Run_bounds p q r d) v" "bounds_fit (Run_owner i) (Run_bounds p q r d)"
    "b = bounds_native (Run_bounds p q r d)"
    by (simp_all add: nat_ok_def)
  then show "\<exists>x. bounds_fit (Run_owner i) x \<and> spells_bounds x v \<and> b = bounds_native x" by blast
next
  assume "\<exists>x. bounds_fit (Run_owner i) x \<and> spells_bounds x v \<and> b = bounds_native x"
  then obtain x where x: "bounds_fit (Run_owner i) x" "spells_bounds x v" "b = bounds_native x" by blast
  then show "decodeBounds v (js ''run'') = Some b"
    by (cases x) (auto simp: decodeBounds_def copy_eqs bind_eq_Some_conv scalar_iffs nat_ok_def)
qed

lemma decodeBounds_iff:
  "decodeBounds v (js (owner_kind w)) = Some b \<longleftrightarrow>
     (\<exists>x. bounds_fit w x \<and> spells_bounds x v \<and> b = bounds_native x)"
  by (cases w) (simp_all add: decodeBounds_compact decodeBounds_run)

lemma decodeMaintenanceView_sound:
  assumes "decodeMaintenanceView v = Some r" "mem v ''active_maintenance'' \<noteq> Null"
  shows "\<exists>m. spells_maintenance m (mem v ''active_maintenance'') \<and>
    r = obj [(''active_maintenance'', maintenance_native m (mem v ''active_maintenance''))]"
proof -
  let ?w = "mem v ''active_maintenance''"
  from assms obtain e ow n b where c: "closedKeys ?w maintenance_keys" "text_within 1 131072 (mem ?w ''model'')"
      "mem ?w ''reasoning'' = js ''none''" "id_ok 65536 e" "mem ?w ''episode_id'' = wire_id e"
      "1 \<le> n" "mem ?w ''configuration_version'' = wire_nat n"
    and p: "decodeCheckpointOwner (mem ?w ''owner'') = Some ow" "decodeBounds (mem ?w ''bounds'') (mem ow ''kind'') = Some b"
    and r: "r = obj [(''active_maintenance'', with_members (spread ?w) [(''episode_id'', Buf e), (''owner'', ow),
      (''configuration_version'', big n), (''bounds'', b)])]"
    by (auto simp: decodeMaintenanceView_def copy_eqs Let_def bind_eq_Some_conv scalar_iffs nat_ok_def split: if_splits)
  from p(1) obtain w where w: "spells_owner w (mem ?w ''owner'')" "ow = owner_native w"
    unfolding decodeCheckpointOwner_iff by blast
  from p(2) obtain x where x: "bounds_fit w x" "spells_bounds x (mem ?w ''bounds'')" "b = bounds_native x"
    using w(2) by (auto simp: member_simps decodeBounds_iff)
  obtain t where t: "mem ?w ''model'' = Str t" using c(2) text_within_Str by blast
  show ?thesis
    using c w x r t
    by (intro exI [of _ "\<lparr>mt_episode = e, mt_owner = w, mt_model = t, mt_version = n, mt_bounds = x\<rparr>"])
      (simp add: spells_maintenance_def maintenance_native_def)
qed

lemma decodeMaintenanceView_complete:
  assumes "closedKeys v [''active_maintenance'']" "spells_maintenance m (mem v ''active_maintenance'')"
  shows "decodeMaintenanceView v =
    Some (obj [(''active_maintenance'', maintenance_native m (mem v ''active_maintenance''))])"
proof -
  let ?w = "mem v ''active_maintenance''"
  have "?w \<noteq> Null" using assms(2) by (auto simp: spells_maintenance_def)
  moreover have "decodeCheckpointOwner (mem ?w ''owner'') = Some (owner_native (mt_owner m))"
    using assms(2) decodeCheckpointOwner_iff by (auto simp: spells_maintenance_def)
  moreover have "decodeBounds (mem ?w ''bounds'') (mem (owner_native (mt_owner m)) ''kind'') =
      Some (bounds_native (mt_bounds m))"
    using assms(2) by (auto simp: member_simps decodeBounds_iff spells_maintenance_def)
  ultimately show ?thesis
    using assms
    by (auto simp: decodeMaintenanceView_def copy_eqs Let_def spells_maintenance_def identity_scalar.read_write
        quantity_scalar.read_write nat_ok_def maintenance_native_def)
qed

lemma decodeMaintenanceView_iff:
  "decodeMaintenanceView v = Some r \<longleftrightarrow> closedKeys v [''active_maintenance''] \<and>
     (let w = mem v ''active_maintenance'' in
       (w = Null \<and> r = obj [(''active_maintenance'', Null)]) \<or>
       (\<exists>m. spells_maintenance m w \<and> r = obj [(''active_maintenance'', maintenance_native m w)]))"
proof (cases "mem v ''active_maintenance'' = Null")
  case True
  moreover have "\<not> spells_maintenance m Null" for m
    by (auto simp: spells_maintenance_def closedKeys_def)
  ultimately show ?thesis by (auto simp: decodeMaintenanceView_def copy_eqs)
next
  case False
  moreover have "decodeMaintenanceView v = Some r \<Longrightarrow> closedKeys v [''active_maintenance'']"
    by (auto simp: decodeMaintenanceView_def copy_eqs split: if_splits)
  ultimately show ?thesis
    using decodeMaintenanceView_sound decodeMaintenanceView_complete by (auto simp: Let_def)
qed

lemma maintenance_native_members [member_simps]:
  "mem (maintenance_native m v) ''configuration_version'' = big (mt_version m)"
  "mem (maintenance_native m v) ''owner'' = owner_native (mt_owner m)"
  unfolding maintenance_native_def by (rule mem_spread_over; simp)+

lemma maintenance_native_not_null [simp]: "maintenance_native m v \<noteq> Null"
  using with_members_Obj [of ObjectProto] by (auto simp: maintenance_native_def spread_def) (metis jsval.distinct)

section \<open>Properties\<close>

text \<open>\<open>decodeMaintenanceView\<close> accepts exactly \<open>null\<close> and the maintenance whose bounds fit its owner: compaction by command has
  attempts, a deadline and a token budget within its limits, compaction inside a run has exactly four attempts and the run's bounds.\<close>

theorem maintenance_view_exact:
  "decodeMaintenanceView v = Some r \<longleftrightarrow> closedKeys v [''active_maintenance''] \<and>
     (mem v ''active_maintenance'' = Null \<and> r = obj [(''active_maintenance'', Null)] \<or>
      (\<exists>m. spells_maintenance m (mem v ''active_maintenance'') \<and>
         r = obj [(''active_maintenance'', maintenance_native m (mem v ''active_maintenance''))]))"
  unfolding decodeMaintenanceView_iff Let_def ..

end
