(* ===== verification/Session_Views.thy ===== *)
theory Session_Views
  imports Checkpoint Maintenance_View Open_Interaction
begin

text \<open>
  The optional views a snapshot and an inspection both carry, as the payload decoders read them when the
  member is not \<open>null\<close>: the checkpoint, the open question and the active maintenance.
\<close>

fun spells_opt :: "('a \<Rightarrow> jsval \<Rightarrow> bool) \<Rightarrow> 'a option \<Rightarrow> jsval \<Rightarrow> bool" where
  "spells_opt R None v \<longleftrightarrow> v = Null"
| "spells_opt R (Some x) v \<longleftrightarrow> R x v"

lemma nullable_spelled:
  assumes "\<And>y. f v = Some y \<longleftrightarrow> (\<exists>x. R x v \<and> y = h x)" "\<And>x. \<not> R x Null"
  shows "nullable f v = Some y \<longleftrightarrow> (\<exists>x. spells_opt R x v \<and> y = map_option h x)"
proof (cases "v = Null")
  case True
  then show ?thesis using assms(2) by (auto simp: nullable_def split_option_ex)
next
  case False
  then show ?thesis using assms(1) by (auto simp: nullable_def split_option_ex)
qed

lemma json_memU_cases: "json v \<Longrightarrow> json (memU v k) \<or> memU v k = Undefined"
  using json_memU by blast

lemma checkpoint_member:
  assumes "json v"
  shows "nullable decodeCheckpoint (memU v k) = Some y \<longleftrightarrow>
    (\<exists>c. spells_opt (\<lambda>c w. checkpoint_ok c \<and> spells_checkpoint c w) c (memU v k) \<and>
       y = map_option (\<lambda>c. checkpoint_native c (memU v k)) c)"
proof (rule nullable_spelled)
  show "decodeCheckpoint (memU v k) = Some y \<longleftrightarrow>
    (\<exists>c. (checkpoint_ok c \<and> spells_checkpoint c (memU v k)) \<and> y = checkpoint_native c (memU v k))" for y
  proof (cases "memU v k = Undefined")
    case True
    then show ?thesis by (simp add: decodeCheckpoint_def copy_eqs spells_checkpoint_def)
  next
    case False
    then have "json (memU v k)" using assms json_memU by blast
    from decodeCheckpoint_iff [OF this] show ?thesis by blast
  qed
qed (simp add: spells_checkpoint_def)

lemma question_member:
  "nullable decodeOpenInteraction w = Some y \<longleftrightarrow>
    (\<exists>x. spells_opt (\<lambda>x w. interaction_ok x \<and> spells_interaction False x w) x w \<and>
       y = map_option (\<lambda>x. with_members w (interaction_members True x)) x)"
  by (rule nullable_spelled) (auto simp: decodeOpenInteraction_def open_project_iff spells_interaction_def)

lemma maintenance_member:
  "decodeMaintenanceView (obj [(''active_maintenance'', w)]) = Some y \<longleftrightarrow>
    (\<exists>m. spells_opt spells_maintenance m w \<and> y = obj [(''active_maintenance'', or_null (\<lambda>m. maintenance_native m w) m)])"
proof -
  have "\<not> spells_maintenance m Null" for m by (simp add: spells_maintenance_def)
  then show ?thesis by (auto simp: decodeMaintenanceView_iff member_simps split_option_ex or_null_def)
qed

text \<open>Two members that are both there or both \<open>null\<close>\<close>

lemma paired_options:
  assumes "a = None \<longleftrightarrow> b = None"
  obtains ab where "a = map_option fst ab" "b = map_option snd ab"
proof (cases a)
  case None
  with assms that [of None] show ?thesis by simp
next
  case (Some x)
  with assms that [of "Some (x, the b)"] show ?thesis by auto
qed

end
