(* ===== verification/Context_Failure.thy ===== *)
theory Context_Failure
  imports Checkpoint
begin

text \<open>
  \<open>clients/node/context-failure.mjs\<close>: the version 2 context failure shared by compaction
  results and terminal outcomes, with its numeric relations between the observed quantity, the
  limit and the hard limit.
\<close>

definition dimensions :: "string list" where
  "dimensions = [''system_class_tokens'', ''context_tokens'', ''context_record_bytes'',
     ''context_record_depth'', ''context_record_cardinality'']"

definition preparationCauses :: "string list" where
  "preparationCauses =
     [''maintenance_model_unconfigured'', ''maintenance_instructions_unconfigured'',
      ''maintenance_reasoning_unsupported'', ''compaction_excerpt_budget_too_small'',
      ''compaction_no_progress'', ''compaction_preparation_deadline'',
      ''maintenance_deadline_unrepresentable'', ''maintenance_summary_incomplete'',
      ''maintenance_summary_invalid'', ''maintenance_reply_reserve_unavailable'',
      ''canonical_history_rendering_unsupported'',
      ''artifact_read_unavailable'', ''artifact_metadata_unrepresentable'',
      ''artifact_preparation_count_exhausted'', ''artifact_preparation_bytes_exhausted'',
      ''artifact_preparation_deadline'', ''artifact_preparation_failed'',
      ''context_projection_invalid'']"

definition failure_plain :: "jsval \<Rightarrow> bool" where
  "failure_plain value \<longleftrightarrow> isObject value \<and> \<not> isArray value \<and> plainProto value"

definition failure_closed :: "jsval \<Rightarrow> string list \<Rightarrow> bool" where
  "failure_closed value keys \<longleftrightarrow> failure_plain value \<and> length (objectKeys value) = length keys \<and>
     list_all (hasOwn value) keys"

text \<open>The value of a BigInt, for the comparisons the module makes on decoded quantities.\<close>

fun bigint :: "jsval \<Rightarrow> int" where
  "bigint (BigInt i) = i"
| "bigint _ = 0"

definition failure_quantity :: "nat option \<Rightarrow> jsval \<Rightarrow> jsval option" where
  "failure_quantity maximum member = (case member of
     Str s \<Rightarrow> if \<not> canonical_decimal s then None
       else let integer = decimal_value s in
         if dec integer \<noteq> s \<or> (case maximum of None \<Rightarrow> False | Some m \<Rightarrow> m < integer) then None
         else Some (big integer)
   | _ \<Rightarrow> None)"

definition failure_quantities :: "jsval \<Rightarrow> string list \<Rightarrow> nat option \<Rightarrow> bool \<Rightarrow> jsval option" where
  "failure_quantities value keys maximum exact =
     (if \<not> failure_plain value \<or> (exact \<and> \<not> failure_closed value keys) then None
      else read_loop (\<lambda>key. failure_quantity maximum) value keys (spread value))"

text \<open>The relation the decoded quantities of a measured failure have to satisfy.\<close>

definition measured_admissible :: "jsval \<Rightarrow> bool" where
  "measured_admissible result =
     (let observed = bigint (mem result ''observed''); limit = bigint (mem result ''limit'');
          hard_limit = bigint (mem result ''hard_limit'') in
      if limit = 0 \<or> hard_limit = 0 \<or>
         (mem result ''dimension'' = js ''context_record_bytes'' \<and> hard_limit \<noteq> 65536) then False
      else if mem result ''category'' = js ''thinking_exchange_headroom'' then
        one_of (mem result ''dimension'') [''context_tokens'', ''context_record_bytes''] \<and>
        limit \<le> hard_limit \<and> limit < observed
      else limit = hard_limit \<and>
        (if mem result ''dimension'' = js ''system_class_tokens'' then limit \<le> observed
         else limit < observed))"

definition decodeContextFailure :: "jsval \<Rightarrow> jsval option" where
  "decodeContextFailure value =
     (if \<not> failure_plain value \<or> mem value ''retryable'' \<noteq> Boolean False then None
      else if mem value ''version'' \<noteq> Number 2 then None
      else if mem value ''category'' = js ''context_preparation_failed'' then
        (if failure_closed value [''version'', ''category'', ''retryable'', ''measurement_scope'', ''cause''] \<and>
            (mem value ''measurement_scope'' = Null \<or> mem value ''measurement_scope'' = js ''ordinary'') \<and>
            one_of (mem value ''cause'') preparationCauses
         then Some (spread value) else None)
      else if \<not> one_of (mem value ''category'') [''context_budget_exceeded'', ''thinking_exchange_headroom''] \<or>
          \<not> failure_closed value [''version'', ''category'', ''retryable'', ''measurement_scope'', ''dimension'',
            ''observed'', ''limit'', ''hard_limit''] \<or>
          \<not> one_of (mem value ''measurement_scope'') [''ordinary'', ''maintenance''] \<or>
          \<not> one_of (mem value ''dimension'') dimensions then None
      else case failure_quantities value [''observed'', ''limit'', ''hard_limit''] (Some u64) False of
          None \<Rightarrow> None
        | Some result \<Rightarrow> if measured_admissible result then Some result else None)"

section \<open>Typed view\<close>

datatype context_failure =
    Preparation_failed bool string
  | Budget_exceeded string string nat nat nat
  | Headroom_exceeded string string nat nat nat

fun failure_ok :: "context_failure \<Rightarrow> bool" where
  "failure_ok (Preparation_failed ordinary cause) \<longleftrightarrow> cause \<in> set preparationCauses"
| "failure_ok (Budget_exceeded scope dim observed limit hard) \<longleftrightarrow>
     scope \<in> {''ordinary'', ''maintenance''} \<and> dim \<in> set dimensions \<and> observed \<le> u64 \<and> 0 < limit \<and>
     limit = hard \<and> hard \<le> u64 \<and> (dim = ''context_record_bytes'' \<longrightarrow> hard = 65536) \<and>
     (if dim = ''system_class_tokens'' then limit \<le> observed else limit < observed)"
| "failure_ok (Headroom_exceeded scope dim observed limit hard) \<longleftrightarrow>
     scope \<in> {''ordinary'', ''maintenance''} \<and> dim \<in> {''context_tokens'', ''context_record_bytes''} \<and>
     0 < limit \<and> limit \<le> hard \<and> hard \<le> u64 \<and> limit < observed \<and> observed \<le> u64 \<and>
     (dim = ''context_record_bytes'' \<longrightarrow> hard = 65536)"

definition measured_keys :: "string list" where
  "measured_keys = [''version'', ''category'', ''retryable'', ''measurement_scope'', ''dimension'',
     ''observed'', ''limit'', ''hard_limit'']"

definition spells_measured :: "string \<Rightarrow> string \<Rightarrow> string \<Rightarrow> nat \<Rightarrow> nat \<Rightarrow> nat \<Rightarrow> jsval \<Rightarrow> bool" where
  "spells_measured category scope dim observed limit hard v \<longleftrightarrow> closedKeys v measured_keys \<and>
     mem v ''category'' = js category \<and> mem v ''measurement_scope'' = js scope \<and>
     mem v ''dimension'' = js dim \<and> mem v ''observed'' = wire_nat observed \<and>
     mem v ''limit'' = wire_nat limit \<and> mem v ''hard_limit'' = wire_nat hard"

fun spells_failure :: "context_failure \<Rightarrow> jsval \<Rightarrow> bool" where
  "spells_failure (Preparation_failed ordinary cause) v \<longleftrightarrow>
     closedKeys v [''version'', ''category'', ''retryable'', ''measurement_scope'', ''cause''] \<and>
     mem v ''version'' = Number 2 \<and> mem v ''retryable'' = Boolean False \<and>
     mem v ''category'' = js ''context_preparation_failed'' \<and>
     mem v ''measurement_scope'' = (if ordinary then js ''ordinary'' else Null) \<and>
     mem v ''cause'' = js cause"
| "spells_failure (Budget_exceeded scope dim observed limit hard) v \<longleftrightarrow>
     mem v ''version'' = Number 2 \<and> mem v ''retryable'' = Boolean False \<and>
     spells_measured ''context_budget_exceeded'' scope dim observed limit hard v"
| "spells_failure (Headroom_exceeded scope dim observed limit hard) v \<longleftrightarrow>
     mem v ''version'' = Number 2 \<and> mem v ''retryable'' = Boolean False \<and>
     spells_measured ''thinking_exchange_headroom'' scope dim observed limit hard v"

fun failure_members :: "context_failure \<Rightarrow> (string \<times> jsval) list" where
  "failure_members (Preparation_failed ordinary cause) = []"
| "failure_members (Budget_exceeded scope dim observed limit hard) =
     [(''observed'', big observed), (''limit'', big limit), (''hard_limit'', big hard)]"
| "failure_members (Headroom_exceeded scope dim observed limit hard) =
     [(''observed'', big observed), (''limit'', big limit), (''hard_limit'', big hard)]"

definition failure_native :: "context_failure \<Rightarrow> jsval \<Rightarrow> jsval" where
  "failure_native f v = with_members (spread v) (failure_members f)"

section \<open>Lemmas\<close>

lemma failure_closed_eq [copy_eqs]: "failure_closed = closedKeys"
  by (simp add: fun_eq_iff failure_closed_def failure_plain_def closedKeys_def)

lemma plain_failure_plain: "closedKeys v ks \<Longrightarrow> failure_plain v"
  by (simp add: failure_plain_def closedKeys_def)

lemma failure_quantity_eq: "failure_quantity m = (\<lambda>member. map_option big (quantity_within 0 m member))"
  by (auto simp: fun_eq_iff failure_quantity_def quantity_within_def dec_decimal_value Let_def
      split: jsval.split option.split)

lemma failure_quantities_eq:
  "failure_quantities v ks m exact =
     (if failure_plain v \<and> (exact \<longrightarrow> closedKeys v ks)
      then read_loop (\<lambda>key member. map_option big (quantity_within 0 m member)) v ks (spread v) else None)"
  by (auto simp: failure_quantities_def failure_quantity_eq copy_eqs)

lemma measured_quantities:
  "failure_quantities v [''observed'', ''limit'', ''hard_limit''] (Some u64) False = Some r \<longleftrightarrow>
     failure_plain v \<and> (\<exists>a b c. a \<le> u64 \<and> b \<le> u64 \<and> c \<le> u64 \<and> mem v ''observed'' = wire_nat a \<and>
       mem v ''limit'' = wire_nat b \<and> mem v ''hard_limit'' = wire_nat c \<and>
       r = with_members (spread v) [(''observed'', big a), (''limit'', big b), (''hard_limit'', big c)])"
  by (auto simp: failure_quantities_eq read_loop_iff list_all2_Cons1 quantity_within_iff nat_ok_def)

definition measured_relation :: "string \<Rightarrow> string \<Rightarrow> nat \<Rightarrow> nat \<Rightarrow> nat \<Rightarrow> bool" where
  "measured_relation category dim observed limit hard \<longleftrightarrow>
     0 < limit \<and> 0 < hard \<and> (dim = ''context_record_bytes'' \<longrightarrow> hard = 65536) \<and>
     (if category = ''thinking_exchange_headroom''
      then dim \<in> {''context_tokens'', ''context_record_bytes''} \<and> limit \<le> hard \<and> limit < observed
      else limit = hard \<and> (if dim = ''system_class_tokens'' then limit \<le> observed else limit < observed))"

lemma measured_admissible_iff:
  assumes "plainData v" "mem v ''dimension'' = js dim" "mem v ''category'' = js category"
  shows "measured_admissible (with_members (spread v)
      [(''observed'', big a), (''limit'', big b), (''hard_limit'', big c)]) \<longleftrightarrow>
    measured_relation category dim a b c"
  unfolding measured_admissible_def mem_spread_with [OF assms(1)]
  using assms(2,3) by (auto simp: measured_relation_def)

lemma measured_iff:
  assumes "plainData v" "mem v ''category'' \<noteq> js ''context_preparation_failed''"
  shows "decodeContextFailure v = Some r \<longleftrightarrow>
    mem v ''retryable'' = Boolean False \<and> mem v ''version'' = Number 2 \<and>
    (\<exists>category scope dim a b c. spells_measured category scope dim a b c v \<and>
       category \<in> {''context_budget_exceeded'', ''thinking_exchange_headroom''} \<and>
       scope \<in> {''ordinary'', ''maintenance''} \<and> dim \<in> set dimensions \<and> a \<le> u64 \<and> b \<le> u64 \<and> c \<le> u64 \<and>
       measured_relation category dim a b c \<and>
       r = with_members (spread v) [(''observed'', big a), (''limit'', big b), (''hard_limit'', big c)])"
    (is "?l \<longleftrightarrow> ?r")
proof
  assume l: ?l
  with assms(2) obtain category scope dim where k: "mem v ''category'' = js category"
      "category \<in> {''context_budget_exceeded'', ''thinking_exchange_headroom''}"
      "mem v ''measurement_scope'' = js scope" "scope \<in> {''ordinary'', ''maintenance''}"
      "mem v ''dimension'' = js dim" "dim \<in> set dimensions" "closedKeys v measured_keys"
      "mem v ''retryable'' = Boolean False" "mem v ''version'' = Number 2"
      "failure_quantities v [''observed'', ''limit'', ''hard_limit''] (Some u64) False = Some r"
      "measured_admissible r"
    by (auto simp: decodeContextFailure_def copy_eqs measured_keys_def dest!: one_of_js split: if_splits option.splits)
  with measured_admissible_iff [OF assms(1) k(5,1)] show ?r
    by (auto simp: measured_quantities spells_measured_def)
next
  assume ?r
  then obtain category scope dim a b c where k: "mem v ''retryable'' = Boolean False" "mem v ''version'' = Number 2"
    "spells_measured category scope dim a b c v" "category \<in> {''context_budget_exceeded'', ''thinking_exchange_headroom''}"
    "scope \<in> {''ordinary'', ''maintenance''}" "dim \<in> set dimensions" "a \<le> u64" "b \<le> u64" "c \<le> u64"
    "measured_relation category dim a b c"
    and r: "r = with_members (spread v) [(''observed'', big a), (''limit'', big b), (''hard_limit'', big c)]"
    by blast
  have s: "mem v ''dimension'' = js dim" "mem v ''category'' = js category" "mem v ''measurement_scope'' = js scope"
    and c: "closedKeys v measured_keys" using k(3) by (simp_all add: spells_measured_def)
  have q: "failure_quantities v [''observed'', ''limit'', ''hard_limit''] (Some u64) False = Some r"
    using k(3,7-9) r plain_failure_plain [OF c] by (auto simp: measured_quantities spells_measured_def)
  have "measured_admissible r"
    using measured_admissible_iff [OF assms(1) s(1,2)] k(10) r by simp
  with q s c k(1,2,4-6) assms(2) show ?l
    by (simp add: decodeContextFailure_def copy_eqs measured_keys_def plain_failure_plain [OF c, unfolded measured_keys_def])
qed

lemma measured_complete:
  assumes "plainData v" "category \<in> {''context_budget_exceeded'', ''thinking_exchange_headroom''}"
    "spells_measured category scope dim a b c v" "mem v ''retryable'' = Boolean False"
    "mem v ''version'' = Number 2" "scope \<in> {''ordinary'', ''maintenance''}" "dim \<in> set dimensions"
    "a \<le> u64" "b \<le> u64" "c \<le> u64" "measured_relation category dim a b c"
  shows "decodeContextFailure v =
    Some (with_members (spread v) [(''observed'', big a), (''limit'', big b), (''hard_limit'', big c)])"
proof -
  have "mem v ''category'' \<noteq> js ''context_preparation_failed''"
    using assms(2,3) by (auto simp: spells_measured_def)
  from measured_iff [OF assms(1) this] show ?thesis using assms by blast
qed

lemma decodeContextFailure_sound:
  assumes "plainData v" "decodeContextFailure v = Some r"
  shows "\<exists>f. spells_failure f v \<and> failure_ok f \<and> r = failure_native f v"
proof (cases "mem v ''category'' = js ''context_preparation_failed''")
  case True
  with assms(2) obtain cause where "cause \<in> set preparationCauses" "mem v ''cause'' = js cause"
    "mem v ''measurement_scope'' = Null \<or> mem v ''measurement_scope'' = js ''ordinary''"
    "closedKeys v [''version'', ''category'', ''retryable'', ''measurement_scope'', ''cause'']"
    "mem v ''retryable'' = Boolean False" "mem v ''version'' = Number 2" "r = spread v"
    by (auto simp: decodeContextFailure_def copy_eqs dest!: one_of_js split: if_splits)
  with True show ?thesis
    by (intro exI [of _ "Preparation_failed (mem v ''measurement_scope'' = js ''ordinary'') cause"])
      (auto simp: failure_native_def)
next
  case False
  then obtain category scope dim a b c where k: "category \<in> {''context_budget_exceeded'', ''thinking_exchange_headroom''}"
      "scope \<in> {''ordinary'', ''maintenance''}" "dim \<in> set dimensions" "a \<le> u64" "b \<le> u64" "c \<le> u64"
    and s: "spells_measured category scope dim a b c v" "mem v ''retryable'' = Boolean False" "mem v ''version'' = Number 2"
    and r: "r = with_members (spread v) [(''observed'', big a), (''limit'', big b), (''hard_limit'', big c)]"
    and rel: "measured_relation category dim a b c"
    using assms(2) unfolding measured_iff [OF assms(1) False] by blast
  show ?thesis
  proof (cases "category = ''thinking_exchange_headroom''")
    case True
    with k s r rel show ?thesis
      by (intro exI [of _ "Headroom_exceeded scope dim a b c"]) (auto simp: failure_native_def measured_relation_def)
  next
    case False
    with k s r rel show ?thesis
      by (intro exI [of _ "Budget_exceeded scope dim a b c"]) (auto simp: failure_native_def measured_relation_def split: if_splits)
  qed
qed

lemma decodeContextFailure_complete:
  assumes "plainData v" "spells_failure f v" "failure_ok f"
  shows "decodeContextFailure v = Some (failure_native f v)"
proof (cases f)
  case (Preparation_failed ordinary cause)
  with assms show ?thesis
    by (auto simp: decodeContextFailure_def copy_eqs plain_failure_plain failure_native_def)
next
  case (Budget_exceeded scope dim a b c)
  have "decodeContextFailure v = Some (with_members (spread v)
      [(''observed'', big a), (''limit'', big b), (''hard_limit'', big c)])"
    by (rule measured_complete [of v "''context_budget_exceeded''" scope dim])
      (use assms Budget_exceeded in \<open>auto simp: measured_relation_def split: if_splits\<close>)
  then show ?thesis by (simp add: failure_native_def Budget_exceeded)
next
  case (Headroom_exceeded scope dim a b c)
  have "decodeContextFailure v = Some (with_members (spread v)
      [(''observed'', big a), (''limit'', big b), (''hard_limit'', big c)])"
    by (rule measured_complete [of v "''thinking_exchange_headroom''" scope dim])
      (use assms Headroom_exceeded in \<open>auto simp: measured_relation_def dimensions_def\<close>)
  then show ?thesis by (simp add: failure_native_def Headroom_exceeded)
qed

lemma decodeContextFailure_iff:
  "plainData v \<Longrightarrow> decodeContextFailure v = Some r \<longleftrightarrow>
     (\<exists>f. spells_failure f v \<and> failure_ok f \<and> r = failure_native f v)"
  using decodeContextFailure_sound decodeContextFailure_complete by blast

end
