(* ===== verification/Compact_Result.thy ===== *)
theory Compact_Result
  imports Context_Failure
begin

text \<open>
  \<open>clients/node/compact-result.mjs\<close>: the result of a standalone compaction and the completed
  command that carries it.  The typed view \<open>compact_outcome\<close> has one constructor per
  disposition, so that the combinations the closed union forbids cannot be written.
\<close>

definition compact_plain :: "jsval \<Rightarrow> bool" where
  "compact_plain value \<longleftrightarrow> isObject value \<and> \<not> isArray value \<and> plainProto value"

definition compact_closed :: "jsval \<Rightarrow> string list \<Rightarrow> bool" where
  "compact_closed value keys \<longleftrightarrow> compact_plain value \<and> length (objectKeys value) = length keys \<and>
     list_all (hasOwn value) keys"

definition compact_identity :: "jsval \<Rightarrow> bytes option" where
  "compact_identity value = (case value of
     Str s \<Rightarrow> if 87382 < length s \<or> \<not> b64_text s then None
       else let decoded = b64url_decode s in
         if 1 \<le> length decoded \<and> length decoded \<le> 65536 \<and> b64url decoded = s then Some decoded else None
   | _ \<Rightarrow> None)"

definition compact_quantity :: "nat option \<Rightarrow> jsval \<Rightarrow> jsval option" where
  "compact_quantity maximum member = (case member of
     Str s \<Rightarrow> if \<not> canonical_decimal s then None
       else let integer = decimal_value s in
         if dec integer \<noteq> s \<or> (case maximum of None \<Rightarrow> False | Some m \<Rightarrow> m < integer) then None
         else Some (big integer)
   | _ \<Rightarrow> None)"

definition compact_quantities :: "jsval \<Rightarrow> string list \<Rightarrow> nat option \<Rightarrow> bool \<Rightarrow> jsval option" where
  "compact_quantities value keys maximum exact =
     (if \<not> compact_plain value \<or> (exact \<and> \<not> compact_closed value keys) then None
      else read_loop (\<lambda>key. compact_quantity maximum) value keys (spread value))"

definition compact_usage :: "jsval \<Rightarrow> jsval option" where
  "compact_usage value =
     (case compact_quantities value [''attempts'', ''reported_tokens'', ''estimated_tokens'', ''total_tokens'']
        None True of
        None \<Rightarrow> None
      | Some converted \<Rightarrow>
          if bigint (mem converted ''total_tokens'') =
             bigint (mem converted ''reported_tokens'') + bigint (mem converted ''estimated_tokens'')
          then Some converted else None)"

definition bound_keys :: "string list" where
  "bound_keys = [''category'', ''retryable'', ''bound'', ''observed'', ''declared_limit'', ''accounting_source'']"

definition compact_failure :: "jsval \<Rightarrow> jsval option" where
  "compact_failure value =
     (if \<not> compact_plain value \<or> mem value ''retryable'' \<noteq> Boolean False then None
      else if one_of (mem value ''category'') [''model_call_failed'', ''cancelled''] then
        (if compact_closed value [''category'', ''retryable''] then Some (spread value) else None)
      else if mem value ''category'' = js ''bound_reached'' then
        (if \<not> compact_closed value bound_keys \<or>
            \<not> one_of (mem value ''bound'') [''max_attempts'', ''deadline_ms'', ''token_budget''] \<or>
            \<not> (mem value ''accounting_source'' = Null \<or>
               one_of (mem value ''accounting_source'') [''reported'', ''estimated'']) \<or>
            (mem value ''bound'' = js ''max_attempts'' \<and> mem value ''accounting_source'' \<noteq> Null)
         then None
         else case compact_quantities value [''observed'', ''declared_limit'']
             (if mem value ''bound'' = js ''deadline_ms'' then Some u64 else None) False of
             None \<Rightarrow> None
           | Some result \<Rightarrow> if 0 < bigint (mem result ''declared_limit'') then Some result else None)
      else decodeContextFailure value)"

text \<open>The failure member: present exactly when the disposition is \<open>failed\<close>.\<close>

definition failure_branch :: "jsval \<Rightarrow> bytes option \<Rightarrow> jsval option" where
  "failure_branch value checkpoint =
     (if mem value ''disposition'' = js ''failed'' then compact_failure (mem value ''failure'')
      else if mem value ''failure'' \<noteq> Null \<or> mem value ''cleanup'' \<noteq> js ''confirmed'' \<or>
         (if mem value ''disposition'' = js ''checkpointed'' then checkpoint = None else checkpoint \<noteq> None)
      then None else Some Null)"

definition decodeCompactResult :: "jsval \<Rightarrow> jsval option" where
  "decodeCompactResult value =
     (if \<not> compact_closed value [''disposition'', ''checkpoint_id'', ''failure'', ''usage'', ''cleanup''] then None
      else if \<not> one_of (mem value ''disposition'') [''checkpointed'', ''unchanged'', ''failed''] \<or>
          \<not> one_of (mem value ''cleanup'') [''confirmed'', ''unknown''] then None
      else do {
        checkpoint \<leftarrow> nullable compact_identity (mem value ''checkpoint_id'');
        failure \<leftarrow> failure_branch value checkpoint;
        usage \<leftarrow> compact_usage (mem value ''usage'');
        Some (with_members (spread value)
          [(''checkpoint_id'', or_null Buf checkpoint), (''failure'', failure), (''usage'', usage)])
      })"

definition decodeCompactCompletion :: "jsval \<Rightarrow> jsval option" where
  "decodeCompactCompletion value =
     (if \<not> compact_closed value [''episode_id'', ''command_id'', ''result''] then None
      else do {
        episode \<leftarrow> compact_identity (mem value ''episode_id'');
        command \<leftarrow> compact_identity (mem value ''command_id'');
        result \<leftarrow> decodeCompactResult (mem value ''result'');
        Some (obj [(''episode_id'', Buf episode), (''command_id'', Buf command), (''result'', result)])
      })"

section \<open>Typed view\<close>

datatype compaction_failure =
    Model_call_failed
  | Compaction_cancelled
  | Bound_reached string nat nat "string option"
  | Context_failed context_failure

fun compaction_failure_ok :: "compaction_failure \<Rightarrow> bool" where
  "compaction_failure_ok Model_call_failed = True"
| "compaction_failure_ok Compaction_cancelled = True"
| "compaction_failure_ok (Bound_reached bound observed limit source) \<longleftrightarrow>
     bound \<in> {''max_attempts'', ''deadline_ms'', ''token_budget''} \<and> 0 < limit \<and>
     (bound = ''deadline_ms'' \<longrightarrow> observed \<le> u64 \<and> limit \<le> u64) \<and>
     (\<forall>s. source = Some s \<longrightarrow> s \<in> {''reported'', ''estimated''} \<and> bound \<noteq> ''max_attempts'')"
| "compaction_failure_ok (Context_failed f) \<longleftrightarrow> failure_ok f"

fun spells_compaction_failure :: "compaction_failure \<Rightarrow> jsval \<Rightarrow> bool" where
  "spells_compaction_failure Model_call_failed v \<longleftrightarrow> closedKeys v [''category'', ''retryable''] \<and>
     mem v ''category'' = js ''model_call_failed'' \<and> mem v ''retryable'' = Boolean False"
| "spells_compaction_failure Compaction_cancelled v \<longleftrightarrow> closedKeys v [''category'', ''retryable''] \<and>
     mem v ''category'' = js ''cancelled'' \<and> mem v ''retryable'' = Boolean False"
| "spells_compaction_failure (Bound_reached bound observed limit source) v \<longleftrightarrow> closedKeys v bound_keys \<and>
     mem v ''category'' = js ''bound_reached'' \<and> mem v ''retryable'' = Boolean False \<and>
     mem v ''bound'' = js bound \<and> mem v ''observed'' = wire_nat observed \<and>
     mem v ''declared_limit'' = wire_nat limit \<and> mem v ''accounting_source'' = or_null js source"
| "spells_compaction_failure (Context_failed f) v \<longleftrightarrow> spells_failure f v"

datatype compact_outcome =
    Checkpointed bytes
  | Unchanged
  | Compact_failed "bytes option" compaction_failure bool

fun compact_outcome_ok :: "compact_outcome \<Rightarrow> bool" where
  "compact_outcome_ok (Checkpointed c) \<longleftrightarrow> id_ok 65536 c"
| "compact_outcome_ok Unchanged \<longleftrightarrow> True"
| "compact_outcome_ok (Compact_failed c f confirmed) \<longleftrightarrow>
     (\<forall>i. c = Some i \<longrightarrow> id_ok 65536 i) \<and> compaction_failure_ok f"

definition result_keys :: "string list" where
  "result_keys = [''disposition'', ''checkpoint_id'', ''failure'', ''usage'', ''cleanup'']"

fun spells_outcome :: "compact_outcome \<Rightarrow> jsval \<Rightarrow> bool" where
  "spells_outcome (Checkpointed c) v \<longleftrightarrow> mem v ''disposition'' = js ''checkpointed'' \<and>
     mem v ''checkpoint_id'' = wire_id c \<and> mem v ''failure'' = Null \<and> mem v ''cleanup'' = js ''confirmed''"
| "spells_outcome Unchanged v \<longleftrightarrow> mem v ''disposition'' = js ''unchanged'' \<and>
     mem v ''checkpoint_id'' = Null \<and> mem v ''failure'' = Null \<and> mem v ''cleanup'' = js ''confirmed''"
| "spells_outcome (Compact_failed c f confirmed) v \<longleftrightarrow> mem v ''disposition'' = js ''failed'' \<and>
     mem v ''checkpoint_id'' = or_null wire_id c \<and> spells_compaction_failure f (mem v ''failure'') \<and>
     mem v ''cleanup'' = js (if confirmed then ''confirmed'' else ''unknown'')"

section \<open>Lemmas\<close>

lemma compact_closed_eq [copy_eqs]: "compact_closed = closedKeys"
  by (simp add: fun_eq_iff compact_closed_def compact_plain_def closedKeys_def)

lemma compact_plain_eq [copy_eqs]: "compact_plain = failure_plain"
  by (simp add: fun_eq_iff compact_plain_def failure_plain_def)

lemma compact_identity_eq [copy_eqs]: "compact_identity = identity_within 65536"
  by (simp add: fun_eq_iff compact_identity_def identity_copy)

lemma compact_quantity_eq [copy_eqs]: "compact_quantity = failure_quantity"
  by (simp add: fun_eq_iff compact_quantity_def failure_quantity_def)

lemma compact_quantities_eq:
  "compact_quantities v ks m exact =
     (if failure_plain v \<and> (exact \<longrightarrow> closedKeys v ks)
      then read_loop (\<lambda>key member. map_option big (quantity_within 0 m member)) v ks (spread v) else None)"
  by (auto simp: compact_quantities_def copy_eqs failure_quantity_eq)

lemma compact_usage_iff:
  "compact_usage v = Some r \<longleftrightarrow> (\<exists>u. spells_usage u v \<and> r = with_members (spread v)
     [(''attempts'', big (us_attempts u)), (''reported_tokens'', big (us_reported u)),
      (''estimated_tokens'', big (us_estimated u)), (''total_tokens'', big (us_total u))])" (is "?l \<longleftrightarrow> (\<exists>u. ?P u)")
proof -
  let ?ks = "[''attempts'', ''reported_tokens'', ''estimated_tokens'', ''total_tokens'']"
  have q: "compact_quantities v ?ks None True = Some x \<longleftrightarrow> closedKeys v ?ks \<and>
    (\<exists>a b c d. mem v ''attempts'' = wire_nat a \<and> mem v ''reported_tokens'' = wire_nat b \<and>
      mem v ''estimated_tokens'' = wire_nat c \<and> mem v ''total_tokens'' = wire_nat d \<and>
      x = with_members (spread v) [(''attempts'', big a), (''reported_tokens'', big b),
        (''estimated_tokens'', big c), (''total_tokens'', big d)])" for x
    by (auto simp: compact_quantities_eq read_loop_iff list_all2_Cons1 quantity_within_iff nat_ok_def
        plain_failure_plain)
  show ?thesis
  proof
    assume ?l
    then obtain a b c d where "closedKeys v ?ks" "mem v ''attempts'' = wire_nat a"
      "mem v ''reported_tokens'' = wire_nat b" "mem v ''estimated_tokens'' = wire_nat c"
      "mem v ''total_tokens'' = wire_nat d" "int d = int b + int c"
      "r = with_members (spread v) [(''attempts'', big a), (''reported_tokens'', big b),
        (''estimated_tokens'', big c), (''total_tokens'', big d)]"
      by (auto simp: compact_usage_def q mem_spread_over split: option.splits if_splits)
    then show "\<exists>u. ?P u"
      by (intro exI [of _ "\<lparr>us_attempts = a, us_reported = b, us_estimated = c, us_total = d\<rparr>"])
        (simp add: spells_usage_def)
  next
    assume "\<exists>u. ?P u"
    then obtain u where u: "?P u" by blast
    then have "compact_quantities v ?ks None True = Some r" unfolding q spells_usage_def by blast
    with u show ?l by (simp add: compact_usage_def mem_spread_over spells_usage_def)
  qed
qed

definition compaction_failure_native :: "compaction_failure \<Rightarrow> jsval \<Rightarrow> jsval" where
  "compaction_failure_native f v = with_members (spread v)
     (case f of Bound_reached bound observed limit source \<Rightarrow> [(''observed'', big observed), (''declared_limit'', big limit)]
      | Context_failed g \<Rightarrow> failure_members g | _ \<Rightarrow> [])"

lemma bound_quantities:
  "compact_quantities v [''observed'', ''declared_limit''] m False = Some r \<longleftrightarrow> failure_plain v \<and>
     (\<exists>a b. nat_ok 0 m a \<and> nat_ok 0 m b \<and> mem v ''observed'' = wire_nat a \<and> mem v ''declared_limit'' = wire_nat b \<and>
       r = with_members (spread v) [(''observed'', big a), (''declared_limit'', big b)])"
  by (auto simp: compact_quantities_eq read_loop_iff list_all2_Cons1 quantity_within_iff)

lemma bound_failure_iff:
  assumes "mem v ''category'' = js ''bound_reached''"
  shows "compact_failure v = Some r \<longleftrightarrow> (\<exists>bound a b source.
    let f = Bound_reached bound a b source in
    spells_compaction_failure f v \<and> compaction_failure_ok f \<and> r = compaction_failure_native f v)" (is "?l \<longleftrightarrow> ?r")
proof
  assume ?l
  with assms obtain bound a b where k: "closedKeys v bound_keys" "mem v ''bound'' = js bound" "mem v ''retryable'' = Boolean False"
      "bound \<in> {''max_attempts'', ''deadline_ms'', ''token_budget''}"
      "mem v ''observed'' = wire_nat a" "mem v ''declared_limit'' = wire_nat b" "0 < b"
      "nat_ok 0 (if bound = ''deadline_ms'' then Some u64 else None) a"
      "nat_ok 0 (if bound = ''deadline_ms'' then Some u64 else None) b"
      "r = with_members (spread v) [(''observed'', big a), (''declared_limit'', big b)]"
    and src: "mem v ''accounting_source'' = Null \<or> one_of (mem v ''accounting_source'') [''reported'', ''estimated'']"
      "mem v ''bound'' = js ''max_attempts'' \<longrightarrow> mem v ''accounting_source'' = Null"
    by (auto simp: compact_failure_def copy_eqs bound_quantities mem_spread_over one_of_def
        split: if_splits option.splits)
  from src(1) obtain source where s: "mem v ''accounting_source'' = or_null js source"
    "\<forall>s. source = Some s \<longrightarrow> s \<in> set [''reported'', ''estimated'']"
    unfolding null_or_one_of by blast
  have "spells_compaction_failure (Bound_reached bound a b source) v" using k s assms by simp
  moreover have "source = Some x \<Longrightarrow> bound \<noteq> ''max_attempts''" for x
    using src(2) k(2) s(1) by (auto simp: or_null_eq_Null)
  then have "compaction_failure_ok (Bound_reached bound a b source)"
    using k(4,7-9) s(2) by (simp add: nat_ok_def split: if_splits)
  moreover have "r = compaction_failure_native (Bound_reached bound a b source) v"
    using k(10) by (simp add: compaction_failure_native_def)
  ultimately show ?r unfolding Let_def by blast
next
  assume ?r
  then obtain bound a b source where k: "spells_compaction_failure (Bound_reached bound a b source) v"
      "compaction_failure_ok (Bound_reached bound a b source)"
    and r: "r = with_members (spread v) [(''observed'', big a), (''declared_limit'', big b)]"
    by (auto simp: Let_def compaction_failure_native_def)
  have "compact_quantities v [''observed'', ''declared_limit''] (if bound = ''deadline_ms'' then Some u64 else None) False = Some r"
    using k r by (auto simp: bound_quantities nat_ok_def plain_failure_plain)
  moreover have "mem v ''accounting_source'' = Null \<or> one_of (mem v ''accounting_source'') [''reported'', ''estimated'']"
    "bound = ''max_attempts'' \<Longrightarrow> mem v ''accounting_source'' = Null"
    using k by (auto simp: or_null_def one_of_def split: option.splits)
  ultimately show ?l
    using k by (auto simp: compact_failure_def copy_eqs plain_failure_plain mem_spread_over r)
qed

lemma spells_failure_category:
  "spells_failure f v \<Longrightarrow> \<not> one_of (mem v ''category'') [''model_call_failed'', ''cancelled''] \<and>
     mem v ''category'' \<noteq> js ''bound_reached'' \<and> failure_plain v \<and> mem v ''retryable'' = Boolean False"
  by (cases f) (auto simp: spells_measured_def one_of_def plain_failure_plain)

lemma compact_failure_iff:
  assumes "plainData v"
  shows "compact_failure v = Some r \<longleftrightarrow>
    (\<exists>f. spells_compaction_failure f v \<and> compaction_failure_ok f \<and> r = compaction_failure_native f v)" (is "?l \<longleftrightarrow> ?r")
proof
  assume l: ?l
  consider "mem v ''category'' = js ''model_call_failed''" | "mem v ''category'' = js ''cancelled''"
    | "mem v ''category'' = js ''bound_reached''"
    | "\<not> one_of (mem v ''category'') [''model_call_failed'', ''cancelled'']" "mem v ''category'' \<noteq> js ''bound_reached''"
    by (auto simp: one_of_def)
  then show ?r
  proof cases
    case 1
    with l show ?thesis
      by (intro exI [of _ Model_call_failed])
        (auto simp: compact_failure_def copy_eqs compaction_failure_native_def split: if_splits)
  next
    case 2
    with l show ?thesis
      by (intro exI [of _ Compaction_cancelled])
        (auto simp: compact_failure_def copy_eqs compaction_failure_native_def split: if_splits)
  next
    case 3
    from l [unfolded bound_failure_iff [OF 3]] show ?thesis unfolding Let_def by blast
  next
    case 4
    with l have "decodeContextFailure v = Some r" by (auto simp: compact_failure_def split: if_splits)
    then obtain f where "spells_failure f v" "failure_ok f" "r = failure_native f v"
      unfolding decodeContextFailure_iff [OF assms] by blast
    then show ?thesis
      by (intro exI [of _ "Context_failed f"]) (simp add: compaction_failure_native_def failure_native_def)
  qed
next
  assume ?r
  then obtain f where f: "spells_compaction_failure f v" "compaction_failure_ok f" "r = compaction_failure_native f v"
    by blast
  show ?l
  proof (cases f)
    case (Bound_reached bound a b source)
    with f have "mem v ''category'' = js ''bound_reached''" by simp
    from bound_failure_iff [OF this] f Bound_reached show ?thesis unfolding Let_def by blast
  next
    case (Context_failed g)
    with f have g: "spells_failure g v" "failure_ok g" "r = failure_native g v"
      by (simp_all add: compaction_failure_native_def failure_native_def)
    then have "decodeContextFailure v = Some r" unfolding decodeContextFailure_iff [OF assms] by blast
    with spells_failure_category [OF g(1)] show ?thesis
      by (simp add: compact_failure_def copy_eqs)
  qed (use f plain_failure_plain in \<open>auto simp: compact_failure_def copy_eqs compaction_failure_native_def\<close>)
qed

definition compact_usage_native :: "token_usage \<Rightarrow> jsval \<Rightarrow> jsval" where
  "compact_usage_native u v = with_members (spread v)
     [(''attempts'', big (us_attempts u)), (''reported_tokens'', big (us_reported u)),
      (''estimated_tokens'', big (us_estimated u)), (''total_tokens'', big (us_total u))]"

fun outcome_checkpoint :: "compact_outcome \<Rightarrow> bytes option" where
  "outcome_checkpoint (Checkpointed c) = Some c"
| "outcome_checkpoint Unchanged = None"
| "outcome_checkpoint (Compact_failed c f confirmed) = c"

fun outcome_failure :: "compact_outcome \<Rightarrow> jsval \<Rightarrow> jsval" where
  "outcome_failure (Compact_failed c f confirmed) v = compaction_failure_native f v"
| "outcome_failure _ v = Null"

definition compact_result_native :: "compact_outcome \<Rightarrow> token_usage \<Rightarrow> jsval \<Rightarrow> jsval" where
  "compact_result_native x u v = with_members (spread v)
     [(''checkpoint_id'', or_null Buf (outcome_checkpoint x)), (''failure'', outcome_failure x (mem v ''failure'')),
      (''usage'', compact_usage_native u (mem v ''usage''))]"

lemma spells_compaction_failure_object: "spells_compaction_failure f v \<Longrightarrow> isObject v \<and> \<not> isArray v"
proof (cases f)
  case (Context_failed g)
  assume "spells_compaction_failure f v"
  with Context_failed have "spells_failure g v" by simp
  then show ?thesis by (cases g) (auto simp: spells_measured_def dest: closedKeys_isObject)
qed (auto dest: closedKeys_isObject)

lemma compact_failure_object: "compact_failure v = Some r \<Longrightarrow> isObject v \<and> \<not> isArray v"
  by (auto simp: compact_failure_def compact_plain_def split: if_splits)

lemma nullable_id_Some: "\<forall>i. c = Some i \<longrightarrow> id_ok m i \<Longrightarrow> nullable (identity_within m) (or_null wire_id c) = Some c"
  by (simp add: nullable_identity_iff)

lemma decodeCompactResult_sound:
  assumes "json v" "decodeCompactResult v = Some r"
  shows "closedKeys v result_keys \<and> (\<exists>x u. compact_outcome_ok x \<and> spells_outcome x v \<and>
    spells_usage u (mem v ''usage'') \<and> r = compact_result_native x u v)"
proof -
  from assms(2) obtain c f w where k: "closedKeys v result_keys"
      "one_of (mem v ''disposition'') [''checkpointed'', ''unchanged'', ''failed'']"
      "one_of (mem v ''cleanup'') [''confirmed'', ''unknown'']"
    and c: "\<forall>i. c = Some i \<longrightarrow> id_ok 65536 i" "mem v ''checkpoint_id'' = or_null wire_id c"
    and f: "failure_branch v c = Some f"
    and w: "compact_usage (mem v ''usage'') = Some w"
    and r: "r = with_members (spread v) [(''checkpoint_id'', or_null Buf c), (''failure'', f), (''usage'', w)]"
    by (auto simp: decodeCompactResult_def copy_eqs result_keys_def bind_eq_Some_conv nullable_identity_iff
        split: if_splits)
  from w obtain u where u: "spells_usage u (mem v ''usage'')" "w = compact_usage_native u (mem v ''usage'')"
    unfolding compact_usage_iff compact_usage_native_def by blast
  have "\<exists>x. compact_outcome_ok x \<and> spells_outcome x v \<and> outcome_checkpoint x = c \<and>
    outcome_failure x (mem v ''failure'') = f"
  proof (cases "mem v ''disposition'' = js ''failed''")
    case True
    have o: "isObject v" "\<not> isArray v" using k(1) closedKeys_isObject by auto
    have cf: "compact_failure (mem v ''failure'') = Some f" using f True by (simp add: failure_branch_def)
    then have "plainData (mem v ''failure'')"
      using compact_failure_object json_member_plain [OF assms(1) o] by blast
    with cf obtain g where "spells_compaction_failure g (mem v ''failure'')" "compaction_failure_ok g"
      "f = compaction_failure_native g (mem v ''failure'')" using compact_failure_iff by blast
    with True c k(3) show ?thesis
      by (intro exI [of _ "Compact_failed c g (mem v ''cleanup'' = js ''confirmed'')"]) (auto simp: one_of_def)
  next
    case False
    with f have n: "mem v ''failure'' = Null" "mem v ''cleanup'' = js ''confirmed''" "f = Null"
      "if mem v ''disposition'' = js ''checkpointed'' then c \<noteq> None else c = None"
      by (auto simp: failure_branch_def split: if_splits)
    show ?thesis
    proof (cases c)
      case None
      with n k(2) False c show ?thesis by (intro exI [of _ Unchanged]) (auto simp: one_of_def or_null_def split: if_splits)
    next
      case (Some i)
      with n k(2) False c show ?thesis by (intro exI [of _ "Checkpointed i"]) (auto simp: or_null_def split: if_splits)
    qed
  qed
  then show ?thesis using k(1) u r unfolding compact_result_native_def by blast
qed

lemma decodeCompactResult_complete:
  assumes "json v" "closedKeys v result_keys" "compact_outcome_ok x" "spells_outcome x v" "spells_usage u (mem v ''usage'')"
  shows "decodeCompactResult v = Some (compact_result_native x u v)"
proof -
  have w: "compact_usage (mem v ''usage'') = Some (compact_usage_native u (mem v ''usage''))"
    using assms(5) compact_usage_iff compact_usage_native_def by blast
  have closed: "compact_closed v [''disposition'', ''checkpoint_id'', ''failure'', ''usage'', ''cleanup'']"
    using assms(2) by (simp add: copy_eqs result_keys_def)
  show ?thesis
  proof (cases x)
    case (Compact_failed c f confirmed)
    have o: "isObject v" "\<not> isArray v" using assms(2) closedKeys_isObject by auto
    have s: "spells_compaction_failure f (mem v ''failure'')" "compaction_failure_ok f"
      using assms Compact_failed by simp_all
    then have "plainData (mem v ''failure'')"
      using json_member_plain [OF assms(1) o] spells_compaction_failure_object by blast
    with s have "compact_failure (mem v ''failure'') = Some (compaction_failure_native f (mem v ''failure''))"
      using compact_failure_iff by blast
    with assms Compact_failed closed w show ?thesis
      by (simp add: decodeCompactResult_def failure_branch_def nullable_id_Some compact_identity_eq
          compact_result_native_def)
  qed (use assms closed w in \<open>simp_all add: decodeCompactResult_def failure_branch_def compact_identity_eq nullable_def
      identity_scalar.read_write or_null_def compact_result_native_def\<close>)
qed

lemma decodeCompactResult_iff:
  "json v \<Longrightarrow> decodeCompactResult v = Some r \<longleftrightarrow> closedKeys v result_keys \<and>
     (\<exists>x u. compact_outcome_ok x \<and> spells_outcome x v \<and> spells_usage u (mem v ''usage'') \<and>
        r = compact_result_native x u v)"
  using decodeCompactResult_sound decodeCompactResult_complete by blast

lemma decodeCompactCompletion_iff:
  "decodeCompactCompletion v = Some r \<longleftrightarrow> closedKeys v [''episode_id'', ''command_id'', ''result''] \<and>
     (\<exists>e c x. identity_within 65536 (mem v ''episode_id'') = Some e \<and>
        identity_within 65536 (mem v ''command_id'') = Some c \<and> decodeCompactResult (mem v ''result'') = Some x \<and>
        r = obj [(''episode_id'', Buf e), (''command_id'', Buf c), (''result'', x)])"
  by (auto simp: decodeCompactCompletion_def copy_eqs bind_eq_Some_conv)

section \<open>Properties\<close>

text \<open>\<open>decodeCompactResult\<close> accepts a parsed result exactly when it spells one disposition with a failure present just for
  the failed one, cleanup confirmed for the others, and token usage that adds up; and returns it.\<close>

theorem compact_result_exact:
  assumes "json v"
  shows "decodeCompactResult v = Some r \<longleftrightarrow> closedKeys v result_keys \<and>
     (\<exists>x u. compact_outcome_ok x \<and> spells_outcome x v \<and> spells_usage u (mem v ''usage'') \<and> r = compact_result_native x u v)"
  by (rule decodeCompactResult_iff [OF assms])

theorem compact_result_exact_witness:
  "\<exists>r. decodeCompactResult (obj [(''disposition'', js ''unchanged''), (''checkpoint_id'', Null), (''failure'', Null),
     (''usage'', obj [(''attempts'', wire_nat 1), (''reported_tokens'', wire_nat 2), (''estimated_tokens'', wire_nat 3),
       (''total_tokens'', wire_nat 5)]), (''cleanup'', js ''confirmed'')]) = Some r"
proof -
  let ?v = "obj [(''disposition'', js ''unchanged''), (''checkpoint_id'', Null), (''failure'', Null),
     (''usage'', obj [(''attempts'', wire_nat 1), (''reported_tokens'', wire_nat 2), (''estimated_tokens'', wire_nat 3),
       (''total_tokens'', wire_nat 5)]), (''cleanup'', js ''confirmed'')]"
  let ?u = "\<lparr>us_attempts = 1, us_reported = 2, us_estimated = 3, us_total = 5\<rparr>"
  have j: "json ?v" by (simp add: obj_def)
  have "spells_outcome Unchanged ?v" "spells_usage ?u (mem ?v ''usage'')" "closedKeys ?v result_keys" "compact_outcome_ok Unchanged"
    by (simp_all add: spells_usage_def member_simps result_keys_def)
  with compact_result_exact [OF j] show ?thesis by blast
qed

end
