(* ===== verification/Snapshot.thy ===== *)
theory Snapshot
  imports Session_Views Configuration Compact_Result
begin

text \<open>
  \<open>clients/node/snapshot.mjs\<close>: a complete public session snapshot.  Its views are read by the
  payload decoders; the module itself adds the relations between the views.
\<close>

definition snapshot_keys :: "string list" where
  "snapshot_keys = [''snapshot_revision'', ''session_id'', ''event_sequence'', ''active_run_id'', ''active_run_phase'',
     ''configuration'', ''checkpoint'', ''active_maintenance'', ''open_interaction'', ''last_compact'']"

definition snapshot_closed :: "jsval \<Rightarrow> string list \<Rightarrow> bool" where
  "snapshot_closed value required \<longleftrightarrow> isObject value \<and> \<not> isArray value \<and> plainProto value \<and>
     length (objectKeys value) = length required \<and> list_all (hasOwn value) required"

definition snapshot_identity :: "jsval \<Rightarrow> nat \<Rightarrow> bytes option" where
  "snapshot_identity value maximum = (case value of
     Str s \<Rightarrow> if 87382 < length s \<or> \<not> b64_text s then None
       else let bytes = b64url_decode s in
         if 1 \<le> length bytes \<and> length bytes \<le> maximum \<and> b64url bytes = s then Some bytes else None
   | _ \<Rightarrow> None)"

definition snapshot_quantity :: "jsval \<Rightarrow> nat option" where
  "snapshot_quantity value = (case value of
     Str s \<Rightarrow> if \<not> canonical_decimal s then None
       else let integer = decimal_value s in if dec integer = s \<and> integer \<le> u64 then Some integer else None
   | _ \<Rightarrow> None)"

text \<open>\<open>a > b\<close> on two BigInts\<close>

definition big_greater :: "jsval \<Rightarrow> jsval \<Rightarrow> bool" where
  "big_greater a b = (case (bigint_of a, bigint_of b) of (Some i, Some j) \<Rightarrow> j < i | _ \<Rightarrow> False)"

text \<open>The relations between the decoded views under which the snapshot is refused\<close>

definition views_clash :: "jsval \<Rightarrow> jsval \<Rightarrow> jsval \<Rightarrow> jsval \<Rightarrow> jsval \<Rightarrow> jsval \<Rightarrow> jsval \<Rightarrow> nat \<Rightarrow> bool" where
  "views_clash run phase question active configuration checkpoint compact cursor \<longleftrightarrow>
     (run = Null) \<noteq> (phase = Null) \<or>
     (question \<noteq> Null \<and> (run = Null \<or> active \<noteq> Null \<or> mem question ''run_id'' \<noteq> run)) \<or>
     (active \<noteq> Null \<and> (mem active ''configuration_version'' \<noteq> mem configuration ''configuration_version'' \<or>
        (if mem (mem active ''owner'') ''kind'' = js ''run'' then run = Null \<or> mem (mem active ''owner'') ''id'' \<noteq> run else run \<noteq> Null))) \<or>
     (checkpoint \<noteq> Null \<and> big_greater (mem checkpoint ''configuration_version'') (mem configuration ''configuration_version'')) \<or>
     (cursor = 0 \<and> list_ex (\<lambda>member. member \<noteq> Null) [run, checkpoint, active, question, compact])"

definition decodeSnapshot :: "jsval \<Rightarrow> jsval option" where
  "decodeSnapshot value =
     (if \<not> snapshot_closed value snapshot_keys \<or> mem value ''snapshot_revision'' \<noteq> Number 3 \<or>
         \<not> (mem value ''active_run_phase'' = Null \<or> one_of (mem value ''active_run_phase'') [''admitted_unstaged'', ''started'']) then None
      else do {
        session \<leftarrow> snapshot_identity (mem value ''session_id'') 256;
        run \<leftarrow> nullable (\<lambda>v. snapshot_identity v 65536) (mem value ''active_run_id'');
        cursor \<leftarrow> snapshot_quantity (mem value ''event_sequence'');
        configuration \<leftarrow> decodeConfiguration (mem value ''configuration'');
        checkpoint \<leftarrow> nullable decodeCheckpoint (mem value ''checkpoint'');
        question \<leftarrow> nullable decodeOpenInteraction (mem value ''open_interaction'');
        maintenance \<leftarrow> decodeMaintenanceView (obj [(''active_maintenance'', mem value ''active_maintenance'')]);
        compact \<leftarrow> nullable decodeCompactCompletion (mem value ''last_compact'');
        (let run = or_null Buf run; checkpoint = or_null (\<lambda>x. x) checkpoint; question = or_null (\<lambda>x. x) question;
             compact = or_null (\<lambda>x. x) compact; active = mem maintenance ''active_maintenance'' in
         if views_clash run (mem value ''active_run_phase'') question active configuration checkpoint compact cursor then None
         else Some (with_members (spread value) [(''session_id'', Buf session), (''event_sequence'', big cursor), (''active_run_id'', run),
           (''configuration'', configuration), (''checkpoint'', checkpoint), (''open_interaction'', question),
           (''active_maintenance'', active), (''last_compact'', compact)]))
      })"

section \<open>Typed view\<close>

record snapshot =
  sn_session :: bytes
  sn_cursor :: nat
  sn_run :: "(bytes \<times> string) option"
  sn_configuration :: configuration
  sn_checkpoint :: "checkpoint option"
  sn_maintenance :: "maintenance option"
  sn_question :: "interaction option"
  sn_compact :: "jsval option"

definition spells_snapshot :: "snapshot \<Rightarrow> jsval \<Rightarrow> bool" where
  "spells_snapshot s v \<longleftrightarrow> closedKeys v snapshot_keys \<and> mem v ''snapshot_revision'' = Number 3 \<and>
     id_ok 256 (sn_session s) \<and> mem v ''session_id'' = wire_id (sn_session s) \<and>
     sn_cursor s \<le> u64 \<and> mem v ''event_sequence'' = wire_nat (sn_cursor s) \<and>
     (\<forall>b p. sn_run s = Some (b, p) \<longrightarrow> id_ok 65536 b \<and> p \<in> {''admitted_unstaged'', ''started''}) \<and>
     mem v ''active_run_id'' = or_null wire_id (map_option fst (sn_run s)) \<and>
     mem v ''active_run_phase'' = or_null js (map_option snd (sn_run s)) \<and>
     spells_configuration (sn_configuration s) (mem v ''configuration'') \<and>
     spells_opt (\<lambda>c w. checkpoint_ok c \<and> spells_checkpoint c w) (sn_checkpoint s) (mem v ''checkpoint'') \<and>
     spells_opt spells_maintenance (sn_maintenance s) (mem v ''active_maintenance'') \<and>
     spells_opt (\<lambda>x w. interaction_ok x \<and> spells_interaction False x w) (sn_question s) (mem v ''open_interaction'') \<and>
     spells_opt (\<lambda>c w. decodeCompactCompletion w = Some c) (sn_compact s) (mem v ''last_compact'')"

text \<open>
  The contract between the views: an open question belongs to the active run and excludes maintenance;
  maintenance runs under the current configuration, for the active run or, when compaction owns it, only
  while there is none; no checkpoint is newer than the configuration; nothing exists at cursor zero.
\<close>

definition snapshot_coherent :: "snapshot \<Rightarrow> bool" where
  "snapshot_coherent s \<longleftrightarrow>
     (\<forall>x. sn_question s = Some x \<longrightarrow> map_option fst (sn_run s) = Some (in_run x) \<and> sn_maintenance s = None) \<and>
     (\<forall>m. sn_maintenance s = Some m \<longrightarrow> mt_version m = cfg_version (sn_configuration s) \<and>
        map_option fst (sn_run s) = (case mt_owner m of Run_owner i \<Rightarrow> Some i | Compact_owner i \<Rightarrow> None)) \<and>
     (\<forall>c. sn_checkpoint s = Some c \<longrightarrow> ck_version c \<le> cfg_version (sn_configuration s)) \<and>
     (sn_cursor s = 0 \<longrightarrow> sn_run s = None \<and> sn_checkpoint s = None \<and> sn_maintenance s = None \<and> sn_question s = None \<and> sn_compact s = None)"

definition snapshot_native :: "snapshot \<Rightarrow> jsval \<Rightarrow> jsval" where
  "snapshot_native s v = with_members (spread v) [(''session_id'', Buf (sn_session s)), (''event_sequence'', big (sn_cursor s)),
     (''active_run_id'', or_null Buf (map_option fst (sn_run s))),
     (''configuration'', configuration_native (sn_configuration s) (mem v ''configuration'')),
     (''checkpoint'', or_null (\<lambda>c. checkpoint_native c (mem v ''checkpoint'')) (sn_checkpoint s)),
     (''open_interaction'', or_null (\<lambda>x. with_members (mem v ''open_interaction'') (interaction_members True x)) (sn_question s)),
     (''active_maintenance'', or_null (\<lambda>m. maintenance_native m (mem v ''active_maintenance'')) (sn_maintenance s)),
     (''last_compact'', or_null (\<lambda>x. x) (sn_compact s))]"

section \<open>Lemmas\<close>

lemma snapshot_closed_eq [copy_eqs]: "snapshot_closed = closedKeys"
  by (simp add: fun_eq_iff snapshot_closed_def closedKeys_def)

lemma snapshot_identity_eq [copy_eqs]:
  "snapshot_identity v 256 = identity_within 256 v" "(\<lambda>v. snapshot_identity v 65536) = identity_within 65536"
  by (simp_all add: fun_eq_iff snapshot_identity_def identity_copy)

lemma snapshot_quantity_eq [copy_eqs]: "snapshot_quantity = quantity_within 0 (Some u64)"
  by (auto simp: fun_eq_iff snapshot_quantity_def quantity_within_def dec_decimal_value Let_def split: jsval.split)

lemma compact_member:
  "nullable decodeCompactCompletion w = Some y \<longleftrightarrow> spells_opt (\<lambda>c w. decodeCompactCompletion w = Some c) y w"
proof -
  have "\<not> decodeCompactCompletion Null = Some c" for c by (simp add: decodeCompactCompletion_iff)
  then show ?thesis by (cases y) (auto simp: nullable_def)
qed

lemma not_null_members [simp]:
  "with_members (Obj p ps) ms \<noteq> Null" "configuration_native c v \<noteq> Null" "checkpoint_native k v \<noteq> Null"
  using with_members_Obj [of p ps ms] with_members_Obj [of ObjectProto]
  by (auto simp: configuration_native_def checkpoint_native_def spread_def) (metis jsval.distinct)+

lemma question_run:
  assumes "spells_interaction False x w"
  shows "with_members w (interaction_members True x) \<noteq> Null"
    "mem (with_members w (interaction_members True x)) ''run_id'' = Buf (in_run x)"
proof -
  have "plainData w" using assms closedPlain_plain by (auto simp: spells_interaction_def)
  then obtain ps where w: "w = Obj ObjectProto ps" by (cases w) (auto simp: plainData_def)
  show "with_members w (interaction_members True x) \<noteq> Null" by (simp add: w)
  show "mem (with_members w (interaction_members True x)) ''run_id'' = Buf (in_run x)"
    unfolding w mem_with_members
    by (cases "in_answer x") (auto simp: interaction_members_def id_at_def)
qed

lemma question_clash:
  assumes "spells_opt (\<lambda>x w. interaction_ok x \<and> spells_interaction False x w) x w"
    and "question = or_null (\<lambda>x. with_members w (interaction_members True x)) x" "run = or_null Buf r"
  shows "question = Null \<longleftrightarrow> x = None"
    "question \<noteq> Null \<and> (run = Null \<or> active \<noteq> Null \<or> mem question ''run_id'' \<noteq> run) \<longleftrightarrow>
       \<not> (\<forall>y. x = Some y \<longrightarrow> r = Some (in_run y) \<and> active = Null)"
  using assms question_run by (cases x; cases r; auto simp: or_null_def)+

lemma maintenance_clash:
  assumes "active = or_null (\<lambda>m. maintenance_native m w) m" "run = or_null Buf r"
  shows "active = Null \<longleftrightarrow> m = None"
    "active \<noteq> Null \<and> (mem active ''configuration_version'' \<noteq> mem (configuration_native c cv) ''configuration_version'' \<or>
       (if mem (mem active ''owner'') ''kind'' = js ''run'' then run = Null \<or> mem (mem active ''owner'') ''id'' \<noteq> run else run \<noteq> Null)) \<longleftrightarrow>
     \<not> (\<forall>n. m = Some n \<longrightarrow> mt_version n = cfg_version c \<and> r = (case mt_owner n of Run_owner i \<Rightarrow> Some i | Compact_owner i \<Rightarrow> None))"
proof -
  show "active = Null \<longleftrightarrow> m = None" by (cases m) (simp_all add: assms or_null_def)
  show "active \<noteq> Null \<and> (mem active ''configuration_version'' \<noteq> mem (configuration_native c cv) ''configuration_version'' \<or>
       (if mem (mem active ''owner'') ''kind'' = js ''run'' then run = Null \<or> mem (mem active ''owner'') ''id'' \<noteq> run else run \<noteq> Null)) \<longleftrightarrow>
     \<not> (\<forall>n. m = Some n \<longrightarrow> mt_version n = cfg_version c \<and> r = (case mt_owner n of Run_owner i \<Rightarrow> Some i | Compact_owner i \<Rightarrow> None))"
  proof (cases m)
    case (Some n)
    then show ?thesis
      by (cases "mt_owner n"; cases r) (auto simp: assms or_null_def member_simps owner_native_def)
  qed (simp add: assms or_null_def)
qed

lemma checkpoint_clash:
  assumes "checkpoint = or_null (\<lambda>k. checkpoint_native k w) k"
  shows "checkpoint = Null \<longleftrightarrow> k = None"
    "checkpoint \<noteq> Null \<and> big_greater (mem checkpoint ''configuration_version'') (mem (configuration_native c cv) ''configuration_version'') \<longleftrightarrow>
       \<not> (\<forall>y. k = Some y \<longrightarrow> ck_version y \<le> cfg_version c)"
  by (cases k; auto simp: assms or_null_def member_simps big_greater_def)+

lemma compact_not_null:
  "spells_opt (\<lambda>c w. decodeCompactCompletion w = Some c) y w \<Longrightarrow> or_null (\<lambda>x. x) y = Null \<longleftrightarrow> y = None"
  by (cases y) (auto simp: or_null_def decodeCompactCompletion_iff member_simps)

lemma or_null_Buf: "or_null Buf r = Null \<longleftrightarrow> r = None"
  by (cases r) (simp_all add: or_null_def)

text \<open>The decoder's test on the decoded views is the contract on the typed ones.\<close>

lemma views_clash_iff:
  assumes "spells_opt (\<lambda>x w. interaction_ok x \<and> spells_interaction False x w) (sn_question s) (mem v ''open_interaction'')"
    and "spells_opt (\<lambda>c w. decodeCompactCompletion w = Some c) (sn_compact s) (mem v ''last_compact'')"
    and "mem v ''active_run_phase'' = or_null js (map_option snd (sn_run s))"
  shows "\<not> views_clash (or_null Buf (map_option fst (sn_run s))) (mem v ''active_run_phase'')
      (or_null (\<lambda>x. with_members (mem v ''open_interaction'') (interaction_members True x)) (sn_question s))
      (or_null (\<lambda>m. maintenance_native m (mem v ''active_maintenance'')) (sn_maintenance s))
      (configuration_native (sn_configuration s) (mem v ''configuration''))
      (or_null (\<lambda>c. checkpoint_native c (mem v ''checkpoint'')) (sn_checkpoint s)) (or_null (\<lambda>x. x) (sn_compact s)) (sn_cursor s)
    \<longleftrightarrow> snapshot_coherent s"
proof -
  have ex: "list_ex P [a, b, c, d, e] \<longleftrightarrow> P a \<or> P b \<or> P c \<or> P d \<or> P e" for P :: "jsval \<Rightarrow> bool" and a b c d e by simp
  note q = question_clash [OF assms(1) refl refl]
  note m = maintenance_clash [OF refl refl]
  note k = checkpoint_clash [OF refl]
  have p: "or_null Buf (map_option fst (sn_run s)) = Null \<longleftrightarrow> mem v ''active_run_phase'' = Null"
    unfolding assms(3) by (cases "sn_run s") (simp_all add: or_null_def)
  show ?thesis
    unfolding views_clash_def q(2) m(2) k(2) unfolding ex unfolding q(1) m(1) k(1) compact_not_null [OF assms(2)]
    unfolding snapshot_coherent_def using p by (auto simp: or_null_Buf)
qed

lemma decodeSnapshot_complete:
  assumes "json v" "spells_snapshot s v" "snapshot_coherent s"
  shows "decodeSnapshot v = Some (snapshot_native s v)"
proof -
  note sp = assms(2) [unfolded spells_snapshot_def]
  have run: "nullable (identity_within 65536) (mem v ''active_run_id'') = Some (map_option fst (sn_run s))"
    using sp unfolding nullable_identity_iff by auto
  have ck: "nullable decodeCheckpoint (mem v ''checkpoint'') = Some (map_option (\<lambda>c. checkpoint_native c (mem v ''checkpoint'')) (sn_checkpoint s))"
    using sp unfolding checkpoint_member [OF assms(1)] by blast
  have q: "nullable decodeOpenInteraction (mem v ''open_interaction'') =
      Some (map_option (\<lambda>x. with_members (mem v ''open_interaction'') (interaction_members True x)) (sn_question s))"
    using sp unfolding question_member by blast
  have m: "decodeMaintenanceView (obj [(''active_maintenance'', mem v ''active_maintenance'')]) =
      Some (obj [(''active_maintenance'', or_null (\<lambda>m. maintenance_native m (mem v ''active_maintenance'')) (sn_maintenance s))])"
    using sp unfolding maintenance_member by blast
  have c: "nullable decodeCompactCompletion (mem v ''last_compact'') = Some (sn_compact s)" using sp unfolding compact_member by blast
  have cf: "decodeConfiguration (mem v ''configuration'') = Some (configuration_native (sn_configuration s) (mem v ''configuration''))"
    using sp unfolding decodeConfiguration_iff by blast
  have s: "identity_within 256 (mem v ''session_id'') = Some (sn_session s)" "quantity_within 0 (Some u64) (mem v ''event_sequence'') = Some (sn_cursor s)"
    using sp by (simp_all add: identity_within_iff quantity_within_iff nat_ok_def)
  have ph: "mem v ''active_run_phase'' = Null \<or> one_of (mem v ''active_run_phase'') [''admitted_unstaged'', ''started'']"
    using sp by (cases "sn_run s") (auto simp: or_null_def)
  have on: "or_null (\<lambda>x. x) (map_option f y) = or_null f y" for f :: "'a \<Rightarrow> jsval" and y by (cases y) (simp_all add: or_null_def)
  have cl: "\<not> views_clash (or_null Buf (map_option fst (sn_run s))) (mem v ''active_run_phase'')
      (or_null (\<lambda>x. with_members (mem v ''open_interaction'') (interaction_members True x)) (sn_question s))
      (or_null (\<lambda>m. maintenance_native m (mem v ''active_maintenance'')) (sn_maintenance s))
      (configuration_native (sn_configuration s) (mem v ''configuration''))
      (or_null (\<lambda>c. checkpoint_native c (mem v ''checkpoint'')) (sn_checkpoint s)) (or_null (\<lambda>x. x) (sn_compact s)) (sn_cursor s)"
    using views_clash_iff [of s v] sp assms(3) by blast
  have am: "mem (obj [(''active_maintenance'', x)]) ''active_maintenance'' = x" for x by (simp add: member_simps)
  have closed: "closedKeys v snapshot_keys" "mem v ''snapshot_revision'' = Number 3" using sp by blast+
  show ?thesis
    unfolding decodeSnapshot_def copy_eqs run ck q m c cf s am bind.bind_lunit Let_def on
    using ph cl closed by (simp add: snapshot_native_def)
qed

lemma decodeSnapshot_sound:
  assumes "json v" "decodeSnapshot v = Some r"
  shows "\<exists>s. spells_snapshot s v \<and> snapshot_coherent s"
proof -
  from assms(2) obtain session run cursor cf ck q m c where closed: "closedKeys v snapshot_keys" "mem v ''snapshot_revision'' = Number 3"
    and ph: "mem v ''active_run_phase'' = Null \<or> one_of (mem v ''active_run_phase'') [''admitted_unstaged'', ''started'']"
    and parts: "identity_within 256 (mem v ''session_id'') = Some session"
      "nullable (identity_within 65536) (mem v ''active_run_id'') = Some run"
      "quantity_within 0 (Some u64) (mem v ''event_sequence'') = Some cursor"
      "decodeConfiguration (mem v ''configuration'') = Some cf"
      "nullable decodeCheckpoint (mem v ''checkpoint'') = Some ck"
      "nullable decodeOpenInteraction (mem v ''open_interaction'') = Some q"
      "decodeMaintenanceView (obj [(''active_maintenance'', mem v ''active_maintenance'')]) = Some m"
      "nullable decodeCompactCompletion (mem v ''last_compact'') = Some c"
    and cl: "\<not> views_clash (or_null Buf run) (mem v ''active_run_phase'') (or_null (\<lambda>x. x) q) (mem m ''active_maintenance'') cf
       (or_null (\<lambda>x. x) ck) (or_null (\<lambda>x. x) c) cursor"
    unfolding decodeSnapshot_def copy_eqs by (auto simp: bind_eq_Some_conv Let_def split: if_splits)
  from ph obtain p where p: "mem v ''active_run_phase'' = or_null js p" "\<forall>x. p = Some x \<longrightarrow> x \<in> set [''admitted_unstaged'', ''started'']"
    unfolding null_or_one_of by blast
  have rp: "run = None \<longleftrightarrow> p = None" using cl unfolding views_clash_def p(1) by (cases run; cases p) (auto simp: or_null_def)
  have run: "\<forall>x. run = Some x \<longrightarrow> id_ok 65536 x" "mem v ''active_run_id'' = or_null wire_id run" using parts(2) unfolding nullable_identity_iff by blast+
  from rp obtain both where both: "run = map_option fst both" "p = map_option snd both" by (rule paired_options)
  from parts(4) obtain cf' where cf: "spells_configuration cf' (mem v ''configuration'')" "cf = configuration_native cf' (mem v ''configuration'')"
    unfolding decodeConfiguration_iff by blast
  from parts(5) obtain ck' where ck: "spells_opt (\<lambda>c w. checkpoint_ok c \<and> spells_checkpoint c w) ck' (mem v ''checkpoint'')"
      "ck = map_option (\<lambda>c. checkpoint_native c (mem v ''checkpoint'')) ck'" unfolding checkpoint_member [OF assms(1)] by blast
  from parts(6) obtain q' where q: "spells_opt (\<lambda>x w. interaction_ok x \<and> spells_interaction False x w) q' (mem v ''open_interaction'')"
      "q = map_option (\<lambda>x. with_members (mem v ''open_interaction'') (interaction_members True x)) q'" unfolding question_member by blast
  from parts(7) obtain m' where m: "spells_opt spells_maintenance m' (mem v ''active_maintenance'')"
      "m = obj [(''active_maintenance'', or_null (\<lambda>m. maintenance_native m (mem v ''active_maintenance'')) m')]" unfolding maintenance_member by blast
  have c: "spells_opt (\<lambda>c w. decodeCompactCompletion w = Some c) c (mem v ''last_compact'')" using parts(8) unfolding compact_member .
  let ?s = "\<lparr>sn_session = session, sn_cursor = cursor, sn_run = both, sn_configuration = cf', sn_checkpoint = ck',
    sn_maintenance = m', sn_question = q', sn_compact = c\<rparr>"
  have sp: "spells_snapshot ?s v"
    using closed parts(1,3) run both p cf(1) ck(1) q(1) m(1) c
    by (simp add: spells_snapshot_def identity_within_iff quantity_within_iff nat_ok_def)
  have on: "or_null (\<lambda>x. x) (map_option f y) = or_null f y" for f :: "'a \<Rightarrow> jsval" and y by (cases y) (simp_all add: or_null_def)
  have am: "mem (obj [(''active_maintenance'', x)]) ''active_maintenance'' = x" for x by (simp add: member_simps)
  have "snapshot_coherent ?s"
    using cl views_clash_iff [of ?s v] q(1) c p(1) both unfolding q(2) ck(2) m(2) cf(2) on am by simp
  with sp show ?thesis by blast
qed

text \<open>The decoded sequence is the one the snapshot spells.\<close>

lemma decodeSnapshot_sequence:
  assumes "decodeSnapshot v = Some r"
  shows "\<exists>n. n \<le> u64 \<and> mem v ''event_sequence'' = wire_nat n \<and> mem r ''event_sequence'' = big n"
proof -
  from assms obtain ms n where n: "quantity_within 0 (Some u64) (mem v ''event_sequence'') = Some n"
    and r: "r = with_members (spread v) ms" "map_of (rev ms) ''event_sequence'' = Some (big n)"
    unfolding decodeSnapshot_def copy_eqs by (auto simp: bind_eq_Some_conv Let_def split: if_splits)
  from mem_spread_over [OF r(2), of v] n r(1) show ?thesis by (auto simp: quantity_within_iff nat_ok_def)
qed

section \<open>Properties\<close>

text \<open>C12. \<open>decodeSnapshot\<close> accepts a parsed snapshot exactly when each of its views spells a well-formed
  view and the views satisfy the contract between them, and returns those views.\<close>

theorem snapshot_exact:
  assumes "json v"
  shows "decodeSnapshot v = Some r \<longleftrightarrow> (\<exists>s. spells_snapshot s v \<and> snapshot_coherent s \<and> r = snapshot_native s v)"
  using decodeSnapshot_complete [OF assms] decodeSnapshot_sound [OF assms] by (metis option.inject)

definition sample_snapshot :: jsval where
  "sample_snapshot = obj [(''snapshot_revision'', Number 3), (''session_id'', js ''AQ''), (''event_sequence'', js ''0''),
     (''active_run_id'', Null), (''active_run_phase'', Null), (''configuration'', sample_configuration), (''checkpoint'', Null),
     (''active_maintenance'', Null), (''open_interaction'', Null), (''last_compact'', Null)]"

definition sample_view :: snapshot where
  "sample_view = \<lparr>sn_session = [1], sn_cursor = 0, sn_run = None, sn_configuration = sample_settings, sn_checkpoint = None, sn_maintenance = None, sn_question = None, sn_compact = None\<rparr>"

lemma sample_snapshot_json: "json sample_snapshot"
  by (simp add: sample_snapshot_def sample_configuration_def obj_def)

lemma sample_view_spelled: "spells_snapshot sample_view sample_snapshot" "snapshot_coherent sample_view"
  using sample_configuration_spelled
  by (simp_all add: spells_snapshot_def sample_view_def snapshot_coherent_def sample_snapshot_def snapshot_keys_def member_simps
      sample_texts id_ok_def or_null_def)

theorem snapshot_exact_witness:
  "json sample_snapshot \<and> decodeSnapshot sample_snapshot = Some (snapshot_native sample_view sample_snapshot)"
  using snapshot_exact [OF sample_snapshot_json] sample_view_spelled sample_snapshot_json by blast

text \<open>In every snapshot the decoder returns, an open question excludes active maintenance and names the active run,
  and at event sequence zero no run, checkpoint, maintenance, question or compaction is reported.\<close>

theorem snapshot_relations:
  assumes "decodeSnapshot v = Some r"
  shows "(mem r ''open_interaction'' = Null \<or> (mem r ''active_maintenance'' = Null \<and> mem r ''active_run_id'' \<noteq> Null \<and>
      mem (mem r ''open_interaction'') ''run_id'' = mem r ''active_run_id'')) \<and>
    (mem r ''event_sequence'' \<noteq> BigInt 0 \<or> (mem r ''active_run_id'' = Null \<and> mem r ''checkpoint'' = Null \<and>
      mem r ''active_maintenance'' = Null \<and> mem r ''open_interaction'' = Null \<and> mem r ''last_compact'' = Null))"
proof -
  from assms obtain session run cursor cf ck q m c where
      cl: "\<not> views_clash run (mem v ''active_run_phase'') q (mem m ''active_maintenance'') cf ck c cursor"
    and r: "r = with_members (spread v) [(''session_id'', Buf session), (''event_sequence'', big cursor), (''active_run_id'', run),
           (''configuration'', cf), (''checkpoint'', ck), (''open_interaction'', q),
           (''active_maintenance'', mem m ''active_maintenance''), (''last_compact'', c)]"
    by (auto simp: decodeSnapshot_def bind_eq_Some_conv Let_def split: if_splits)
  have get: "map_of (rev ms) k = Some x \<Longrightarrow> mem (with_members (spread v) ms) k = x" for ms k x by (rule mem_spread_over)
  have mems: "mem r ''event_sequence'' = big cursor" "mem r ''active_run_id'' = run" "mem r ''checkpoint'' = ck" "mem r ''open_interaction'' = q"
    "mem r ''active_maintenance'' = mem m ''active_maintenance''" "mem r ''last_compact'' = c"
    unfolding r by (rule get, simp)+
  show ?thesis using cl unfolding mems views_clash_def by auto
qed

theorem snapshot_relations_witness:
  "\<exists>r. decodeSnapshot sample_snapshot = Some r \<and> mem r ''event_sequence'' = BigInt 0 \<and> mem r ''checkpoint'' = Null"
proof -
  have d: "decodeSnapshot sample_snapshot = Some (snapshot_native sample_view sample_snapshot)"
    by (rule decodeSnapshot_complete [OF sample_snapshot_json sample_view_spelled])
  have "mem (snapshot_native sample_view sample_snapshot) ''event_sequence'' = BigInt 0"
    unfolding snapshot_native_def by (rule mem_spread_over) (simp add: sample_view_def)
  with snapshot_relations [OF d] d show ?thesis by blast
qed

end
