(* ===== verification/Terminal_Outcome.thy ===== *)
theory Terminal_Outcome
  imports Context_Failure
begin

text \<open>
  \<open>clients/node/terminal-outcome.mjs\<close>: how a run ended.  The typed view \<open>terminal\<close> has one
  constructor per outcome, each with the details that outcome carries.
\<close>

definition observedMax :: nat where
  "observedMax = 55340232221128654844"

definition outcome_dimensions :: "string list" where
  "outcome_dimensions = [''system_class_tokens'', ''context_tokens'', ''context_record_bytes'',
     ''context_record_depth'', ''context_record_cardinality'']"

definition outcome_closed :: "jsval \<Rightarrow> string list \<Rightarrow> bool" where
  "outcome_closed value keys \<longleftrightarrow> isObject value \<and> \<not> isArray value \<and> plainProto value \<and>
     length (objectKeys value) = length keys \<and> list_all (hasOwn value) keys"

definition outcome_quantity :: "jsval \<Rightarrow> nat \<Rightarrow> nat option \<Rightarrow> nat option" where
  "outcome_quantity value minimum maximum = (case value of
     Str s \<Rightarrow> if \<not> canonical_decimal s then None
       else let parsed = decimal_value s in
         if dec parsed = s \<and> minimum \<le> parsed \<and> (case maximum of None \<Rightarrow> True | Some m \<Rightarrow> parsed \<le> m)
         then Some parsed else None
   | _ \<Rightarrow> None)"

definition outcome_identity :: "jsval \<Rightarrow> bytes option" where
  "outcome_identity value = (case value of
     Str s \<Rightarrow> if 87382 < length s \<or> \<not> b64_text s then None
       else let decoded = b64url_decode s in
         if 1 \<le> length decoded \<and> length decoded \<le> 65536 \<and> b64url decoded = s then Some decoded else None
   | _ \<Rightarrow> None)"

definition decodeFailure :: "jsval \<Rightarrow> jsval option" where
  "decodeFailure value =
     (if mem value ''version'' = Number 2 then decodeContextFailure value
      else if \<not> outcome_closed value [''category'', ''retryable'', ''dimension'', ''observed'', ''limit''] \<or>
          mem value ''retryable'' \<noteq> Boolean False then None
      else if mem value ''category'' = js ''deadline_preflight_failed'' then
        (if mem value ''dimension'' = Null \<and> mem value ''observed'' = Null \<and> mem value ''limit'' = Null
         then Some (spread value) else None)
      else if mem value ''category'' \<noteq> js ''context_budget_exceeded'' \<or>
          \<not> one_of (mem value ''dimension'') outcome_dimensions then None
      else do {
        observed \<leftarrow> outcome_quantity (mem value ''observed'') 0 (Some observedMax);
        limit \<leftarrow> outcome_quantity (mem value ''limit'') 1 (Some u64);
        Some (with_members (spread value) [(''observed'', big observed), (''limit'', big limit)])
      })"

definition bound_details :: "jsval \<Rightarrow> jsval option" where
  "bound_details details =
     (if \<not> outcome_closed details [''bound'', ''observed'', ''declared_limit'', ''accounting_source'', ''cleanup_grace_ms'']
      then None
      else if \<not> one_of (mem details ''bound'') [''max_turns'', ''token_budget'', ''deadline''] then None
      else if \<not> (mem details ''accounting_source'' = Null \<or>
          one_of (mem details ''accounting_source'') [''reported'', ''estimated'']) then None
      else let maximum = (if mem details ''bound'' = js ''deadline'' then Some u64 else None) in do {
        observed \<leftarrow> outcome_quantity (mem details ''observed'') 0 maximum;
        limit \<leftarrow> outcome_quantity (mem details ''declared_limit'') 0 maximum;
        Some (obj [(''bound'', mem details ''bound''), (''observed'', big observed), (''declared_limit'', big limit),
          (''accounting_source'', mem details ''accounting_source'')])
      })"

definition failed_details :: "jsval \<Rightarrow> jsval option" where
  "failed_details details =
     (if \<not> outcome_closed details [''reason'', ''failure'', ''cleanup_grace_ms''] then None
      else if one_of (mem details ''reason'') [''model_call_failed'', ''unreadable_model_answer''] \<and>
          mem details ''failure'' = Null
      then Some (obj [(''reason'', mem details ''reason''), (''failure'', Null)])
      else if mem details ''reason'' = Null then do {
        failure \<leftarrow> decodeFailure (mem details ''failure'');
        Some (obj [(''reason'', Null), (''failure'', failure)])
      }
      else None)"

text \<open>The \<open>switch (value.outcome)\<close>\<close>

definition outcome_details :: "jsval \<Rightarrow> jsval \<Rightarrow> jsval option" where
  "outcome_details outcome details =
     (if outcome = js ''completed'' \<or> outcome = js ''cancelled'' then
        (if \<not> outcome_closed details [''cleanup_grace_ms''] then None else Some (obj []))
      else if outcome = js ''outcome_unknown'' then
        (if \<not> outcome_closed details [''cleanup_grace_ms'', ''reconciliation_ref''] then None
         else do {
           reference \<leftarrow> outcome_identity (mem details ''reconciliation_ref'');
           Some (obj [(''reconciliation_ref'', Buf reference)])
         })
      else if outcome = js ''bound_reached'' then bound_details details
      else if outcome = js ''failed'' then failed_details details
      else None)"

definition decodeTerminalOutcome :: "jsval \<Rightarrow> jsval option" where
  "decodeTerminalOutcome value =
     (if \<not> outcome_closed value [''outcome'', ''details''] then None
      else let details = mem value ''details'' in do {
        decoded \<leftarrow> outcome_details (mem value ''outcome'') details;
        grace \<leftarrow> outcome_quantity (mem details ''cleanup_grace_ms'') 1 (Some u64);
        Some (obj [(''outcome'', mem value ''outcome''),
          (''details'', with_members (spread decoded) [(''cleanup_grace_ms'', big grace)])])
      })"

section \<open>Typed view\<close>

datatype run_failure =
    Measured_failure context_failure
  | Deadline_preflight_failed
  | Context_budget_exceeded string nat nat

fun run_failure_ok :: "run_failure \<Rightarrow> bool" where
  "run_failure_ok (Measured_failure f) \<longleftrightarrow> failure_ok f"
| "run_failure_ok Deadline_preflight_failed \<longleftrightarrow> True"
| "run_failure_ok (Context_budget_exceeded dim observed limit) \<longleftrightarrow>
     dim \<in> set dimensions \<and> observed \<le> observedMax \<and> nat_ok 1 (Some u64) limit"

definition budget_keys :: "string list" where
  "budget_keys = [''category'', ''retryable'', ''dimension'', ''observed'', ''limit'']"

fun spells_run_failure :: "run_failure \<Rightarrow> jsval \<Rightarrow> bool" where
  "spells_run_failure (Measured_failure f) v \<longleftrightarrow> spells_failure f v"
| "spells_run_failure Deadline_preflight_failed v \<longleftrightarrow> mem v ''version'' \<noteq> Number 2 \<and> closedKeys v budget_keys \<and>
     mem v ''retryable'' = Boolean False \<and> mem v ''category'' = js ''deadline_preflight_failed'' \<and>
     mem v ''dimension'' = Null \<and> mem v ''observed'' = Null \<and> mem v ''limit'' = Null"
| "spells_run_failure (Context_budget_exceeded dim observed limit) v \<longleftrightarrow> mem v ''version'' \<noteq> Number 2 \<and>
     closedKeys v budget_keys \<and> mem v ''retryable'' = Boolean False \<and>
     mem v ''category'' = js ''context_budget_exceeded'' \<and> mem v ''dimension'' = js dim \<and>
     mem v ''observed'' = wire_nat observed \<and> mem v ''limit'' = wire_nat limit"

fun run_failure_native :: "run_failure \<Rightarrow> jsval \<Rightarrow> jsval" where
  "run_failure_native (Measured_failure f) v = failure_native f v"
| "run_failure_native Deadline_preflight_failed v = spread v"
| "run_failure_native (Context_budget_exceeded dim observed limit) v =
     with_members (spread v) [(''observed'', big observed), (''limit'', big limit)]"

datatype terminal =
    Completed
  | Cancelled
  | Outcome_unknown bytes
  | Run_bound_reached string nat nat "string option"
  | Failed_reason string
  | Failed_run run_failure

fun terminal_name :: "terminal \<Rightarrow> string" where
  "terminal_name Completed = ''completed''"
| "terminal_name Cancelled = ''cancelled''"
| "terminal_name (Outcome_unknown r) = ''outcome_unknown''"
| "terminal_name (Run_bound_reached b x y s) = ''bound_reached''"
| "terminal_name (Failed_reason r) = ''failed''"
| "terminal_name (Failed_run f) = ''failed''"

fun terminal_ok :: "terminal \<Rightarrow> bool" where
  "terminal_ok (Outcome_unknown r) \<longleftrightarrow> id_ok 65536 r"
| "terminal_ok (Run_bound_reached bound observed limit source) \<longleftrightarrow>
     bound \<in> {''max_turns'', ''token_budget'', ''deadline''} \<and>
     (bound = ''deadline'' \<longrightarrow> observed \<le> u64 \<and> limit \<le> u64) \<and>
     (\<forall>s. source = Some s \<longrightarrow> s \<in> {''reported'', ''estimated''})"
| "terminal_ok (Failed_reason r) \<longleftrightarrow> r \<in> {''model_call_failed'', ''unreadable_model_answer''}"
| "terminal_ok (Failed_run f) \<longleftrightarrow> run_failure_ok f"
| "terminal_ok _ \<longleftrightarrow> True"

fun spells_terminal :: "terminal \<Rightarrow> jsval \<Rightarrow> bool" where
  "spells_terminal Completed v \<longleftrightarrow> closedKeys v [''cleanup_grace_ms'']"
| "spells_terminal Cancelled v \<longleftrightarrow> closedKeys v [''cleanup_grace_ms'']"
| "spells_terminal (Outcome_unknown r) v \<longleftrightarrow> closedKeys v [''cleanup_grace_ms'', ''reconciliation_ref''] \<and>
     mem v ''reconciliation_ref'' = wire_id r"
| "spells_terminal (Run_bound_reached bound observed limit source) v \<longleftrightarrow>
     closedKeys v [''bound'', ''observed'', ''declared_limit'', ''accounting_source'', ''cleanup_grace_ms''] \<and>
     mem v ''bound'' = js bound \<and> mem v ''observed'' = wire_nat observed \<and>
     mem v ''declared_limit'' = wire_nat limit \<and> mem v ''accounting_source'' = or_null js source"
| "spells_terminal (Failed_reason r) v \<longleftrightarrow> closedKeys v [''reason'', ''failure'', ''cleanup_grace_ms''] \<and>
     mem v ''reason'' = js r \<and> mem v ''failure'' = Null"
| "spells_terminal (Failed_run f) v \<longleftrightarrow> closedKeys v [''reason'', ''failure'', ''cleanup_grace_ms''] \<and>
     mem v ''reason'' = Null \<and> spells_run_failure f (mem v ''failure'')"

fun terminal_members :: "terminal \<Rightarrow> jsval \<Rightarrow> (string \<times> jsval) list" where
  "terminal_members Completed v = []"
| "terminal_members Cancelled v = []"
| "terminal_members (Outcome_unknown r) v = [(''reconciliation_ref'', Buf r)]"
| "terminal_members (Run_bound_reached bound observed limit source) v =
     [(''bound'', js bound), (''observed'', big observed), (''declared_limit'', big limit),
      (''accounting_source'', or_null js source)]"
| "terminal_members (Failed_reason r) v = [(''reason'', js r), (''failure'', Null)]"
| "terminal_members (Failed_run f) v = [(''reason'', Null), (''failure'', run_failure_native f (mem v ''failure''))]"

definition terminal_native :: "terminal \<Rightarrow> nat \<Rightarrow> jsval \<Rightarrow> jsval" where
  "terminal_native t grace details = obj [(''outcome'', js (terminal_name t)),
     (''details'', obj (terminal_members t details @ [(''cleanup_grace_ms'', big grace)]))]"

section \<open>Lemmas\<close>

lemma outcome_closed_eq [copy_eqs]: "outcome_closed = closedKeys"
  by (simp add: fun_eq_iff outcome_closed_def closedKeys_def)

lemma outcome_quantity_eq [copy_eqs]: "outcome_quantity v lo hi = quantity_within lo hi v"
  by (auto simp: outcome_quantity_def quantity_within_def dec_decimal_value Let_def split: jsval.split)

lemma outcome_identity_eq [copy_eqs]: "outcome_identity = identity_within 65536"
  by (simp add: fun_eq_iff outcome_identity_def identity_copy)

lemma outcome_dimensions_eq [copy_eqs]: "outcome_dimensions = dimensions"
  by (simp add: outcome_dimensions_def dimensions_def)

lemma terminal_members_fresh: "''cleanup_grace_ms'' \<notin> fst ` set (terminal_members t v)"
  by (cases t) auto

lemma spells_failure_version: "spells_failure f v \<Longrightarrow> mem v ''version'' = Number 2"
  by (cases f) auto

lemma decodeFailure_iff:
  assumes "plainData v"
  shows "decodeFailure v = Some r \<longleftrightarrow>
    (\<exists>f. spells_run_failure f v \<and> run_failure_ok f \<and> r = run_failure_native f v)" (is "?l \<longleftrightarrow> ?r")
proof (cases "mem v ''version'' = Number 2")
  case True
  have "spells_run_failure f v \<longleftrightarrow> (\<exists>g. f = Measured_failure g \<and> spells_failure g v)" for f
    using True by (cases f) auto
  with True show ?thesis
    using decodeContextFailure_iff [OF assms] by (auto simp: decodeFailure_def)
next
  case False
  have c: "decodeFailure v = Some r \<longleftrightarrow> closedKeys v budget_keys \<and> mem v ''retryable'' = Boolean False \<and>
    (mem v ''category'' = js ''deadline_preflight_failed'' \<and> mem v ''dimension'' = Null \<and> mem v ''observed'' = Null \<and>
      mem v ''limit'' = Null \<and> r = spread v \<or>
     mem v ''category'' = js ''context_budget_exceeded'' \<and> one_of (mem v ''dimension'') dimensions \<and>
      (\<exists>a b. a \<le> observedMax \<and> nat_ok 1 (Some u64) b \<and> mem v ''observed'' = wire_nat a \<and> mem v ''limit'' = wire_nat b \<and>
        r = with_members (spread v) [(''observed'', big a), (''limit'', big b)]))"
    using False by (auto simp: decodeFailure_def copy_eqs budget_keys_def bind_eq_Some_conv quantity_within_iff nat_ok_def)
  show ?thesis
  proof
    assume ?l
    then consider "spells_run_failure Deadline_preflight_failed v" "r = spread v"
      | dim a b where "spells_run_failure (Context_budget_exceeded dim a b) v"
          "run_failure_ok (Context_budget_exceeded dim a b)"
          "r = with_members (spread v) [(''observed'', big a), (''limit'', big b)]"
      using False unfolding c by (auto dest!: one_of_js)
    then show ?r
    proof cases
      case 1
      then show ?thesis by (intro exI [of _ Deadline_preflight_failed]) simp
    next
      case (2 dim a b)
      then show ?thesis by (intro exI [of _ "Context_budget_exceeded dim a b"]) simp
    qed
  next
    assume ?r
    then obtain f where f: "spells_run_failure f v" "run_failure_ok f" "r = run_failure_native f v" by blast
    show ?l
    proof (cases f)
      case (Measured_failure g)
      with f(1) False spells_failure_version show ?thesis by auto
    qed (use f in \<open>unfold c, auto\<close>)
  qed
qed

lemma bound_details_iff:
  "bound_details v = Some r \<longleftrightarrow> (\<exists>bound a b s. spells_terminal (Run_bound_reached bound a b s) v \<and>
     terminal_ok (Run_bound_reached bound a b s) \<and> r = obj (terminal_members (Run_bound_reached bound a b s) v))" (is "?l \<longleftrightarrow> ?r")
proof
  assume ?l
  then obtain bound a b where k: "closedKeys v [''bound'', ''observed'', ''declared_limit'', ''accounting_source'', ''cleanup_grace_ms'']"
      "mem v ''bound'' = js bound" "bound \<in> {''max_turns'', ''token_budget'', ''deadline''}"
    and s: "mem v ''accounting_source'' = Null \<or> one_of (mem v ''accounting_source'') [''reported'', ''estimated'']"
    and q: "nat_ok 0 (if bound = ''deadline'' then Some u64 else None) a"
      "nat_ok 0 (if bound = ''deadline'' then Some u64 else None) b"
      "mem v ''observed'' = wire_nat a" "mem v ''declared_limit'' = wire_nat b"
    and r: "r = obj [(''bound'', js bound), (''observed'', big a), (''declared_limit'', big b),
          (''accounting_source'', mem v ''accounting_source'')]"
    by (auto simp: bound_details_def copy_eqs bind_eq_Some_conv quantity_within_iff Let_def dest!: one_of_js split: if_splits)
  from s obtain src where src: "mem v ''accounting_source'' = or_null js src"
    "\<forall>s. src = Some s \<longrightarrow> s \<in> set [''reported'', ''estimated'']" unfolding null_or_one_of by blast
  have "spells_terminal (Run_bound_reached bound a b src) v" using k src q by simp
  moreover have "terminal_ok (Run_bound_reached bound a b src)" using k src q by (simp add: nat_ok_def split: if_splits)
  ultimately show ?r using r src(1) by (metis terminal_members.simps(4))
next
  assume ?r
  then obtain bound a b s where k: "spells_terminal (Run_bound_reached bound a b s) v"
    "terminal_ok (Run_bound_reached bound a b s)" and r: "r = obj (terminal_members (Run_bound_reached bound a b s) v)" by blast
  have src: "mem v ''accounting_source'' = Null \<or> one_of (mem v ''accounting_source'') [''reported'', ''estimated'']"
    using k unfolding null_or_one_of by auto
  have q: "outcome_quantity (wire_nat n) 0 (if bound = ''deadline'' then Some u64 else None) = Some n"
    if "n \<in> {a, b}" for n
    using that k(2) by (auto simp: outcome_quantity_eq quantity_within_iff nat_ok_def)
  show ?l using k src q [of a] q [of b] r by (simp add: bound_details_def outcome_closed_eq)
qed

lemma spells_run_failure_object: "spells_run_failure f v \<Longrightarrow> isObject v \<and> \<not> isArray v"
proof (cases f)
  case (Measured_failure g)
  assume "spells_run_failure f v"
  with Measured_failure show ?thesis
    by (cases g) (auto simp: spells_measured_def dest: closedKeys_isObject)
qed (auto dest: closedKeys_isObject)

lemma decodeFailure_object: "decodeFailure v = Some r \<Longrightarrow> isObject v \<and> \<not> isArray v"
  by (auto simp: decodeFailure_def decodeContextFailure_def failure_plain_def copy_eqs
      dest: closedKeys_isObject split: if_splits)

lemma decodeFailure_inert:
  "inert v \<Longrightarrow> decodeFailure v = Some r \<longleftrightarrow>
     (\<exists>f. spells_run_failure f v \<and> run_failure_ok f \<and> r = run_failure_native f v)"
  using decodeFailure_iff inert_plain decodeFailure_object spells_run_failure_object by metis

lemma failed_details_iff:
  assumes "inert (mem v ''failure'')"
  shows "failed_details v = Some r \<longleftrightarrow> (\<exists>t. terminal_name t = ''failed'' \<and> spells_terminal t v \<and>
     terminal_ok t \<and> r = obj (terminal_members t v))" (is "?l \<longleftrightarrow> ?r")
proof
  assume l: ?l
  show ?r
  proof (cases "mem v ''reason'' = Null")
    case True
    with l obtain x where "decodeFailure (mem v ''failure'') = Some x" "r = obj [(''reason'', Null), (''failure'', x)]"
      and c: "closedKeys v [''reason'', ''failure'', ''cleanup_grace_ms'']"
      by (auto simp: failed_details_def copy_eqs bind_eq_Some_conv one_of_def split: if_splits)
    with True obtain f where "spells_terminal (Failed_run f) v" "terminal_ok (Failed_run f)"
      "r = obj (terminal_members (Failed_run f) v)" unfolding decodeFailure_inert [OF assms] by auto
    then show ?thesis by (intro exI [of _ "Failed_run f"]) simp
  next
    case False
    with l obtain x where "spells_terminal (Failed_reason x) v" "terminal_ok (Failed_reason x)"
      "r = obj (terminal_members (Failed_reason x) v)"
      by (auto simp: failed_details_def copy_eqs dest!: one_of_js split: if_splits)
    then show ?thesis by (intro exI [of _ "Failed_reason x"]) simp
  qed
next
  assume ?r
  then obtain t where t: "terminal_name t = ''failed''" "spells_terminal t v" "terminal_ok t"
    "r = obj (terminal_members t v)" by blast
  show ?l
  proof (cases t)
    case (Failed_run f)
    with t have "decodeFailure (mem v ''failure'') = Some (run_failure_native f (mem v ''failure''))"
      unfolding decodeFailure_inert [OF assms] by auto
    with t Failed_run show ?thesis by (simp add: failed_details_def copy_eqs one_of_def)
  qed (use t in \<open>auto simp: failed_details_def copy_eqs\<close>)
qed

lemma outcome_details_iff:
  assumes "inert (mem v ''failure'')"
  shows "outcome_details w v = Some r \<longleftrightarrow> (\<exists>t. w = js (terminal_name t) \<and> spells_terminal t v \<and>
     terminal_ok t \<and> r = obj (terminal_members t v))" (is "?l \<longleftrightarrow> ?r")
proof
  assume l: ?l
  consider "w = js ''completed''" | "w = js ''cancelled''" | "w = js ''outcome_unknown''"
    | "w = js ''bound_reached''" | "w = js ''failed''"
    using l by (auto simp: outcome_details_def split: if_splits)
  then show ?r
  proof cases
    case 1
    with l show ?thesis by (intro exI [of _ Completed]) (auto simp: outcome_details_def copy_eqs split: if_splits)
  next
    case 2
    with l show ?thesis by (intro exI [of _ Cancelled]) (auto simp: outcome_details_def copy_eqs split: if_splits)
  next
    case 3
    with l obtain i where "spells_terminal (Outcome_unknown i) v" "terminal_ok (Outcome_unknown i)"
      "r = obj (terminal_members (Outcome_unknown i) v)"
      by (auto simp: outcome_details_def copy_eqs bind_eq_Some_conv identity_within_iff split: if_splits)
    with 3 show ?thesis by (intro exI [of _ "Outcome_unknown i"]) simp
  next
    case 4
    with l have "bound_details v = Some r" by (simp add: outcome_details_def)
    with 4 show ?thesis unfolding bound_details_iff by (metis terminal_name.simps(4))
  next
    case 5
    with l have "failed_details v = Some r" by (simp add: outcome_details_def)
    with 5 show ?thesis unfolding failed_details_iff [OF assms] by metis
  qed
next
  assume ?r
  then obtain t where t: "w = js (terminal_name t)" "spells_terminal t v" "terminal_ok t" "r = obj (terminal_members t v)"
    by blast
  have f: "terminal_name t = ''failed'' \<Longrightarrow> failed_details v = Some r"
    using t failed_details_iff [OF assms] by blast
  show ?l
  proof (cases t)
    case (Run_bound_reached bound a b s)
    with t have "bound_details v = Some r" unfolding bound_details_iff by blast
    with t(1) Run_bound_reached show ?thesis by (simp add: outcome_details_def)
  qed (use t f in \<open>simp_all add: outcome_details_def copy_eqs identity_scalar.read_write\<close>)
qed

lemma decodeTerminalOutcome_iff:
  assumes "json v"
  shows "decodeTerminalOutcome v = Some r \<longleftrightarrow> closedKeys v [''outcome'', ''details''] \<and>
    (\<exists>t grace. let details = mem v ''details'' in mem v ''outcome'' = js (terminal_name t) \<and>
      spells_terminal t details \<and> terminal_ok t \<and> nat_ok 1 (Some u64) grace \<and>
      mem details ''cleanup_grace_ms'' = wire_nat grace \<and> r = terminal_native t grace details)"
proof (cases "closedKeys v [''outcome'', ''details'']")
  case True
  let ?d = "mem v ''details''"
  have i: "inert (mem ?d ''failure'')"
    using json_memU [OF assms] json_member_inert by (metis inert_def memU_Undefined isObject.simps(4))
  have native: "with_members (spread (obj (terminal_members t w))) [(''cleanup_grace_ms'', big g)] =
    obj (terminal_members t w @ [(''cleanup_grace_ms'', big g)])" for t w g
    by (simp add: with_member_obj terminal_members_fresh)
  show ?thesis
    using True native
    by (auto simp: decodeTerminalOutcome_def copy_eqs bind_eq_Some_conv outcome_details_iff [OF i]
        quantity_within_iff terminal_native_def Let_def)
qed (simp add: decodeTerminalOutcome_def copy_eqs)

section \<open>Properties\<close>

text \<open>\<open>decodeTerminalOutcome\<close> accepts a parsed outcome exactly when it spells one of the six endings of a run with a well-formed
  cleanup grace, and returns that ending.\<close>

theorem terminal_outcome_exact:
  assumes "json v"
  shows "decodeTerminalOutcome v = Some r \<longleftrightarrow> closedKeys v [''outcome'', ''details''] \<and>
    (\<exists>t grace. mem v ''outcome'' = js (terminal_name t) \<and> spells_terminal t (mem v ''details'') \<and> terminal_ok t \<and>
      nat_ok 1 (Some u64) grace \<and> mem (mem v ''details'') ''cleanup_grace_ms'' = wire_nat grace \<and>
      r = terminal_native t grace (mem v ''details''))"
  unfolding decodeTerminalOutcome_iff [OF assms] Let_def ..

theorem terminal_outcome_exact_witness:
  "decodeTerminalOutcome (obj [(''outcome'', js ''completed''), (''details'', obj [(''cleanup_grace_ms'', wire_nat 5)])]) =
     Some (terminal_native Completed 5 (obj [(''cleanup_grace_ms'', wire_nat 5)]))"
proof -
  let ?v = "obj [(''outcome'', js ''completed''), (''details'', obj [(''cleanup_grace_ms'', wire_nat 5)])]"
  have j: "json ?v" by (simp add: obj_def)
  show ?thesis
    unfolding terminal_outcome_exact [OF j]
    by (intro conjI exI [of _ Completed] exI [of _ 5]) (simp_all add: member_simps nat_ok_def)
qed

end
