(* ===== verification/Tool_Finished.thy ===== *)
theory Tool_Finished
  imports Wire_Scalars
begin

text \<open>
  \<open>clients/node/tool-finished.mjs\<close>: the terminal of a tool call, in its two closed shapes.
  The typed view \<open>tool_finished\<close> carries an operation identity exactly in the
  receipt-backed shape.
\<close>

definition receiptBacked :: "string list" where
  "receiptBacked = [''run_id'', ''turn_id'', ''tool_call_id'', ''operation_id'', ''tool_id'', ''outcome'', ''reason'', ''artifacts'']"

definition operationLess :: "string list" where
  "operationLess = [''run_id'', ''turn_id'', ''tool_call_id'', ''tool_id'', ''outcome'', ''reason'', ''artifacts'']"

definition artifactKeys :: "string list" where
  "artifactKeys = [''digest'', ''size'', ''locator'', ''media_type'', ''role'', ''use_canonicalization_version'', ''use_digest'', ''use_locator'']"

definition tool_outcomes :: "string list" where
  "tool_outcomes = [''completed'', ''failed'', ''denied'', ''cancelled'', ''outcome_unknown'', ''cancelled_workspace_lease_lost'']"

definition tool_closed :: "jsval \<Rightarrow> string list \<Rightarrow> bool" where
  "tool_closed value required \<longleftrightarrow> isObject value \<and> plainProto value \<and>
     length (ownKeys value) = length required \<and>
     list_all (\<lambda>(k, p). string_key k \<and> k \<in> set (map (\<lambda>s. SKey (lit s)) required) \<and> is_data p \<and> enumerable p)
       (own_props value)"

definition tool_identity :: "jsval \<Rightarrow> bytes option" where
  "tool_identity value = (case value of
     Str s \<Rightarrow> if length s < 2 \<or> 87382 < length s \<or> \<not> b64_text s then None
       else let bytes = b64url_decode s in
         if 1 \<le> length bytes \<and> length bytes \<le> 65536 \<and> b64url bytes = s then Some bytes else None
   | _ \<Rightarrow> None)"

definition is_lower :: "code_unit \<Rightarrow> bool" where
  "is_lower u \<longleftrightarrow> 97 \<le> unat u \<and> unat u \<le> 122"

text \<open>
  \<open>/^[a-z][a-z0-9_]*(\.[a-z][a-z0-9_]*)*$/\<close> as the automaton with a state before and a
  state after the first letter of a segment
\<close>

fun tool_segments :: "bool \<Rightarrow> ustring \<Rightarrow> bool" where
  "tool_segments start [] = (\<not> start)"
| "tool_segments start (u # s) =
     (if start then is_lower u \<and> tool_segments False s
      else if unat u = 46 then tool_segments True s
      else (is_lower u \<or> is_digit u \<or> unat u = 95) \<and> tool_segments False s)"

definition toolId :: "jsval \<Rightarrow> bool" where
  "toolId value = (case value of Str s \<Rightarrow> 1 \<le> length s \<and> length s \<le> 128 \<and> tool_segments True s | _ \<Rightarrow> False)"

definition tool_digest :: "jsval \<Rightarrow> bool" where
  "tool_digest value = (case value of Str s \<Rightarrow> length s = 64 \<and> list_all is_hex s | _ \<Rightarrow> False)"

text \<open>
  \<open>/[\p{Cc}\p{Cf}\p{Zl}\p{Zp}]/u\<close>: the code points of general category Cc, Cf, Zl or Zp in
  Unicode 15.1, the version of the runtime's tables
\<close>

definition unsafe_ranges :: "(nat \<times> nat) list" where
  "unsafe_ranges = [(0, 31), (127, 159), (173, 173), (1536, 1541), (1564, 1564), (1757, 1757), (1807, 1807),
     (2192, 2193), (2274, 2274), (6158, 6158), (8203, 8207), (8232, 8233), (8234, 8238), (8288, 8292), (8294, 8303),
     (65279, 65279), (65529, 65531), (69821, 69821), (69837, 69837), (78896, 78911), (113824, 113827),
     (119155, 119162), (917505, 917505), (917536, 917631)]"

definition unsafe_point :: "nat \<Rightarrow> bool" where
  "unsafe_point n \<longleftrightarrow> list_ex (\<lambda>(lo, hi). lo \<le> n \<and> n \<le> hi) unsafe_ranges"

definition safeText :: "jsval \<Rightarrow> nat \<Rightarrow> bool" where
  "safeText value maximum = (case value of
     Str s \<Rightarrow> if \<not> isWellFormed s then False
       else let size = byteLength s in 1 \<le> size \<and> size \<le> maximum \<and> \<not> list_ex unsafe_point (code_points s)
   | _ \<Rightarrow> False)"

definition tool_quantity :: "jsval \<Rightarrow> nat option" where
  "tool_quantity value = (case value of
     Str s \<Rightarrow> if 20 < length s \<or> \<not> canonical_decimal s then None
       else let integer = decimal_value s in if integer \<le> u64 then Some integer else None
   | _ \<Rightarrow> None)"

text \<open>\<open>value.use_locator === `use:${value.use_digest}`\<close>, with \<open>use_digest\<close> known to be text\<close>

definition use_locator_ok :: "jsval \<Rightarrow> bool" where
  "use_locator_ok value = (case mem value ''use_digest'' of
     Str d \<Rightarrow> mem value ''use_locator'' = Str (lit ''use:'' @ d) | _ \<Rightarrow> False)"

definition artifactUse :: "jsval \<Rightarrow> jsval option" where
  "artifactUse value =
     (if \<not> tool_closed value artifactKeys \<or> \<not> tool_digest (mem value ''digest'') \<or>
         \<not> tool_digest (mem value ''use_digest'') \<or> \<not> safeText (mem value ''locator'') 1024 \<or>
         \<not> safeText (mem value ''media_type'') 255 \<or> mem value ''role'' \<noteq> js ''tool_output'' \<or>
         mem value ''use_canonicalization_version'' \<noteq> js ''loopex.canonical.v1'' \<or> \<not> use_locator_ok value
      then None
      else do {
        size \<leftarrow> tool_quantity (mem value ''size'');
        Some (obj [(''digest'', mem value ''digest''), (''size'', big size), (''locator'', mem value ''locator''),
          (''media_type'', mem value ''media_type''), (''role'', mem value ''role''),
          (''use_canonicalization_version'', mem value ''use_canonicalization_version''),
          (''use_digest'', mem value ''use_digest''), (''use_locator'', mem value ''use_locator'')])
      })"

definition finished_tool :: "bool \<Rightarrow> jsval \<Rightarrow> jsval option" where
  "finished_tool receipt tool =
     (if tool = Null \<and> \<not> receipt then Some Null else if toolId tool then Some tool else None)"

definition finished_reason :: "bool \<Rightarrow> jsval \<Rightarrow> jsval option" where
  "finished_reason receipt reason =
     (if reason = Null then Some Null
      else case reason of
        Str s \<Rightarrow> if \<not> receipt \<and> isWellFormed s \<and> byteLength s \<le> 131072 then Some reason else None
      | _ \<Rightarrow> None)"

definition finished_artifacts :: "bool \<Rightarrow> jsval \<Rightarrow> jsval option" where
  "finished_artifacts receipt artifacts =
     (if \<not> isArray artifacts \<or> \<not> arrayProto artifacts then None
      else if \<not> receipt then (if length (elements artifacts) \<noteq> 0 then None else Some (arr []))
      else map_option arr (traverse artifactUse (elements artifacts)))"

definition decodeToolFinished :: "jsval \<Rightarrow> jsval option" where
  "decodeToolFinished value =
     (let receipt = tool_closed value receiptBacked in
      if \<not> receipt \<and> \<not> tool_closed value operationLess then None
      else do {
        decoded \<leftarrow> read_loop (\<lambda>key member. map_option Buf (tool_identity member)) value
          ([''run_id'', ''turn_id'', ''tool_call_id''] @ (if receipt then [''operation_id''] else [])) (obj []);
        tool \<leftarrow> finished_tool receipt (mem value ''tool_id'');
        (if one_of (mem value ''outcome'') tool_outcomes then Some () else None);
        reason \<leftarrow> finished_reason receipt (mem value ''reason'');
        artifacts \<leftarrow> finished_artifacts receipt (mem value ''artifacts'');
        Some (with_members decoded [(''tool_id'', tool), (''outcome'', mem value ''outcome''), (''reason'', reason),
          (''artifacts'', artifacts)])
      })"

section \<open>Typed view\<close>

record artifact =
  ar_digest :: ustring
  ar_size :: nat
  ar_locator :: ustring
  ar_media_type :: ustring
  ar_use_digest :: ustring

definition artifact_ok :: "artifact \<Rightarrow> bool" where
  "artifact_ok a \<longleftrightarrow> hex_digest (Str (ar_digest a)) \<and> ar_size a \<le> u64 \<and> safeText (Str (ar_locator a)) 1024 \<and>
     safeText (Str (ar_media_type a)) 255 \<and> hex_digest (Str (ar_use_digest a))"

definition artifact_members :: "(nat \<Rightarrow> jsval) \<Rightarrow> artifact \<Rightarrow> (string \<times> jsval) list" where
  "artifact_members f a = [(''digest'', Str (ar_digest a)), (''size'', f (ar_size a)), (''locator'', Str (ar_locator a)),
     (''media_type'', Str (ar_media_type a)), (''role'', js ''tool_output''),
     (''use_canonicalization_version'', js ''loopex.canonical.v1''), (''use_digest'', Str (ar_use_digest a)),
     (''use_locator'', Str (lit ''use:'' @ ar_use_digest a))]"

definition spells_artifact :: "artifact \<Rightarrow> jsval \<Rightarrow> bool" where
  "spells_artifact a v \<longleftrightarrow> closedOwn v artifactKeys \<and> artifact_ok a \<and>
     (\<forall>(k, x) \<in> set (artifact_members wire_nat a). mem v k = x)"

record tool_finished =
  tf_run :: bytes
  tf_turn :: bytes
  tf_call :: bytes
  tf_operation :: "bytes option"
  tf_tool :: "ustring option"
  tf_outcome :: string
  tf_reason :: "ustring option"
  tf_artifacts :: "artifact list"

definition tool_finished_ok :: "tool_finished \<Rightarrow> bool" where
  "tool_finished_ok t \<longleftrightarrow> id_ok 65536 (tf_run t) \<and> id_ok 65536 (tf_turn t) \<and> id_ok 65536 (tf_call t) \<and>
     tf_outcome t \<in> set tool_outcomes \<and> (\<forall>s. tf_tool t = Some s \<longrightarrow> toolId (Str s)) \<and>
     (case tf_operation t of
        Some i \<Rightarrow> id_ok 65536 i \<and> tf_tool t \<noteq> None \<and> tf_reason t = None \<and> list_all artifact_ok (tf_artifacts t)
      | None \<Rightarrow> (\<forall>s. tf_reason t = Some s \<longrightarrow> text_within 0 131072 (Str s)) \<and> tf_artifacts t = [])"

definition spells_tool_finished :: "tool_finished \<Rightarrow> jsval \<Rightarrow> bool" where
  "spells_tool_finished t v \<longleftrightarrow> closedOwn v (if tf_operation t = None then operationLess else receiptBacked) \<and>
     mem v ''run_id'' = wire_id (tf_run t) \<and> mem v ''turn_id'' = wire_id (tf_turn t) \<and>
     mem v ''tool_call_id'' = wire_id (tf_call t) \<and>
     (\<forall>i. tf_operation t = Some i \<longrightarrow> mem v ''operation_id'' = wire_id i) \<and>
     mem v ''tool_id'' = or_null Str (tf_tool t) \<and> mem v ''outcome'' = js (tf_outcome t) \<and>
     mem v ''reason'' = or_null Str (tf_reason t) \<and>
     isArray (mem v ''artifacts'') \<and> arrayProto (mem v ''artifacts'') \<and>
     list_all2 spells_artifact (tf_artifacts t) (elements (mem v ''artifacts''))"

definition tool_finished_native :: "tool_finished \<Rightarrow> jsval" where
  "tool_finished_native t = obj ([(''run_id'', Buf (tf_run t)), (''turn_id'', Buf (tf_turn t)),
     (''tool_call_id'', Buf (tf_call t))] @
     (case tf_operation t of None \<Rightarrow> [] | Some i \<Rightarrow> [(''operation_id'', Buf i)]) @
     [(''tool_id'', or_null Str (tf_tool t)), (''outcome'', js (tf_outcome t)), (''reason'', or_null Str (tf_reason t)),
      (''artifacts'', arr (map (\<lambda>a. obj (artifact_members big a)) (tf_artifacts t)))])"

section \<open>Lemmas\<close>

lemma tool_closed_eq [copy_eqs]: "tool_closed = closedOwn"
  by (auto simp: fun_eq_iff tool_closed_def closedOwn_def list_all_iff)

lemma tool_identity_eq [copy_eqs]: "tool_identity = identity_within 65536"
proof -
  have short: "id_ok m bs \<Longrightarrow> \<not> length (b64url bs) < 2" for m bs
    by (cases bs) (auto simp: id_ok_def length_b64url)
  have "tool_identity v = Some bs \<longleftrightarrow> identity_within 65536 v = Some bs" for v bs
  proof (cases v)
    case (Str s)
    show ?thesis
    proof (cases "length s < 2")
      case True
      then have "identity_within 65536 v \<noteq> Some bs" using short Str by (auto simp: identity_within_iff)
      with True Str show ?thesis by (simp add: tool_identity_def)
    next
      case False
      with Str identity_copy [of 65536 87382 v] show ?thesis by (simp add: tool_identity_def)
    qed
  qed (simp_all add: tool_identity_def identity_within_def)
  then show ?thesis by (metis ext not_Some_eq)
qed

lemma tool_digest_eq [copy_eqs]: "tool_digest = hex_digest"
  by (simp add: fun_eq_iff tool_digest_def hex_digest_def)

lemma tool_quantity_eq [copy_eqs]: "tool_quantity = quantity_within 0 (Some u64)"
  by (auto simp: fun_eq_iff tool_quantity_def quantity_within_def Let_def not_le dest: u64_text_guard split: jsval.split)

lemma safeText_Str: "safeText v n \<Longrightarrow> \<exists>s. v = Str s"
  by (auto simp: safeText_def split: jsval.splits)

lemma artifactUse_iff:
  "artifactUse v = Some r \<longleftrightarrow> (\<exists>a. spells_artifact a v \<and> r = obj (artifact_members big a))"
proof
  assume "artifactUse v = Some r"
  then obtain n where k: "closedOwn v artifactKeys" "hex_digest (mem v ''digest'')" "hex_digest (mem v ''use_digest'')"
    "safeText (mem v ''locator'') 1024" "safeText (mem v ''media_type'') 255" "mem v ''role'' = js ''tool_output''"
    "mem v ''use_canonicalization_version'' = js ''loopex.canonical.v1''" "use_locator_ok v"
    "n \<le> u64" "mem v ''size'' = wire_nat n"
    and r: "r = obj [(''digest'', mem v ''digest''), (''size'', big n), (''locator'', mem v ''locator''),
          (''media_type'', mem v ''media_type''), (''role'', mem v ''role''),
          (''use_canonicalization_version'', mem v ''use_canonicalization_version''),
          (''use_digest'', mem v ''use_digest''), (''use_locator'', mem v ''use_locator'')]"
    by (auto simp: artifactUse_def copy_eqs bind_eq_Some_conv quantity_within_iff nat_ok_def split: if_splits)
  then obtain d u l m where s: "mem v ''digest'' = Str d" "mem v ''use_digest'' = Str u" "mem v ''locator'' = Str l"
    "mem v ''media_type'' = Str m" using hex_digest_Str safeText_Str by metis
  with k(8) have "mem v ''use_locator'' = Str (lit ''use:'' @ u)" by (simp add: use_locator_ok_def)
  with k r s show "\<exists>a. spells_artifact a v \<and> r = obj (artifact_members big a)"
    by (intro exI [of _ "\<lparr>ar_digest = d, ar_size = n, ar_locator = l, ar_media_type = m, ar_use_digest = u\<rparr>"])
      (simp add: spells_artifact_def artifact_ok_def artifact_members_def)
next
  assume "\<exists>a. spells_artifact a v \<and> r = obj (artifact_members big a)"
  then obtain a where "spells_artifact a v" "r = obj (artifact_members big a)" by blast
  then show "artifactUse v = Some r"
    by (simp add: artifactUse_def copy_eqs spells_artifact_def artifact_ok_def artifact_members_def use_locator_ok_def
        quantity_scalar.read_write nat_ok_def)
qed

lemma artifacts_iff:
  "traverse artifactUse xs = Some ys \<longleftrightarrow>
     (\<exists>as. list_all2 spells_artifact as xs \<and> ys = map (\<lambda>a. obj (artifact_members big a)) as)"
proof -
  have "traverse artifactUse xs = Some ys \<longleftrightarrow>
    (\<exists>as. list_all2 (\<lambda>x a. spells_artifact a x) xs as \<and> ys = map (\<lambda>a. obj (artifact_members big a)) as)"
    unfolding traverse_iff artifactUse_iff list_all2_map_ex ..
  then show ?thesis by (simp add: list_all2_conv_all_nth) metis
qed

lemma finished_tool_iff:
  "finished_tool receipt v = Some x \<longleftrightarrow> x = v \<and>
     (\<exists>t. v = or_null Str t \<and> (\<forall>s. t = Some s \<longrightarrow> toolId (Str s)) \<and> (receipt \<longrightarrow> t \<noteq> None))"
proof (cases v)
  case (Str s)
  then show ?thesis by (auto simp: finished_tool_def or_null_def split_option_ex)
next
  case Null
  then show ?thesis by (auto simp: finished_tool_def or_null_def toolId_def split_option_ex)
qed (simp_all add: finished_tool_def or_null_def toolId_def split_option_ex)

lemma finished_reason_iff:
  "finished_reason receipt v = Some x \<longleftrightarrow> x = v \<and>
     (\<exists>t. v = or_null Str t \<and> (\<forall>s. t = Some s \<longrightarrow> text_within 0 131072 (Str s)) \<and> (receipt \<longrightarrow> t = None))"
  by (cases v) (auto simp: finished_reason_def or_null_def text_within_def split_option_ex)

lemma finished_artifacts_iff:
  "finished_artifacts receipt v = Some x \<longleftrightarrow> isArray v \<and> arrayProto v \<and>
     (\<exists>as. list_all2 spells_artifact as (elements v) \<and> (\<not> receipt \<longrightarrow> as = []) \<and>
        x = arr (map (\<lambda>a. obj (artifact_members big a)) as))"
proof (cases receipt)
  case True
  then show ?thesis by (auto simp: finished_artifacts_def artifacts_iff)
next
  case False
  then show ?thesis by (auto simp: finished_artifacts_def)
qed

lemma closedOwn_length: "closedOwn v ks \<Longrightarrow> closedOwn v ls \<Longrightarrow> length ks = length ls"
  by (simp add: closedOwn_def)

lemma spells_artifacts_ok: "list_all2 spells_artifact as xs \<Longrightarrow> list_all artifact_ok as"
  by (induction rule: list_all2_induct) (simp_all add: spells_artifact_def)

lemma identity_members:
  "read_loop (\<lambda>key member. map_option Buf (tool_identity member)) v ks (obj []) = Some d \<longleftrightarrow>
     (\<exists>is. list_all2 (\<lambda>k i. id_ok 65536 i \<and> mem v k = wire_id i) ks is \<and> d = with_members (obj []) (zip ks (map Buf is)))"
proof -
  have "map_option Buf (identity_within 65536 (mem v k)) = Some x \<longleftrightarrow>
    (\<exists>i. (id_ok 65536 i \<and> mem v k = wire_id i) \<and> x = Buf i)" for k x
    by (auto simp: identity_within_iff)
  then show ?thesis unfolding read_loop_iff tool_identity_eq by (simp only: list_all2_map_ex) blast
qed

lemma tool_native_fold:
  assumes "ids = [(''run_id'', a), (''turn_id'', b), (''tool_call_id'', c)] @ ops" "ops = [] \<or> (\<exists>x. ops = [(''operation_id'', x)])"
  shows "with_members (with_members (obj []) ids) [(''tool_id'', t), (''outcome'', u), (''reason'', w), (''artifacts'', x)] =
    obj (ids @ [(''tool_id'', t), (''outcome'', u), (''reason'', w), (''artifacts'', x)])"
  using assms by (auto simp: with_members_Cons obj_def)

lemma decodeToolFinished_sound:
  assumes "decodeToolFinished v = Some r"
  shows "\<exists>t. tool_finished_ok t \<and> spells_tool_finished t v \<and> r = tool_finished_native t"
proof -
  define receipt where "receipt = closedOwn v receiptBacked"
  from assms obtain d x y z where c: "closedOwn v (if receipt then receiptBacked else operationLess)"
    and d: "read_loop (\<lambda>key member. map_option Buf (tool_identity member)) v
          ([''run_id'', ''turn_id'', ''tool_call_id''] @ (if receipt then [''operation_id''] else [])) (obj []) = Some d"
    and x: "finished_tool receipt (mem v ''tool_id'') = Some x"
    and o: "one_of (mem v ''outcome'') tool_outcomes"
    and y: "finished_reason receipt (mem v ''reason'') = Some y"
    and z: "finished_artifacts receipt (mem v ''artifacts'') = Some z"
    and r: "r = with_members d [(''tool_id'', x), (''outcome'', mem v ''outcome''), (''reason'', y), (''artifacts'', z)]"
    by (auto simp: decodeToolFinished_def copy_eqs Let_def bind_eq_Some_conv receipt_def split: if_splits)
  from d obtain a b e "is" where i: "id_ok 65536 a" "id_ok 65536 b" "id_ok 65536 e" "mem v ''run_id'' = wire_id a"
      "mem v ''turn_id'' = wire_id b" "mem v ''tool_call_id'' = wire_id e"
    and op: "list_all2 (\<lambda>k i. id_ok 65536 i \<and> mem v k = wire_id i) (if receipt then [''operation_id''] else []) is"
    and d': "d = with_members (obj []) (zip ([''run_id'', ''turn_id'', ''tool_call_id''] @ (if receipt then [''operation_id''] else []))
        (map Buf (a # b # e # is)))"
    unfolding identity_members by (auto simp: list_all2_Cons1)
  define oper where "oper = (if receipt then Some (hd is) else None)"
  have oper: "\<forall>j. oper = Some j \<longrightarrow> id_ok 65536 j \<and> mem v ''operation_id'' = wire_id j"
    and d'': "d = with_members (obj []) ([(''run_id'', Buf a), (''turn_id'', Buf b), (''tool_call_id'', Buf e)] @
      (case oper of None \<Rightarrow> [] | Some j \<Rightarrow> [(''operation_id'', Buf j)]))"
    using op d' by (auto simp: oper_def list_all2_Cons1 split: if_splits)
  from x obtain tool where t: "mem v ''tool_id'' = or_null Str tool" "x = or_null Str tool"
    "\<forall>s. tool = Some s \<longrightarrow> toolId (Str s)" "receipt \<longrightarrow> tool \<noteq> None" unfolding finished_tool_iff by auto
  from y obtain reason where rs: "mem v ''reason'' = or_null Str reason" "y = or_null Str reason"
    "\<forall>s. reason = Some s \<longrightarrow> text_within 0 131072 (Str s)" "receipt \<longrightarrow> reason = None" unfolding finished_reason_iff by auto
  from z obtain as where as: "isArray (mem v ''artifacts'')" "arrayProto (mem v ''artifacts'')"
    "list_all2 spells_artifact as (elements (mem v ''artifacts''))" "\<not> receipt \<longrightarrow> as = []"
    "z = arr (map (\<lambda>a. obj (artifact_members big a)) as)" unfolding finished_artifacts_iff by blast
  from o obtain out where out: "mem v ''outcome'' = js out" "out \<in> set tool_outcomes" by (auto dest: one_of_js)
  let ?t = "\<lparr>tf_run = a, tf_turn = b, tf_call = e, tf_operation = oper, tf_tool = tool, tf_outcome = out,
    tf_reason = reason, tf_artifacts = as\<rparr>"
  have "tool_finished_ok ?t"
    using i oper t rs as out spells_artifacts_ok by (auto simp: tool_finished_ok_def oper_def)
  moreover have "spells_tool_finished ?t v"
    using c i oper t rs as out by (auto simp: spells_tool_finished_def oper_def split: if_splits)
  moreover have "r = tool_finished_native ?t"
    unfolding r d'' t(2) rs(2) as(5) out(1)
    by (subst tool_native_fold [OF refl]) (auto simp: tool_finished_native_def split: option.split)
  ultimately show ?thesis by blast
qed

lemma decodeToolFinished_complete:
  assumes "tool_finished_ok t" "spells_tool_finished t v"
  shows "decodeToolFinished v = Some (tool_finished_native t)"
proof -
  define receipt where "receipt = (tf_operation t \<noteq> None)"
  have rb: "closedOwn v receiptBacked \<longleftrightarrow> receipt"
    using assms closedOwn_length [of v receiptBacked operationLess]
    by (auto simp: spells_tool_finished_def receipt_def receiptBacked_def operationLess_def split: if_splits)
  have c: "receipt \<or> closedOwn v operationLess"
    using assms by (auto simp: spells_tool_finished_def receipt_def split: if_splits)
  let ?ids = "[(''run_id'', Buf (tf_run t)), (''turn_id'', Buf (tf_turn t)), (''tool_call_id'', Buf (tf_call t))] @
      (case tf_operation t of None \<Rightarrow> [] | Some j \<Rightarrow> [(''operation_id'', Buf j)])"
  have d: "read_loop (\<lambda>key member. map_option Buf (tool_identity member)) v
      ([''run_id'', ''turn_id'', ''tool_call_id''] @ (if receipt then [''operation_id''] else [])) (obj []) =
      Some (with_members (obj []) ?ids)"
    using assms by (auto simp: read_loop.simps tool_identity_eq identity_scalar.read_write with_members_Cons
        spells_tool_finished_def tool_finished_ok_def receipt_def split: option.splits)
  have x: "finished_tool receipt (mem v ''tool_id'') = Some (or_null Str (tf_tool t))"
    using assms unfolding finished_tool_iff
    by (auto simp: spells_tool_finished_def tool_finished_ok_def receipt_def split: option.splits)
  have y: "finished_reason receipt (mem v ''reason'') = Some (or_null Str (tf_reason t))"
    using assms unfolding finished_reason_iff
    by (auto simp: spells_tool_finished_def tool_finished_ok_def receipt_def split: option.splits)
  have z: "finished_artifacts receipt (mem v ''artifacts'') =
      Some (arr (map (\<lambda>a. obj (artifact_members big a)) (tf_artifacts t)))"
    using assms unfolding finished_artifacts_iff
    by (auto simp: spells_tool_finished_def tool_finished_ok_def receipt_def split: option.splits)
  have o: "mem v ''outcome'' = js (tf_outcome t)" "tf_outcome t \<in> set tool_outcomes"
    using assms by (simp_all add: spells_tool_finished_def tool_finished_ok_def)
  have n: "with_members (with_members (obj []) ?ids) [(''tool_id'', or_null Str (tf_tool t)), (''outcome'', js (tf_outcome t)),
      (''reason'', or_null Str (tf_reason t)), (''artifacts'', arr (map (\<lambda>a. obj (artifact_members big a)) (tf_artifacts t)))] =
    tool_finished_native t"
    by (subst tool_native_fold [OF refl]) (auto simp: tool_finished_native_def split: option.split)
  show ?thesis
    unfolding decodeToolFinished_def Let_def tool_closed_eq rb
    using c d x y z o n by simp
qed

lemma decodeToolFinished_iff:
  "decodeToolFinished v = Some r \<longleftrightarrow>
     (\<exists>t. tool_finished_ok t \<and> spells_tool_finished t v \<and> r = tool_finished_native t)"
  using decodeToolFinished_sound decodeToolFinished_complete by blast

section \<open>Properties\<close>

text \<open>\<open>decodeToolFinished\<close> accepts exactly the two closed shapes of a finished tool: with an operation identity it has a tool, no
  reason and well-formed artifacts, without one it has no artifacts and an optional reason; the result is what was spelled.\<close>

theorem tool_finished_exact:
  "decodeToolFinished v = Some r \<longleftrightarrow> (\<exists>t. tool_finished_ok t \<and> spells_tool_finished t v \<and> r = tool_finished_native t)"
  by (rule decodeToolFinished_iff)

end
