(* ===== verification/Compaction_Progress.thy ===== *)
theory Compaction_Progress
  imports Checkpoint_Owner
begin

text \<open>
  \<open>clients/node/compaction-progress.mjs\<close>: the activity notice of one compaction attempt.
  Its members are inspected through their descriptors before any is read.
\<close>

definition progress_keys :: "string list" where
  "progress_keys = [''kind'', ''episode_id'', ''owner'', ''stream_domain_id'', ''progress_sequence'', ''base_event_sequence'']"

definition progress_closed :: "jsval \<Rightarrow> string list \<Rightarrow> bool" where
  "progress_closed value required \<longleftrightarrow> isObject value \<and> plainProto value \<and>
     length (ownKeys value) = length required \<and>
     list_all (\<lambda>(k, p). string_key k \<and> k \<in> set (map (\<lambda>s. SKey (lit s)) required) \<and> is_data p \<and> enumerable p)
       (own_props value)"

definition progress_identity :: "jsval \<Rightarrow> nat \<Rightarrow> nat \<Rightarrow> bytes option" where
  "progress_identity value maximum encodedMaximum = (case value of
     Str s \<Rightarrow> if encodedMaximum < length s \<or> \<not> b64_text s then None
       else let bytes = b64url_decode s in
         if 1 \<le> length bytes \<and> length bytes \<le> maximum \<and> b64url bytes = s then Some bytes else None
   | _ \<Rightarrow> None)"

definition progress_quantity :: "jsval \<Rightarrow> nat option" where
  "progress_quantity value = (case value of
     Str s \<Rightarrow> if 20 < length s \<or> \<not> canonical_decimal s then None
       else let integer = decimal_value s in
         if dec integer = s \<and> integer \<le> u64 then Some integer else None
   | _ \<Rightarrow> None)"

definition hex_byte :: "byte \<Rightarrow> bool" where
  "hex_byte b \<longleftrightarrow> (48 \<le> unat b \<and> unat b \<le> 57) \<or> (97 \<le> unat b \<and> unat b \<le> 102)"

definition decodeCompactionProgress :: "jsval \<Rightarrow> jsval option" where
  "decodeCompactionProgress value =
     (if \<not> progress_closed value progress_keys \<or> mem value ''kind'' \<noteq> js ''context.compaction_progress'' \<or>
         mem value ''progress_sequence'' \<noteq> js ''0'' \<or> \<not> progress_closed (mem value ''owner'') [''kind'', ''id'']
      then None
      else do {
        episode \<leftarrow> progress_identity (mem value ''episode_id'') 65536 87382;
        owner \<leftarrow> decodeCheckpointOwner (mem value ''owner'');
        domain \<leftarrow> progress_identity (mem value ''stream_domain_id'') 32 43;
        base \<leftarrow> progress_quantity (mem value ''base_event_sequence'');
        if length domain \<noteq> 32 \<or> \<not> list_all hex_byte domain then None
        else Some (obj [(''kind'', js ''context.compaction_progress''), (''episode_id'', Buf episode),
          (''owner'', owner), (''stream_domain_id'', Buf domain), (''progress_sequence'', big 0),
          (''base_event_sequence'', big base)])
      })"

section \<open>Typed view\<close>

record compaction_progress =
  cp_episode :: bytes
  cp_owner :: owner
  cp_domain :: bytes
  cp_base :: nat

definition spells_progress :: "compaction_progress \<Rightarrow> jsval \<Rightarrow> bool" where
  "spells_progress p v \<longleftrightarrow> closedOwn v progress_keys \<and> mem v ''kind'' = js ''context.compaction_progress'' \<and>
     id_ok 65536 (cp_episode p) \<and> mem v ''episode_id'' = wire_id (cp_episode p) \<and>
     closedOwn (mem v ''owner'') [''kind'', ''id''] \<and> spells_owner (cp_owner p) (mem v ''owner'') \<and>
     length (cp_domain p) = 32 \<and> list_all hex_byte (cp_domain p) \<and> mem v ''stream_domain_id'' = wire_id (cp_domain p) \<and>
     mem v ''progress_sequence'' = js ''0'' \<and> cp_base p \<le> u64 \<and> mem v ''base_event_sequence'' = wire_nat (cp_base p)"

definition progress_native :: "compaction_progress \<Rightarrow> jsval" where
  "progress_native p = obj [(''kind'', js ''context.compaction_progress''), (''episode_id'', Buf (cp_episode p)),
     (''owner'', owner_native (cp_owner p)), (''stream_domain_id'', Buf (cp_domain p)),
     (''progress_sequence'', big 0), (''base_event_sequence'', big (cp_base p))]"

section \<open>Lemmas\<close>

lemma closedOwn_strings:
  "isObject v \<and> plainProto v \<and> length (ownKeys v) = length ks \<and>
     list_all (\<lambda>(k, p). string_key k \<and> k \<in> set (map (\<lambda>s. SKey (lit s)) ks) \<and> is_data p \<and> enumerable p) (own_props v)
   \<longleftrightarrow> closedOwn v ks"
  by (auto simp: closedOwn_def list_all_iff)

lemma progress_closed_eq [copy_eqs]: "progress_closed = closedOwn"
  unfolding fun_eq_iff progress_closed_def closedOwn_strings by simp

lemma progress_identity_eq [copy_eqs]:
  "(4 * m + 2) div 3 \<le> l \<Longrightarrow> progress_identity v m l = identity_within m v"
  by (simp add: progress_identity_def identity_copy)

lemma progress_quantity_eq [copy_eqs]: "progress_quantity = quantity_within 0 (Some u64)"
  by (auto simp: fun_eq_iff progress_quantity_def quantity_within_def dec_decimal_value u64_text_guard Let_def not_le
      dest: u64_text_guard split: jsval.split)

lemma decodeCompactionProgress_iff:
  "decodeCompactionProgress v = Some r \<longleftrightarrow> (\<exists>p. spells_progress p v \<and> r = progress_native p)"
proof
  assume "decodeCompactionProgress v = Some r"
  then obtain e w d b where "closedOwn v progress_keys" "mem v ''kind'' = js ''context.compaction_progress''"
    "mem v ''progress_sequence'' = js ''0''" "closedOwn (mem v ''owner'') [''kind'', ''id'']"
    "id_ok 65536 e" "mem v ''episode_id'' = wire_id e" "spells_owner w (mem v ''owner'')"
    "mem v ''stream_domain_id'' = wire_id d" "length d = 32" "list_all hex_byte d"
    "b \<le> u64" "mem v ''base_event_sequence'' = wire_nat b"
    "r = progress_native \<lparr>cp_episode = e, cp_owner = w, cp_domain = d, cp_base = b\<rparr>"
    by (auto simp: decodeCompactionProgress_def copy_eqs bind_eq_Some_conv scalar_iffs decodeCheckpointOwner_iff
        nat_ok_def progress_native_def split: if_splits)
  then show "\<exists>p. spells_progress p v \<and> r = progress_native p"
    by (intro exI [of _ "\<lparr>cp_episode = e, cp_owner = w, cp_domain = d, cp_base = b\<rparr>"]) (simp add: spells_progress_def)
next
  assume "\<exists>p. spells_progress p v \<and> r = progress_native p"
  then obtain p where p: "spells_progress p v" "r = progress_native p" by blast
  then have o: "decodeCheckpointOwner (mem v ''owner'') = Some (owner_native (cp_owner p))"
    unfolding decodeCheckpointOwner_iff spells_progress_def by blast
  have d: "id_ok 32 (cp_domain p)" using p by (simp add: spells_progress_def id_ok_def)
  show "decodeCompactionProgress v = Some r"
    using p o d by (simp add: decodeCompactionProgress_def spells_progress_def copy_eqs identity_scalar.read_write
        quantity_scalar.read_write nat_ok_def progress_native_def)
qed

section \<open>Properties\<close>

text \<open>\<open>decodeCompactionProgress\<close> accepts exactly the closed progress payloads of one compaction episode, with a stream domain of
  32 hexadecimal bytes, a progress sequence of zero and a 64-bit base, and returns their bytes and quantities.\<close>

theorem compaction_progress_exact:
  "decodeCompactionProgress v = Some r \<longleftrightarrow> (\<exists>p. spells_progress p v \<and> r = progress_native p)"
  by (rule decodeCompactionProgress_iff)

end
