(* ===== verification/Public_Records.thy ===== *)
theory Public_Records
  imports Interaction_Event Snapshot Terminal_Outcome Tool_Finished Compaction_Progress
begin

text \<open>
  \<open>clients/node/public-records.mjs\<close>: the check every event, snapshot and progress record of the server passes
  before a caller sees it.  A thrown error is an \<open>Inl\<close>.
\<close>

datatype record_error = Conversion_error | Invalid_envelope | Invalid_event ustring | Invalid_snapshot | Invalid_progress

section \<open>Property keys\<close>

text \<open>
  \<open>table[key]\<close> and \<open>Object.hasOwn(table, key)\<close> first turn the key into a property name; \<open>None\<close> is the thrown
  type error of an object that has no primitive form.  An array is its elements' texts joined by commas.
\<close>

fun join_texts :: "ustring list \<Rightarrow> ustring" where
  "join_texts [] = []"
| "join_texts [s] = s"
| "join_texts (s # t # r) = s @ lit '','' @ join_texts (t # r)"

fun to_text :: "jsval \<Rightarrow> ustring option" where
  "to_text Undefined = Some (lit ''undefined'')"
| "to_text Null = Some (lit ''null'')"
| "to_text (Boolean b) = Some (lit (if b then ''true'' else ''false''))"
| "to_text (Number n) = Some (int_text n)"
| "to_text (NonInt s) = Some (lit s)"
| "to_text (BigInt i) = Some (int_text i)"
| "to_text (Str s) = Some s"
| "to_text (Buf b) = Some (utf8_decode b)"
| "to_text Func = None"
| "to_text (Arr p sl ex) = (if p \<noteq> ArrayProto then None else map_option join_texts (all_some (map (\<lambda>s. case s of
       None \<Rightarrow> Some []
     | Some (Data e x) \<Rightarrow> if x = Null \<or> x = Undefined then Some [] else to_text x
     | Some (Accessor e x) \<Rightarrow> if x = Null \<or> x = Undefined then Some [] else to_text x) sl)))"
| "to_text (Obj p ps) = (if p \<noteq> ObjectProto \<or> SKey (lit ''toString'') \<in> set (map fst ps) then None else Some (lit ''[object Object]''))"

definition own_entry :: "(string \<times> 'a) list \<Rightarrow> jsval \<Rightarrow> 'a option" where
  "own_entry table key = (case to_text key of None \<Rightarrow> None | Some s \<Rightarrow> map_of (map (\<lambda>(k, x). (lit k, x)) table) s)"

section \<open>Scalars\<close>

definition record_identity :: "jsval \<Rightarrow> nat \<Rightarrow> bytes option" where
  "record_identity value maximum = (case value of
     Str s \<Rightarrow> if \<not> b64_text s \<or> (4 * maximum + 2) div 3 < length s then None
       else let bytes = b64url_decode s in
         if 1 \<le> length bytes \<and> length bytes \<le> maximum \<and> b64url bytes = s then Some bytes else None
   | _ \<Rightarrow> None)"

definition record_content :: "jsval \<Rightarrow> bytes option" where
  "record_content value = (case value of
     Str s \<Rightarrow> if 131072 < length s \<or> \<not> list_all is_b64 s then None
       else let bytes = b64url_decode s in if b64url bytes = s then Some bytes else None
   | _ \<Rightarrow> None)"

definition record_text :: "jsval \<Rightarrow> nat \<Rightarrow> bool" where
  "record_text value minimum = (case value of
     Str s \<Rightarrow> isWellFormed s \<and> minimum \<le> byteLength s \<and> byteLength s \<le> 131072 | _ \<Rightarrow> False)"

definition record_quantity :: "jsval \<Rightarrow> nat option" where
  "record_quantity value = (case value of
     Str s \<Rightarrow> if 20 < length s \<or> \<not> canonical_decimal s then None
       else let integer = decimal_value s in if integer \<le> u64 then Some integer else None
   | _ \<Rightarrow> None)"

definition record_closed :: "jsval \<Rightarrow> string list \<Rightarrow> bool" where
  "record_closed value keys \<longleftrightarrow> isObject value \<and> plainProto value \<and> length (ownKeys value) = length keys \<and>
     list_all (\<lambda>(k, p). string_key k \<and> k \<in> set (map (\<lambda>s. SKey (lit s)) keys) \<and> is_data p \<and> enumerable p) (own_props value)"

text \<open>\<open>/^[a-z][a-z0-9_]*(\.[a-z][a-z0-9_]*)*$/\<close>: the flag says that a segment has begun\<close>

definition is_lower :: "code_unit \<Rightarrow> bool" where
  "is_lower u \<longleftrightarrow> 97 \<le> unat u \<and> unat u \<le> 122"

fun tool_id_from :: "bool \<Rightarrow> ustring \<Rightarrow> bool" where
  "tool_id_from begun [] = begun"
| "tool_id_from begun (u # s) =
     (if is_lower u then tool_id_from True s
      else if begun \<and> (is_digit u \<or> unat u = 95) then tool_id_from True s
      else begun \<and> unat u = 46 \<and> tool_id_from False s)"

definition tool_id_pattern :: "ustring \<Rightarrow> bool" where
  "tool_id_pattern s = tool_id_from False s"

text \<open>\<open>/^[0-9]+\.[0-9]+\.[0-9]+$/\<close>: the dots still to come, and whether a digit run has begun\<close>

fun version_from :: "nat \<Rightarrow> bool \<Rightarrow> ustring \<Rightarrow> bool" where
  "version_from dots begun [] = (dots = 0 \<and> begun)"
| "version_from dots begun (u # s) =
     (if is_digit u then version_from dots True s
      else begun \<and> unat u = 46 \<and> 0 < dots \<and> version_from (dots - 1) False s)"

definition tool_id_value :: "jsval \<Rightarrow> bool" where
  "tool_id_value value = (case value of Str s \<Rightarrow> length s \<le> 128 \<and> tool_id_pattern s | _ \<Rightarrow> False)"

definition tool_version_value :: "jsval \<Rightarrow> bool" where
  "tool_version_value value = (case value of Str s \<Rightarrow> byteLength s \<le> 131072 \<and> version_from 2 False s | _ \<Rightarrow> False)"

abbreviation an_identity :: "jsval \<Rightarrow> bool" where
  "an_identity value \<equiv> record_identity value 65536 \<noteq> None"

definition ordinary :: "(string \<times> (string \<times> (jsval \<Rightarrow> bool)) list) list" where
  "ordinary = [
     (''user.message_appended'', [(''command_id'', \<lambda>v. an_identity v), (''run_id'', \<lambda>v. an_identity v), (''content_b64'', \<lambda>v. record_content v \<noteq> None)]),
     (''run.started'', [(''command_id'', \<lambda>v. an_identity v), (''run_id'', \<lambda>v. an_identity v)]),
     (''assistant.message_appended'', [(''run_id'', \<lambda>v. an_identity v), (''turn_id'', \<lambda>v. an_identity v), (''content_b64'', \<lambda>v. record_content v \<noteq> None)]),
     (''tool.started'', [(''run_id'', \<lambda>v. an_identity v), (''turn_id'', \<lambda>v. an_identity v), (''tool_call_id'', \<lambda>v. an_identity v),
        (''operation_id'', \<lambda>v. an_identity v), (''tool_id'', tool_id_value), (''tool_version'', tool_version_value)]),
     (''steer.resolved'', [(''command_id'', \<lambda>v. an_identity v), (''run_id'', \<lambda>v. an_identity v),
        (''disposition'', \<lambda>v. one_of v [''applied'', ''unapplied'', ''cancelled'']), (''reason'', \<lambda>v. v = Null \<or> record_text v 0)]),
     (''follow_up.resolved'', [(''command_id'', \<lambda>v. an_identity v), (''run_id'', \<lambda>v. an_identity v),
        (''disposition'', \<lambda>v. v = js ''cancelled''), (''reason'', \<lambda>v. v = js ''aborted'')]),
     (''session.settled'', [(''run_id'', \<lambda>v. an_identity v)])]"

definition reference_or_null :: "jsval \<Rightarrow> bool" where
  "reference_or_null v \<longleftrightarrow> v = Null \<or> an_identity v"

text \<open>\<open>value ?? null\<close>\<close>

definition nullish :: "jsval \<Rightarrow> jsval" where
  "nullish v = (if v = Undefined then Null else v)"

definition run_extra :: "jsval \<Rightarrow> string list" where
  "run_extra data = (if mem data ''outcome'' = js ''bound_reached'' then [''bound'', ''observed'', ''declared_limit'', ''accounting_source'']
     else if mem data ''outcome'' = js ''failed'' then [if hasOwn data ''failure'' then ''failure'' else ''reason''] else [])"

definition decodeRunFinished :: "jsval \<Rightarrow> jsval option" where
  "decodeRunFinished data =
     (if \<not> record_closed data ([''run_id'', ''outcome'', ''reconciliation_ref'', ''cleanup_grace_ms'', ''command_id''] @ run_extra data) \<or>
         \<not> an_identity (mem data ''run_id'') \<or> \<not> reference_or_null (mem data ''command_id'') \<or>
         \<not> reference_or_null (mem data ''reconciliation_ref'') then None
      else let details = with_members (obj [(''cleanup_grace_ms'', mem data ''cleanup_grace_ms'')])
                 (map (\<lambda>key. (key, mem data key)) (run_extra data));
               details = (if mem data ''outcome'' = js ''failed'' then with_members details
                 [(''reason'', nullish (mem data ''reason'')), (''failure'', nullish (mem data ''failure''))] else details) in
        if mem data ''outcome'' = js ''outcome_unknown'' then
          decodeTerminalOutcome (obj [(''outcome'', mem data ''outcome''),
            (''details'', setm ''reconciliation_ref'' (mem data ''reconciliation_ref'') details)])
        else if mem data ''reconciliation_ref'' \<noteq> Null then None
        else decodeTerminalOutcome (obj [(''outcome'', mem data ''outcome''), (''details'', details)]))"

definition decoders :: "(string \<times> (jsval \<Rightarrow> jsval option)) list" where
  "decoders = [(''tool.finished'', decodeToolFinished), (''run.finished'', decodeRunFinished),
     (''session.configured'', decodeConfiguredEvent), (''context.compacted'', decodeCheckpoint),
     (''context.maintenance_changed'', decodeMaintenanceView), (''context.compaction_finished'', decodeCompactCompletion)]"

definition interactionKinds :: "string list" where
  "interactionKinds = [''interaction.requested'', ''interaction.answer_admitted'', ''interaction.resolved'', ''interaction.expired'',
     ''interaction.cancelled'', ''interaction.answered'', ''interaction.declined'']"

section \<open>Events\<close>

definition members_valid :: "(string \<times> (jsval \<Rightarrow> bool)) list \<Rightarrow> jsval \<Rightarrow> bool" where
  "members_valid checks data \<longleftrightarrow> record_closed data (map fst checks) \<and> list_all (\<lambda>(key, check). check (mem data key)) checks"

definition event_valid :: "jsval \<Rightarrow> jsval \<Rightarrow> bool" where
  "event_valid kind data =
     (case own_entry ordinary kind of
        Some checks \<Rightarrow> members_valid checks data
      | None \<Rightarrow> if one_of kind interactionKinds then decodeInteractionEvent kind data \<noteq> None
          else case own_entry decoders kind of Some decode \<Rightarrow> decode data \<noteq> None | None \<Rightarrow> False)"

definition event_envelope :: "jsval \<Rightarrow> bool" where
  "event_envelope record \<longleftrightarrow> (let event = mem record ''event'' in
     record_closed record [''type'', ''session_id'', ''event''] \<and> mem record ''type'' = js ''event'' \<and>
     record_identity (mem record ''session_id'') 256 \<noteq> None \<and>
     record_closed event [''kind'', ''event_id'', ''event_sequence'', ''data''] \<and>
     an_identity (mem event ''event_id'') \<and> record_quantity (mem event ''event_sequence'') \<noteq> None)"

definition validateEvent :: "jsval \<Rightarrow> record_error + jsval" where
  "validateEvent record = (let event = mem record ''event'' in
     if \<not> event_envelope record then Inl Invalid_envelope
     else if to_text (mem event ''kind'') = None then Inl Conversion_error
     else if \<not> event_valid (mem event ''kind'') (mem event ''data'') then
       Inl (Invalid_event (case mem event ''kind'' of Str s \<Rightarrow> s | _ \<Rightarrow> lit ''unknown''))
     else Inr event)"

section \<open>Snapshots\<close>

text \<open>\<open>isDeepStrictEqual\<close>: equal primitives, and objects of one prototype whose enumerable members are equal by name\<close>

fun visible :: "(pkey \<times> jsval jsprop) list \<Rightarrow> (pkey \<times> jsval jsprop) list" where
  "visible ps = filter (\<lambda>(k, p). enumerable p) ps"

lemma props_size:
  "(k, Data e a) \<in> set ps \<Longrightarrow> size a < Suc (size_list (size_prod (\<lambda>_. 0) (size_jsprop size)) ps)"
  "(k, Accessor e a) \<in> set ps \<Longrightarrow> size a < Suc (size_list (size_prod (\<lambda>_. 0) (size_jsprop size)) ps)"
  by (induction ps) auto

lemma slots_size:
  "Some (Data e a) \<in> set sl \<Longrightarrow> size a < Suc (size_list (size_option (size_jsprop size)) sl)"
  "Some (Accessor e a) \<in> set sl \<Longrightarrow> size a < Suc (size_list (size_option (size_jsprop size)) sl)"
  by (induction sl) auto

function (sequential) deep_equal :: "jsval \<Rightarrow> jsval \<Rightarrow> bool" where
  "deep_equal (Obj p ps) (Obj q qs) \<longleftrightarrow> p = q \<and> length (visible ps) = length (visible qs) \<and>
     list_all (\<lambda>(k, x). enumerable x \<longrightarrow> (case map_of (visible qs) k of None \<Rightarrow> False
       | Some y \<Rightarrow> (case x of Data e a \<Rightarrow> deep_equal a (read_prop y) | Accessor e a \<Rightarrow> deep_equal a (read_prop y)))) ps"
| "deep_equal (Arr p sl ex) (Arr q sm ey) \<longleftrightarrow> p = q \<and> length sl = length sm \<and> length (visible ex) = length (visible ey) \<and>
     list_all (\<lambda>(s, t). (case s of None \<Rightarrow> t = None
       | Some (Data e a) \<Rightarrow> t \<noteq> None \<and> deep_equal a (slot_value t)
       | Some (Accessor e a) \<Rightarrow> t \<noteq> None \<and> deep_equal a (slot_value t))) (zip sl sm) \<and>
     list_all (\<lambda>(k, x). enumerable x \<longrightarrow> (case map_of (visible ey) k of None \<Rightarrow> False
       | Some y \<Rightarrow> (case x of Data e a \<Rightarrow> deep_equal a (read_prop y) | Accessor e a \<Rightarrow> deep_equal a (read_prop y)))) ex"
| "deep_equal v w = (v = w)"
  by pat_completeness auto

termination deep_equal
  by (relation "measure (\<lambda>(v, w). size v)") (auto dest!: set_zip_leftD dest: props_size slots_size)

definition snapshot_record_keys :: "string list" where
  "snapshot_record_keys = [''type'', ''request_id'', ''session_id'', ''event_cursor'', ''snapshot'', ''open_interaction'']"

definition validateSnapshot :: "jsval \<Rightarrow> record_error + jsval" where
  "validateSnapshot record =
     (let snapshot = (if record_closed record snapshot_record_keys then decodeSnapshot (mem record ''snapshot'') else None);
          cursor = record_quantity (mem record ''event_cursor'') in
      case snapshot of
        None \<Rightarrow> Inl Invalid_snapshot
      | Some decoded \<Rightarrow>
          if mem record ''type'' \<noteq> js ''snapshot'' \<or> mem record ''session_id'' \<noteq> mem (mem record ''snapshot'') ''session_id'' \<or>
             cursor = None \<or> map_option big cursor \<noteq> Some (mem decoded ''event_sequence'') \<or>
             \<not> deep_equal (mem record ''open_interaction'') (mem (mem record ''snapshot'') ''open_interaction'')
          then Inl Invalid_snapshot else Inr record)"

section \<open>Progress\<close>

abbreviation u64_value :: "jsval \<Rightarrow> bool" where
  "u64_value value \<equiv> record_quantity value \<noteq> None"

text \<open>32 bytes that are lowercase hexadecimal digits\<close>

definition domain_value :: "jsval \<Rightarrow> bool" where
  "domain_value value = (case record_identity value 32 of None \<Rightarrow> False
     | Some bytes \<Rightarrow> length bytes = 32 \<and> list_all (\<lambda>b. (48 \<le> unat b \<and> unat b \<le> 57) \<or> (97 \<le> unat b \<and> unat b \<le> 102)) bytes)"

definition index_value :: "jsval \<Rightarrow> bool" where
  "index_value value = (case value of Number n \<Rightarrow> isSafeInteger value \<and> 0 \<le> n | _ \<Rightarrow> False)"

definition safe_value :: "jsval \<Rightarrow> bool" where
  "safe_value value = (case value of Str s \<Rightarrow> isWellFormed s \<and> byteLength s \<le> 65536 \<and> 27 \<notin> set s | _ \<Rightarrow> False)"

definition null_or :: "(jsval \<Rightarrow> bool) \<Rightarrow> jsval \<Rightarrow> bool" where
  "null_or check value \<longleftrightarrow> value = Null \<or> check value"

definition closure_value :: "jsval \<Rightarrow> bool" where
  "closure_value value = one_of value [''complete'', ''abandoned'']"

definition chunk_value :: "jsval \<Rightarrow> bool" where
  "chunk_value value = (case record_content value of None \<Rightarrow> False | Some bytes \<Rightarrow> length bytes \<le> 65536)"

definition progress_base :: "(string \<times> (jsval \<Rightarrow> bool)) list" where
  "progress_base = [(''kind'', \<lambda>v. True), (''turn_id'', \<lambda>v. an_identity v), (''stream_domain_id'', domain_value),
     (''base_event_sequence'', \<lambda>v. u64_value v)]"

definition progressMembers :: "(string \<times> (string \<times> (jsval \<Rightarrow> bool)) list) list" where
  "progressMembers = [
     (''text_delta'', progress_base @ [(''model_sequence'', \<lambda>v. u64_value v), (''content_index'', index_value), (''text'', safe_value)]),
     (''reasoning_delta'', progress_base @ [(''model_sequence'', \<lambda>v. u64_value v), (''content_index'', index_value), (''text'', safe_value)]),
     (''tool_call_delta'', progress_base @ [(''model_sequence'', \<lambda>v. u64_value v), (''call_index'', index_value),
        (''tool_call_id'', null_or (\<lambda>v. an_identity v)), (''name'', null_or safe_value), (''arguments_fragment'', null_or safe_value)]),
     (''tool_progress'', progress_base @ [(''tool_call_id'', \<lambda>v. an_identity v), (''progress_sequence'', \<lambda>v. u64_value v),
        (''stream'', \<lambda>v. one_of v [''stdout'', ''stderr'', ''progress'']), (''byte_offset'', \<lambda>v. u64_value v), (''chunk_b64'', chunk_value)]),
     (''model_stream_closed'', progress_base @ [(''disposition'', closure_value), (''delta_count'', \<lambda>v. u64_value v)]),
     (''tool_stream_closed'', progress_base @ [(''tool_call_id'', \<lambda>v. an_identity v), (''disposition'', closure_value),
        (''progress_count'', \<lambda>v. u64_value v)])]"

definition progress_key :: "jsval \<Rightarrow> jsval" where
  "progress_key item = (if mem item ''kind'' = Null \<or> mem item ''kind'' = Undefined then js '''' else mem item ''kind'')"

definition validateProgress :: "jsval \<Rightarrow> record_error + jsval" where
  "validateProgress record = (let item = mem record ''progress'' in
     if to_text (progress_key item) = None then Inl Conversion_error
     else let valid = (record_closed record [''type'', ''session_id'', ''progress''] \<and> mem record ''type'' = js ''progress'' \<and>
         record_identity (mem record ''session_id'') 256 \<noteq> None \<and>
         (if mem item ''kind'' = js ''context.compaction_progress'' then decodeCompactionProgress item \<noteq> None
          else case own_entry progressMembers (progress_key item) of None \<Rightarrow> False | Some checks \<Rightarrow> members_valid checks item)) in
       if \<not> valid then Inl Invalid_progress else Inr record)"

section \<open>Lemmas\<close>

lemma record_closed_eq [copy_eqs]: "record_closed = closedOwn"
  by (auto simp: fun_eq_iff record_closed_def closedOwn_def list_all_iff)

lemma record_identity_eq [copy_eqs]: "record_identity v m = identity_within m v"
proof (cases v)
  case (Str s)
  then show ?thesis using identity_text_guard [of s m] by (auto simp: record_identity_def identity_within_def Let_def)
qed (simp_all add: record_identity_def identity_within_def)

lemma record_quantity_eq [copy_eqs]: "record_quantity = quantity_within 0 (Some u64)"
proof
  fix v
  show "record_quantity v = quantity_within 0 (Some u64) v"
  proof (cases v)
    case (Str s)
    then show ?thesis using u64_text_guard [of s] by (auto simp: record_quantity_def quantity_within_def Let_def)
  qed (simp_all add: record_quantity_def quantity_within_def)
qed

lemma record_text_eq [copy_eqs]: "record_text v lo = text_within lo 131072 v"
  by (cases v) (simp_all add: record_text_def text_within_def)

lemma record_content_iff: "record_content v = Some b \<longleftrightarrow> v = wire_id b \<and> length (b64url b) \<le> 131072"
proof (cases v)
  case (Str s)
  have "list_all is_b64 (b64url b)" using b64url_chars [of b] by (simp add: list_all_iff)
  with Str show ?thesis by (auto simp: record_content_def Let_def)
qed (simp_all add: record_content_def)

section \<open>Properties\<close>

definition event_kinds :: "string list" where
  "event_kinds = [''user.message_appended'', ''run.started'', ''assistant.message_appended'', ''tool.started'', ''steer.resolved'',
     ''follow_up.resolved'', ''session.settled'', ''tool.finished'', ''run.finished'', ''session.configured'', ''context.compacted'',
     ''context.maintenance_changed'', ''context.compaction_finished''] @ interactionKinds"

lemma own_entry_Some: "own_entry table v = Some x \<Longrightarrow> \<exists>k. to_text v = Some (lit k) \<and> (k, x) \<in> set table"
  unfolding own_entry_def using map_of_inj_Some [OF inj_lit, of table] by (auto split: option.splits dest: map_of_SomeD)

lemma event_valid_kind:
  assumes "event_valid kind data"
  shows "\<exists>k \<in> set event_kinds. to_text kind = Some (lit k)"
proof -
  from assms consider x where "own_entry ordinary kind = Some x" | "one_of kind interactionKinds"
    | f where "own_entry decoders kind = Some f"
    by (auto simp: event_valid_def split: option.splits if_splits)
  then show ?thesis
  proof cases
    case (1 x)
    from own_entry_Some [OF this] obtain k where k: "to_text kind = Some (lit k)" "k \<in> fst ` set ordinary" by force
    have "fst ` set ordinary \<subseteq> set event_kinds" by (simp add: ordinary_def event_kinds_def)
    with k show ?thesis by blast
  next
    case 2
    then obtain k where "kind = js k" "k \<in> set interactionKinds" using one_of_js by blast
    then show ?thesis by (intro bexI [of _ k]) (auto simp: event_kinds_def)
  next
    case (3 f)
    from own_entry_Some [OF this] obtain k where k: "to_text kind = Some (lit k)" "k \<in> fst ` set decoders" by force
    have "fst ` set decoders \<subseteq> set event_kinds" by (simp add: decoders_def event_kinds_def)
    with k show ?thesis by blast
  qed
qed

lemma validateEvent_iff:
  "validateEvent record = Inr e \<longleftrightarrow> e = mem record ''event'' \<and> event_envelope record \<and> event_valid (mem e ''kind'') (mem e ''data'')"
proof -
  have "event_valid k d \<Longrightarrow> to_text k \<noteq> None" for k d using event_valid_kind by fastforce
  then have "event_valid (mem (mem record ''event'') ''kind'') d \<Longrightarrow> to_text (mem (mem record ''event'') ''kind'') \<noteq> None" for d by blast
  then show ?thesis by (auto simp: validateEvent_def Let_def)
qed

text \<open>What the payload of an ordinary kind is, stated apart from the table that checks it\<close>

definition identities :: "jsval \<Rightarrow> string list \<Rightarrow> bool" where
  "identities data ks \<longleftrightarrow> list_all (\<lambda>k. \<exists>i. mem data k = wire_id i \<and> id_ok 65536 i) ks"

definition encoded_content :: "jsval \<Rightarrow> bool" where
  "encoded_content v \<longleftrightarrow> (\<exists>b. v = wire_id b \<and> length (b64url b) \<le> 131072)"

definition ordinary_payload :: "string \<Rightarrow> jsval \<Rightarrow> bool" where
  "ordinary_payload k data \<longleftrightarrow>
     k = ''user.message_appended'' \<and> closedOwn data [''command_id'', ''run_id'', ''content_b64''] \<and>
       identities data [''command_id'', ''run_id''] \<and> encoded_content (mem data ''content_b64'') \<or>
     k = ''run.started'' \<and> closedOwn data [''command_id'', ''run_id''] \<and> identities data [''command_id'', ''run_id''] \<or>
     k = ''assistant.message_appended'' \<and> closedOwn data [''run_id'', ''turn_id'', ''content_b64''] \<and>
       identities data [''run_id'', ''turn_id''] \<and> encoded_content (mem data ''content_b64'') \<or>
     k = ''tool.started'' \<and> closedOwn data [''run_id'', ''turn_id'', ''tool_call_id'', ''operation_id'', ''tool_id'', ''tool_version''] \<and>
       identities data [''run_id'', ''turn_id'', ''tool_call_id'', ''operation_id''] \<and>
       (\<exists>s. mem data ''tool_id'' = Str s \<and> length s \<le> 128 \<and> tool_id_pattern s) \<and>
       (\<exists>s. mem data ''tool_version'' = Str s \<and> byteLength s \<le> 131072 \<and> version_from 2 False s) \<or>
     k = ''steer.resolved'' \<and> closedOwn data [''command_id'', ''run_id'', ''disposition'', ''reason''] \<and>
       identities data [''command_id'', ''run_id''] \<and> one_of (mem data ''disposition'') [''applied'', ''unapplied'', ''cancelled''] \<and>
       (mem data ''reason'' = Null \<or> (\<exists>s. mem data ''reason'' = Str s \<and> isWellFormed s \<and> byteLength s \<le> 131072)) \<or>
     k = ''follow_up.resolved'' \<and> closedOwn data [''command_id'', ''run_id'', ''disposition'', ''reason''] \<and>
       identities data [''command_id'', ''run_id''] \<and> mem data ''disposition'' = js ''cancelled'' \<and> mem data ''reason'' = js ''aborted'' \<or>
     k = ''session.settled'' \<and> closedOwn data [''run_id''] \<and> identities data [''run_id'']"

lemma an_identity_iff: "an_identity v \<longleftrightarrow> (\<exists>i. v = wire_id i \<and> id_ok 65536 i)"
  unfolding copy_eqs using identity_within_iff by fastforce

lemma scalar_checks:
  "record_content v \<noteq> None \<longleftrightarrow> encoded_content v"
  "tool_id_value v \<longleftrightarrow> (\<exists>s. v = Str s \<and> length s \<le> 128 \<and> tool_id_pattern s)"
  "tool_version_value v \<longleftrightarrow> (\<exists>s. v = Str s \<and> byteLength s \<le> 131072 \<and> version_from 2 False s)"
  "record_text v 0 \<longleftrightarrow> (\<exists>s. v = Str s \<and> isWellFormed s \<and> byteLength s \<le> 131072)"
  using record_content_iff [of v]
  by (auto simp: encoded_content_def tool_id_value_def tool_version_value_def record_text_def split: jsval.split)

lemma ordinary_checked: "(\<exists>checks. (k, checks) \<in> set ordinary \<and> members_valid checks data) \<longleftrightarrow> ordinary_payload k data"
proof -
  have "(\<exists>checks. (k, checks) \<in> set ordinary \<and> members_valid checks data) \<longleftrightarrow> list_ex (\<lambda>(k', checks). k = k' \<and> members_valid checks data) ordinary"
    by (force simp: list_ex_iff)
  moreover have "(\<exists>y. record_identity v 65536 = Some y) \<longleftrightarrow> (\<exists>i. v = wire_id i \<and> id_ok 65536 i)"
    "(\<exists>y. record_content v = Some y) \<longleftrightarrow> encoded_content v" for v
    using an_identity_iff [of v] scalar_checks(1) [of v] by simp_all
  ultimately show ?thesis
    unfolding ordinary_def members_valid_def record_closed_eq ordinary_payload_def identities_def
    by (simp add: scalar_checks(2-4))
qed

lemma distinct_tables: "distinct (map fst ordinary)" "distinct (map fst decoders)"
  "list_all (\<lambda>k. k \<notin> fst ` set ordinary \<and> k \<notin> fst ` set decoders) interactionKinds" "fst ` set ordinary \<inter> fst ` set decoders = {}"
  by (simp_all add: ordinary_def decoders_def interactionKinds_def)

lemma own_entry_iff:
  assumes "distinct (map fst table)"
  shows "own_entry table v = Some x \<longleftrightarrow> (\<exists>k. to_text v = Some (lit k) \<and> (k, x) \<in> set table)"
proof
  assume "\<exists>k. to_text v = Some (lit k) \<and> (k, x) \<in> set table"
  then obtain k where "to_text v = Some (lit k)" "map_of table k = Some x" using assms by auto
  then show "own_entry table v = Some x" by (simp add: own_entry_def map_of_inj_key [OF inj_lit])
qed (rule own_entry_Some)

text \<open>The three readings of a payload: by the table of ordinary kinds, by the interaction codecs for a kind that is one of their names, and by
  the decoder registered under the kind's text\<close>

lemma event_valid_iff:
  "event_valid kind data \<longleftrightarrow>
     (\<exists>k. to_text kind = Some (lit k) \<and> ordinary_payload k data) \<or>
     (\<exists>k \<in> set interactionKinds. kind = js k \<and> decodeInteractionEvent (js k) data \<noteq> None) \<or>
     (\<exists>k decode. to_text kind = Some (lit k) \<and> (k, decode) \<in> set decoders \<and> decode data \<noteq> None)"
proof -
  have o: "(\<exists>x. own_entry ordinary kind = Some x \<and> P x) \<longleftrightarrow> (\<exists>k x. to_text kind = Some (lit k) \<and> (k, x) \<in> set ordinary \<and> P x)" for P
    using own_entry_iff [OF distinct_tables(1)] by blast
  have d: "(\<exists>x. own_entry decoders kind = Some x \<and> P x) \<longleftrightarrow> (\<exists>k x. to_text kind = Some (lit k) \<and> (k, x) \<in> set decoders \<and> P x)" for P
    using own_entry_iff [OF distinct_tables(2)] by blast
  have i: "one_of kind interactionKinds \<longleftrightarrow> (\<exists>k \<in> set interactionKinds. kind = js k)" by (auto simp: one_of_def)
  have apart: "own_entry decoders kind = None" "\<not> one_of kind interactionKinds" if "own_entry ordinary kind = Some x" for x
  proof -
    from own_entry_Some [OF that] obtain k where k: "to_text kind = Some (lit k)" "k \<in> fst ` set ordinary" by force
    show "own_entry decoders kind = None" using k distinct_tables(4) own_entry_Some [of decoders kind] by (cases "own_entry decoders kind") force+
    show "\<not> one_of kind interactionKinds" using k distinct_tables(3) by (auto simp: i list_all_iff)
  qed
  have late: "own_entry decoders kind = None" if "one_of kind interactionKinds"
    using that distinct_tables(3) own_entry_Some [of decoders kind] by (cases "own_entry decoders kind") (force simp: i list_all_iff)+
  have "event_valid kind data \<longleftrightarrow> (\<exists>x. own_entry ordinary kind = Some x \<and> members_valid x data) \<or>
      (\<exists>k \<in> set interactionKinds. kind = js k \<and> decodeInteractionEvent (js k) data \<noteq> None) \<or>
      (\<exists>x. own_entry decoders kind = Some x \<and> x data \<noteq> None)"
  proof (cases "own_entry ordinary kind")
    case (Some x)
    with apart [OF Some] show ?thesis by (auto simp: event_valid_def i)
  next
    case None
    with late show ?thesis by (cases "one_of kind interactionKinds") (auto simp: event_valid_def i split: option.split)
  qed
  also have "(\<exists>x. own_entry ordinary kind = Some x \<and> members_valid x data) \<longleftrightarrow> (\<exists>k. to_text kind = Some (lit k) \<and> ordinary_payload k data)"
    unfolding o ordinary_checked [symmetric] by blast
  finally show ?thesis unfolding d by blast
qed

lemma interaction_apart:
  assumes "k \<in> set interactionKinds"
  shows "\<not> ordinary_payload k data" "(k, decode) \<notin> set decoders"
  using assms by (auto simp: interactionKinds_def ordinary_payload_def decoders_def)

text \<open>C13. An event reaches a caller exactly when the record is a complete event of the contract: the record and its event are closed, its
  session and event identities are canonical and its sequence has at most 64 bits, and its payload is read by its kind: as one of the
  seven ordinary payloads, by the codec of one of the seven interaction kinds, or by the decoder of one of the six others.  The kind of an
  interaction is compared as a string; any other kind is compared by its text.  The caller is given the record's own event.\<close>

theorem event_of_known_kind:
  "validateEvent record = Inr e \<longleftrightarrow> e = mem record ''event'' \<and>
     closedOwn record [''type'', ''session_id'', ''event''] \<and> mem record ''type'' = js ''event'' \<and>
     (\<exists>s. mem record ''session_id'' = wire_id s \<and> id_ok 256 s) \<and>
     closedOwn e [''kind'', ''event_id'', ''event_sequence'', ''data''] \<and>
     (\<exists>i. mem e ''event_id'' = wire_id i \<and> id_ok 65536 i) \<and> (\<exists>n. mem e ''event_sequence'' = wire_nat n \<and> n \<le> u64) \<and>
     ((\<exists>k. to_text (mem e ''kind'') = Some (lit k) \<and> ordinary_payload k (mem e ''data'')) \<or>
      (\<exists>k \<in> set interactionKinds. mem e ''kind'' = js k \<and> decodeInteractionEvent (js k) (mem e ''data'') \<noteq> None) \<or>
      (\<exists>k decode. to_text (mem e ''kind'') = Some (lit k) \<and> (k, decode) \<in> set decoders \<and> decode (mem e ''data'') \<noteq> None))"
proof -
  have id: "record_identity v m \<noteq> None \<longleftrightarrow> (\<exists>i. v = wire_id i \<and> id_ok m i)" for v m unfolding copy_eqs using identity_within_iff by fastforce
  have q: "record_quantity v \<noteq> None \<longleftrightarrow> (\<exists>n. v = wire_nat n \<and> n \<le> u64)" for v
    unfolding copy_eqs using quantity_within_iff [of 0 "Some u64" v] by (auto simp: nat_ok_def)
  show ?thesis unfolding validateEvent_iff event_envelope_def Let_def id q record_closed_eq event_valid_iff by blast
qed

definition sample_settled :: "jsval \<Rightarrow> jsval" where
  "sample_settled kind = obj [(''type'', js ''event''), (''session_id'', js ''AQ''), (''event'', obj [(''kind'', kind), (''event_id'', js ''AQ''),
     (''event_sequence'', js ''5''), (''data'', obj [(''run_id'', js ''AQ'')])])]"

lemma sample_settled_valid:
  assumes "to_text kind = Some (lit ''session.settled'')"
  shows "validateEvent (sample_settled kind) = Inr (mem (sample_settled kind) ''event'')"
proof -
  have o: "own_entry ordinary kind = Some [(''run_id'', \<lambda>v. an_identity v)]"
    unfolding own_entry_def assms by (simp add: ordinary_def)
  have i: "identity_within 65536 (js ''AQ'') = Some [1]" "identity_within 256 (js ''AQ'') = Some [1]"
    "quantity_within 0 (Some u64) (js ''5'') = Some 5"
    unfolding identity_within_iff quantity_within_iff by (simp_all add: sample_texts id_ok_def nat_ok_def)
  have "event_envelope (sample_settled kind)"
    using i by (simp add: event_envelope_def sample_settled_def copy_eqs member_simps)
  moreover have "event_valid kind (obj [(''run_id'', js ''AQ'')])"
    using i by (simp add: event_valid_def o members_valid_def copy_eqs member_simps)
  ultimately show ?thesis by (simp add: validateEvent_iff) (simp add: sample_settled_def member_simps)
qed

theorem event_of_known_kind_witness:
  "validateEvent (sample_settled (js ''session.settled'')) = Inr (mem (sample_settled (js ''session.settled'')) ''event'') \<and>
   ordinary_payload ''session.settled'' (mem (mem (sample_settled (js ''session.settled'')) ''event'') ''data'')"
proof -
  have v: "validateEvent (sample_settled (js ''session.settled'')) = Inr (mem (sample_settled (js ''session.settled'')) ''event'')"
    by (rule sample_settled_valid) simp
  have k: "mem (mem (sample_settled (js ''session.settled'')) ''event'') ''kind'' = js ''session.settled''"
    by (simp add: sample_settled_def member_simps)
  have "''session.settled'' \<notin> set interactionKinds" "''session.settled'' \<notin> fst ` set decoders"
    by (simp_all add: interactionKinds_def decoders_def)
  with v event_of_known_kind [of "sample_settled (js ''session.settled'')"] show ?thesis by (force simp: k)
qed

definition event_with :: "jsval \<Rightarrow> jsval \<Rightarrow> jsval \<Rightarrow> jsval \<Rightarrow> jsval \<Rightarrow> jsval" where
  "event_with kind session event_id sequence data = obj [(''type'', js ''event''), (''session_id'', session),
     (''event'', obj [(''kind'', kind), (''event_id'', event_id), (''event_sequence'', sequence), (''data'', data)])]"

text \<open>C30. A kind that is not a string: the one-element array around a kind is accepted exactly where the kind itself is, with the same
  payload, for the thirteen kinds that are looked up by their text, and refused for the seven interaction kinds, which are compared
  as strings.  Such records are plain JSON.\<close>

theorem array_kind_accepted:
  "((\<exists>e. validateEvent (event_with (arr [js k]) session event_id sequence data) = Inr e) \<longleftrightarrow>
      k \<notin> set interactionKinds \<and> (\<exists>e. validateEvent (event_with (js k) session event_id sequence data) = Inr e)) \<and>
   json (sample_settled (arr [js ''session.settled''])) \<and>
   validateEvent (sample_settled (arr [js ''session.settled''])) = Inr (mem (sample_settled (arr [js ''session.settled''])) ''event'')"
proof (intro conjI)
  have t: "to_text (arr [js k]) = Some (lit k)" by (simp add: arr_def)
  have n: "arr [js k] \<noteq> js k'" for k' by (simp add: arr_def)
  have "event_valid (arr [js k]) data \<longleftrightarrow> k \<notin> set interactionKinds \<and> event_valid (js k) data"
    using interaction_apart(1) [of k data] interaction_apart(2) [of k] unfolding event_valid_iff t by (auto simp: n)
  moreover have "event_envelope (event_with kind session event_id sequence data) \<longleftrightarrow> event_envelope (event_with kind' session event_id sequence data)" for kind kind'
    by (simp add: event_envelope_def event_with_def copy_eqs member_simps)
  moreover have "mem (mem (event_with kind session event_id sequence data) ''event'') ''kind'' = kind"
    "mem (mem (event_with kind session event_id sequence data) ''event'') ''data'' = data" for kind
    by (simp_all add: event_with_def member_simps)
  ultimately show "(\<exists>e. validateEvent (event_with (arr [js k]) session event_id sequence data) = Inr e) \<longleftrightarrow>
      k \<notin> set interactionKinds \<and> (\<exists>e. validateEvent (event_with (js k) session event_id sequence data) = Inr e)"
    unfolding validateEvent_iff by auto
  show "json (sample_settled (arr [js ''session.settled'']))" by (simp add: sample_settled_def obj_def arr_def)
  show "validateEvent (sample_settled (arr [js ''session.settled''])) = Inr (mem (sample_settled (arr [js ''session.settled''])) ''event'')"
    by (rule sample_settled_valid) (simp add: arr_def)
qed

text \<open>C28. An accepted snapshot record is anchored: its cursor is the event sequence of the snapshot inside it, text for text,
  and it names the same session.\<close>

theorem snapshot_anchored:
  assumes "validateSnapshot record = Inr r"
  shows "r = record \<and> (\<exists>n. n \<le> u64 \<and> mem record ''event_cursor'' = wire_nat n \<and>
      mem (mem record ''snapshot'') ''event_sequence'' = wire_nat n) \<and>
    mem record ''session_id'' = mem (mem record ''snapshot'') ''session_id'' \<and>
    deep_equal (mem record ''open_interaction'') (mem (mem record ''snapshot'') ''open_interaction'')"
proof -
  from assms obtain d where d: "decodeSnapshot (mem record ''snapshot'') = Some d"
    by (cases "decodeSnapshot (mem record ''snapshot'')") (simp_all add: validateSnapshot_def Let_def split: if_splits)
  have c: "closedOwn record snapshot_record_keys"
    using assms by (cases "closedOwn record snapshot_record_keys") (simp_all add: validateSnapshot_def record_closed_eq Let_def)
  obtain n where n: "record_quantity (mem record ''event_cursor'') = Some n"
    using assms c d by (cases "record_quantity (mem record ''event_cursor'')") (simp_all add: validateSnapshot_def record_closed_eq Let_def)
  have q: "quantity_within 0 (Some u64) (mem record ''event_cursor'') = Some n" using n unfolding copy_eqs .
  have rest: "r = record" "mem record ''session_id'' = mem (mem record ''snapshot'') ''session_id''" "mem d ''event_sequence'' = big n"
      "deep_equal (mem record ''open_interaction'') (mem (mem record ''snapshot'') ''open_interaction'')"
    using assms c d n by (auto simp: validateSnapshot_def record_closed_eq Let_def split: if_splits)
  from decodeSnapshot_sequence [OF d] obtain m where m: "mem (mem record ''snapshot'') ''event_sequence'' = wire_nat m"
    "mem d ''event_sequence'' = big m" by blast
  with rest(3) have "m = n" by simp
  moreover have "n \<le> u64" "mem record ''event_cursor'' = wire_nat n" using q unfolding quantity_within_iff nat_ok_def by auto
  ultimately show ?thesis using m rest by blast
qed

definition sample_snapshot_record :: jsval where
  "sample_snapshot_record = obj [(''type'', js ''snapshot''), (''request_id'', js ''c1''), (''session_id'', js ''AQ''), (''event_cursor'', js ''0''),
     (''snapshot'', sample_snapshot), (''open_interaction'', Null)]"

lemma sample_snapshot_members:
  "mem sample_snapshot ''session_id'' = js ''AQ''" "mem sample_snapshot ''open_interaction'' = Null"
  by (simp_all add: sample_snapshot_def member_simps)

lemma sample_snapshot_record_valid: "validateSnapshot sample_snapshot_record = Inr sample_snapshot_record"
proof -
  have d: "decodeSnapshot sample_snapshot = Some (snapshot_native sample_view sample_snapshot)"
    by (rule decodeSnapshot_complete [OF sample_snapshot_json sample_view_spelled])
  have s: "mem (snapshot_native sample_view sample_snapshot) ''event_sequence'' = BigInt 0"
    unfolding snapshot_native_def by (rule mem_spread_over) (simp add: sample_view_def)
  have q: "record_quantity (js ''0'') = Some 0" unfolding copy_eqs quantity_within_iff by (simp add: sample_texts nat_ok_def)
  show ?thesis
    using d s q
    by (simp add: validateSnapshot_def sample_snapshot_record_def record_closed_eq snapshot_record_keys_def member_simps sample_snapshot_members)
qed

theorem snapshot_anchored_witness:
  "validateSnapshot sample_snapshot_record = Inr sample_snapshot_record \<and>
   mem sample_snapshot_record ''session_id'' = mem (mem sample_snapshot_record ''snapshot'') ''session_id''"
  using snapshot_anchored [OF sample_snapshot_record_valid] sample_snapshot_record_valid by blast

text \<open>The members that carry model or tool text are checked wherever a family has them.\<close>

lemma closedOwn_absent: "closedOwn v ks \<Longrightarrow> k \<notin> set ks \<Longrightarrow> mem v k = Undefined"
  by (rule unowned_Undefined) (auto simp: closedOwn_def hasOwnU_def ownKeys_def list_all_iff)

lemma progress_text_checked:
  assumes "(fam, checks) \<in> set progressMembers" "k \<in> {''text'', ''name'', ''arguments_fragment''}" "k \<in> fst ` set checks"
  shows "(k, safe_value) \<in> set checks \<or> (k, null_or safe_value) \<in> set checks"
  using assms(1)
proof -
  have "list_all (\<lambda>(fam, checks). \<forall>k \<in> {''text'', ''name'', ''arguments_fragment''}. k \<in> fst ` set checks \<longrightarrow>
      (k, safe_value) \<in> set checks \<or> (k, null_or safe_value) \<in> set checks) progressMembers"
    by (simp add: progressMembers_def progress_base_def)
  from this [unfolded list_all_iff, rule_format, OF assms(1)] assms(2,3) show ?thesis by blast
qed

lemma validateProgress_item:
  assumes "validateProgress record = Inr r"
  shows "r = record \<and> (decodeCompactionProgress (mem record ''progress'') \<noteq> None \<or>
    (\<exists>fam checks. (fam, checks) \<in> set progressMembers \<and> members_valid checks (mem record ''progress'')))"
proof -
  have "r = record" using assms by (auto simp: validateProgress_def Let_def split: if_splits)
  moreover have "decodeCompactionProgress (mem record ''progress'') \<noteq> None \<or>
      (\<exists>checks. own_entry progressMembers (progress_key (mem record ''progress'')) = Some checks \<and> members_valid checks (mem record ''progress''))"
    using assms by (auto simp: validateProgress_def Let_def split: if_splits option.splits)
  ultimately show ?thesis using own_entry_Some by fast
qed

text \<open>C29. No accepted progress record carries a terminal escape: every text, name or argument fragment in it is well formed,
  at most 65536 bytes of UTF-8 and free of the escape character.\<close>

theorem progress_text_safe:
  assumes "validateProgress record = Inr r" "k \<in> {''text'', ''name'', ''arguments_fragment''}" "mem (mem r ''progress'') k = Str s"
  shows "isWellFormed s \<and> byteLength s \<le> 65536 \<and> 27 \<notin> set s"
proof -
  let ?item = "mem record ''progress''"
  have r: "r = record" and or: "decodeCompactionProgress ?item \<noteq> None \<or> (\<exists>fam checks. (fam, checks) \<in> set progressMembers \<and> members_valid checks ?item)"
    using validateProgress_item [OF assms(1)] by blast+
  from or show ?thesis
  proof (elim disjE exE conjE)
    assume "decodeCompactionProgress ?item \<noteq> None"
    then have "closedOwn ?item progress_keys" by (auto simp: decodeCompactionProgress_def copy_eqs split: if_splits)
    moreover have "k \<notin> set progress_keys" using assms(2) by (auto simp: progress_keys_def)
    ultimately show ?thesis using closedOwn_absent assms(3) r by simp
  next
    fix fam checks
    assume f: "(fam, checks) \<in> set progressMembers" and m: "members_valid checks ?item"
    then have c: "closedOwn ?item (map fst checks)" and all: "\<forall>(key, check) \<in> set checks. check (mem ?item key)"
      by (auto simp: members_valid_def copy_eqs list_all_iff)
    have "k \<in> fst ` set checks" using closedOwn_absent [OF c, of k] assms(3) r by auto
    from progress_text_checked [OF f assms(2) this] all have "safe_value (mem ?item k) \<or> null_or safe_value (mem ?item k)" by blast
    with assms(3) r show ?thesis by (simp add: null_or_def safe_value_def)
  qed
qed

definition sample_progress :: jsval where
  "sample_progress = obj [(''type'', js ''progress''), (''session_id'', js ''AQ''), (''progress'', obj [(''kind'', js ''text_delta''),
     (''turn_id'', js ''AQ''), (''stream_domain_id'', wire_id (replicate 32 97)), (''base_event_sequence'', js ''0''),
     (''model_sequence'', js ''5''), (''content_index'', Number 0), (''text'', js ''hi'')])]"

lemma sample_progress_valid: "validateProgress sample_progress = Inr sample_progress"
proof -
  let ?item = "mem sample_progress ''progress''"
  have i: "record_identity (js ''AQ'') 256 \<noteq> None" "an_identity (js ''AQ'')" "u64_value (js ''0'')" "u64_value (js ''5'')"
    unfolding copy_eqs sample_texts
    using identity_scalar.read_write [of 256 "[1]"] identity_scalar.read_write [of 65536 "[1]"]
      quantity_scalar.read_write [of 0 "Some u64" 0] quantity_scalar.read_write [of 0 "Some u64" 5]
    by (simp_all add: id_ok_def nat_ok_def del: b64url.simps)
  have "record_identity (wire_id (replicate 32 97)) 32 = Some (replicate 32 97)" unfolding copy_eqs identity_within_iff by (simp add: id_ok_def)
  then have dm: "domain_value (wire_id (replicate 32 97))" by (simp add: domain_value_def list_all_iff)
  have sv: "safe_value (js ''hi'')" by (simp add: safe_value_def byteLength_lit) (simp add: lit_def unit_of_char_def)
  have o: "own_entry progressMembers (js ''text_delta'') =
    Some (progress_base @ [(''model_sequence'', \<lambda>v. u64_value v), (''content_index'', index_value), (''text'', safe_value)])"
    by (simp add: own_entry_def progressMembers_def)
  show ?thesis
    using i dm sv o by (simp add: validateProgress_def sample_progress_def progress_key_def members_valid_def record_closed_eq
        progress_base_def member_simps index_value_def)
qed

theorem progress_text_safe_witness:
  "validateProgress sample_progress = Inr sample_progress \<and> 27 \<notin> set (lit ''hi'')"
proof -
  have "mem (mem sample_progress ''progress'') ''text'' = js ''hi''" by (simp add: sample_progress_def member_simps)
  from progress_text_safe [OF sample_progress_valid _ this] sample_progress_valid show ?thesis by simp
qed

text \<open>A finished run that refers to a reconciliation is one whose outcome is unknown; every other outcome is refused with one.\<close>

theorem reconciliation_only_unknown:
  "decodeRunFinished data = None \<or> mem data ''reconciliation_ref'' = Null \<or>
     (mem data ''outcome'' = js ''outcome_unknown'' \<and> (\<exists>b. mem data ''reconciliation_ref'' = wire_id b \<and> id_ok 65536 b))"
proof (cases "mem data ''reconciliation_ref'' = Null")
  case False
  show ?thesis
  proof (cases "mem data ''outcome'' = js ''outcome_unknown'' \<and> an_identity (mem data ''reconciliation_ref'')")
    case True
    then show ?thesis unfolding copy_eqs using identity_within_iff by fastforce
  next
    case no: False
    have "decodeRunFinished data = None"
      using False no by (auto simp: decodeRunFinished_def reference_or_null_def)
    then show ?thesis by blast
  qed
qed simp

end
