(* ===== verification/JSON_Data.thy ===== *)
theory JSON_Data
  imports JS_Values
begin

text \<open>
  The values of JSON text by their own constructors: \<open>arr xs\<close> for arrays and \<open>record_of ms\<close>
  for objects, with the induction and case rules that follow them.
\<close>

definition record_of :: "(ustring \<times> jsval) list \<Rightarrow> jsval" where
  "record_of ms = Obj ObjectProto (map (\<lambda>(k, x). (SKey k, Data True x)) ms)"

lemma json_arr [simp]: "json (arr xs) \<longleftrightarrow> list_all json xs"
  by (simp add: arr_def list_all_iff)

lemma record_keys: "map fst (map (\<lambda>(k, x). (SKey k, Data True x)) ms) = map SKey (map fst ms)"
  by (induction ms) auto

lemma json_record_of [simp]: "json (record_of ms) \<longleftrightarrow> distinct (map fst ms) \<and> list_all (\<lambda>(k, x). json x) ms"
proof -
  have "distinct (map SKey ks) = distinct ks" for ks by (simp add: distinct_map inj_on_def)
  then have "distinct (map fst (map (\<lambda>(k, x). (SKey k, Data True x)) ms)) = distinct (map fst ms)"
    unfolding record_keys by blast
  then show ?thesis by (simp add: record_of_def list_all_iff split_beta del: map_map)
qed

lemma json_Arr_cases:
  assumes "json (Arr p sl ex)"
  obtains xs where "Arr p sl ex = arr xs" "list_all json xs"
proof -
  have "list_all (\<lambda>s. case s of Some (Data True x) \<Rightarrow> json x | _ \<Rightarrow> False) sl" using assms by simp
  then have "\<exists>xs. sl = map (\<lambda>x. Some (Data True x)) xs \<and> list_all json xs"
  proof (induction sl)
    case (Cons s sl)
    then obtain xs where "sl = map (\<lambda>x. Some (Data True x)) xs" "list_all json xs" by auto
    moreover obtain x where "s = Some (Data True x)" "json x"
      using Cons.prems by (auto split: option.splits jsprop.splits bool.splits)
    ultimately show ?case by (intro exI [of _ "x # xs"]) simp
  qed simp
  with assms show ?thesis by (auto simp: arr_def intro!: that)
qed

lemma json_Obj_cases:
  assumes "json (Obj p ps)"
  obtains ms where "Obj p ps = record_of ms" "distinct (map fst ms)" "list_all (\<lambda>(k, x). json x) ms"
proof -
  have "list_all (\<lambda>kp. case kp of (SKey s, Data True x) \<Rightarrow> json x | _ \<Rightarrow> False) ps" using assms by simp
  then have "\<exists>ms. ps = map (\<lambda>(k, x). (SKey k, Data True x)) ms"
  proof (induction ps)
    case (Cons q ps)
    then obtain ms where "ps = map (\<lambda>(k, x). (SKey k, Data True x)) ms" by auto
    moreover obtain k x where "q = (SKey k, Data True x)"
      using Cons.prems by (auto split: prod.splits pkey.splits jsprop.splits bool.splits)
    ultimately show ?case by (intro exI [of _ "(k, x) # ms"]) simp
  qed simp
  then obtain ms where "ps = map (\<lambda>(k, x). (SKey k, Data True x)) ms" ..
  moreover have "p = ObjectProto" using assms by simp
  ultimately have e: "Obj p ps = record_of ms" by (simp add: record_of_def)
  with assms have "json (record_of ms)" by simp
  with e show ?thesis by (intro that [of ms]) simp_all
qed

lemma size_arr: "x \<in> set xs \<Longrightarrow> size x < size (arr xs)"
  by (induction xs) (auto simp: arr_def)

lemma size_record_of: "(k, x) \<in> set ms \<Longrightarrow> size x < size (record_of ms)"
  by (induction ms) (auto simp: record_of_def)

lemma json_induct [consumes 1, case_names Null Boolean Number NonInt Str arr object]:
  assumes "json v" "P Null" "\<And>b. P (Boolean b)" "\<And>n. P (Number n)" "\<And>s. P (NonInt s)" "\<And>s. P (Str s)"
    and A: "\<And>xs. list_all json xs \<Longrightarrow> (\<And>x. x \<in> set xs \<Longrightarrow> P x) \<Longrightarrow> P (arr xs)"
    and R: "\<And>ms. distinct (map fst ms) \<Longrightarrow> list_all (\<lambda>(k, x). json x) ms \<Longrightarrow>
      (\<And>k x. (k, x) \<in> set ms \<Longrightarrow> P x) \<Longrightarrow> P (record_of ms)"
  shows "P v"
  using assms(1)
proof (induction v rule: measure_induct_rule [of size])
  case (less v)
  show ?case
  proof (cases v)
    case (Arr p sl ex)
    with less.prems obtain xs where v: "v = arr xs" "list_all json xs" by (metis json_Arr_cases)
    then have "P x" if "x \<in> set xs" for x using less.IH size_arr that by (auto simp: list_all_iff)
    with A v show ?thesis by simp
  next
    case (Obj p ps)
    with less.prems obtain ms where v: "v = record_of ms" "distinct (map fst ms)" "list_all (\<lambda>(k, x). json x) ms"
      by (metis json_Obj_cases)
    then have "P x" if "(k, x) \<in> set ms" for k x using less.IH size_record_of that by (auto simp: list_all_iff)
    with R v show ?thesis by blast
  qed (use assms less.prems in simp_all)
qed

lemma json_cases [consumes 1, case_names Null Boolean Number NonInt Str arr object]:
  assumes "json v"
  obtains "v = Null" | b where "v = Boolean b" | n where "v = Number n" | s where "v = NonInt s" | s where "v = Str s"
    | xs where "v = arr xs" "list_all json xs"
    | ms where "v = record_of ms" "distinct (map fst ms)" "list_all (\<lambda>(k, x). json x) ms"
  using assms by (induction rule: json_induct) blast+

lemma record_of_inject [simp]: "record_of ms = record_of ns \<longleftrightarrow> ms = ns"
proof -
  have "inj (\<lambda>(k, x :: jsval). (SKey k, Data True x))" by (auto simp: inj_def)
  then show ?thesis by (simp add: record_of_def inj_map_eq_map)
qed

lemma arr_inject [simp]: "arr xs = arr ys \<longleftrightarrow> xs = ys"
proof -
  have "inj (\<lambda>x :: jsval. Some (Data True x))" by (auto simp: inj_def)
  then show ?thesis by (simp add: arr_def inj_map_eq_map)
qed

lemma json_shapes [simp]:
  "record_of ms \<noteq> Null" "record_of ms \<noteq> Undefined" "record_of ms \<noteq> Str s" "record_of ms \<noteq> arr xs" "arr xs \<noteq> record_of ms"
  "arr xs \<noteq> Null" "arr xs \<noteq> Undefined" "arr xs \<noteq> Str s" "isObject (record_of ms)" "isObject (arr xs)"
  "isArray (arr xs)" "\<not> isArray (record_of ms)" "plainProto (record_of ms)" "elements (arr xs) = xs"
  by (auto simp: record_of_def arr_def comp_def)

section \<open>Reading them\<close>

lemma own_props_record: "own_props (record_of ms) = map (\<lambda>(k, x). (SKey k, Data True x)) ms"
  by (simp add: record_of_def)

lemma map_of_record: "map_of (map (\<lambda>(k, x). (SKey k, Data True x)) ms) (SKey k) = map_option (Data True) (map_of ms k)"
  by (induction ms) auto

lemma record_reads [simp]:
  "memU (record_of ms) k = (case map_of ms k of None \<Rightarrow> Undefined | Some x \<Rightarrow> x)"
  "hasOwnU (record_of ms) k \<longleftrightarrow> k \<in> fst ` set ms"
  "objectKeys (record_of ms) = map fst ms"
  "length (ownKeys (record_of ms)) = length ms"
  by (simp_all add: memU_def own_props_record map_of_record hasOwnU_def ownKeys_def objectKeys_def split: option.split)
    (force, induction ms, auto simp: map_filter_simps)

end
