(* ===== verification/Schema_Bytes.thy ===== *)
theory Schema_Bytes
  imports JSON_Data "HOL-Library.List_Lexorder" "HOL-Library.Finite_Map" "HOL-Library.Multiset"
begin

text \<open>
  Canonical schema bytes (\<open>contract-manifest.mjs\<close>, the encoder): integer-only JSON data as the
  external term format under \<open>loopex.canonical.v1\<close>, where a map is a list of key and value
  pairs sorted by the bytes of the key.  Every \<open>throw\<close>, the two the language makes included, is a
  value of \<open>encode_error\<close>.
\<close>

datatype encode_error = Accessor_refused | Invalid_string | Integer_required | Dense_required
  | Binary_keys_required | Plain_required | Type_error | Range_error

section \<open>The parts of a term\<close>

text \<open>\<open>Buffer.from(name)\<close> for the names of the sources, which are ASCII\<close>

definition latin :: "string \<Rightarrow> bytes" where
  "latin s = map (\<lambda>c. of_nat (of_char c)) s"

definition atom :: "string \<Rightarrow> bytes" where
  "atom s = [119, of_nat (length s)] @ latin s"

definition tuple :: "bytes list \<Rightarrow> bytes" where
  "tuple members = [104, of_nat (length members)] @ concat members"

definition be16 :: "nat \<Rightarrow> bytes" where
  "be16 n = [of_nat (n div 256), of_nat (n mod 256)]"

definition be32 :: "nat \<Rightarrow> bytes" where
  "be32 n = [of_nat (n div 16777216), of_nat (n div 65536 mod 256), of_nat (n div 256 mod 256), of_nat (n mod 256)]"

text \<open>\<open>writeUInt32BE\<close> throws outside its range\<close>

definition uint32 :: "nat \<Rightarrow> encode_error + bytes" where
  "uint32 n = (if n < 4294967296 then Inr (be32 n) else Inl Range_error)"

definition binary :: "ustring \<Rightarrow> encode_error + bytes" where
  "binary s = (if \<not> isWellFormed s then Inl Invalid_string
     else case uint32 (byteLength s) of Inl e \<Rightarrow> Inl e | Inr width \<Rightarrow> Inr ([109] @ width @ utf8 s))"

definition term_list :: "bytes list \<Rightarrow> encode_error + bytes" where
  "term_list members = (if members = [] then Inr [106]
     else case uint32 (length members) of Inl e \<Rightarrow> Inl e
       | Inr width \<Rightarrow> Inr ([108] @ width @ concat members @ [106]))"

text \<open>The loop that takes the magnitude apart, lowest byte first\<close>

fun le_bytes :: "nat \<Rightarrow> bytes" where
  "le_bytes n = (if n = 0 then [] else of_nat (n mod 256) # le_bytes (n div 256))"

declare le_bytes.simps [simp del]

definition encode_int :: "int \<Rightarrow> encode_error + bytes" where
  "encode_int n =
     (if \<not> isSafeInteger (Number n) then Inl Integer_required
      else if 0 \<le> n \<and> n \<le> 255 then Inr [97, of_int n]
      else if -2147483648 \<le> n \<and> n \<le> 2147483647 then Inr (98 # be32 (nat (n mod 4294967296)))
      else let digits = le_bytes (nat \<bar>n\<bar>) in
        Inr ([110, of_nat (length digits), if n < 0 then 1 else 0] @ digits))"

section \<open>The encoder\<close>

text \<open>The first error of a sequence of encodings, or all their values\<close>

fun collect :: "('e + 'a) list \<Rightarrow> 'e + 'a list" where
  "collect [] = Inr []"
| "collect (Inl e # r) = Inl e"
| "collect (Inr x # r) = (case collect r of Inl e \<Rightarrow> Inl e | Inr xs \<Rightarrow> Inr (x # xs))"

fun octet :: "jsval \<Rightarrow> bool" where
  "octet (Number n) = (0 \<le> n \<and> n \<le> 255)"
| "octet _ = False"

fun octet_byte :: "jsval \<Rightarrow> byte" where
  "octet_byte (Number n) = of_int n"
| "octet_byte _ = 0"

definition no_accessor :: "jsval \<Rightarrow> bool" where
  "no_accessor v = list_all (\<lambda>(k, p). is_data p) (own_props v)"

definition entry_list :: "(bytes \<times> bytes) list \<Rightarrow> encode_error + bytes" where
  "entry_list entries = (case term_list (map (\<lambda>(k, x). tuple [k, x]) (sort_key fst entries)) of
     Inl e \<Rightarrow> Inl e | Inr bytes \<Rightarrow> Inr (tuple [atom ''loopex_map'', bytes]))"

definition pair_entry :: "ustring \<Rightarrow> (encode_error + bytes) \<Rightarrow> encode_error + (bytes \<times> bytes)" where
  "pair_entry k value = (case binary k of Inl e \<Rightarrow> Inl e
     | Inr key \<Rightarrow> (case value of Inl e \<Rightarrow> Inl e | Inr bytes \<Rightarrow> Inr (key, bytes)))"

fun encode :: "jsval \<Rightarrow> encode_error + bytes" where
  "encode Null = Inr (atom ''nil'')"
| "encode (Boolean b) = Inr (atom (if b then ''true'' else ''false''))"
| "encode (Str s) = binary s"
| "encode (Number n) = encode_int n"
| "encode (NonInt s) = Inl Integer_required"
| "encode (Arr p sl ex) =
     (if length (ownKeys (Arr p sl ex)) \<noteq> length sl + 1 \<or> length (objectKeys (Arr p sl ex)) \<noteq> length sl then Inl Dense_required
      else if \<not> no_accessor (Arr p sl ex) then Inl Accessor_refused
      else if None \<in> set sl then Inl Type_error
      else let members = map slot_value sl in
        if members \<noteq> [] \<and> length members \<le> 65535 \<and> list_all octet members
        then Inr (107 # be16 (length members) @ map octet_byte members)
        else case collect (map (\<lambda>s. case s of None \<Rightarrow> Inl Type_error
            | Some (Data e x) \<Rightarrow> encode x | Some (Accessor e x) \<Rightarrow> Inl Accessor_refused) sl) of
          Inl e \<Rightarrow> Inl e | Inr bs \<Rightarrow> term_list bs)"
| "encode (Obj p ps) =
     (if p \<noteq> ObjectProto then Inl Plain_required
      else if \<not> list_all (\<lambda>(k, q). string_key k) ps \<or> length (ownKeys (Obj p ps)) \<noteq> length (objectKeys (Obj p ps)) then Inl Binary_keys_required
      else if \<not> no_accessor (Obj p ps) then Inl Accessor_refused
      else case collect (map (\<lambda>kq. case kq of (SKey k, Data e x) \<Rightarrow> pair_entry k (encode x)
          | (SKey k, Accessor e x) \<Rightarrow> Inl Accessor_refused | (Sym n, q) \<Rightarrow> Inl Binary_keys_required) ps) of
        Inl e \<Rightarrow> Inl e | Inr entries \<Rightarrow> entry_list entries)"
| "encode v = Inl Plain_required"

definition canonicalSchemaBytes :: "jsval \<Rightarrow> encode_error + bytes" where
  "canonicalSchemaBytes v = (case encode v of Inl e \<Rightarrow> Inl e | Inr bytes \<Rightarrow> Inr (131 # bytes))"

text \<open>The digest is the library's SHA-256 in hexadecimal, a parameter of the model.\<close>

definition canonicalSchemaDigest :: "(bytes \<Rightarrow> ustring) \<Rightarrow> jsval \<Rightarrow> encode_error + ustring" where
  "canonicalSchemaDigest sha256 v = (case canonicalSchemaBytes v of Inl e \<Rightarrow> Inl e | Inr bytes \<Rightarrow> Inr (sha256 bytes))"


section \<open>What the bytes identify\<close>

text \<open>The data a schema value carries: members are a finite map, so their order is not part of it.\<close>

datatype schema = Nothing | Truth bool | Whole int | Text ustring | Sequence "schema list"
  | Members "(ustring, schema) fmap"

fun schema_of :: "jsval \<Rightarrow> schema" where
  "schema_of (Boolean b) = Truth b"
| "schema_of (Number n) = Whole n"
| "schema_of (Str s) = Text s"
| "schema_of (Arr p sl ex) = Sequence (map (\<lambda>s. case s of None \<Rightarrow> Nothing
     | Some (Data e x) \<Rightarrow> schema_of x | Some (Accessor e x) \<Rightarrow> schema_of x) sl)"
| "schema_of (Obj p ps) = Members (fmap_of_list (map (\<lambda>kq. case kq of
       (SKey k, Data e x) \<Rightarrow> (k, schema_of x) | (SKey k, Accessor e x) \<Rightarrow> (k, schema_of x) | (Sym n, q) \<Rightarrow> ([], Nothing)) ps))"
| "schema_of v = Nothing"

lemma schema_of_arr [simp]: "schema_of (arr xs) = Sequence (map schema_of xs)"
  by (simp add: arr_def comp_def)

lemma schema_of_record [simp]:
  "schema_of (record_of ms) = Members (fmap_of_list (map (\<lambda>(k, x). (k, schema_of x)) ms))"
  by (simp add: record_of_def comp_def case_prod_unfold)

lemma schema_index_full: "length (index_props n (map (\<lambda>x. Some (f x)) xs)) = length xs"
  by (induction xs arbitrary: n) simp_all

lemma schema_index_data: "(k, p) \<in> set (index_props n (map (\<lambda>x. Some (Data True x)) xs)) \<Longrightarrow> is_data p"
  by (induction xs arbitrary: n) auto

lemma index_keys: "length (List.map_filter (\<lambda>(k, p). case k of SKey s \<Rightarrow> if enumerable p then Some s else None | Sym n \<Rightarrow> None)
    (index_props n (map (\<lambda>x. Some (Data True x)) xs))) = length xs"
  by (induction xs arbitrary: n) (simp_all add: map_filter_simps)

lemma map_filter_append: "List.map_filter f (xs @ ys) = List.map_filter f xs @ List.map_filter f ys"
  by (simp add: List.map_filter_def)

lemma encode_arr [simp]:
  "encode (arr xs) = (if xs \<noteq> [] \<and> length xs \<le> 65535 \<and> list_all octet xs
     then Inr (107 # be16 (length xs) @ map octet_byte xs)
     else case collect (map encode xs) of Inl e \<Rightarrow> Inl e | Inr bs \<Rightarrow> term_list bs)"
proof -
  have "length (objectKeys (arr xs)) = length xs"
    by (simp add: objectKeys_def arr_def map_filter_append index_keys map_filter_simps)
  moreover have "length (ownKeys (arr xs)) = length xs + 1" by (simp add: ownKeys_def arr_def schema_index_full)
  moreover have "no_accessor (arr xs)" by (auto simp: no_accessor_def arr_def list_all_iff dest: schema_index_data)
  ultimately show ?thesis unfolding arr_def by (simp add: comp_def image_iff)
qed

lemma encode_record [simp]:
  "encode (record_of ms) = (case collect (map (\<lambda>(k, x). pair_entry k (encode x)) ms) of
     Inl e \<Rightarrow> Inl e | Inr entries \<Rightarrow> entry_list entries)"
proof -
  have "no_accessor (record_of ms)" by (auto simp: no_accessor_def own_props_record list_all_iff)
  moreover have "length (ownKeys (record_of ms)) = length (objectKeys (record_of ms))" by simp
  moreover have "list_all (\<lambda>(k, q). string_key k) (map (\<lambda>(k, x). (SKey k, Data True x)) ms)" by (auto simp: list_all_iff)
  ultimately show ?thesis unfolding record_of_def by (simp add: comp_def case_prod_unfold)
qed

lemma collect_Inr [simp]: "collect (map Inr xs) = Inr xs"
  by (induction xs) simp_all

lemma collect_iff: "collect rs = Inr xs \<longleftrightarrow> rs = map Inr xs"
proof
  show "collect rs = Inr xs \<Longrightarrow> rs = map Inr xs"
  proof (induction rs arbitrary: xs)
    case (Cons r rs)
    then show ?case by (cases r) (auto split: sum.splits)
  qed simp
qed simp

lemma collect_map: "collect (map f xs) = Inr ys \<longleftrightarrow> list_all2 (\<lambda>x y. f x = Inr y) xs ys"
proof -
  have "map f xs = map Inr ys \<longleftrightarrow> list_all2 (\<lambda>x y. f x = Inr y) xs ys"
    by (induction xs arbitrary: ys) (auto simp: list_all2_Cons1)
  then show ?thesis by (simp add: collect_iff)
qed

subsection \<open>Prefix codes\<close>

lemma be32_inject:
  assumes "be32 m = be32 n" "m < 4294967296" "n < 4294967296"
  shows "m = n"
proof -
  have of_nat_eq: "(of_nat a :: byte) = of_nat b \<longleftrightarrow> a = b" if "a < 256" "b < 256" for a b
    using that by (metis unat_of_nat_8)
  have "m div 16777216 = n div 16777216" "m div 65536 mod 256 = n div 65536 mod 256"
    "m div 256 mod 256 = n div 256 mod 256" "m mod 256 = n mod 256"
    using assms by (simp_all add: be32_def of_nat_eq div_less_iff_less_mult)
  moreover have "k = k div 16777216 * 16777216 + k div 65536 mod 256 * 65536 + k div 256 mod 256 * 256 + k mod 256" for k :: nat
  proof -
    have "k div 256 = k div 65536 * 256 + k div 256 mod 256" "k div 65536 = k div 16777216 * 256 + k div 65536 mod 256"
      using div_mult_mod_eq [of "k div 256" 256] div_mult_mod_eq [of "k div 65536" 256]
      by (simp_all add: div_mult2_eq [symmetric] mult.commute)
    then show ?thesis using div_mult_mod_eq [of k 256] by linarith
  qed
  ultimately show ?thesis by metis
qed

lemma length_be32 [simp]: "length (be32 n) = 4"
  by (simp add: be32_def)

lemma uint32_iff [simp]: "uint32 n = Inr b \<longleftrightarrow> n < 4294967296 \<and> b = be32 n"
  by (auto simp: uint32_def)

lemma binary_iff: "binary s = Inr b \<longleftrightarrow> isWellFormed s \<and> byteLength s < 4294967296 \<and> b = 109 # be32 (byteLength s) @ utf8 s"
  by (auto simp: binary_def uint32_def)

lemma utf8_inject: "isWellFormed s \<Longrightarrow> isWellFormed t \<Longrightarrow> utf8 s = utf8 t \<Longrightarrow> s = t"
  using utf8_round_trip by metis

lemma binary_prefix:
  assumes "binary k = Inr a" "binary l = Inr b" "a @ r = b @ s"
  shows "k = l" "r = s"
proof -
  from assms have be: "be32 (byteLength k) = be32 (byteLength l)" and u: "utf8 k @ r = utf8 l @ s"
    by (simp_all add: binary_iff)
  with assms have "byteLength k = byteLength l" by (auto simp: binary_iff intro: be32_inject)
  with u have "utf8 k = utf8 l \<and> r = s" by (simp add: byteLength_def)
  with assms show "k = l" "r = s" by (auto simp: binary_iff dest: utf8_inject)
qed


lemma le_bytes_value: "foldr (\<lambda>b acc. unat b + 256 * acc) (le_bytes n) 0 = n"
proof (induction n rule: le_bytes.induct)
  case (1 n)
  show ?case
  proof (cases "n = 0")
    case False
    have "unat (of_nat (n mod 256) :: byte) = n mod 256" by (intro unat_of_nat_8) simp
    moreover have "n mod 256 + 256 * (n div 256) = n" by simp
    ultimately show ?thesis using 1 [OF False] False by (subst le_bytes.simps) simp
  qed (subst le_bytes.simps, simp)
qed

lemma le_bytes_inject: "le_bytes m = le_bytes n \<Longrightarrow> m = n"
  using le_bytes_value by metis

lemma length_le_bytes: "n < 256 ^ k \<Longrightarrow> length (le_bytes n) \<le> k"
proof (induction k arbitrary: n)
  case 0
  then show ?case by (subst le_bytes.simps) simp
next
  case (Suc k)
  then have "n div 256 < 256 ^ k" by (simp add: div_less_iff_less_mult mult.commute)
  with Suc.IH show ?case by (subst le_bytes.simps) simp
qed

lemma uint_byte: "0 \<le> m \<Longrightarrow> m \<le> 255 \<Longrightarrow> uint (of_int m :: byte) = m"
  by (simp add: unsigned_of_int take_bit_eq_mod)

lemma of_int_byte: "0 \<le> m \<Longrightarrow> m \<le> 255 \<Longrightarrow> 0 \<le> n \<Longrightarrow> n \<le> 255 \<Longrightarrow> (of_int m :: byte) = of_int n \<longleftrightarrow> m = n"
  using uint_byte by metis

lemma mod_window:
  fixes n :: int
  assumes "-2147483648 \<le> n" "n \<le> 2147483647"
  shows "n mod 4294967296 = (if n < 0 then n + 4294967296 else n)"
proof (cases "n < 0")
  case True
  then have "(n + 4294967296) mod 4294967296 = n + 4294967296"
    using assms by (intro mod_pos_pos_trivial) simp_all
  with True show ?thesis by simp
qed (use assms in simp)

lemma encode_int_cases:
  assumes "encode_int n = Inr a"
  obtains "0 \<le> n" "n \<le> 255" "a = [97, of_int n]"
  | "\<not> (0 \<le> n \<and> n \<le> 255)" "-2147483648 \<le> n" "n \<le> 2147483647" "a = 98 # be32 (nat (n mod 4294967296))"
  | "\<not> (-2147483648 \<le> n \<and> n \<le> 2147483647)" "length (le_bytes (nat \<bar>n\<bar>)) < 256"
    "a = [110, of_nat (length (le_bytes (nat \<bar>n\<bar>))), if n < 0 then 1 else 0] @ le_bytes (nat \<bar>n\<bar>)"
proof -
  have safe: "\<bar>n\<bar> \<le> 9007199254740991" using assms by (simp add: encode_int_def split: if_splits)
  then have "length (le_bytes (nat \<bar>n\<bar>)) \<le> 7" by (intro length_le_bytes) simp
  then show ?thesis using assms that by (fastforce simp: encode_int_def Let_def split: if_splits)
qed

lemma encode_int_prefix:
  assumes "encode_int m = Inr a" "encode_int n = Inr b" "a @ r = b @ s"
  shows "m = n" "r = s"
proof -
  have "m = n \<and> r = s" using assms(1)
  proof (cases rule: encode_int_cases)
    case 1
    from assms(2) show ?thesis by (cases rule: encode_int_cases) (use 1 assms(3) in \<open>auto simp: of_int_byte\<close>)
  next
    case 2
    from assms(2) show ?thesis
    proof (cases rule: encode_int_cases)
      case n: 2
      from 2 n assms(3) have "be32 (nat (m mod 4294967296)) = be32 (nat (n mod 4294967296))" "r = s" by simp_all
      then have "nat (m mod 4294967296) = nat (n mod 4294967296)" by (auto intro: be32_inject simp: nat_less_iff)
      then have "m mod 4294967296 = n mod 4294967296" by (simp add: nat_eq_iff)
      with 2 n \<open>r = s\<close> show ?thesis by (simp add: mod_window split: if_splits)
    qed (use 2 assms(3) in auto)
  next
    case 3
    from assms(2) show ?thesis
    proof (cases rule: encode_int_cases)
      case n: 3
      from 3 n assms(3) have sz: "(of_nat (length (le_bytes (nat \<bar>m\<bar>))) :: byte) = of_nat (length (le_bytes (nat \<bar>n\<bar>)))"
        and sign: "(m < 0) = (n < 0)" and bs: "le_bytes (nat \<bar>m\<bar>) @ r = le_bytes (nat \<bar>n\<bar>) @ s"
        by (auto split: if_splits)
      from sz 3 n have "length (le_bytes (nat \<bar>m\<bar>)) = length (le_bytes (nat \<bar>n\<bar>))" by (metis unat_of_nat_8)
      with bs have "le_bytes (nat \<bar>m\<bar>) = le_bytes (nat \<bar>n\<bar>)" "r = s" by simp_all
      from le_bytes_inject [OF this(1)] sign have "m = n" by (auto simp: abs_if split: if_splits)
      with \<open>r = s\<close> show ?thesis by simp
    qed (use 3 assms(3) in auto)
  qed
  then show "m = n" "r = s" by simp_all
qed


subsection \<open>The bytes of a value are a prefix code\<close>

lemma hd_encode_int: "encode_int n = Inr a \<Longrightarrow> a \<noteq> [] \<and> hd a \<in> {97, 98, 110}"
  by (erule encode_int_cases) simp_all

lemma term_list_iff:
  "term_list bs = Inr a \<longleftrightarrow> (bs = [] \<and> a = [106]) \<or>
     (bs \<noteq> [] \<and> length bs < 4294967296 \<and> a = 108 # be32 (length bs) @ concat bs @ [106])"
  by (auto simp: term_list_def uint32_def)

lemma encode_arr_iff:
  "encode (arr xs) = Inr a \<longleftrightarrow>
     (if xs \<noteq> [] \<and> length xs \<le> 65535 \<and> list_all octet xs then a = 107 # be16 (length xs) @ map octet_byte xs
      else \<exists>bs. list_all2 (\<lambda>x b. encode x = Inr b) xs bs \<and> term_list bs = Inr a)"
  by (auto simp: collect_map [symmetric] split: sum.splits)

lemma encode_record_iff:
  "encode (record_of ms) = Inr a \<longleftrightarrow> (\<exists>es. list_all2 (\<lambda>(k, x) (kb, b). binary k = Inr kb \<and> encode x = Inr b) ms es \<and> entry_list es = Inr a)"
proof -
  have "(\<lambda>m e. (case m of (k, x) \<Rightarrow> pair_entry k (encode x)) = Inr e) =
      (\<lambda>(k, x) (kb, b). binary k = Inr kb \<and> encode x = Inr b)"
    by (auto simp: fun_eq_iff pair_entry_def split: sum.splits)
  moreover have "encode (record_of ms) = Inr a \<longleftrightarrow>
      (\<exists>es. collect (map (\<lambda>(k, x). pair_entry k (encode x)) ms) = Inr es \<and> entry_list es = Inr a)"
    by (simp split: sum.splits)
  ultimately show ?thesis by (simp only: collect_map)
qed

declare encode_arr [simp del] encode_record [simp del]

definition tag_of :: "jsval \<Rightarrow> byte set" where
  "tag_of v = (case v of Null \<Rightarrow> {119} | Boolean b \<Rightarrow> {119} | Str s \<Rightarrow> {109} | Number n \<Rightarrow> {97, 98, 110}
     | Arr p sl ex \<Rightarrow> {106, 107, 108} | Obj p ps \<Rightarrow> {104} | _ \<Rightarrow> {})"

lemma entry_list_iff:
  "entry_list es = Inr a \<longleftrightarrow> (\<exists>b. term_list (map (\<lambda>(k, x). tuple [k, x]) (sort_key fst es)) = Inr b \<and>
     a = tuple [atom ''loopex_map'', b])"
  by (auto simp: entry_list_def split: sum.splits)

lemma tag_of_simps [simp]:
  "tag_of Null = {119}" "tag_of (Boolean b) = {119}" "tag_of (Str s) = {109}" "tag_of (Number n) = {97, 98, 110}"
  "tag_of (arr xs) = {106, 107, 108}" "tag_of (record_of ms) = {104}" "tag_of (NonInt t) = {}"
  by (simp_all add: tag_of_def arr_def record_of_def)

lemma encode_tag:
  assumes "json v" "encode v = Inr a"
  shows "a \<noteq> [] \<and> hd a \<in> tag_of v"
  using assms(1)
proof (cases rule: json_cases)
  case (arr xs)
  with assms(2) show ?thesis by (auto simp: encode_arr_iff term_list_iff split: if_splits)
next
  case (object ms)
  with assms(2) show ?thesis by (auto simp: encode_record_iff entry_list_iff tuple_def)
next
  case (Str s)
  with assms(2) show ?thesis by (simp add: binary_iff)
next
  case (Number n)
  with assms(2) show ?thesis using hd_encode_int [of n a] by simp
qed (use assms(2) in \<open>auto simp: atom_def\<close>)

lemma same_tag:
  assumes "json v" "json w" "encode v = Inr a" "encode w = Inr b" "a @ r = b @ s"
  shows "tag_of v \<inter> tag_of w \<noteq> {}"
proof -
  have "a \<noteq> []" "hd a \<in> tag_of v" "b \<noteq> []" "hd b \<in> tag_of w" using encode_tag assms by blast+
  moreover from this assms(5) have "hd a = hd b" by (metis hd_append2)
  ultimately show ?thesis by auto
qed

definition prefixed :: "jsval \<Rightarrow> bool" where
  "prefixed v \<longleftrightarrow> (\<forall>w a b r s. json w \<longrightarrow> encode v = Inr a \<longrightarrow> encode w = Inr b \<longrightarrow> a @ r = b @ s \<longrightarrow>
     schema_of v = schema_of w \<and> r = s)"

lemma prefixedD:
  "prefixed v \<Longrightarrow> json w \<Longrightarrow> encode v = Inr a \<Longrightarrow> encode w = Inr b \<Longrightarrow> a @ r = b @ s \<Longrightarrow> schema_of v = schema_of w \<and> r = s"
  unfolding prefixed_def by blast

lemma prefixed_list:
  assumes "list_all2 (\<lambda>x b. encode x = Inr b) xs as" "list_all2 (\<lambda>x b. encode x = Inr b) ys bs"
    "length xs = length ys" "concat as @ r = concat bs @ s" "list_all prefixed xs" "list_all json ys"
  shows "map schema_of xs = map schema_of ys \<and> r = s"
  using assms
proof (induction xs arbitrary: ys as bs)
  case (Cons x xs)
  obtain y ys' where ys: "ys = y # ys'" using Cons.prems(3) by (cases ys) auto
  obtain a as' b bs' where "as": "as = a # as'" "encode x = Inr a" "list_all2 (\<lambda>x b. encode x = Inr b) xs as'"
    and bs: "bs = b # bs'" "encode y = Inr b" "list_all2 (\<lambda>x b. encode x = Inr b) ys' bs'"
    using Cons.prems(1,2) ys by (auto simp: list_all2_Cons1)
  have "schema_of x = schema_of y \<and> concat as' @ r = concat bs' @ s"
    using Cons.prems "as" bs ys by (intro prefixedD) auto
  with Cons.IH [OF "as"(3) bs(3)] Cons.prems ys show ?case by simp
qed (auto simp: list_all2_conv_all_nth)


lemma octets_prefix:
  assumes "list_all octet xs" "list_all octet ys" "length xs \<le> 65535" "length ys \<le> 65535"
    "be16 (length xs) @ map octet_byte xs @ r = be16 (length ys) @ map octet_byte ys @ s"
  shows "xs = ys \<and> r = s"
proof -
  have of_nat_eq: "(of_nat a :: byte) = of_nat b \<longleftrightarrow> a = b" if "a < 256" "b < 256" for a b
    using that by (metis unat_of_nat_8)
  have "length xs div 256 = length ys div 256" "length xs mod 256 = length ys mod 256"
    using assms(3-5) by (auto simp: be16_def of_nat_eq div_less_iff_less_mult)
  then have len: "length xs = length ys" by (metis div_mult_mod_eq)
  with assms(5) have eq: "map octet_byte xs = map octet_byte ys" "r = s" by (simp_all add: be16_def)
  have inj: "x = y" if "octet x" "octet y" "octet_byte x = octet_byte y" for x y
    using that by (cases x; cases y) (simp_all add: of_int_byte)
  from len assms(1,2) eq(1) have "xs = ys" by (induction rule: list_induct2) (auto dest: inj)
  with eq show ?thesis by simp
qed

lemma prefixed_arr:
  assumes "list_all json xs" "list_all prefixed xs"
  shows "prefixed (arr xs)"
  unfolding prefixed_def
proof (intro allI impI)
  fix w a b r s
  assume w: "json w" and a: "encode (arr xs) = Inr a" and b: "encode w = Inr b" and eq: "a @ r = b @ s"
  have "tag_of (arr xs) \<inter> tag_of w \<noteq> {}" by (rule same_tag [OF _ w a b eq]) (simp add: assms)
  with w obtain ys where ys: "w = arr ys" "list_all json ys" by (cases rule: json_cases) auto
  show "schema_of (arr xs) = schema_of w \<and> r = s"
  proof (cases "hd a = 107")
    case True
    with a b eq ys octets_prefix [of xs ys r s] show ?thesis
      by (auto simp: encode_arr_iff term_list_iff split: if_splits)
  next
    case False
    with a b eq ys obtain as bs where
      as': "list_all2 (\<lambda>x b. encode x = Inr b) xs as" "term_list as = Inr a" and
      bs': "list_all2 (\<lambda>x b. encode x = Inr b) ys bs" "term_list bs = Inr b"
      by (auto simp: encode_arr_iff term_list_iff split: if_splits)
    have "length as = length bs \<and> (as = [] \<and> r = s \<or> concat as @ 106 # r = concat bs @ 106 # s)"
      using as'(2) bs'(2) eq by (auto simp: term_list_iff dest: be32_inject)
    moreover have "length as = length xs" "length bs = length ys"
      using as'(1) bs'(1) by (simp_all add: list_all2_lengthD)
    ultimately show ?thesis
      using prefixed_list [OF as'(1) bs'(1) _ _ assms(2) ys(2), of "106 # r" "106 # s"] ys by fastforce
  qed
qed


definition entry_of :: "ustring \<times> jsval \<Rightarrow> bytes \<times> bytes \<Rightarrow> bool" where
  "entry_of m e \<longleftrightarrow> binary (fst m) = Inr (fst e) \<and> encode (snd m) = Inr (snd e)"

definition named_schema :: "ustring \<times> jsval \<Rightarrow> ustring \<times> schema" where
  "named_schema m = (fst m, schema_of (snd m))"

lemma fst_named_schema [simp]: "fst (named_schema m) = fst m"
  by (simp add: named_schema_def)

lemma schema_of_record_named: "schema_of (record_of ms) = Members (fmap_of_list (map named_schema ms))"
  by (simp add: named_schema_def [abs_def] case_prod_unfold)

lemma record_bytes_iff:
  "encode (record_of ms) = Inr a \<longleftrightarrow> (\<exists>es b. list_all2 entry_of ms es \<and>
     term_list (map (\<lambda>(k, x). tuple [k, x]) (sort_key fst es)) = Inr b \<and> a = tuple [atom ''loopex_map'', b])"
proof -
  have "(\<lambda>(k, x) (kb, b). binary k = Inr kb \<and> encode x = Inr b) = entry_of"
    by (auto simp: fun_eq_iff entry_of_def)
  then show ?thesis by (auto simp: encode_record_iff entry_list_iff)
qed

lemma prefixed_pairs:
  assumes "length ms = length ns" "list_all2 entry_of ms es" "list_all2 entry_of ns fs"
    "concat (map (\<lambda>(k, x). tuple [k, x]) es) @ r = concat (map (\<lambda>(k, x). tuple [k, x]) fs) @ s"
    "list_all (\<lambda>m. prefixed (snd m)) ms" "list_all (\<lambda>m. json (snd m)) ns"
  shows "map named_schema ms = map named_schema ns \<and> r = s"
  using assms
proof (induction ms ns arbitrary: es fs rule: list_induct2)
  case (Cons m ms n ns)
  obtain e es' f fs' where es: "es = e # es'" "entry_of m e" "list_all2 entry_of ms es'"
    and fs: "fs = f # fs'" "entry_of n f" "list_all2 entry_of ns fs'"
    using Cons.prems(1,2) by (auto simp: list_all2_Cons1)
  let ?c = "\<lambda>es. concat (map (\<lambda>(k, x). tuple [k, x]) es)"
  have "fst e @ (snd e @ ?c es' @ r) = fst f @ (snd f @ ?c fs' @ s)"
    using Cons.prems(3) es(1) fs(1) by (simp add: tuple_def case_prod_unfold)
  with es(2) fs(2) have k: "fst m = fst n" and x: "snd e @ (?c es' @ r) = snd f @ (?c fs' @ s)"
    unfolding entry_of_def by (blast intro: binary_prefix)+
  have "schema_of (snd m) = schema_of (snd n) \<and> ?c es' @ r = ?c fs' @ s"
    using Cons.prems(4,5) es(2) fs(2) x by (intro prefixedD) (auto simp: entry_of_def)
  with k Cons.IH [OF es(3) fs(3)] Cons.prems(4,5) show ?case by (simp add: named_schema_def)
qed simp

lemma members_reorder:
  assumes "distinct (map fst ms)" "mset ms' = mset ms"
  shows "fmap_of_list (map named_schema ms') = fmap_of_list (map named_schema ms)"
proof -
  have fst: "map fst (map named_schema xs) = map fst xs" for xs by simp
  have "mset (map fst ms') = mset (map fst ms)" using assms(2) by (metis mset_map)
  with assms(1) have "distinct (map fst ms')" by (metis mset_eq_imp_distinct_iff)
  moreover have "set ms' = set ms" using assms(2) by (metis mset_eq_setD)
  ultimately have "map_of (map named_schema ms') = map_of (map named_schema ms)"
    using assms(1) by (subst map_of_inject_set) (simp_all add: comp_def)
  then show ?thesis by (metis fmap_of_list.abs_eq)
qed

lemma sorted_entries:
  assumes "list_all2 entry_of ms es"
  obtains ms' where "list_all2 entry_of ms' (sort_key fst es)" "mset ms' = mset ms"
proof -
  have "list_all2 entry_of\<inverse>\<inverse> es ms" using assms by (simp add: list.rel_flip)
  then obtain ms' where "list_all2 entry_of\<inverse>\<inverse> (sort_key fst es) ms'" "mset ms' = mset ms"
    using list_all2_reorder_left_invariance [of _ es ms "sort_key fst es"] by (metis mset_sort)
  then show ?thesis by (intro that [of ms']) (simp_all add: list.rel_flip)
qed

lemma prefixed_record:
  assumes "distinct (map fst ms)" "list_all (\<lambda>(k, x). json x) ms" "list_all (\<lambda>m. prefixed (snd m)) ms"
  shows "prefixed (record_of ms)"
  unfolding prefixed_def
proof (intro allI impI)
  fix w a b r s
  assume w: "json w" and a: "encode (record_of ms) = Inr a" and b: "encode w = Inr b" and eq: "a @ r = b @ s"
  have "tag_of (record_of ms) \<inter> tag_of w \<noteq> {}" by (rule same_tag [OF _ w a b eq]) (simp add: assms)
  with w obtain ns where ns: "w = record_of ns" "distinct (map fst ns)" "list_all (\<lambda>(k, x). json x) ns"
    by (cases rule: json_cases) auto
  let ?t = "map (\<lambda>(k, x). tuple [k, x])"
  obtain es a' where es: "list_all2 entry_of ms es" "term_list (?t (sort_key fst es)) = Inr a'" "a = tuple [atom ''loopex_map'', a']"
    using a by (auto simp: record_bytes_iff)
  obtain fs b' where fs: "list_all2 entry_of ns fs" "term_list (?t (sort_key fst fs)) = Inr b'" "b = tuple [atom ''loopex_map'', b']"
    using b ns(1) by (auto simp: record_bytes_iff)
  define E F where "E = sort_key fst es" and "F = sort_key fst fs"
  obtain ms' ns' where ms': "list_all2 entry_of ms' E" "mset ms' = mset ms"
    and ns': "list_all2 entry_of ns' F" "mset ns' = mset ns"
    unfolding E_def F_def using sorted_entries es(1) fs(1) by metis
  have "a' @ r = b' @ s" using eq es(3) fs(3) by (simp add: tuple_def)
  then have len: "length E = length F" and bytes: "E = [] \<and> r = s \<or> concat (?t E) @ 106 # r = concat (?t F) @ 106 # s"
    using es(2) fs(2) unfolding E_def [symmetric] F_def [symmetric] by (auto simp: term_list_iff dest: be32_inject)
  have "length ms' = length ns'" using len ms'(1) ns'(1) by (simp add: list_all2_lengthD)
  moreover have "list_all (\<lambda>m. prefixed (snd m)) ms'" "list_all (\<lambda>m. json (snd m)) ns'"
    using assms(3) ns(3) ms'(2) ns'(2) by (auto simp: list_all_iff dest!: mset_eq_setD)
  ultimately have "map named_schema ms' = map named_schema ns' \<and> r = s"
    using len bytes prefixed_pairs [OF _ ms'(1) ns'(1), of "106 # r" "106 # s"] ms'(1) ns'(1) by auto
  with members_reorder [OF assms(1) ms'(2)] members_reorder [OF ns(2) ns'(2)] ns(1)
  show "schema_of (record_of ms) = schema_of w \<and> r = s" by (metis schema_of_record_named)
qed

lemma json_prefixed: "json v \<Longrightarrow> prefixed v"
proof (induction rule: json_induct)
  case (arr xs)
  then show ?case by (intro prefixed_arr) (auto simp: list_all_iff)
next
  case (object ms)
  then show ?case by (intro prefixed_record) (auto simp: list_all_iff)
next
  case (Number n)
  show ?case unfolding prefixed_def
  proof (intro allI impI)
    fix w a b r s
    assume w: "json w" and a: "encode (Number n) = Inr a" and b: "encode w = Inr b" and eq: "a @ r = b @ s"
    have "tag_of (Number n) \<inter> tag_of w \<noteq> {}" by (rule same_tag [OF _ w a b eq]) simp
    with w obtain m where "w = Number m" by (cases rule: json_cases) auto
    with a b encode_int_prefix [OF _ _ eq, of n m] show "schema_of (Number n) = schema_of w \<and> r = s" by simp
  qed
next
  case (Str t)
  show ?case unfolding prefixed_def
  proof (intro allI impI)
    fix w a b r s
    assume w: "json w" and a: "encode (Str t) = Inr a" and b: "encode w = Inr b" and eq: "a @ r = b @ s"
    have "tag_of (Str t) \<inter> tag_of w \<noteq> {}" by (rule same_tag [OF _ w a b eq]) simp
    with w obtain u where "w = Str u" by (cases rule: json_cases) auto
    with a b binary_prefix [OF _ _ eq, of t u] show "schema_of (Str t) = schema_of w \<and> r = s" by simp
  qed
next
  case Null
  show ?case unfolding prefixed_def
  proof (intro allI impI)
    fix w a b r s
    assume w: "json w" and a: "encode Null = Inr a" and b: "encode w = Inr b" and eq: "a @ r = b @ s"
    have "tag_of Null \<inter> tag_of w \<noteq> {}" by (rule same_tag [OF _ w a b eq]) simp
    with w a b eq show "schema_of Null = schema_of w \<and> r = s"
      by (cases rule: json_cases) (auto simp: atom_def split: if_splits)
  qed
next
  case (Boolean x)
  show ?case unfolding prefixed_def
  proof (intro allI impI)
    fix w a b r s
    assume w: "json w" and a: "encode (Boolean x) = Inr a" and b: "encode w = Inr b" and eq: "a @ r = b @ s"
    have "tag_of (Boolean x) \<inter> tag_of w \<noteq> {}" by (rule same_tag [OF _ w a b eq]) simp
    with w a b eq show "schema_of (Boolean x) = schema_of w \<and> r = s"
      by (cases rule: json_cases) (auto simp: atom_def split: if_splits)
  qed
qed (simp add: prefixed_def)


subsection \<open>Equal data has equal bytes\<close>

definition determined :: "jsval \<Rightarrow> bool" where
  "determined v \<longleftrightarrow> (\<forall>w a b. json w \<longrightarrow> schema_of v = schema_of w \<longrightarrow> encode v = Inr a \<longrightarrow> encode w = Inr b \<longrightarrow> a = b)"

lemma determinedD:
  "determined v \<Longrightarrow> json w \<Longrightarrow> schema_of v = schema_of w \<Longrightarrow> encode v = Inr a \<Longrightarrow> encode w = Inr b \<Longrightarrow> a = b"
  unfolding determined_def by blast

lemma octet_schema: "octet v \<longleftrightarrow> (\<exists>n. schema_of v = Whole n \<and> 0 \<le> n \<and> n \<le> 255)"
  by (cases v) auto

lemma octet_byte_schema: "octet v \<Longrightarrow> schema_of v = schema_of w \<Longrightarrow> octet_byte v = octet_byte w"
  by (cases v; cases w) auto

lemma octets_schema:
  "map schema_of xs = map schema_of ys \<Longrightarrow> list_all octet xs = list_all octet ys"
  "map schema_of xs = map schema_of ys \<Longrightarrow> list_all octet xs \<Longrightarrow> map octet_byte xs = map octet_byte ys"
proof -
  assume "map schema_of xs = map schema_of ys"
  then have l: "list_all2 (\<lambda>x y. schema_of x = schema_of y) xs ys"
    by (simp add: list_all2_conv_all_nth list_eq_iff_nth_eq)
  then show "list_all octet xs = list_all octet ys" by (induction rule: list_all2_induct) (auto simp: octet_schema)
  from l show "list_all octet xs \<Longrightarrow> map octet_byte xs = map octet_byte ys"
    by (induction rule: list_all2_induct) (auto dest: octet_byte_schema)
qed

lemma determined_list:
  assumes "list_all2 (\<lambda>x b. encode x = Inr b) xs as" "list_all2 (\<lambda>x b. encode x = Inr b) ys bs"
    "map schema_of xs = map schema_of ys" "list_all determined xs" "list_all json ys"
  shows "as = bs"
  using assms
proof (induction xs arbitrary: ys as bs)
  case (Cons x xs)
  then obtain y ys' where ys: "ys = y # ys'" by (cases ys) auto
  obtain a as' b bs' where "as": "as = a # as'" "encode x = Inr a" "list_all2 (\<lambda>x b. encode x = Inr b) xs as'"
    and bs: "bs = b # bs'" "encode y = Inr b" "list_all2 (\<lambda>x b. encode x = Inr b) ys' bs'"
    using Cons.prems(1,2) ys by (auto simp: list_all2_Cons1)
  have "a = b" using Cons.prems "as" bs ys by (intro determinedD [of x y]) auto
  with Cons.IH [OF "as"(3) bs(3)] Cons.prems ys "as" bs show ?case by simp
qed (auto simp: list_all2_conv_all_nth)

lemma entries_keys: "list_all2 entry_of ms es \<Longrightarrow> distinct (map fst ms) \<Longrightarrow> distinct (map fst es)"
proof (induction rule: list_all2_induct)
  case (Cons m ms e es)
  have "fst e \<notin> set (map fst es)"
  proof
    assume "fst e \<in> set (map fst es)"
    then obtain f where "f \<in> set es" "fst f = fst e" by auto
    then obtain n where "n \<in> set ms" "entry_of n f" using Cons.hyps(2) by (metis list_all2_conv_all_nth in_set_conv_nth)
    with Cons.hyps(1) \<open>fst f = fst e\<close> have "fst n = fst m" using binary_prefix [of "fst n" _ "fst m" _ "[]" "[]"] by (auto simp: entry_of_def)
    moreover have "fst n \<in> fst ` set ms" using \<open>n \<in> set ms\<close> by (rule imageI)
    ultimately show False using Cons.prems by simp
  qed
  with Cons show ?case by simp
qed simp

lemma entries_set:
  assumes "list_all2 entry_of ms es" "list_all2 entry_of ns fs" "named_schema ` set ms \<subseteq> named_schema ` set ns"
    "\<forall>m \<in> set ms. determined (snd m)" "\<forall>m \<in> set ns. json (snd m)"
  shows "set es \<subseteq> set fs"
proof
  fix e assume "e \<in> set es"
  then obtain m where m: "m \<in> set ms" "entry_of m e" using assms(1) by (metis list_all2_conv_all_nth in_set_conv_nth)
  then obtain n where n: "n \<in> set ns" "named_schema n = named_schema m" using assms(3) by (metis (no_types, lifting) image_iff subset_iff)
  then obtain f where f: "f \<in> set fs" "entry_of n f" using assms(2) by (metis list_all2_conv_all_nth in_set_conv_nth)
  have "snd e = snd f" using m n f assms(4,5) by (intro determinedD [of "snd m" "snd n"]) (auto simp: entry_of_def named_schema_def)
  moreover have "fst e = fst f" using m n f by (simp add: entry_of_def named_schema_def)
  ultimately show "e \<in> set fs" using f by (metis prod_eqI)
qed

lemma sorted_same:
  fixes es fs :: "(bytes \<times> bytes) list"
  assumes "distinct (map fst es)" "distinct (map fst fs)" "set es = set fs"
  shows "sort_key fst es = sort_key fst fs"
proof (rule map_sorted_distinct_set_unique [of fst])
  have "distinct (map fst (sort_key fst xs))" if "distinct (map fst xs)" for xs :: "(bytes \<times> bytes) list"
    using that by (metis mset_map mset_sort mset_eq_imp_distinct_iff)
  then show "distinct (map fst (sort_key fst es))" "distinct (map fst (sort_key fst fs))" using assms by simp_all
  show "inj_on fst (set (sort_key fst es) \<union> set (sort_key fst fs))" using assms by (simp add: distinct_map)
qed (use assms in simp_all)

lemma determined_record:
  assumes "distinct (map fst ms)" "list_all (\<lambda>(k, x). json x) ms" "\<And>k x. (k, x) \<in> set ms \<Longrightarrow> determined x \<and> json x"
  shows "determined (record_of ms)"
  unfolding determined_def
proof (intro allI impI)
  fix w a b
  assume w: "json w" and eq: "schema_of (record_of ms) = schema_of w" and a: "encode (record_of ms) = Inr a" and b: "encode w = Inr b"
  from w eq obtain ns where ns: "w = record_of ns" "distinct (map fst ns)" "list_all (\<lambda>(k, x). json x) ns"
    by (cases rule: json_cases) auto
  obtain es where es: "list_all2 entry_of ms es"
    and ea: "\<exists>c. term_list (map (\<lambda>(k, x). tuple [k, x]) (sort_key fst es)) = Inr c \<and> a = tuple [atom ''loopex_map'', c]"
    using a unfolding record_bytes_iff by blast
  obtain fs where fs: "list_all2 entry_of ns fs"
    and fb: "\<exists>c. term_list (map (\<lambda>(k, x). tuple [k, x]) (sort_key fst fs)) = Inr c \<and> b = tuple [atom ''loopex_map'', c]"
    using b unfolding ns(1) record_bytes_iff by blast
  have bytes: "a = b" if "sort_key fst es = sort_key fst fs" using ea fb unfolding that by auto
  have "map_of (map named_schema ms) = map_of (map named_schema ns)"
    using eq unfolding ns(1) schema_of_record_named by (metis fmlookup_of_list schema.inject(5))
  then have sets: "named_schema ` set ms = named_schema ` set ns"
    using assms(1) ns(2) by (subst (asm) map_of_inject_set) (simp_all add: comp_def)
  then have nsd: "\<forall>n \<in> set ns. json (snd n)" using ns(3) by (auto simp: list_all_iff)
  have msd: "\<forall>m \<in> set ms. determined (snd m)" "\<forall>m \<in> set ms. json (snd m)" using assms(3) by force+
  have "set es \<subseteq> set fs" using entries_set [OF es fs _ msd(1) nsd] sets by simp
  moreover have "length es = length fs"
  proof -
    have "card (named_schema ` set ms) = length ms" if "distinct (map fst ms)" for ms
    proof -
      have "distinct (map fst (map named_schema ms))" using that by (simp add: comp_def)
      then have "distinct (map named_schema ms)" by (metis distinct_map)
      then show ?thesis by (metis distinct_card length_map set_map)
    qed
    with assms(1) ns(2) sets have "length ms = length ns" by metis
    with es fs show ?thesis by (simp add: list_all2_lengthD [symmetric])
  qed
  moreover have "distinct (map fst es)" "distinct (map fst fs)" using entries_keys es fs assms(1) ns(2) by blast+
  ultimately have "set es = set fs" by (metis card_subset_eq distinct_card distinct_map List.finite_set)
  with \<open>distinct (map fst es)\<close> \<open>distinct (map fst fs)\<close> bytes sorted_same show "a = b" by blast
qed

lemma json_determined: "json v \<Longrightarrow> determined v"
proof (induction rule: json_induct)
  case (arr xs)
  show ?case unfolding determined_def
  proof (intro allI impI)
    fix w a b
    assume w: "json w" and eq: "schema_of (arr xs) = schema_of w" and a: "encode (arr xs) = Inr a" and b: "encode w = Inr b"
    from w eq obtain ys where ys: "w = arr ys" "list_all json ys" by (cases rule: json_cases) auto
    with eq have s: "map schema_of xs = map schema_of ys" by simp
    then have len: "length xs = length ys" by (metis length_map)
    note oct = octets_schema [OF s]
    show "a = b"
    proof (cases "xs \<noteq> [] \<and> length xs \<le> 65535 \<and> list_all octet xs")
      case True
      then have "ys \<noteq> [] \<and> length ys \<le> 65535 \<and> list_all octet ys" using oct(1) len by auto
      with True a b oct(2) len show ?thesis unfolding ys encode_arr_iff by simp
    next
      case False
      with a b ys len oct(1) obtain as bs where "list_all2 (\<lambda>x b. encode x = Inr b) xs as" "term_list as = Inr a"
        "list_all2 (\<lambda>x b. encode x = Inr b) ys bs" "term_list bs = Inr b"
        unfolding ys encode_arr_iff by (auto split: if_splits)
      moreover from this determined_list [of xs as ys bs] s ys(2) arr have "as = bs" by (auto simp: list_all_iff)
      ultimately show ?thesis by simp
    qed
  qed
next
  case (object ms)
  then show ?case by (intro determined_record) (auto simp: list_all_iff)
next
  case Null
  show ?case unfolding determined_def
  proof (intro allI impI)
    fix w a b assume "json w" "schema_of Null = schema_of w" "encode Null = Inr a" "encode w = Inr b"
    then show "a = b" by (cases rule: json_cases) auto
  qed
next
  case (Boolean x)
  show ?case unfolding determined_def
  proof (intro allI impI)
    fix w a b assume "json w" "schema_of (Boolean x) = schema_of w" "encode (Boolean x) = Inr a" "encode w = Inr b"
    then show "a = b" by (cases rule: json_cases) auto
  qed
next
  case (Number n)
  show ?case unfolding determined_def
  proof (intro allI impI)
    fix w a b assume "json w" "schema_of (Number n) = schema_of w" "encode (Number n) = Inr a" "encode w = Inr b"
    then show "a = b" by (cases rule: json_cases) auto
  qed
next
  case (Str t)
  show ?case unfolding determined_def
  proof (intro allI impI)
    fix w a b assume "json w" "schema_of (Str t) = schema_of w" "encode (Str t) = Inr a" "encode w = Inr b"
    then show "a = b" by (cases rule: json_cases) auto
  qed
qed (simp add: determined_def)


text \<open>C5. Two JSON schemas have the same canonical bytes exactly when they carry the same data: the bytes do not depend on the
  order in which members were written, and no two different schemas share them, so a digest of the bytes identifies the schema.\<close>

theorem canonical_bytes_exact:
  assumes "json v" "json w" "canonicalSchemaBytes v = Inr a" "canonicalSchemaBytes w = Inr b"
  shows "a = b \<longleftrightarrow> schema_of v = schema_of w"
proof -
  obtain a' b' where a: "encode v = Inr a'" "a = 131 # a'" and b: "encode w = Inr b'" "b = 131 # b'"
    using assms(3,4) by (auto simp: canonicalSchemaBytes_def split: sum.splits)
  have "schema_of v = schema_of w" if "a' = b'"
    using prefixedD [OF json_prefixed [OF assms(1)] assms(2) a(1) b(1), of "[]" "[]"] that by simp
  moreover have "a' = b'" if "schema_of v = schema_of w"
    using determinedD [OF json_determined [OF assms(1)] assms(2) that a(1) b(1)] .
  ultimately show ?thesis using a(2) b(2) by auto
qed

definition written :: "(string \<times> jsval) list \<Rightarrow> jsval" where
  "written ms = record_of (map (\<lambda>(k, x). (lit k, x)) ms)"

theorem canonical_bytes_exact_witness:
  "canonicalSchemaBytes (written [(''b'', arr [Number 300]), (''a'', Null)]) =
   canonicalSchemaBytes (written [(''a'', Null), (''b'', arr [Number 300])])"
proof -
  let ?v = "written [(''b'', arr [Number 300]), (''a'', Null)]" and ?w = "written [(''a'', Null), (''b'', arr [Number 300])]"
  have "\<exists>a. canonicalSchemaBytes ?v = Inr a" "\<exists>b. canonicalSchemaBytes ?w = Inr b"
    by (simp_all add: canonicalSchemaBytes_def written_def encode_record encode_arr pair_entry_def binary_def uint32_def
      byteLength_lit encode_int_def entry_list_def term_list_def)
  then obtain a b where "canonicalSchemaBytes ?v = Inr a" "canonicalSchemaBytes ?w = Inr b" by blast
  moreover from canonical_bytes_exact [OF _ _ this] have "a = b" 
    by (simp add: written_def fmap_of_list.abs_eq fun_upd_twist)
  ultimately show ?thesis by simp
qed

end
