(* ===== verification/Schema_JSON.thy ===== *)
theory Schema_JSON
  imports Schema_Bytes JSON_Text
begin

text \<open>
  The schema parser (\<open>contract-manifest.mjs\<close>, \<open>parseSchemaJson\<close>): a recursive walk over the
  decoded text that refuses duplicate members and anything but safe integers.  The text from
  \<open>position\<close> on is the remaining input.  Each nested call and each round of the loop consumes
  input, so twice the length of the text is enough fuel; \<open>Out_of_fuel\<close> is never returned.  The
  interpreter's stack depth is not modelled.
\<close>

datatype schema_error = Not_utf8 | Json_syntax | Unicode_refused | Unterminated_string | Key_required
  | Duplicate_member | Colon_required | Comma_required | Invalid_value | Unsafe_integer | Trailing_bytes | Out_of_fuel

section \<open>Text\<close>

text \<open>\<open>new TextDecoder("utf-8", { fatal: true }).decode(bytes)\<close>, which drops one leading byte order mark\<close>

definition fatal_decode :: "bytes \<Rightarrow> ustring option" where
  "fatal_decode bytes = (let text = utf8_decode bytes in
     if utf8 text \<noteq> bytes then None
     else Some (case text of u # r \<Rightarrow> if u = 65279 then r else text | [] \<Rightarrow> []))"

definition is_space :: "code_unit \<Rightarrow> bool" where
  "is_space u \<longleftrightarrow> u = 32 \<or> u = 9 \<or> u = 13 \<or> u = 10"

definition whitespace :: "ustring \<Rightarrow> ustring" where
  "whitespace text = dropWhile is_space text"

section \<open>Strings\<close>

text \<open>The token up to its closing quote, an escape taken as two units, and the rest of the text\<close>

fun scan_string :: "ustring \<Rightarrow> (ustring \<times> ustring) option" where
  "scan_string [] = None"
| "scan_string (c # r) =
     (if c = 92 then (case r of [] \<Rightarrow> None
        | d # s \<Rightarrow> map_option (\<lambda>(body, rest). (c # d # body, rest)) (scan_string s))
      else if c = 34 then Some ([], r)
      else map_option (\<lambda>(body, rest). (c # body, rest)) (scan_string r))"

definition hex_value :: "code_unit \<Rightarrow> nat option" where
  "hex_value u = (if is_digit u then Some (digit_value u)
     else if 97 \<le> unat u \<and> unat u \<le> 102 then Some (unat u - 87)
     else if 65 \<le> unat u \<and> unat u \<le> 70 then Some (unat u - 55) else None)"

definition simple_escapes :: "(code_unit \<times> code_unit) list" where
  "simple_escapes = [(34, 34), (92, 92), (47, 47), (98, 8), (102, 12), (110, 10), (114, 13), (116, 9)]"

text \<open>\<open>JSON.parse\<close> of a string token, given what stands between its quotes\<close>

fun unescape :: "ustring \<Rightarrow> ustring option" where
  "unescape [] = Some []"
| "unescape (c # r) =
     (if c = 92 then (case r of [] \<Rightarrow> None
        | d # s \<Rightarrow> if d = 117 then (case s of
              h1 # h2 # h3 # h4 # t \<Rightarrow> (case (hex_value h1, hex_value h2, hex_value h3, hex_value h4) of
                (Some a, Some b, Some c, Some d) \<Rightarrow> map_option (\<lambda>v. of_nat (a * 4096 + b * 256 + c * 16 + d) # v) (unescape t)
              | _ \<Rightarrow> None)
            | _ \<Rightarrow> None)
          else (case map_of simple_escapes d of None \<Rightarrow> None | Some u \<Rightarrow> map_option (\<lambda>v. u # v) (unescape s)))
      else if unat c < 32 \<or> c = 34 then None
      else map_option (\<lambda>v. c # v) (unescape r))"

definition parse_string :: "ustring \<Rightarrow> schema_error + ustring \<times> ustring" where
  "parse_string text = (case scan_string (tl text) of None \<Rightarrow> Inl Unterminated_string
     | Some (body, rest) \<Rightarrow> (case unescape body of None \<Rightarrow> Inl Json_syntax
         | Some value \<Rightarrow> if isWellFormed value then Inr (value, rest) else Inl Unicode_refused))"

section \<open>Literals and integers\<close>

definition literals :: "(ustring \<times> jsval) list" where
  "literals = [(lit ''null'', Null), (lit ''true'', Boolean True), (lit ''false'', Boolean False)]"

definition starts :: "ustring \<Rightarrow> ustring \<Rightarrow> bool" where
  "starts p text \<longleftrightarrow> take (length p) text = p"

text \<open>\<open>/^-?(?:0|[1-9][0-9]*)/\<close>: the sign, the digits and what follows them\<close>

definition digits_lexeme :: "ustring \<Rightarrow> (ustring \<times> ustring) option" where
  "digits_lexeme text = (case text of [] \<Rightarrow> None
     | u # r \<Rightarrow> if u = 48 then Some ([u], r)
         else if is_digit u then Some (takeWhile is_digit text, dropWhile is_digit text) else None)"

definition integer_lexeme :: "ustring \<Rightarrow> (int \<times> ustring) option" where
  "integer_lexeme text = (case text of [] \<Rightarrow> None
     | u # r \<Rightarrow> if u = 45 then map_option (\<lambda>(ds, rest). (- int (decimal_value ds), rest)) (digits_lexeme r)
         else map_option (\<lambda>(ds, rest). (int (decimal_value ds), rest)) (digits_lexeme text))"

definition parse_scalar :: "ustring \<Rightarrow> schema_error + jsval \<times> ustring" where
  "parse_scalar text = (case find (\<lambda>(literal, member). starts literal text) literals of
     Some (literal, member) \<Rightarrow> Inr (member, drop (length literal) text)
   | None \<Rightarrow> (case integer_lexeme text of None \<Rightarrow> Inl Invalid_value
       | Some (n, rest) \<Rightarrow> if isSafeInteger (Number n) then Inr (Number n, rest) else Inl Unsafe_integer))"

section \<open>Values\<close>

text \<open>\<open>Object.defineProperty\<close> of a new member: own keys list the array indices in ascending order
  and then the other strings in the order of their creation.\<close>

fun index_key :: "pkey \<Rightarrow> bool" where
  "index_key (SKey s) = (canonical_decimal s \<and> decimal_value s < 4294967295)"
| "index_key (Sym n) = False"

fun key_number :: "pkey \<Rightarrow> nat" where
  "key_number (SKey s) = decimal_value s"
| "key_number (Sym n) = 0"

fun define_member :: "pkey \<Rightarrow> jsval \<Rightarrow> (pkey \<times> jsval jsprop) list \<Rightarrow> (pkey \<times> jsval jsprop) list" where
  "define_member k x [] = [(k, Data True x)]"
| "define_member k x ((l, q) # ps) =
     (if index_key k \<and> (\<not> index_key l \<or> key_number k < key_number l) then (k, Data True x) # (l, q) # ps
      else (l, q) # define_member k x ps)"

text \<open>The loop of a nonempty object, the loop of a nonempty array and a value\<close>

fun parse_members :: "nat \<Rightarrow> (pkey \<times> jsval jsprop) list \<Rightarrow> ustring \<Rightarrow> schema_error + jsval \<times> ustring"
and parse_items :: "nat \<Rightarrow> jsval list \<Rightarrow> ustring \<Rightarrow> schema_error + jsval \<times> ustring"
and parse_value :: "nat \<Rightarrow> ustring \<Rightarrow> schema_error + jsval \<times> ustring" where
  "parse_members 0 output text = Inl Out_of_fuel"
| "parse_members (Suc fuel) output text =
     (if text = [] \<or> hd text \<noteq> 34 then Inl Key_required
      else case parse_string text of Inl e \<Rightarrow> Inl e
      | Inr (key, text) \<Rightarrow> if SKey key \<in> set (map fst output) then Inl Duplicate_member
          else (case whitespace text of [] \<Rightarrow> Inl Colon_required
          | u # text \<Rightarrow> if u \<noteq> 58 then Inl Colon_required
              else (case parse_value fuel text of Inl e \<Rightarrow> Inl e
              | Inr (member, text) \<Rightarrow> let output = define_member (SKey key) member output in
                  (case whitespace text of [] \<Rightarrow> Inl Comma_required
                  | u # text \<Rightarrow> if u = 125 then Inr (Obj ObjectProto output, text)
                      else if u \<noteq> 44 then Inl Comma_required else parse_members fuel output (whitespace text)))))"
| "parse_items 0 output text = Inl Out_of_fuel"
| "parse_items (Suc fuel) output text =
     (case parse_value fuel text of Inl e \<Rightarrow> Inl e
      | Inr (member, text) \<Rightarrow> let output = output @ [member] in
          (case whitespace text of [] \<Rightarrow> Inl Comma_required
          | u # text \<Rightarrow> if u = 93 then Inr (arr output, text)
              else if u \<noteq> 44 then Inl Comma_required else parse_items fuel output (whitespace text)))"
| "parse_value 0 text = Inl Out_of_fuel"
| "parse_value (Suc fuel) text =
     (case whitespace text of [] \<Rightarrow> parse_scalar []
      | u # r \<Rightarrow> if u = 34 then (case parse_string (u # r) of Inl e \<Rightarrow> Inl e | Inr (s, rest) \<Rightarrow> Inr (Str s, rest))
          else if u = 123 then (case whitespace r of [] \<Rightarrow> parse_members fuel [] []
            | c # t \<Rightarrow> if c = 125 then Inr (Obj ObjectProto [], t) else parse_members fuel [] (c # t))
          else if u = 91 then (case whitespace r of [] \<Rightarrow> parse_items fuel [] []
            | c # t \<Rightarrow> if c = 93 then Inr (arr [], t) else parse_items fuel [] (c # t))
          else parse_scalar (u # r))"

definition parseSchemaJson :: "bytes \<Rightarrow> schema_error + jsval" where
  "parseSchemaJson bytes = (case fatal_decode bytes of None \<Rightarrow> Inl Not_utf8
     | Some text \<Rightarrow> (case parse_value (Suc (2 * length text)) text of Inl e \<Rightarrow> Inl e
         | Inr (output, rest) \<Rightarrow> if whitespace rest = [] then Inr output else Inl Trailing_bytes))"


section \<open>The fuel is enough, and every step consumes text\<close>

lemma scan_string_shorter: "scan_string s = Some (body, rest) \<Longrightarrow> length rest < length s"
  by (induction s arbitrary: body rest rule: scan_string.induct) (fastforce split: if_splits list.splits)+

lemma whitespace_le: "length (whitespace s) \<le> length s"
  by (simp add: whitespace_def length_dropWhile_le)

lemma whitespace_Cons_less: "whitespace s = u # r \<Longrightarrow> length r < length s"
  using whitespace_le [of s] by simp

lemma parse_string_shorter: "parse_string s = Inr (v, rest) \<Longrightarrow> length rest < length s"
  by (cases s) (auto simp: parse_string_def dest: scan_string_shorter split: option.splits prod.splits if_splits)

lemma integer_lexeme_shorter: "integer_lexeme s = Some (n, rest) \<Longrightarrow> length rest < length s"
  using length_dropWhile_le [of is_digit]
  by (auto simp: integer_lexeme_def digits_lexeme_def le_imp_less_Suc less_SucI split: list.splits if_splits)

lemma find_literal: "find (\<lambda>(l, m). starts l s) literals = Some (l, m) \<Longrightarrow> (l, m) \<in> set literals \<and> starts l s"
  by (auto simp: find_Some_iff in_set_conv_nth)

lemma literal_nonempty: "(l, m) \<in> set literals \<Longrightarrow> l \<noteq> []"
  by (auto simp: literals_def lit_def)

lemma starts_nonempty: "starts p s \<Longrightarrow> p \<noteq> [] \<Longrightarrow> s \<noteq> []"
  by (auto simp: starts_def)

lemma parse_scalar_Inr:
  "parse_scalar s = Inr (v, rest) \<Longrightarrow> (\<exists>l. (l, v) \<in> set literals \<and> starts l s \<and> rest = drop (length l) s) \<or>
     (\<exists>n. v = Number n \<and> isSafeInteger v \<and> integer_lexeme s = Some (n, rest))"
  by (auto simp: parse_scalar_def dest!: find_literal split: option.splits prod.splits if_splits)

lemma parse_scalar_shorter:
  assumes "parse_scalar s = Inr (v, rest)"
  shows "length rest < length s"
  using parse_scalar_Inr [OF assms]
proof (elim disjE exE conjE)
  fix l assume "(l, v) \<in> set literals" "starts l s" "rest = drop (length l) s"
  then have "l \<noteq> []" "s \<noteq> []" "rest = drop (length l) s" using literal_nonempty starts_nonempty by blast+
  then show ?thesis by simp
qed (rule integer_lexeme_shorter)

text \<open>The successful steps\<close>

lemma parse_members_Inr:
  "parse_members (Suc fuel) output text = Inr (v, rest) \<longleftrightarrow>
     (\<exists>key t1 t2 member t3 u t4. text \<noteq> [] \<and> hd text = 34 \<and> parse_string text = Inr (key, t1) \<and> SKey key \<notin> set (map fst output) \<and>
       whitespace t1 = 58 # t2 \<and> parse_value fuel t2 = Inr (member, t3) \<and> whitespace t3 = u # t4 \<and>
       (u = 125 \<and> v = Obj ObjectProto (define_member (SKey key) member output) \<and> rest = t4 \<or>
        u = 44 \<and> parse_members fuel (define_member (SKey key) member output) (whitespace t4) = Inr (v, rest)))"
  by (auto simp: Let_def split: sum.split list.split)

lemma parse_items_Inr:
  "parse_items (Suc fuel) output text = Inr (v, rest) \<longleftrightarrow>
     (\<exists>member t3 u t4. parse_value fuel text = Inr (member, t3) \<and> whitespace t3 = u # t4 \<and>
       (u = 93 \<and> v = arr (output @ [member]) \<and> rest = t4 \<or>
        u = 44 \<and> parse_items fuel (output @ [member]) (whitespace t4) = Inr (v, rest)))"
  by (auto simp: Let_def split: sum.split list.split)

lemma parse_value_Inr:
  "parse_value (Suc fuel) text = Inr (v, rest) \<longleftrightarrow>
     (whitespace text = [] \<and> parse_scalar [] = Inr (v, rest)) \<or>
     (\<exists>u r. whitespace text = u # r \<and>
       (u = 34 \<and> (\<exists>s. v = Str s \<and> parse_string (u # r) = Inr (s, rest)) \<or>
        u = 123 \<and> (v = Obj ObjectProto [] \<and> whitespace r = 125 # rest \<or>
          \<not> (\<exists>t. whitespace r = 125 # t) \<and> parse_members fuel [] (whitespace r) = Inr (v, rest)) \<or>
        u = 91 \<and> (v = arr [] \<and> whitespace r = 93 # rest \<or>
          \<not> (\<exists>t. whitespace r = 93 # t) \<and> parse_items fuel [] (whitespace r) = Inr (v, rest)) \<or>
        u \<notin> {34, 123, 91} \<and> parse_scalar (u # r) = Inr (v, rest)))"
  by (auto split: sum.split list.split)

declare parse_members.simps [simp del] parse_items.simps [simp del] parse_value.simps [simp del]

lemma parse_shorter:
  "parse_members fuel ps s = Inr (v, rest) \<Longrightarrow> length rest < length s"
  "parse_items fuel xs s = Inr (v, rest) \<Longrightarrow> length rest < length s"
  "parse_value fuel s = Inr (v, rest) \<Longrightarrow> length rest < length s"
proof (induction fuel arbitrary: ps xs s v rest)
  case (Suc fuel)
  case 1
  then obtain key t1 t2 m t3 u t4 where "parse_string s = Inr (key, t1)" "whitespace t1 = 58 # t2"
    "parse_value fuel t2 = Inr (m, t3)" "whitespace t3 = u # t4"
    and tail: "rest = t4 \<or> (\<exists>ps. parse_members fuel ps (whitespace t4) = Inr (v, rest))"
    unfolding parse_members_Inr by blast
  then have "length t4 < length s"
    using parse_string_shorter whitespace_Cons_less Suc.IH(3) by (meson less_trans)
  moreover have "length rest \<le> length t4" using tail Suc.IH(1) whitespace_le [of t4] by fastforce
  ultimately show ?case by simp
next
  case (Suc fuel)
  case 2
  then obtain m t3 u t4 where "parse_value fuel s = Inr (m, t3)" "whitespace t3 = u # t4"
    and tail: "rest = t4 \<or> (\<exists>ps. parse_items fuel ps (whitespace t4) = Inr (v, rest))"
    unfolding parse_items_Inr by blast
  then have "length t4 < length s" using whitespace_Cons_less Suc.IH(3) by (meson less_trans)
  moreover have "length rest \<le> length t4" using tail Suc.IH(2) whitespace_le [of t4] by fastforce
  ultimately show ?case by simp
next
  case (Suc fuel)
  case 3
  have "length rest < length (whitespace s)" using 3 unfolding parse_value_Inr
  proof (elim disjE exE conjE)
    fix u r assume "whitespace s = u # r" "parse_members fuel [] (whitespace r) = Inr (v, rest)"
    with Suc.IH(1) whitespace_le [of r] show ?thesis by fastforce
  next
    fix u r assume "whitespace s = u # r" "parse_items fuel [] (whitespace r) = Inr (v, rest)"
    with Suc.IH(2) whitespace_le [of r] show ?thesis by fastforce
  qed (auto dest!: parse_scalar_shorter parse_string_shorter whitespace_Cons_less)
  then show ?case using whitespace_le [of s] by simp
qed (simp_all add: parse_members.simps parse_items.simps parse_value.simps)


lemma parse_string_fuel: "parse_string s \<noteq> Inl Out_of_fuel"
  by (auto simp: parse_string_def split: option.splits prod.splits)

lemma parse_scalar_fuel: "parse_scalar s \<noteq> Inl Out_of_fuel"
  by (auto simp: parse_scalar_def split: option.splits prod.splits)

lemma enough_fuel:
  "2 * length s < fuel \<Longrightarrow> parse_members fuel ps s \<noteq> Inl Out_of_fuel"
  "2 * length s + 1 < fuel \<Longrightarrow> parse_items fuel xs s \<noteq> Inl Out_of_fuel"
  "2 * length s < fuel \<Longrightarrow> parse_value fuel s \<noteq> Inl Out_of_fuel"
proof (induction fuel arbitrary: ps xs s)
  case (Suc fuel)
  case 1
  have step: "parse_value fuel t2 \<noteq> Inl Out_of_fuel"
    "parse_value fuel t2 = Inr (m, t3) \<Longrightarrow> whitespace t3 = u # t4 \<Longrightarrow> parse_members fuel qs (whitespace t4) \<noteq> Inl Out_of_fuel"
    if "parse_string s = Inr (key, t1)" "whitespace t1 = c # t2" for key t1 c t2 m t3 u t4 qs
  proof -
    have "length t2 < length s" using that parse_string_shorter whitespace_Cons_less by (meson less_trans)
    with 1 show "parse_value fuel t2 \<noteq> Inl Out_of_fuel" by (intro Suc.IH(3)) simp
    assume "parse_value fuel t2 = Inr (m, t3)" "whitespace t3 = u # t4"
    then have "length t4 < length t2" using parse_shorter(3) whitespace_Cons_less by (meson less_trans)
    with \<open>length t2 < length s\<close> 1 whitespace_le [of t4] show "parse_members fuel qs (whitespace t4) \<noteq> Inl Out_of_fuel"
      by (intro Suc.IH(1)) simp
  qed
  show ?case using step parse_string_fuel
    by (auto simp: parse_members.simps Let_def split: sum.split list.split)
next
  case (Suc fuel)
  case 2
  have step: "parse_items fuel ys (whitespace t4) \<noteq> Inl Out_of_fuel"
    if "parse_value fuel s = Inr (m, t3)" "whitespace t3 = u # t4" for m t3 ys u t4
  proof -
    have "length t4 < length s" using that parse_shorter(3) whitespace_Cons_less by (meson less_trans)
    with 2 whitespace_le [of t4] show ?thesis by (intro Suc.IH(2)) simp
  qed
  moreover from 2 have "parse_value fuel s \<noteq> Inl Out_of_fuel" by (intro Suc.IH(3)) simp
  ultimately show ?case by (auto simp: parse_items.simps Let_def split: sum.split list.split)
next
  case (Suc fuel)
  case 3
  have "parse_members fuel [] (whitespace r) \<noteq> Inl Out_of_fuel" "parse_items fuel [] (whitespace r) \<noteq> Inl Out_of_fuel"
    if "whitespace s = u # r" for u r
  proof -
    have "length (whitespace r) < length s" using that whitespace_Cons_less whitespace_le by (meson le_less_trans)
    with 3 show "parse_members fuel [] (whitespace r) \<noteq> Inl Out_of_fuel" "parse_items fuel [] (whitespace r) \<noteq> Inl Out_of_fuel"
      by (auto intro!: Suc.IH)
  qed
  then show ?case using parse_string_fuel parse_scalar_fuel
    by (auto simp: parse_value.simps split: sum.split list.split)
qed simp_all


section \<open>What the parser returns\<close>

text \<open>Schema data: safe integers, well-formed text, distinct members\<close>

fun schema_data :: "jsval \<Rightarrow> bool" where
  "schema_data Null = True"
| "schema_data (Boolean b) = True"
| "schema_data (Number n) = isSafeInteger (Number n)"
| "schema_data (Str s) = isWellFormed s"
| "schema_data (Arr p sl ex) \<longleftrightarrow> p = ArrayProto \<and> ex = [] \<and>
     list_all (\<lambda>s. case s of Some (Data True x) \<Rightarrow> schema_data x | _ \<Rightarrow> False) sl"
| "schema_data (Obj p ps) \<longleftrightarrow> p = ObjectProto \<and> distinct (map fst ps) \<and>
     list_all (\<lambda>kp. case kp of (SKey s, Data True x) \<Rightarrow> isWellFormed s \<and> schema_data x | _ \<Rightarrow> False) ps"
| "schema_data _ = False"

lemma schema_data_arr [simp]: "schema_data (arr xs) \<longleftrightarrow> list_all schema_data xs"
  by (simp add: arr_def list_all_iff)

definition members_data :: "(ustring \<times> jsval) list \<Rightarrow> bool" where
  "members_data ms \<longleftrightarrow> distinct (map fst ms) \<and> list_all (\<lambda>(k, x). isWellFormed k \<and> schema_data x) ms"

lemma schema_data_record [simp]: "schema_data (record_of ms) \<longleftrightarrow> members_data ms"
proof -
  have "distinct (map fst (map (\<lambda>(k, x). (SKey k, Data True x)) ms)) = distinct (map fst ms)"
    unfolding record_keys by (simp add: distinct_map inj_on_def)
  then show ?thesis by (simp add: record_of_def members_data_def list_all_iff split_beta del: map_map)
qed

lemma slot_iff: "(case s of Some (Data True x) \<Rightarrow> P x | _ \<Rightarrow> False) \<longleftrightarrow> (\<exists>x. s = Some (Data True x) \<and> P x)"
  by (auto split: option.splits jsprop.splits bool.splits)

lemma entry_iff: "(case q of (SKey k, Data True x) \<Rightarrow> P k x | _ \<Rightarrow> False) \<longleftrightarrow> (\<exists>k x. q = (SKey k, Data True x) \<and> P k x)"
  by (auto split: prod.splits pkey.splits jsprop.splits bool.splits)

lemma schema_data_json: "schema_data v \<Longrightarrow> json v"
proof (induction v rule: schema_data.induct)
  case (5 p sl ex)
  have "\<exists>x. s = Some (Data True x) \<and> json x" if s: "s \<in> set sl" for s
  proof -
    from 5(2) s obtain x where "s = Some (Data True x)" "schema_data x" by (auto simp: list_all_iff slot_iff)
    with 5(1) [OF s] show ?thesis by simp
  qed
  with 5(2) show ?case by (simp add: list_all_iff slot_iff)
next
  case (6 p ps)
  have "\<exists>k x. q = (SKey k, Data True x) \<and> json x" if q: "q \<in> set ps" for q
  proof -
    from 6(2) q obtain k x where "q = (SKey k, Data True x)" "schema_data x" by (auto simp: list_all_iff entry_iff)
    with 6(1) [OF q] show ?thesis by simp
  qed
  with 6(2) show ?case by (simp add: list_all_iff entry_iff)
qed simp_all

text \<open>A measure of the size of a value, below the length of any text of it\<close>

fun weight :: "jsval \<Rightarrow> nat" where
  "weight (Str s) = Suc (length s)"
| "weight (Arr p sl ex) = Suc (sum_list (map (\<lambda>s. case s of Some (Data e x) \<Rightarrow> weight x | _ \<Rightarrow> 0) sl))"
| "weight (Obj p ps) = Suc (sum_list (map (\<lambda>kq. case kq of (SKey k, Data e x) \<Rightarrow> length k + weight x | _ \<Rightarrow> 0) ps))"
| "weight v = 1"

definition members_weight :: "(ustring \<times> jsval) list \<Rightarrow> nat" where
  "members_weight ms = sum_list (map (\<lambda>(k, x). length k + weight x) ms)"

lemma weight_arr [simp]: "weight (arr xs) = Suc (sum_list (map weight xs))"
  by (simp add: arr_def comp_def)

lemma weight_record [simp]: "weight (record_of ms) = Suc (members_weight ms)"
  by (simp add: record_of_def members_weight_def comp_def case_prod_unfold)

lemma weight_pos: "0 < weight v"
  by (cases v) simp_all

lemma members_weight_mset: "mset ms = mset ns \<Longrightarrow> members_weight ms = members_weight ns"
proof -
  assume "mset ms = mset ns"
  then have "mset (map (\<lambda>(k, x). length k + weight x) ms) = mset (map (\<lambda>(k, x). length k + weight x) ns)" by simp
  then show ?thesis unfolding members_weight_def sum_mset_sum_list [symmetric] by (rule arg_cong)
qed

lemma define_member_record:
  "\<exists>ns. define_member (SKey k) x (map (\<lambda>(k, x). (SKey k, Data True x)) ms) = map (\<lambda>(k, x). (SKey k, Data True x)) ns \<and>
     mset ns = add_mset (k, x) (mset ms)"
proof (induction ms)
  case (Cons m ms)
  obtain l y where m: "m = (l, y)" by (cases m)
  from Cons obtain ns where ns: "define_member (SKey k) x (map (\<lambda>(k, x). (SKey k, Data True x)) ms) = map (\<lambda>(k, x). (SKey k, Data True x)) ns"
    "mset ns = add_mset (k, x) (mset ms)" by blast
  show ?case
  proof (cases "index_key (SKey k) \<and> (\<not> index_key (SKey l) \<or> key_number (SKey k) < key_number (SKey l))")
    case True
    with m show ?thesis by (intro exI [of _ "(k, x) # m # ms"]) simp
  next
    case False
    with m ns show ?thesis by (intro exI [of _ "m # ns"]) (auto simp del: index_key.simps key_number.simps)
  qed
qed (intro exI [of _ "[(k, x)]"], simp)

lemma unescape_Cons:
  "unescape (c # r) = Some v \<Longrightarrow> \<exists>u w s. v = u # w \<and> unescape s = Some w \<and> length s \<le> length r"
  by (auto simp: le_SucI split: if_splits list.splits option.splits) (rule exI, erule conjI, simp)+

lemma unescape_length: "unescape s = Some v \<Longrightarrow> length v \<le> length s"
proof (induction s arbitrary: v rule: length_induct)
  case (1 s)
  show ?case
  proof (cases s)
    case (Cons c r)
    with 1(2) obtain u w t where v: "v = u # w" and t: "unescape t = Some w" "length t \<le> length r" using unescape_Cons by blast
    from t(2) Cons have "length t < length s" by simp
    with 1(1) t(1) have "length w \<le> length t" by blast
    with v t(2) Cons show ?thesis by simp
  qed (use 1 in simp)
qed

lemma scan_string_length: "scan_string s = Some (body, rest) \<Longrightarrow> length body + length rest < length s"
proof (induction s arbitrary: body rest rule: scan_string.induct)
  case (2 c r)
  consider "c = 34" | "c = 92" "r = []" | d s where "c = 92" "r = d # s" | "c \<noteq> 92" "c \<noteq> 34" by (cases r) auto
  then show ?case
  proof cases
    case 3
    with 2(1) [of d s] 2(3) show ?thesis by fastforce
  next
    case 4
    with 2(2) 2(3) show ?thesis by fastforce
  qed (use 2(3) in auto)
qed simp

lemma parse_string_data:
  "parse_string s = Inr (v, rest) \<Longrightarrow> s \<noteq> [] \<and> isWellFormed v \<and> length v + length rest + 2 \<le> length s"
  by (cases s) (auto simp: parse_string_def dest!: scan_string_length unescape_length split: option.splits prod.splits if_splits)

lemma parse_scalar_data: "parse_scalar s = Inr (v, rest) \<Longrightarrow> schema_data v \<and> weight v = 1"
  by (drule parse_scalar_Inr) (auto simp: literals_def)

lemma define_member_data:
  assumes "members_data ms" "isWellFormed k" "schema_data x" "SKey k \<notin> set (map fst (map (\<lambda>(k, x). (SKey k, Data True x)) ms))"
  obtains ns where "define_member (SKey k) x (map (\<lambda>(k, x). (SKey k, Data True x)) ms) = map (\<lambda>(k, x). (SKey k, Data True x)) ns"
    "members_data ns" "members_weight ns = length k + weight x + members_weight ms"
proof -
  obtain ns where ns: "define_member (SKey k) x (map (\<lambda>(k, x). (SKey k, Data True x)) ms) = map (\<lambda>(k, x). (SKey k, Data True x)) ns"
    "mset ns = add_mset (k, x) (mset ms)" using define_member_record by blast
  then have m: "mset ns = mset ((k, x) # ms)" by simp
  have "k \<notin> set (map fst ms)" using assms(4) unfolding record_keys by auto
  with assms(1) have "distinct (map fst ((k, x) # ms))" by (simp add: members_data_def)
  moreover have "mset (map fst ns) = mset (map fst ((k, x) # ms))" using m by (metis mset_map)
  ultimately have "distinct (map fst ns)" by (metis mset_eq_imp_distinct_iff)
  moreover have "set ns = set ((k, x) # ms)" using m by (rule mset_eq_setD)
  ultimately have "members_data ns" using assms(1-3) by (auto simp: members_data_def list_all_iff)
  moreover have "members_weight ns = length k + weight x + members_weight ms"
    using members_weight_mset [OF m] by (simp add: members_weight_def)
  ultimately show ?thesis using ns(1) that by blast
qed

lemma parse_data:
  "members_data ms \<Longrightarrow> parse_members fuel (map (\<lambda>(k, x). (SKey k, Data True x)) ms) s = Inr (v, rest) \<Longrightarrow>
     schema_data v \<and> weight v + length rest \<le> members_weight ms + length s"
  "list_all schema_data xs \<Longrightarrow> parse_items fuel xs s = Inr (v, rest) \<Longrightarrow>
     schema_data v \<and> weight v + length rest \<le> sum_list (map weight xs) + length s"
  "parse_value fuel s = Inr (v, rest) \<Longrightarrow> schema_data v \<and> weight v + length rest \<le> length s"
proof (induction fuel arbitrary: ms xs s v rest)
  case (Suc fuel)
  case 1
  let ?p = "map (\<lambda>(k, x). (SKey k, Data True x))"
  obtain key t1 t2 m t3 u t4 where s: "parse_string s = Inr (key, t1)" "SKey key \<notin> set (map fst (?p ms))"
    and t: "whitespace t1 = 58 # t2" "parse_value fuel t2 = Inr (m, t3)" "whitespace t3 = u # t4"
    and tail: "v = Obj ObjectProto (define_member (SKey key) m (?p ms)) \<and> rest = t4 \<or>
      parse_members fuel (define_member (SKey key) m (?p ms)) (whitespace t4) = Inr (v, rest)"
    using 1(2) unfolding parse_members_Inr by blast
  have key: "isWellFormed key" "length key + length t1 + 2 \<le> length s" using parse_string_data [OF s(1)] by simp_all
  have m: "schema_data m" "weight m + length t3 \<le> length t2" using Suc.IH(3) [OF t(2)] by simp_all
  obtain ns where ns: "define_member (SKey key) m (?p ms) = ?p ns" "members_data ns"
    "members_weight ns = length key + weight m + members_weight ms"
    using define_member_data [OF 1(1) key(1) m(1) s(2)] by blast
  have "members_weight ns + length t4 < members_weight ms + length s"
    using ns(3) key(2) m(2) whitespace_Cons_less [OF t(1)] whitespace_Cons_less [OF t(3)] by linarith
  with tail ns(1,2) Suc.IH(1) [OF ns(2), of "whitespace t4" v rest] whitespace_le [of t4] show ?case
    by (auto simp: record_of_def [symmetric])
next
  case (Suc fuel)
  case 2
  obtain m t3 u t4 where t: "parse_value fuel s = Inr (m, t3)" "whitespace t3 = u # t4"
    and tail: "v = arr (xs @ [m]) \<and> rest = t4 \<or> parse_items fuel (xs @ [m]) (whitespace t4) = Inr (v, rest)"
    using 2(2) unfolding parse_items_Inr by blast
  have m: "schema_data m" "weight m + length t3 \<le> length s" using Suc.IH(3) [OF t(1)] by simp_all
  with 2(1) have xs: "list_all schema_data (xs @ [m])" by simp
  from tail xs Suc.IH(2) [OF xs, of "whitespace t4" v rest] whitespace_le [of t4] whitespace_Cons_less [OF t(2)] m(2) show ?case
    by auto
next
  case (Suc fuel)
  case 3
  have nil: "members_data []" "members_weight [] = 0" by (simp_all add: members_data_def members_weight_def)
  have "schema_data v \<and> weight v + length rest \<le> length (whitespace s)" using 3 unfolding parse_value_Inr
  proof (elim disjE exE conjE)
    fix u r assume "whitespace s = u # r" "parse_members fuel [] (whitespace r) = Inr (v, rest)"
    with Suc.IH(1) [of "[]" "whitespace r" v rest] nil whitespace_le [of r] show ?thesis by simp
  next
    fix u r assume "whitespace s = u # r" "parse_items fuel [] (whitespace r) = Inr (v, rest)"
    with Suc.IH(2) [of "[]" "whitespace r" v rest] whitespace_le [of r] show ?thesis by simp
  next
    fix u r assume "whitespace s = u # r" "v = Obj ObjectProto []" "whitespace r = 125 # rest"
    with whitespace_Cons_less [of r 125 rest] show ?thesis by simp
  next
    fix u r assume "whitespace s = u # r" "v = arr []" "whitespace r = 93 # rest"
    with whitespace_Cons_less [of r 93 rest] show ?thesis by simp
  next
    fix u r assume "whitespace s = u # r" "parse_scalar (u # r) = Inr (v, rest)"
    with parse_scalar_data [of "u # r" v rest] parse_scalar_shorter [of "u # r" v rest] show ?thesis by simp
  next
    assume "whitespace s = []" "parse_scalar [] = Inr (v, rest)"
    with parse_scalar_shorter [of "[]" v rest] show ?thesis by simp
  qed (auto dest: parse_string_data)
  then show ?case using whitespace_le [of s] by simp
qed (simp_all add: parse_members.simps parse_items.simps parse_value.simps)


section \<open>The encoder accepts what the parser returns\<close>

lemma utf8_point_length: "length (utf8_point n) \<le> (if n < 65536 then 3 else 4)" "1 \<le> length (utf8_point n)"
  by (simp_all add: utf8_point_def)

lemma byteLength_bounds: "length s \<le> byteLength s \<and> byteLength s \<le> 3 * length s"
proof -
  have unit: "unit_point u < 65536" for u by (simp add: unit_point_def)
  have pair: "65536 \<le> pair_point u v" for u v by (simp add: pair_point_def)
  have four: "65536 \<le> n \<Longrightarrow> length (utf8_point n) = 4" for n by (simp add: utf8_point_def)
  have "length s \<le> length (concat (map utf8_point (code_points s))) \<and>
      length (concat (map utf8_point (code_points s))) \<le> 3 * length s"
  proof (induction s rule: code_points.induct)
    case (2 u)
    with utf8_point_length [of "unit_point u"] unit [of u] show ?case by simp
  next
    case (3 u v s)
    show ?case
    proof (cases "is_high u \<and> is_low v")
      case True
      with 3(1) four [OF pair [of u v]] show ?thesis by simp
    next
      case False
      with 3(2) utf8_point_length [of "unit_point u"] unit [of u] show ?thesis by auto
    qed
  qed simp
  then show ?thesis by (simp add: byteLength_def utf8_def)
qed

lemma weight_member: "x \<in> set xs \<Longrightarrow> weight x \<le> sum_list (map weight xs)"
  by (induction xs) auto

lemma length_weight: "length xs \<le> sum_list (map weight xs)"
proof (induction xs)
  case (Cons x xs)
  with weight_pos [of x] show ?case by simp
qed simp

lemma members_weight_member: "(k, x) \<in> set ms \<Longrightarrow> length k + weight x \<le> members_weight ms"
  by (induction ms) (auto simp: members_weight_def)

lemma length_members_weight: "length ms \<le> members_weight ms"
proof (induction ms)
  case (Cons m ms)
  with weight_pos [of "snd m"] show ?case by (simp add: members_weight_def case_prod_unfold)
qed simp

lemma list_all2_total: "(\<And>x. x \<in> set xs \<Longrightarrow> \<exists>y. P x y) \<Longrightarrow> \<exists>ys. list_all2 P xs ys"
proof (induction xs)
  case (Cons x xs)
  then obtain ys where "list_all2 P xs ys" by force
  moreover obtain y where "P x y" using Cons.prems by force
  ultimately show ?case by (intro exI [of _ "y # ys"]) simp
qed auto

lemma binary_total: "isWellFormed s \<Longrightarrow> length s < 1073741824 \<Longrightarrow> \<exists>b. binary s = Inr b"
  using byteLength_bounds [of s] by (simp add: binary_iff)

lemma encode_total: "json v \<Longrightarrow> schema_data v \<Longrightarrow> weight v \<le> 1073741824 \<Longrightarrow> \<exists>a. encode v = Inr a"
proof (induction rule: json_induct)
  case (Str s)
  then show ?case using binary_total by simp
next
  case (Number n)
  then show ?case by (simp add: encode_int_def Let_def)
next
  case (arr xs)
  then have "\<exists>a. encode x = Inr a" if "x \<in> set xs" for x
    using that weight_member [OF that] by (intro arr.IH) (auto simp: list_all_iff)
  then obtain bs where bs: "list_all2 (\<lambda>x b. encode x = Inr b) xs bs"
    using list_all2_total [of xs "\<lambda>x b. encode x = Inr b"] by blast
  then have "length bs < 4294967296" using arr.prems(2) length_weight [of xs] list_all2_lengthD [OF bs] by simp
  then have "\<exists>a. term_list bs = Inr a" by (auto simp: term_list_iff)
  with bs show ?case unfolding encode_arr_iff by auto
next
  case (object ms)
  then have d: "members_data ms" and w: "Suc (members_weight ms) \<le> 1073741824" by simp_all
  have "\<exists>e. entry_of m e" if m: "m \<in> set ms" for m
  proof -
    obtain k x where kx: "m = (k, x)" by (cases m)
    with m d have kd: "isWellFormed k" "schema_data x" by (auto simp: members_data_def list_all_iff)
    have l: "length k + weight x < 1073741824" using members_weight_member [of k x ms] m kx w by simp
    obtain a where "encode x = Inr a" using object.IH [of k x] m kx kd(2) l by auto
    moreover obtain b where "binary k = Inr b" using binary_total [OF kd(1)] l by auto
    ultimately show ?thesis by (intro exI [of _ "(b, a)"]) (simp add: entry_of_def kx)
  qed
  then obtain es where es: "list_all2 entry_of ms es" using list_all2_total [of ms entry_of] by blast
  then have "length es < 4294967296" using w length_members_weight [of ms] list_all2_lengthD [OF es] by simp
  then have "\<exists>b. term_list (map (\<lambda>(k, x). tuple [k, x]) (sort_key fst es)) = Inr b" by (auto simp: term_list_iff)
  with es show ?case unfolding record_bytes_iff by blast
qed simp_all

lemma fatal_decode_length: "fatal_decode bytes = Some text \<Longrightarrow> length text \<le> length bytes"
  using byteLength_bounds [of "utf8_decode bytes"]
  by (auto simp: fatal_decode_def Let_def byteLength_def split: if_splits list.splits)

lemma parseSchemaJson_data:
  assumes "parseSchemaJson bytes = Inr v"
  shows "schema_data v" "weight v \<le> length bytes"
proof -
  obtain chars rest where "fatal_decode bytes = Some chars" "parse_value (Suc (2 * length chars)) chars = Inr (v, rest)"
    using assms by (auto simp: parseSchemaJson_def split: option.splits sum.splits prod.splits if_splits)
  with parse_data(3) fatal_decode_length show "schema_data v" "weight v \<le> length bytes" by fastforce+
qed

lemma parseSchemaJson_fuel: "parseSchemaJson bytes \<noteq> Inl Out_of_fuel"
  using enough_fuel(3) by (auto simp: parseSchemaJson_def split: option.splits sum.splits prod.splits)

end
