(* ===== verification/Contract_Manifest.thy ===== *)
theory Contract_Manifest
  imports Schema_JSON
begin

text \<open>
  The contract manifest and the identity gate (\<open>contract-manifest.mjs\<close>): the closed top-level
  recipe of a manifest, its inventories and definitions, the references between definitions, and
  the comparison of a server's identity with the pinned one.  Each \<open>throw\<close> is a value of
  \<open>manifest_error\<close>.
\<close>

datatype manifest_error = Schema_refused schema_error | Bytes_refused encode_error | Invalid_manifest | Invalid_inventory
  | Missing_definitions | Incomplete_definitions | Missing_nested | Invalid_reference | Unresolved_reference | Member_of_null

section \<open>The identity gate\<close>

definition hex_unit :: "code_unit \<Rightarrow> bool" where
  "hex_unit u \<longleftrightarrow> (48 \<le> unat u \<and> unat u \<le> 57) \<or> (97 \<le> unat u \<and> unat u \<le> 102)"

text \<open>\<open>typeof value === "string" && /^[0-9a-f]{64}$/.test(value)\<close>\<close>

definition digest_text :: "jsval \<Rightarrow> bool" where
  "digest_text v = (case v of Str s \<Rightarrow> length s = 64 \<and> list_all hex_unit s | _ \<Rightarrow> False)"

definition matchesContractIdentity :: "jsval \<Rightarrow> jsval \<Rightarrow> bool" where
  "matchesContractIdentity reply expected \<longleftrightarrow>
     isObject reply \<and> plainProto reply \<and> isObject expected \<and> plainProto expected \<and>
     isString (mem expected ''generation'') \<and> digest_text (mem expected ''schemaDigest'') \<and>
     mem reply ''type'' = js ''initialized'' \<and>
     mem reply ''selected_generation'' = mem expected ''generation'' \<and>
     mem reply ''exact_schema_sha256'' = mem expected ''schemaDigest''"

definition foreground_contract :: jsval where
  "foreground_contract = obj [(''generation'', js ''loopex.experimental/3''),
     (''schemaDigest'', js ''1ae2d39c23036e0d6636e73358119def56bbf25f64365140f7ff6f12f2254151'')]"

definition daemon_contract :: jsval where
  "daemon_contract = obj [(''generation'', js ''loopex.experimental/4''),
     (''schemaDigest'', js ''bc3749d89204e1b4d5ad3b183058c650e17622750b84d39a4f53efe745ea0718'')]"

section \<open>The manifest\<close>

definition manifest_keys :: "string list" where
  "manifest_keys = [''generation'', ''canonicalization_revision'', ''methods'', ''record_families'', ''error_codes'', ''limits'', ''payload_definitions'']"

definition is_record :: "jsval \<Rightarrow> bool" where
  "is_record v \<longleftrightarrow> isObject v \<and> \<not> isArray v"

definition manifest_top :: "jsval \<Rightarrow> bool" where
  "manifest_top m \<longleftrightarrow> is_record m \<and> length (objectKeys m) = length manifest_keys \<and> list_all (hasOwn m) manifest_keys \<and>
     one_of (mem m ''generation'') [''loopex.experimental/3'', ''loopex.experimental/4''] \<and>
     mem m ''canonicalization_revision'' = js ''loopex.canonical.v1''"

definition inventory_ok :: "jsval \<Rightarrow> bool" where
  "inventory_ok v \<longleftrightarrow> isArray v \<and> elements v \<noteq> [] \<and> list_all isString (elements v) \<and> distinct (elements v)"

fun string_of :: "jsval \<Rightarrow> ustring" where
  "string_of (Str s) = s"
| "string_of _ = []"

definition sameKeys :: "jsval \<Rightarrow> ustring list \<Rightarrow> bool" where
  "sameKeys v ks \<longleftrightarrow> length (objectKeys v) = length ks \<and> list_all (hasOwnU v) ks"

definition objectValues :: "jsval \<Rightarrow> jsval list" where
  "objectValues v = List.map_filter (\<lambda>(k, p). if string_key k \<and> enumerable p then Some (read_prop p) else None) (own_props v)"

text \<open>\<open>values.some((value) => value.closed !== true)\<close>, which throws on \<open>null\<close>\<close>

fun closed_values :: "jsval list \<Rightarrow> manifest_error option" where
  "closed_values [] = None"
| "closed_values (v # vs) = (if v = Null \<or> v = Undefined then Some Member_of_null
     else if mem v ''closed'' \<noteq> Boolean True then Some Incomplete_definitions else closed_values vs)"

text \<open>\<open>value.split(".")\<close>\<close>

fun split_on :: "code_unit \<Rightarrow> ustring \<Rightarrow> ustring list" where
  "split_on c [] = [[]]"
| "split_on c (u # s) = (if u = c then [] # split_on c s else (u # hd (split_on c s)) # tl (split_on c s))"

fun walk :: "jsval \<Rightarrow> ustring list \<Rightarrow> manifest_error option" where
  "walk definition_here [] = None"
| "walk definition_here (k # ks) = (if \<not> is_record definition_here \<or> \<not> hasOwnU definition_here k then Some Unresolved_reference
     else walk (memU definition_here k) ks)"

definition resolve :: "jsval \<Rightarrow> jsval \<Rightarrow> manifest_error option" where
  "resolve nested ref = (case ref of Str s \<Rightarrow> walk nested (split_on 46 s) | _ \<Rightarrow> Some Invalid_reference)"

fun first_error :: "manifest_error option list \<Rightarrow> manifest_error option" where
  "first_error [] = None"
| "first_error (Some e # r) = Some e"
| "first_error (None # r) = first_error r"

text \<open>The recursive check of every reference below a value\<close>

fun references :: "jsval \<Rightarrow> jsval \<Rightarrow> manifest_error option" where
  "references nested (Obj p ps) =
     (case (if hasOwn (Obj p ps) ''definition_ref'' then resolve nested (mem (Obj p ps) ''definition_ref'') else None) of
        Some e \<Rightarrow> Some e
      | None \<Rightarrow> first_error (map (\<lambda>kq. case kq of (SKey k, Data e x) \<Rightarrow> if e then references nested x else None
          | (SKey k, Accessor e x) \<Rightarrow> if e then references nested x else None | (Sym n, q) \<Rightarrow> None) ps))"
| "references nested (Arr p sl ex) =
     (case first_error (map (\<lambda>s. case s of None \<Rightarrow> None | Some (Data e x) \<Rightarrow> if e then references nested x else None
          | Some (Accessor e x) \<Rightarrow> if e then references nested x else None) sl) of
        Some e \<Rightarrow> Some e
      | None \<Rightarrow> first_error (map (\<lambda>kq. case kq of (SKey k, Data e x) \<Rightarrow> if e then references nested x else None
          | (SKey k, Accessor e x) \<Rightarrow> if e then references nested x else None | (Sym n, q) \<Rightarrow> None) ex))"
| "references nested v = None"

definition check_definitions :: "jsval \<Rightarrow> manifest_error option" where
  "check_definitions m =
     (let defs = mem m ''payload_definitions''; methods = mem (mem defs ''requests'') ''methods''; records = mem defs ''records'' in
      if \<not> is_record (mem m ''limits'') \<or> \<not> is_record defs \<or> objectKeys defs = [] \<or> \<not> is_record methods \<or> \<not> is_record records
      then Some Missing_definitions
      else if \<not> sameKeys methods (lit ''initialize'' # map string_of (elements (mem m ''methods''))) \<or>
              \<not> sameKeys records (map string_of (elements (mem m ''record_families''))) then Some Incomplete_definitions
      else case closed_values (objectValues methods) of Some e \<Rightarrow> Some e
        | None \<Rightarrow> (case closed_values (objectValues records) of Some e \<Rightarrow> Some e
            | None \<Rightarrow> if \<not> is_record (mem defs ''nested'') then Some Missing_nested
                else references (mem defs ''nested'') defs))"

definition check_manifest :: "jsval \<Rightarrow> manifest_error option" where
  "check_manifest m =
     (if \<not> manifest_top m then Some Invalid_manifest
      else if \<not> list_all (\<lambda>key. inventory_ok (mem m key)) [''methods'', ''record_families'', ''error_codes''] then Some Invalid_inventory
      else check_definitions m)"

definition parseContractManifest :: "bytes \<Rightarrow> manifest_error + jsval" where
  "parseContractManifest bytes = (case parseSchemaJson bytes of Inl e \<Rightarrow> Inl (Schema_refused e)
     | Inr m \<Rightarrow> (case check_manifest m of Some e \<Rightarrow> Inl e
         | None \<Rightarrow> (case canonicalSchemaBytes m of Inl e \<Rightarrow> Inl (Bytes_refused e) | Inr bytes \<Rightarrow> Inr m)))"

section \<open>References\<close>

text \<open>The values inside a value, through the members and elements of parsed data\<close>

inductive inside :: "jsval \<Rightarrow> jsval \<Rightarrow> bool" where
  here: "inside v v"
| element: "x \<in> set xs \<Longrightarrow> inside x w \<Longrightarrow> inside (arr xs) w"
| member: "(k, x) \<in> set ms \<Longrightarrow> inside x w \<Longrightarrow> inside (record_of ms) w"

fun lookup_path :: "jsval \<Rightarrow> ustring list \<Rightarrow> jsval option" where
  "lookup_path v [] = Some v"
| "lookup_path v (k # ks) = (if is_record v \<and> hasOwnU v k then lookup_path (memU v k) ks else None)"

lemma walk_lookup: "walk v ks = None \<longleftrightarrow> lookup_path v ks \<noteq> None"
  by (induction ks arbitrary: v) auto

lemma first_error_None: "first_error es = None \<longleftrightarrow> set es \<subseteq> {None}"
  by (induction es rule: first_error.induct) auto

lemma references_record: "references nested (record_of ms) = None \<longleftrightarrow>
    (hasOwn (record_of ms) ''definition_ref'' \<longrightarrow> resolve nested (mem (record_of ms) ''definition_ref'') = None) \<and>
    (\<forall>(k, x) \<in> set ms. references nested x = None)"
proof -
  have "first_error (map (\<lambda>kq. case kq of (SKey k, Data e x) \<Rightarrow> if e then references nested x else None
      | (SKey k, Accessor e x) \<Rightarrow> if e then references nested x else None | (Sym n, q) \<Rightarrow> None)
      (map (\<lambda>(k, x). (SKey k, Data True x)) ms)) = None \<longleftrightarrow> (\<forall>(k, x) \<in> set ms. references nested x = None)"
    unfolding first_error_None by (auto simp: image_subset_iff)
  then show ?thesis unfolding record_of_def by (auto split: option.split simp del: map_map)
qed

lemma references_arr: "references nested (arr xs) = None \<longleftrightarrow> (\<forall>x \<in> set xs. references nested x = None)"
proof -
  have "first_error (map (\<lambda>s. case s of None \<Rightarrow> None | Some (Data e x) \<Rightarrow> if e then references nested x else None
      | Some (Accessor e x) \<Rightarrow> if e then references nested x else None) (map (\<lambda>x. Some (Data True x)) xs)) = None \<longleftrightarrow>
      (\<forall>x \<in> set xs. references nested x = None)"
    unfolding first_error_None by (auto simp: image_subset_iff)
  then show ?thesis unfolding arr_def by (auto split: option.split simp del: map_map)
qed

lemma references_inside:
  assumes "inside v w" "references nested v = None"
  shows "references nested w = None"
  using assms by (induction rule: inside.induct) (auto simp: references_record references_arr)


section \<open>What an accepted manifest is\<close>

lemma json_record: "json v \<Longrightarrow> is_record v \<Longrightarrow> \<exists>ms. v = record_of ms \<and> distinct (map fst ms)"
  by (cases rule: json_cases [of v]) (auto simp: is_record_def)

lemma sameKeys_exact:
  assumes "json v" "is_record v" "sameKeys v ks" "distinct ks"
  shows "set (objectKeys v) = set ks"
proof -
  obtain ms where ms: "v = record_of ms" "distinct (map fst ms)" using json_record assms(1,2) by blast
  have sub: "set ks \<subseteq> fst ` set ms" and len: "length ms = length ks"
    using assms(3) by (auto simp: ms(1) sameKeys_def list_all_iff)
  have "card (fst ` set ms) = length ms" using ms(2) by (metis distinct_card length_map set_map)
  with sub len assms(4) have "set ks = fst ` set ms" by (metis List.finite_set card_subset_eq distinct_card finite_imageI)
  then show ?thesis by (simp add: ms(1))
qed

lemma parseContractManifest_iff:
  "parseContractManifest bytes = Inr m \<longleftrightarrow>
     parseSchemaJson bytes = Inr m \<and> check_manifest m = None \<and> (\<exists>b. canonicalSchemaBytes m = Inr b)"
  by (auto simp: parseContractManifest_def split: sum.splits option.splits)

lemma check_manifest_iff:
  "check_manifest m = None \<longleftrightarrow> manifest_top m \<and> inventory_ok (mem m ''methods'') \<and> inventory_ok (mem m ''record_families'') \<and>
     inventory_ok (mem m ''error_codes'') \<and> check_definitions m = None"
  by (auto simp: check_manifest_def)

lemma guards_None:
  "(if \<not> a \<or> \<not> b \<or> p \<or> \<not> c \<or> \<not> d then Some x else if \<not> s \<or> \<not> t then Some y
    else case f of Some e \<Rightarrow> Some e | None \<Rightarrow> (case g of Some e \<Rightarrow> Some e | None \<Rightarrow> if \<not> n then Some z else r)) = None \<longleftrightarrow>
   a \<and> b \<and> \<not> p \<and> c \<and> d \<and> s \<and> t \<and> f = None \<and> g = None \<and> n \<and> r = None"
  by (cases f; cases g) auto

lemma check_definitions_iff:
  fixes m
  defines "defs \<equiv> mem m ''payload_definitions''"
  defines "methods \<equiv> mem (mem defs ''requests'') ''methods''" and "records \<equiv> mem defs ''records''"
  shows "check_definitions m = None \<longleftrightarrow>
     is_record (mem m ''limits'') \<and> is_record defs \<and> objectKeys defs \<noteq> [] \<and> is_record methods \<and> is_record records \<and>
     sameKeys methods (lit ''initialize'' # map string_of (elements (mem m ''methods''))) \<and>
     sameKeys records (map string_of (elements (mem m ''record_families''))) \<and>
     closed_values (objectValues methods) = None \<and> closed_values (objectValues records) = None \<and>
     is_record (mem defs ''nested'') \<and> references (mem defs ''nested'') defs = None"
  unfolding check_definitions_def Let_def defs_def [symmetric] methods_def [symmetric] records_def [symmetric]
  by (rule guards_None)

lemma closed_values_None: "closed_values vs = None \<longleftrightarrow> list_all (\<lambda>v. v \<noteq> Null \<and> v \<noteq> Undefined \<and> mem v ''closed'' = Boolean True) vs"
  by (induction vs) auto

lemma inventory_distinct: "inventory_ok v \<Longrightarrow> distinct (map string_of (elements v))"
proof -
  assume v: "inventory_ok v"
  have "inj_on string_of {v. isString v}" by (auto simp: inj_on_def isString_iff)
  with v show ?thesis by (auto simp: inventory_ok_def distinct_map list_all_iff elim: inj_on_subset)
qed

lemma fatal_decode_lit: "fatal_decode (utf8 (lit s)) = Some (lit s)"
proof -
  have d: "utf8_decode (utf8 (lit s)) = lit s" by simp
  have "unit_of_char c \<noteq> 65279" for c
  proof
    assume "unit_of_char c = 65279"
    then have "unat (unit_of_char c) = 65279" by simp
    then show False using nat_of_char_less_256 [of c] by simp
  qed
  then show ?thesis unfolding fatal_decode_def Let_def d by (cases s) (simp_all add: lit_def)
qed

lemma small_schema: "parseSchemaJson (utf8 (lit ''null'')) = Inr Null"
proof -
  have "parse_value (Suc 8) (lit ''null'') = Inr (Null, [])"
    unfolding parse_value.simps
    by (simp add: whitespace_def is_space_def parse_scalar_def literals_def starts_def lit_def unit_of_char_def)
  then show ?thesis by (simp add: parseSchemaJson_def fatal_decode_lit whitespace_def)
qed

lemma split_on_lit: "CHR ''.'' \<notin> set s \<Longrightarrow> split_on 46 (lit s) = [lit s]"
proof -
  have dot: "unit_of_char CHR ''.'' = 46" by (simp add: unit_of_char_def)
  show "CHR ''.'' \<notin> set s \<Longrightarrow> split_on 46 (lit s) = [lit s]"
    by (induction s) (auto simp: lit_def dot [symmetric])
qed

text \<open>A small manifest with one method, one record family and one reference\<close>

definition sample_manifest :: "jsval list \<Rightarrow> (string \<times> jsval) list \<Rightarrow> jsval" where
  "sample_manifest methods definitions = written
     [(''generation'', js ''loopex.experimental/3''), (''canonicalization_revision'', js ''loopex.canonical.v1''),
      (''methods'', arr methods), (''record_families'', arr [js ''event'']), (''error_codes'', arr [js ''invalid_request'']),
      (''limits'', written []),
      (''payload_definitions'', written
        [(''requests'', written [(''methods'', written definitions)]),
         (''records'', written [(''event'', written [(''closed'', Boolean True), (''definition_ref'', js ''identity'')])]),
         (''nested'', written [(''identity'', written [])])])]"

definition closed_definition :: jsval where
  "closed_definition = written [(''closed'', Boolean True)]"

lemma written_reads:
  "mem (written ms) k = (case map_of ms k of None \<Rightarrow> Undefined | Some x \<Rightarrow> x)" "hasOwn (written ms) k \<longleftrightarrow> k \<in> fst ` set ms"
  "objectKeys (written ms) = map (\<lambda>(k, x). lit k) ms" "is_record (written ms)" "objectValues (written ms) = map snd ms"
  "written ms \<noteq> Null" "written ms \<noteq> Undefined"
  "references n (written ms) = None \<longleftrightarrow> (''definition_ref'' \<in> fst ` set ms \<longrightarrow> resolve n (mem (written ms) ''definition_ref'') = None) \<and>
     (\<forall>(k, x) \<in> set ms. references n x = None)"
proof -
  show m: "mem (written ms) k = (case map_of ms k of None \<Rightarrow> Undefined | Some x \<Rightarrow> x)" for k
    by (simp add: written_def map_of_inj_key)
  show h: "hasOwn (written ms) k \<longleftrightarrow> k \<in> fst ` set ms" for k
    by (auto simp: written_def image_iff split_beta) 
  show "objectKeys (written ms) = map (\<lambda>(k, x). lit k) ms" by (simp add: written_def comp_def split_beta)
  show "written ms \<noteq> Null" "written ms \<noteq> Undefined" by (simp_all add: written_def)
  show "is_record (written ms)" by (simp add: written_def is_record_def)
  show "objectValues (written ms) = map snd ms"
    unfolding written_def objectValues_def own_props_record by (induction ms) (auto simp: map_filter_simps)
  show "references n (written ms) = None \<longleftrightarrow> (''definition_ref'' \<in> fst ` set ms \<longrightarrow> resolve n (mem (written ms) ''definition_ref'') = None) \<and>
     (\<forall>(k, x) \<in> set ms. references n x = None)"
    using h [of "''definition_ref''"] unfolding written_def references_record by auto
qed

lemma sample_manifest_accepted:
  assumes "methods = [js ''status''] \<and> keys = [''initialize'', ''status''] \<or>
     methods = [js ''initialize'', js ''status''] \<and> keys = [''initialize'', ''status'', ''undeclared'']"
  shows "check_manifest (sample_manifest methods (map (\<lambda>n. (n, closed_definition)) keys)) = None"
  using assms
  by (elim disjE) (simp_all add: check_manifest_iff check_definitions_iff sample_manifest_def manifest_top_def manifest_keys_def
      inventory_ok_def sameKeys_def closed_definition_def closed_values_None one_of_def written_reads references_arr resolve_def
      split_on_lit)


lemma json_written: "distinct (map fst ms) \<Longrightarrow> list_all (\<lambda>(k, x). json x) ms \<Longrightarrow> json (written ms)"
  by (auto simp: written_def list_all_iff comp_def split_beta distinct_map inj_on_def)

lemma sample_manifest_json: "list_all json methods \<Longrightarrow> distinct keys \<Longrightarrow> json (sample_manifest methods (map (\<lambda>n. (n, closed_definition)) keys))"
  unfolding sample_manifest_def closed_definition_def
  by (intro json_written) (auto intro!: json_written simp: comp_def list_all_iff)

text \<open>C9. The schema parser returns for every input: its fuel, twice the length of the text, is never used up.  What it returns is
  schema data, with distinct members, safe integers and well-formed text, and the canonical encoder accepts it (for inputs below a
  gigabyte).\<close>

theorem schema_parser_total:
  "parseSchemaJson bytes \<noteq> Inl Out_of_fuel \<and>
   (\<forall>v. parseSchemaJson bytes = Inr v \<and> length bytes \<le> 1073741824 \<longrightarrow> schema_data v \<and> (\<exists>b. canonicalSchemaBytes v = Inr b))"
proof (intro conjI allI impI parseSchemaJson_fuel)
  fix v assume v: "parseSchemaJson bytes = Inr v \<and> length bytes \<le> 1073741824"
  then show "schema_data v" using parseSchemaJson_data by blast
  with v show "\<exists>b. canonicalSchemaBytes v = Inr b"
    using encode_total [of v] schema_data_json [of v] parseSchemaJson_data [of bytes v] by (auto simp: canonicalSchemaBytes_def)
qed

theorem schema_parser_total_witness: "schema_data Null \<and> (\<exists>b. canonicalSchemaBytes Null = Inr b)"
  using schema_parser_total [of "utf8 (lit ''null'')"] small_schema byteLength_lit [of "''null''"] by (simp add: byteLength_def)

text \<open>C4. An accepted manifest is exactly covered: each of its three inventories is a list of strings, not empty and without a repeated
  name; the record definitions are those of the inventory; the request definitions are \<open>initialize\<close> and the methods of the inventory (when
  the inventory does not repeat \<open>initialize\<close>); every request and every record definition is closed; and every reference inside the
  definitions leads to a nested definition.\<close>

theorem manifest_covered:
  assumes "json m" "check_manifest m = None"
    and "defs = mem m ''payload_definitions''" "methods = mem (mem defs ''requests'') ''methods''"
  shows "list_all (\<lambda>key. isArray (mem m key) \<and> elements (mem m key) \<noteq> [] \<and> list_all isString (elements (mem m key)) \<and>
        distinct (elements (mem m key))) [''methods'', ''record_families'', ''error_codes''] \<and>
    set (objectKeys (mem defs ''records'')) = set (map string_of (elements (mem m ''record_families''))) \<and>
    (js ''initialize'' \<notin> set (elements (mem m ''methods'')) \<longrightarrow>
      set (objectKeys methods) = insert (lit ''initialize'') (set (map string_of (elements (mem m ''methods''))))) \<and>
    list_all (\<lambda>v. mem v ''closed'' = Boolean True) (objectValues methods) \<and>
    list_all (\<lambda>v. mem v ''closed'' = Boolean True) (objectValues (mem defs ''records'')) \<and>
    (\<forall>w. inside defs w \<longrightarrow> json w \<longrightarrow> is_record w \<longrightarrow> hasOwn w ''definition_ref'' \<longrightarrow>
      (\<exists>s. mem w ''definition_ref'' = Str s \<and> lookup_path (mem defs ''nested'') (split_on 46 s) \<noteq> None))"
proof -
  note j = assms(1)
  note c = assms(2) [unfolded check_manifest_iff check_definitions_iff, folded assms(3), folded assms(4)]
  have member: "json (mem v k)" if "json v" "is_record (mem v k)" for v k
    using json_memU [OF that(1)] that(2) by (metis is_record_def isObject.simps(4))
  have defs: "json defs" using member [OF j, of "''payload_definitions''"] c assms(3) by blast
  have recs: "json (mem defs ''records'')" using member [OF defs] c by blast
  have "mem defs ''requests'' \<noteq> Undefined" using c assms(4) by (auto simp: is_record_def)
  then have reqs: "json (mem defs ''requests'')" using json_memU [OF defs] by blast
  then have meths: "json methods" using member [OF reqs, of "''methods''"] c assms(4) by simp
  show ?thesis
  proof (intro conjI impI allI)
    show "set (objectKeys (mem defs ''records'')) = set (map string_of (elements (mem m ''record_families'')))"
      using sameKeys_exact [OF recs] inventory_distinct c by blast
    assume "js ''initialize'' \<notin> set (elements (mem m ''methods''))"
    then have "distinct (lit ''initialize'' # map string_of (elements (mem m ''methods'')))"
      using inventory_distinct [of "mem m ''methods''"] c by (auto simp: inventory_ok_def list_all_iff isString_iff)
    with sameKeys_exact [OF meths] c
    show "set (objectKeys methods) = insert (lit ''initialize'') (set (map string_of (elements (mem m ''methods''))))" by fastforce
  next
    fix w assume w: "inside defs w" "json w" "is_record w" "hasOwn w ''definition_ref''"
    obtain ms where ms: "w = record_of ms" using json_record w(2,3) by blast
    have "references (mem defs ''nested'') w = None" using references_inside [OF w(1)] c by blast
    with w(4) have "resolve (mem defs ''nested'') (mem w ''definition_ref'') = None" unfolding ms references_record by blast
    then show "\<exists>s. mem w ''definition_ref'' = Str s \<and> lookup_path (mem defs ''nested'') (split_on 46 s) \<noteq> None"
      by (auto simp: resolve_def walk_lookup split: jsval.splits)
  qed (use c in \<open>auto simp: closed_values_None list_all_iff inventory_ok_def\<close>)
qed



theorem manifest_covered_witness:
  "set (objectKeys (mem (mem (mem (sample_manifest [js ''status''] [(''initialize'', closed_definition), (''status'', closed_definition)])
     ''payload_definitions'') ''requests'') ''methods'')) = {lit ''initialize'', lit ''status''}"
proof -
  let ?m = "sample_manifest [js ''status''] (map (\<lambda>n. (n, closed_definition)) [''initialize'', ''status''])"
  have "json ?m" by (intro sample_manifest_json) simp_all
  from manifest_covered [OF this sample_manifest_accepted refl refl] show ?thesis
    by (simp add: sample_manifest_def written_reads)
qed

text \<open>C40. The coverage check counts keys: a manifest whose inventory repeats \<open>initialize\<close> is accepted with a request definition
  that no inventory names.\<close>

theorem repeated_initialize_hides_method:
  "\<exists>m defs. json m \<and> check_manifest m = None \<and> defs = mem (mem (mem m ''payload_definitions'') ''requests'') ''methods'' \<and>
     hasOwn defs ''undeclared'' \<and> js ''undeclared'' \<notin> set (elements (mem m ''methods''))"
proof (intro exI conjI)
  let ?m = "sample_manifest [js ''initialize'', js ''status''] (map (\<lambda>n. (n, closed_definition)) [''initialize'', ''status'', ''undeclared''])"
  show "json ?m" by (intro sample_manifest_json) simp_all
  show "check_manifest ?m = None" by (rule sample_manifest_accepted) simp
  show "hasOwn (mem (mem (mem ?m ''payload_definitions'') ''requests'') ''methods'') ''undeclared''"
    "js ''undeclared'' \<notin> set (elements (mem ?m ''methods''))" by (simp_all add: sample_manifest_def written_reads)
qed (rule refl)

text \<open>The identity gate is exact: an object passes for a pinned contract just when its type, generation and digest are the pinned
  ones, and no reply passes for both the foreground and the daemon contract.\<close>

theorem identity_gate_exact:
  "(matchesContractIdentity (obj ms) foreground_contract \<longleftrightarrow> map_of ms ''type'' = Some (js ''initialized'') \<and>
     map_of ms ''selected_generation'' = Some (mem foreground_contract ''generation'') \<and>
     map_of ms ''exact_schema_sha256'' = Some (mem foreground_contract ''schemaDigest'')) \<and>
   \<not> (matchesContractIdentity reply foreground_contract \<and> matchesContractIdentity reply daemon_contract)"
proof
  have d: "mem foreground_contract ''schemaDigest'' = js ''1ae2d39c23036e0d6636e73358119def56bbf25f64365140f7ff6f12f2254151''"
    by (simp add: foreground_contract_def mem_obj)
  have "digest_text (mem foreground_contract ''schemaDigest'')"
    unfolding d by (simp add: digest_text_def lit_def unit_of_char_def hex_unit_def)
  moreover have "isObject foreground_contract" "plainProto foreground_contract" "isString (mem foreground_contract ''generation'')"
    "mem foreground_contract ''generation'' \<noteq> Undefined" "mem foreground_contract ''schemaDigest'' \<noteq> Undefined"
    by (simp_all add: foreground_contract_def member_simps)
  ultimately show "matchesContractIdentity (obj ms) foreground_contract \<longleftrightarrow> map_of ms ''type'' = Some (js ''initialized'') \<and>
     map_of ms ''selected_generation'' = Some (mem foreground_contract ''generation'') \<and>
     map_of ms ''exact_schema_sha256'' = Some (mem foreground_contract ''schemaDigest'')"
    by (auto simp: matchesContractIdentity_def member_simps split: option.splits)
  have "mem foreground_contract ''generation'' \<noteq> mem daemon_contract ''generation''"
    by (simp add: foreground_contract_def daemon_contract_def member_simps)
  then show "\<not> (matchesContractIdentity reply foreground_contract \<and> matchesContractIdentity reply daemon_contract)"
    by (auto simp: matchesContractIdentity_def)
qed

end
