(* ===== verification/Client_State.thy ===== *)
theory Client_State
  imports Public_Records Contract_Manifest
begin

text \<open>
  The state of a connection and what it does to the outside, shared by the foreground client
  (\<open>loopex-client.mjs\<close>) and the daemon client (\<open>daemon-client.mjs\<close>), which keep the same fields.

  A promise is represented by what settles it: the continuation of \<open>await answer\<close> in \<open>request\<close> is a
  \<open>call\<close>, kept in \<open>pending\<close> until a reply resolves or the end of the process rejects it; a resolved
  call stands in \<open>ready\<close> until the event loop runs it, which is after the handler that resolved it has
  returned.  The order of outputs is the order of the effects.
\<close>

datatype initialization = Uninitialized | Negotiating | Verified | Refused

text \<open>What a request remembers across its \<open>await\<close>: whether it is \<open>initialize\<close>, and the prior state\<close>

record call =
  initializing :: bool
  prior :: initialization

record waiter =
  predicate :: "jsval \<Rightarrow> bool"
  timer :: nat

record connection =
  buffer :: ustring
  pending :: "(ustring \<times> call) list"
  ready :: "(ustring \<times> call \<times> jsval) list"
  events :: "jsval list"
  progress :: "jsval list"
  uncorrelated :: "jsval list"
  waiters :: "waiter list"
  closed :: bool
  nextRequest :: nat
  nextTimer :: nat
  initialization :: initialization
  limits :: jsval
  schemaDigest :: jsval
  supported :: jsval

datatype client_error = Connection_closed | Envelope_overridden | Unverified | Already_negotiating | Not_serialisable
  | Newline_in_frame | Identity_mismatch | Peer_ended | Wait_expired | Initialization_refused jsval

datatype effect = Sent ustring ustring ustring
  | Thrown client_error
  | Resolved ustring jsval
  | Rejected ustring client_error
  | Woken nat jsval
  | Expired nat
  | Found jsval
  | Input_ended
  | Process_killed

text \<open>An exception that leaves a data handler: malformed text, a member of \<open>null\<close>, or a refused record\<close>

datatype failure = Syntax_failure | Null_record | Record_failure record_error

definition initial :: connection where
  "initial = \<lparr>buffer = [], pending = [], ready = [], events = [], progress = [], uncorrelated = [], waiters = [], closed = False,
     nextRequest = 0, nextTimer = 0, initialization = Uninitialized, limits = Undefined, schemaDigest = Undefined, supported = Undefined\<rparr>"

text \<open>\<open>buffer.indexOf("\n")\<close> with the two slices around it\<close>

fun split_line :: "ustring \<Rightarrow> (ustring \<times> ustring) option" where
  "split_line [] = None"
| "split_line (u # s) = (if u = 10 then Some ([], s) else map_option (\<lambda>(line, rest). (u # line, rest)) (split_line s))"

text \<open>The frame of a request: \<open>JSON.stringify({ ...fields, method, request_id })\<close>\<close>

definition frame_of :: "ustring \<Rightarrow> jsval \<Rightarrow> ustring \<Rightarrow> ustring option" where
  "frame_of name members request_id = stringify (with_members (spread members) [(''method'', Str name), (''request_id'', Str request_id)])"

section \<open>Framing\<close>

lemma split_line_iff: "split_line s = Some (line, rest) \<longleftrightarrow> 10 \<notin> set line \<and> s = line @ 10 # rest"
proof (induction s arbitrary: line)
  case (Cons u s)
  show ?case
  proof (cases "u = 10")
    case True
    then show ?thesis by (cases line) auto
  next
    case False
    then show ?thesis using Cons.IH by (cases line) auto
  qed
qed simp

lemma split_line_None: "split_line s = None \<longleftrightarrow> 10 \<notin> set s"
  by (induction s) auto

lemma split_line_append: "split_line s = Some (line, rest) \<Longrightarrow> split_line (s @ t) = Some (line, rest @ t)"
  by (simp add: split_line_iff)

section \<open>Settlement\<close>

text \<open>The identities of requests sent and settled, in order\<close>

fun sent_id :: "effect \<Rightarrow> ustring option" where
  "sent_id (Sent i m f) = Some i"
| "sent_id _ = None"

fun settled_id :: "effect \<Rightarrow> ustring option" where
  "settled_id (Resolved i v) = Some i"
| "settled_id (Rejected i e) = Some i"
| "settled_id _ = None"

definition sent :: "effect list \<Rightarrow> ustring list" where
  "sent os = List.map_filter sent_id os"

definition settled :: "effect list \<Rightarrow> ustring list" where
  "settled os = List.map_filter settled_id os"

lemma sent_simps [simp]: "sent [] = []" "sent (x # os) = (case sent_id x of None \<Rightarrow> sent os | Some i \<Rightarrow> i # sent os)"
  "sent (os @ ps) = sent os @ sent ps"
  by (simp_all add: sent_def map_filter_simps List.map_filter_def split: option.split)

lemma settled_simps [simp]: "settled [] = []" "settled (x # os) = (case settled_id x of None \<Rightarrow> settled os | Some i \<Rightarrow> i # settled os)"
  "settled (os @ ps) = settled os @ settled ps"
  by (simp_all add: settled_def map_filter_simps List.map_filter_def split: option.split)


section \<open>Runs of a client\<close>

text \<open>
  What the environment and the program using the client can do.  The event loop starts a handler of
  the stream, of a timer or of the end of the process only when no continuation is ready.
\<close>

datatype action = Ask ustring jsval | Await "jsval \<Rightarrow> bool" | Chunk ustring | Expire nat | End | Close | Kill | Continue

fun enabled :: "action \<Rightarrow> connection \<Rightarrow> bool" where
  "enabled (Chunk s) c \<longleftrightarrow> ready c = []"
| "enabled (Expire t) c \<longleftrightarrow> ready c = []"
| "enabled End c \<longleftrightarrow> ready c = []"
| "enabled _ c \<longleftrightarrow> True"

type_synonym client = "action \<Rightarrow> connection \<Rightarrow> connection \<times> effect list \<times> failure option"

inductive run :: "client \<Rightarrow> connection \<Rightarrow> effect list \<Rightarrow> bool" for act where
  start: "run act initial []"
| step: "run act c log \<Longrightarrow> enabled a c \<Longrightarrow> act a c = (c', outs, None) \<Longrightarrow> run act c' (log @ outs)"

definition open_ids :: "connection \<Rightarrow> ustring list" where
  "open_ids c = map fst (pending c) @ map fst (ready c)"

text \<open>A verified connection holds the pinned digest, now or as the state an initialization falls back to\<close>

definition priors :: "connection \<Rightarrow> initialization set" where
  "priors c = (prior \<circ> snd) ` set (pending c) \<union> (prior \<circ> fst \<circ> snd) ` set (ready c)"

definition pinned :: "jsval \<Rightarrow> connection \<Rightarrow> bool" where
  "pinned contract c \<longleftrightarrow> Verified \<in> insert (initialization c) (priors c) \<longrightarrow> schemaDigest c = mem contract ''schemaDigest''"

section \<open>The interfaces\<close>

text \<open>Reading lines: the loop over the buffer and a delivery that leaves the buffer alone\<close>

locale line_reader =
  fixes deliver :: "jsval \<Rightarrow> connection \<Rightarrow> connection \<times> effect list \<times> failure option"
    and absorb_lines :: "connection \<Rightarrow> connection \<times> effect list \<times> failure option"
    and parse :: "ustring \<Rightarrow> jsval option"
  assumes absorb_lines_loop: "absorb_lines c = (case split_line (buffer c) of None \<Rightarrow> (c, [], None)
     | Some (line, rest) \<Rightarrow> let c = c\<lparr>buffer := rest\<rparr> in
         if line = [] then absorb_lines c
         else (case parse line of None \<Rightarrow> (c, [], Some Syntax_failure)
           | Some item \<Rightarrow> (case deliver item c of (c', outs, Some e) \<Rightarrow> (c', outs, Some e)
               | (c', outs, None) \<Rightarrow> let (c'', more, e) = absorb_lines c' in (c'', outs @ more, e))))"
    and deliver_frame: "deliver item (c\<lparr>buffer := b\<rparr>) = (case deliver item c of (c', outs, e) \<Rightarrow> (c'\<lparr>buffer := b\<rparr>, outs, e))"
begin

lemma deliver_keeps: "deliver item c = (c', outs, e) \<Longrightarrow> buffer c' = buffer c"
  using deliver_frame [of item "buffer c" c] by (auto dest: arg_cong [where f = buffer])

text \<open>A line that is complete is handled whatever follows it\<close>

lemma absorb_append:
  "absorb_lines (c\<lparr>buffer := buffer c @ s\<rparr>) = (case absorb_lines c of
     (c', outs, Some e) \<Rightarrow> (c'\<lparr>buffer := buffer c' @ s\<rparr>, outs, Some e)
   | (c', outs, None) \<Rightarrow> let (c'', more, e) = absorb_lines (c'\<lparr>buffer := buffer c' @ s\<rparr>) in (c'', outs @ more, e))"
proof (induction "length (buffer c)" arbitrary: c rule: less_induct)
  case less
  show ?case
  proof (cases "split_line (buffer c)")
    case None
    then show ?thesis by (simp add: absorb_lines_loop [of c] case_prod_unfold)
  next
    case (Some p)
    obtain line rest where p: "p = (line, rest)" by (cases p)
    let ?c = "c\<lparr>buffer := rest\<rparr>"
    have short: "length (buffer ?c) < length (buffer c)" using Some p by (simp add: split_line_iff)
    have split: "split_line (buffer c @ s) = Some (line, rest @ s)" using Some p by (simp add: split_line_append)
    show ?thesis
    proof (cases "line = []")
      case True
      have "absorb_lines c = absorb_lines ?c" using Some p True by (subst absorb_lines_loop) simp
      moreover have "absorb_lines (c\<lparr>buffer := buffer c @ s\<rparr>) = absorb_lines (?c\<lparr>buffer := buffer ?c @ s\<rparr>)"
        using split True by (subst absorb_lines_loop) simp
      ultimately show ?thesis using less [OF short] by simp
    next
      case False
      show ?thesis
      proof (cases "parse line")
        case None
        with Some p False split show ?thesis by (simp add: absorb_lines_loop [of c] absorb_lines_loop [of "c\<lparr>buffer := buffer c @ s\<rparr>"])
      next
        case (Some item)
        obtain c1 outs e where d: "deliver item ?c = (c1, outs, e)" by (cases "deliver item ?c")
        have d': "deliver item (c\<lparr>buffer := rest @ s\<rparr>) = (c1\<lparr>buffer := rest @ s\<rparr>, outs, e)"
          using deliver_frame [of item "rest @ s" ?c] d by simp
        have b: "buffer c1 = rest" using deliver_keeps [OF d] by simp
        with short have "length (buffer c1) < length (buffer c)" by simp
        note IH = less [OF this]
        have one: "absorb_lines c = (case e of Some e \<Rightarrow> (c1, outs, Some e)
            | None \<Rightarrow> let (c'', more, e) = absorb_lines c1 in (c'', outs @ more, e))"
          using \<open>split_line (buffer c) = Some p\<close> p False Some d by (subst absorb_lines_loop) (simp split: option.split)
        have two: "absorb_lines (c\<lparr>buffer := buffer c @ s\<rparr>) = (case e of Some e \<Rightarrow> (c1\<lparr>buffer := rest @ s\<rparr>, outs, Some e)
            | None \<Rightarrow> let (c'', more, e) = absorb_lines (c1\<lparr>buffer := rest @ s\<rparr>) in (c'', outs @ more, e))"
          using split False Some d' by (subst absorb_lines_loop) (simp split: option.split)
        show ?thesis unfolding one two using IH b
          by (cases e) (auto simp: case_prod_unfold Let_def split: option.split prod.split)
      qed
    qed
  qed
qed

end


text \<open>
  One action of a session client: requests are accounted for, their identities are fresh, session
  requests pass the gate, and the end of the peer leaves nothing pending.
\<close>

definition accounted :: "connection \<Rightarrow> effect list \<Rightarrow> connection \<Rightarrow> bool" where
  "accounted c outs c' \<longleftrightarrow> (distinct (map fst (pending c)) \<longrightarrow>
     mset (sent outs) + mset (open_ids c) = mset (settled outs) + mset (open_ids c'))"

definition fresh_ids :: "string \<Rightarrow> nat \<Rightarrow> nat \<Rightarrow> ustring set" where
  "fresh_ids prefix m n = (\<lambda>k. lit prefix @ dec k) ` {m..<n}"

definition numbered :: "string \<Rightarrow> connection \<Rightarrow> effect list \<Rightarrow> connection \<Rightarrow> bool" where
  "numbered prefix c outs c' \<longleftrightarrow> nextRequest c \<le> nextRequest c' \<and> distinct (sent outs) \<and>
     set (sent outs) \<subseteq> fresh_ids prefix (nextRequest c) (nextRequest c')"

definition gated :: "connection \<Rightarrow> effect list \<Rightarrow> bool" where
  "gated c outs \<longleftrightarrow> (\<forall>i m f. Sent i m f \<in> set outs \<longrightarrow> \<not> closed c \<and> (m = lit ''initialize'' \<or> initialization c = Verified))"

locale session_client =
  fixes act :: client and contract :: jsval and prefix :: string
  assumes act_accounted: "act a c = (c', outs, None) \<Longrightarrow> accounted c outs c'"
    and act_numbered: "act a c = (c', outs, None) \<Longrightarrow> numbered prefix c outs c'"
    and act_gated: "act a c = (c', outs, None) \<Longrightarrow> gated c outs"
    and act_pinned: "pinned contract c \<Longrightarrow> act a c = (c', outs, None) \<Longrightarrow> pinned contract c'"
    and act_ends: "act End c = (c', outs, e) \<Longrightarrow> e = None \<and> closed c' \<and> pending c' = [] \<and> ready c' = ready c"
begin

lemma run_accounted:
  assumes "run act c log"
  shows "distinct (sent log) \<and> set (sent log) \<subseteq> fresh_ids prefix 0 (nextRequest c) \<and>
    mset (sent log) = mset (settled log) + mset (open_ids c)"
  using assms
proof (induction rule: run.induct)
  case start
  show ?case by (simp add: initial_def open_ids_def)
next
  case (step c log a c' outs)
  have n: "nextRequest c \<le> nextRequest c'" "distinct (sent outs)" "set (sent outs) \<subseteq> fresh_ids prefix (nextRequest c) (nextRequest c')"
    using act_numbered [OF step.hyps(3)] by (simp_all add: numbered_def)
  have "fresh_ids prefix 0 (nextRequest c) \<inter> fresh_ids prefix (nextRequest c) (nextRequest c') = {}" by (auto simp: fresh_ids_def)
  with step.IH n have d: "distinct (sent (log @ outs))" by auto
  have sub: "set (sent (log @ outs)) \<subseteq> fresh_ids prefix 0 (nextRequest c')"
    using step.IH n by (auto simp: fresh_ids_def image_iff subset_iff)
  have "mset (map fst (pending c)) \<subseteq># mset (sent log)" using step.IH by (simp add: open_ids_def)
  moreover have "distinct (sent log)" using step.IH by blast
  ultimately have "distinct (map fst (pending c))"
    by (metis distinct_append mset_append mset_eq_imp_distinct_iff subset_mset.add_diff_inverse ex_mset)
  with act_accounted [OF step.hyps(3)] step.IH have "mset (sent (log @ outs)) = mset (settled (log @ outs)) + mset (open_ids c')"
    by (simp add: accounted_def ac_simps)
  with d sub show ?case by blast
qed

lemma run_pinned: "run act c log \<Longrightarrow> pinned contract c"
proof (induction rule: run.induct)
  case start
  show ?case by (simp add: initial_def pinned_def priors_def)
qed (blast intro: act_pinned)

lemma session_frame_pinned:
  assumes "run act c log" "act a c = (c', outs, None)" "Sent i m f \<in> set outs" "m \<noteq> lit ''initialize''"
  shows "initialization c = Verified \<and> schemaDigest c = mem contract ''schemaDigest'' \<and> \<not> closed c"
proof -
  have "initialization c = Verified \<and> \<not> closed c" using act_gated [OF assms(2)] assms(3,4) unfolding gated_def by blast
  moreover from this have "Verified \<in> insert (initialization c) (priors c)" by simp
  ultimately show ?thesis using run_pinned [OF assms(1)] unfolding pinned_def by blast
qed

lemma end_settles:
  assumes "run act c log" "enabled End c" "act End c = (c', outs, e)"
  shows "closed c' \<and> distinct (settled (log @ outs)) \<and> set (settled (log @ outs)) = set (sent (log @ outs))"
proof -
  have e: "e = None" "closed c'" "open_ids c' = []" using act_ends [OF assms(3)] assms(2) by (simp_all add: open_ids_def)
  then have "run act c' (log @ outs)" using run.step [OF assms(1,2)] assms(3) by simp
  from run_accounted [OF this] e have "distinct (sent (log @ outs))" "mset (sent (log @ outs)) = mset (settled (log @ outs))" by simp_all
  with e show ?thesis by (metis mset_eq_imp_distinct_iff mset_eq_setD)
qed

end


section \<open>Steps that only move requests along\<close>

definition quiescent :: "connection \<Rightarrow> effect list \<Rightarrow> connection \<Rightarrow> bool" where
  "quiescent c outs c' \<longleftrightarrow> sent outs = [] \<and> settled outs = [] \<and> nextRequest c' = nextRequest c \<and>
     (distinct (map fst (pending c)) \<longrightarrow> distinct (map fst (pending c')) \<and> mset (open_ids c') = mset (open_ids c)) \<and>
     initialization c' = initialization c \<and> schemaDigest c' = schemaDigest c \<and> priors c' \<subseteq> priors c"

lemma quiescent_trans: "quiescent c os d \<Longrightarrow> quiescent d ps e \<Longrightarrow> quiescent c (os @ ps) e"
  unfolding quiescent_def by fastforce

lemma quiescent_same:
  "sent outs = [] \<Longrightarrow> settled outs = [] \<Longrightarrow> nextRequest c' = nextRequest c \<Longrightarrow> pending c' = pending c \<Longrightarrow> ready c' = ready c \<Longrightarrow>
   initialization c' = initialization c \<Longrightarrow> schemaDigest c' = schemaDigest c \<Longrightarrow> quiescent c outs c'"
  by (simp add: quiescent_def open_ids_def priors_def)

lemma sent_none_gated: "sent outs = [] \<Longrightarrow> gated c outs"
  by (induction outs) (auto simp: gated_def split: option.splits)

lemma quiescent_laws:
  "quiescent c outs c' \<Longrightarrow> accounted c outs c'" "quiescent c outs c' \<Longrightarrow> numbered prefix c outs c'"
  "quiescent c outs c' \<Longrightarrow> gated c outs" "quiescent c outs c' \<Longrightarrow> pinned contract c \<Longrightarrow> pinned contract c'"
  unfolding quiescent_def by (auto simp: accounted_def numbered_def sent_none_gated pinned_def)

lemma delete_ids:
  "distinct (map fst ps) \<Longrightarrow> map_of ps i = Some k \<Longrightarrow> add_mset i (mset (map fst (AList.delete i ps))) = mset (map fst ps)"
proof (induction ps)
  case (Cons p ps)
  show ?case
  proof (cases "fst p = i")
    case True
    with Cons.prems(1) have "AList.delete i ps = ps" by (intro AList.delete_id) auto
    with True show ?thesis by (cases p) simp
  next
    case False
    with Cons show ?thesis by (cases p) (auto simp: add_mset_commute)
  qed
qed simp

lemma settled_quiescent:
  assumes "map_of (pending c) i = Some k"
  shows "quiescent c [] (c\<lparr>pending := AList.delete i (pending c), ready := ready c @ [(i, k, item)]\<rparr>)"
proof -
  have k: "(i, k) \<in> set (pending c)" using assms by (rule map_of_SomeD)
  have sub: "set (AList.delete i (pending c)) \<subseteq> set (pending c)" by (auto simp: AList.delete_eq)
  let ?c = "c\<lparr>pending := AList.delete i (pending c), ready := ready c @ [(i, k, item)]\<rparr>"
  have "priors ?c \<subseteq> priors c" using k sub by (force simp: priors_def)
  moreover have "distinct (map fst (pending ?c)) \<and> mset (open_ids ?c) = mset (open_ids c)" if "distinct (map fst (pending c))"
    using that delete_ids [OF that assms] distinct_delete [OF that] by (simp add: open_ids_def flip: union_mset_add_mset_left)
  ultimately show ?thesis by (simp add: quiescent_def)
qed

lemma woken_only [simp]:
  "sent (List.map_filter (\<lambda>w. map_option (Woken (timer w)) (f w)) ws) = []"
  "settled (List.map_filter (\<lambda>w. map_option (Woken (timer w)) (f w)) ws) = []"
  by (induction ws) (auto simp: map_filter_simps split: option.split)


text \<open>A line reader whose deliveries only move requests along does nothing else itself.\<close>

locale quiescent_reader = line_reader +
  assumes deliver_quiescent: "deliver item c = (c', outs, e) \<Longrightarrow> quiescent c outs c'"
begin

lemma absorb_quiescent: "absorb_lines c = (c', outs, e) \<Longrightarrow> quiescent c outs c'"
proof (induction "length (buffer c)" arbitrary: c c' outs e rule: less_induct)
  case less
  show ?case
  proof (cases "split_line (buffer c)")
    case None
    with less.prems show ?thesis by (simp add: absorb_lines_loop [of c] quiescent_same)
  next
    case (Some p)
    obtain line rest where p: "p = (line, rest)" by (cases p)
    let ?c = "c\<lparr>buffer := rest\<rparr>"
    have short: "length (buffer ?c) < length (buffer c)" using Some p by (simp add: split_line_iff)
    have b: "quiescent c [] ?c" by (rule quiescent_same) simp_all
    show ?thesis
    proof (cases "line = []")
      case True
      with less.prems Some p have "absorb_lines ?c = (c', outs, e)" by (simp add: absorb_lines_loop [of c])
      from less.hyps [OF short this] quiescent_trans [OF b] show ?thesis by fastforce
    next
      case False
      show ?thesis
      proof (cases "parse line")
        case None
        with less.prems Some p False b show ?thesis by (simp add: absorb_lines_loop [of c])
      next
        case item: (Some item)
        obtain c1 o1 e1 where d: "deliver item ?c = (c1, o1, e1)" by (cases "deliver item ?c")
        have q: "quiescent c o1 c1" using quiescent_trans [OF b deliver_quiescent [OF d]] by simp
        obtain c2 o2 e2 where r: "absorb_lines c1 = (c2, o2, e2)" by (cases "absorb_lines c1")
        have q2: "quiescent c1 o2 c2" using less.hyps [OF _ r] short deliver_keeps [OF d] by simp
        have "(c', outs, e) = (case e1 of None \<Rightarrow> (c2, o1 @ o2, e2) | Some x \<Rightarrow> (c1, o1, Some x))"
          using less.prems Some p False item d r by (simp add: absorb_lines_loop [of c] split: option.split)
        with q quiescent_trans [OF q q2] show ?thesis by (simp split: option.splits)
      qed
    qed
  qed
qed

end

section \<open>Steps that answer, send or end\<close>

lemma close_laws:
  assumes "c' = c\<lparr>closed := True\<rparr>" "sent outs = []" "settled outs = []"
  shows "quiescent c outs c'"
  using assms by (intro quiescent_same) simp_all

text \<open>One pending request is added under a fresh identity\<close>

lemma sending_laws:
  assumes "\<not> closed c" "name = lit ''initialize'' \<or> initialization c = Verified"
    "c' = (if name = lit ''initialize'' then c\<lparr>initialization := Negotiating\<rparr> else c)
       \<lparr>nextRequest := Suc (nextRequest c), pending := pending c @ [(lit prefix @ dec (nextRequest c), \<lparr>initializing = b, prior = initialization c\<rparr>)]\<rparr>"
    "outs = [Sent (lit prefix @ dec (nextRequest c)) name frame]"
  shows "accounted c outs c'" "numbered prefix c outs c'" "gated c outs" "pinned contract c \<Longrightarrow> pinned contract c'"
proof -
  show "accounted c outs c'" using assms(3,4) by (simp add: accounted_def open_ids_def)
  show "numbered prefix c outs c'" using assms(3,4) by (auto simp: numbered_def fresh_ids_def)
  show "gated c outs" using assms(1,2,4) by (simp add: gated_def)
  show "pinned contract c'" if "pinned contract c"
    using that assms(3) by (auto simp: pinned_def priors_def)
qed

text \<open>A number was drawn and the request then refused\<close>

lemma refused_laws:
  assumes "nextRequest c \<le> nextRequest c'" "pending c' = pending c" "ready c' = ready c" "initialization c' = initialization c"
    "schemaDigest c' = schemaDigest c" "outs = [Thrown x]"
  shows "accounted c outs c'" "numbered prefix c outs c'" "gated c outs" "pinned contract c \<Longrightarrow> pinned contract c'"
  using assms by (auto simp: accounted_def open_ids_def numbered_def gated_def pinned_def priors_def)

text \<open>The first ready call is settled; the connection is verified only with the pinned digest\<close>

lemma settling_laws:
  assumes "ready c = (i, k, reply) # ready c'" "pending c' = pending c" "nextRequest c' = nextRequest c"
    "sent outs = []" "settled outs = [i]"
    "initialization c' \<in> {initialization c, Refused, prior k} \<and> schemaDigest c' = schemaDigest c \<or>
     schemaDigest c' = mem contract ''schemaDigest''"
  shows "accounted c outs c'" "numbered prefix c outs c'" "gated c outs" "pinned contract c \<Longrightarrow> pinned contract c'"
proof -
  show "accounted c outs c'" using assms by (simp add: accounted_def open_ids_def)
  show "numbered prefix c outs c'" using assms by (simp add: numbered_def)
  show "gated c outs" using assms(4) by (rule sent_none_gated)
  have "insert (initialization c') (priors c') \<subseteq> insert Refused (insert (initialization c) (priors c))" if "initialization c' \<in> {initialization c, Refused, prior k}"
    using that assms(1,2) by (auto simp: priors_def)
  then show "pinned contract c'" if "pinned contract c" using that assms(6) unfolding pinned_def by auto
qed

text \<open>Every pending request is rejected\<close>

lemma ending_laws:
  assumes "pending c' = []" "ready c' = ready c" "nextRequest c' = nextRequest c" "initialization c' = initialization c"
    "schemaDigest c' = schemaDigest c" "outs = map (\<lambda>(i, k). Rejected i x) (pending c) @ woken" "sent woken = []" "settled woken = []"
  shows "accounted c outs c'" "numbered prefix c outs c'" "gated c outs" "pinned contract c \<Longrightarrow> pinned contract c'"
proof -
  have r: "sent (map (\<lambda>(i, k). Rejected i x) ps) = []" "settled (map (\<lambda>(i, k). Rejected i x) ps) = map fst ps" for ps :: "(ustring \<times> call) list"
    by (induction ps) auto
  show "accounted c outs c'" using assms r by (simp add: accounted_def open_ids_def)
  show "numbered prefix c outs c'" using assms r by (simp add: numbered_def)
  show "gated c outs" using assms r by (intro sent_none_gated) simp
  show "pinned contract c'" if "pinned contract c" using that assms by (auto simp: pinned_def priors_def)
qed


section \<open>The two awaiting operations, for any prefix and contract\<close>

definition call_guard :: "ustring \<Rightarrow> jsval \<Rightarrow> connection \<Rightarrow> client_error option" where
  "call_guard name members c =
     (if closed c then Some Connection_closed
      else if hasOwn members ''method'' \<or> hasOwn members ''request_id'' then Some Envelope_overridden
      else if name \<noteq> lit ''initialize'' \<and> initialization c \<noteq> Verified then Some Unverified
      else if name = lit ''initialize'' \<and> initialization c = Negotiating then Some Already_negotiating else None)"

definition requesting :: "string \<Rightarrow> ustring \<Rightarrow> jsval \<Rightarrow> connection \<Rightarrow> connection \<times> effect list" where
  "requesting prefix name members c = (case call_guard name members c of Some e \<Rightarrow> (c, [Thrown e])
     | None \<Rightarrow> let request_id = lit prefix @ dec (nextRequest c); c = c\<lparr>nextRequest := Suc (nextRequest c)\<rparr> in
         (case frame_of name members request_id of None \<Rightarrow> (c, [Thrown Not_serialisable])
          | Some frame \<Rightarrow> if 10 \<in> set frame then (c, [Thrown Newline_in_frame])
              else let k = \<lparr>initializing = (name = lit ''initialize''), prior = initialization c\<rparr>;
                       c = (if name = lit ''initialize'' then c\<lparr>initialization := Negotiating\<rparr> else c) in
                (c\<lparr>pending := pending c @ [(request_id, k)]\<rparr>, [Sent request_id name (frame @ [10])])))"

definition resuming :: "jsval \<Rightarrow> connection \<Rightarrow> connection \<times> effect list" where
  "resuming contract c = (case ready c of [] \<Rightarrow> (c, [])
     | (i, k, reply) # r \<Rightarrow> let c = c\<lparr>ready := r\<rparr> in
         if \<not> initializing k then (c, [Resolved i reply])
         else if mem reply ''type'' = js ''initialized'' then
           (if \<not> matchesContractIdentity reply contract then
              (c\<lparr>initialization := Refused, closed := True\<rparr>, [Input_ended, Rejected i Identity_mismatch])
            else (c\<lparr>initialization := Verified, limits := mem reply ''limits'', schemaDigest := mem reply ''exact_schema_sha256'',
                supported := mem reply ''supported_methods''\<rparr>, [Resolved i reply]))
         else (c\<lparr>initialization := if mem reply ''code'' = js ''invalid_request'' \<or> mem reply ''code'' = js ''already_initialized''
                 then prior k else Refused\<rparr>, [Resolved i reply]))"

lemma requesting_cases:
  assumes "requesting prefix name members c = (c', outs)"
  obtains (guarded) x where "c' = c" "outs = [Thrown x]"
  | (refused) x where "c' = c\<lparr>nextRequest := Suc (nextRequest c)\<rparr>" "outs = [Thrown x]"
  | (sending) frame where "\<not> closed c" "name = lit ''initialize'' \<or> initialization c = Verified"
    "c' = (if name = lit ''initialize'' then c\<lparr>initialization := Negotiating\<rparr> else c)\<lparr>nextRequest := Suc (nextRequest c),
       pending := pending c @ [(lit prefix @ dec (nextRequest c), \<lparr>initializing = (name = lit ''initialize''), prior = initialization c\<rparr>)]\<rparr>"
    "outs = [Sent (lit prefix @ dec (nextRequest c)) name frame]"
proof (cases "call_guard name members c")
  case (Some e)
  show ?thesis by (rule guarded) (use assms Some in \<open>auto simp: requesting_def\<close>)
next
  case None
  then have ok: "\<not> closed c" "name = lit ''initialize'' \<or> initialization c = Verified" by (auto simp: call_guard_def split: if_splits)
  show ?thesis
  proof (cases "frame_of name members (lit prefix @ dec (nextRequest c))")
    case none: None
    show ?thesis by (rule refused) (use assms None none in \<open>auto simp: requesting_def Let_def\<close>)
  next
    case (Some frame)
    show ?thesis
    proof (cases "10 \<in> set frame")
      case True
      show ?thesis by (rule refused) (use assms None Some True in \<open>auto simp: requesting_def Let_def\<close>)
    next
      case False
      show ?thesis by (rule sending [OF ok]) (use None Some False assms in \<open>auto simp: requesting_def Let_def\<close>)
    qed
  qed
qed

lemma identity_digest:
  "matchesContractIdentity reply contract \<Longrightarrow> mem reply ''exact_schema_sha256'' = mem contract ''schemaDigest''"
  by (simp add: matchesContractIdentity_def)

lemma resuming_cases:
  assumes "resuming contract c = (c', outs)"
  obtains "ready c = []" "c' = c" "outs = []"
  | i k reply where "ready c = (i, k, reply) # ready c'" "pending c' = pending c" "nextRequest c' = nextRequest c"
    "sent outs = []" "settled outs = [i]"
    "initialization c' \<in> {initialization c, Refused, prior k} \<and> schemaDigest c' = schemaDigest c \<or>
     schemaDigest c' = mem contract ''schemaDigest''"
proof (cases "ready c")
  case Nil
  show ?thesis by (rule that(1)) (use Nil assms in \<open>simp_all add: resuming_def\<close>)
next
  case (Cons q r)
  obtain i k reply where q: "q = (i, k, reply)" by (cases q)
  let ?c = "c\<lparr>ready := r\<rparr>"
  note r = assms [unfolded resuming_def Cons q list.case prod.case Let_def]
  note settle = that(2) [of i k reply]
  show ?thesis
  proof (cases "initializing k")
    case False
    with r have "c' = ?c" "outs = [Resolved i reply]" by simp_all
    with Cons q show ?thesis by (intro settle) simp_all
  next
    case True
    show ?thesis
    proof (cases "mem reply ''type'' = js ''initialized''")
      case init: True
      show ?thesis
      proof (cases "matchesContractIdentity reply contract")
        case match: True
        with r True init have "c' = ?c\<lparr>initialization := Verified, limits := mem reply ''limits'',
          schemaDigest := mem reply ''exact_schema_sha256'', supported := mem reply ''supported_methods''\<rparr>" "outs = [Resolved i reply]" by simp_all
        with Cons q identity_digest [OF match] show ?thesis by (intro settle) simp_all
      next
        case False
        with r True init have "c' = ?c\<lparr>initialization := Refused, closed := True\<rparr>" "outs = [Input_ended, Rejected i Identity_mismatch]"
          by simp_all
        with Cons q show ?thesis by (intro settle) simp_all
      qed
    next
      case False
      obtain x where "x \<in> {prior k, Refused}" "c' = ?c\<lparr>initialization := x\<rparr>" "outs = [Resolved i reply]"
        using r True False by (cases "mem reply ''code'' = js ''invalid_request'' \<or> mem reply ''code'' = js ''already_initialized''") auto
      with Cons q show ?thesis by (intro settle) auto
    qed
  qed
qed

definition lawful :: "jsval \<Rightarrow> string \<Rightarrow> connection \<Rightarrow> effect list \<Rightarrow> connection \<Rightarrow> bool" where
  "lawful contract prefix c outs c' \<longleftrightarrow> accounted c outs c' \<and> numbered prefix c outs c' \<and> gated c outs \<and> (pinned contract c \<longrightarrow> pinned contract c')"

lemma quiescent_lawful: "quiescent c outs c' \<Longrightarrow> lawful contract prefix c outs c'"
  using quiescent_laws unfolding lawful_def by blast

lemma requesting_laws:
  assumes "requesting prefix name members c = (c', outs)"
  shows "lawful contract prefix c outs c'"
  using assms
proof (cases rule: requesting_cases)
  case guarded
  then show ?thesis using refused_laws [of c c' outs] unfolding lawful_def by simp
next
  case refused
  then show ?thesis using refused_laws [of c c' outs] unfolding lawful_def by simp
next
  case sending
  from sending_laws [OF this] show ?thesis unfolding lawful_def by blast
qed

lemma resuming_laws:
  assumes "resuming contract c = (c', outs)"
  shows "lawful contract prefix c outs c'"
  using assms
proof (cases rule: resuming_cases)
  case 1
  then show ?thesis by (intro quiescent_lawful quiescent_same) simp_all
next
  case 2
  from settling_laws [OF this] show ?thesis unfolding lawful_def by blast
qed

section \<open>Frames are single lines\<close>

text \<open>The printed form of a number with no integral value has no line feed\<close>

fun printed :: "jsval \<Rightarrow> bool" where
  "printed (NonInt s) = (10 \<notin> set (lit s))"
| "printed (Arr p sl ex) \<longleftrightarrow> list_all (\<lambda>s. case s of None \<Rightarrow> True | Some (Data e x) \<Rightarrow> printed x | Some (Accessor e x) \<Rightarrow> printed x) sl \<and>
     list_all (\<lambda>kq. case kq of (k, Data e x) \<Rightarrow> printed x | (k, Accessor e x) \<Rightarrow> printed x) ex"
| "printed (Obj p ps) = list_all (\<lambda>kq. case kq of (k, Data e x) \<Rightarrow> printed x | (k, Accessor e x) \<Rightarrow> printed x) ps"
| "printed v = True"

lemma hex_char_line: "n < 16 \<Longrightarrow> hex_char n \<noteq> 10"
proof
  assume n: "n < 16" and "hex_char n = 10"
  then have "unat (hex_char n) = 10" by simp
  with n show False unfolding hex_char_def by (simp add: unat_of_nat_16 del: of_nat_add split: if_splits)
qed

lemma lit_line: "10 \<in> set (lit s) \<longleftrightarrow> CHR 0x0A \<in> set s"
proof -
  have "unit_of_char CHR 0x0A = 10" by (simp add: unit_of_char_def)
  then have eq: "10 = unit_of_char c \<longleftrightarrow> CHR 0x0A = c" for c using unit_of_char_inject [of "CHR 0x0A" c] by simp
  show ?thesis unfolding lit_def set_map image_iff eq by simp
qed

lemma unicode_escape_line: "10 \<notin> set (unicode_escape u)"
proof -
  have "unat u div 4096 < 16" using unat_lt_16 [of u] by (simp add: div_less_iff_less_mult)
  then have "hex_char (unat u div 4096) \<noteq> 10" "hex_char (unat u div 256 mod 16) \<noteq> 10" "hex_char (unat u div 16 mod 16) \<noteq> 10"
    "hex_char (unat u mod 16) \<noteq> 10" by (simp_all add: hex_char_line)
  moreover have "10 \<notin> set (lit [CHR 0x5C, CHR ''u''])" by (simp only: lit_line) simp
  ultimately show ?thesis unfolding unicode_escape_def by auto
qed

lemma escape_unit_line: "10 \<notin> set (escape_unit u)"
proof (cases "unat u = 10")
  case True
  have "10 \<notin> set (lit [CHR 0x5C, CHR ''n''])" by (simp only: lit_line) simp
  with True show ?thesis by (simp add: escape_unit_def)
next
  case False
  then have "u \<noteq> 10" by auto
  then show ?thesis using unicode_escape_line [of u] by (auto simp: escape_unit_def lit_line)
qed

lemma quote_line: "10 \<notin> set (quote s)"
proof -
  have "\<not> is_high 10" "\<not> is_low 10" by (simp_all add: is_high_def is_low_def)
  then have "10 \<notin> set (quote_body s)"
    by (induction s rule: quote_body.induct) (auto simp: unicode_escape_line escape_unit_line)
  then show ?thesis by (simp add: quote_def)
qed

lemma join_line: "10 \<notin> set sep \<Longrightarrow> list_all (\<lambda>t. 10 \<notin> set t) ts \<Longrightarrow> 10 \<notin> set (join sep ts)"
  by (induction sep ts rule: join.induct) auto

lemma dec_line: "10 \<notin> set (dec n)"
  using dec_digits [of n] by (auto simp: list_all_iff is_digit_def)

lemma int_text_line: "10 \<notin> set (int_text n)"
  by (simp add: int_text_def dec_line lit_line)

lemma object_text_line: "list_all (\<lambda>(k, t). 10 \<notin> set t) ms \<Longrightarrow> 10 \<notin> set (object_text ms)"
  unfolding object_text_def using join_line [of "[44]" "map (\<lambda>(k, t). quote k @ [58] @ t) ms"]
  by (auto simp: list_all_iff quote_line)

lemma array_text_line: "list_all (\<lambda>t. 10 \<notin> set t) ts \<Longrightarrow> 10 \<notin> set (array_text ts)"
  unfolding array_text_def using join_line [of "[44]" ts] by auto

lemma all_some_iff: "all_some xs = Some ys \<longleftrightarrow> xs = map Some ys"
  by (induction xs arbitrary: ys rule: all_some.induct) auto

lemma stringify_line: "printed v \<Longrightarrow> stringify v = Some t \<Longrightarrow> 10 \<notin> set t"
proof (induction v arbitrary: t rule: stringify.induct)
  case (4 s)
  then show ?case by (auto simp: number_text_def lit_line split: if_splits)
next
  case (7 b)
  then show ?case by (auto simp: buffer_text_def list_all_iff quote_line dec_line intro!: object_text_line array_text_line)
next
  case (10 p sl ex)
  then obtain ts where t: "t = array_text ts" and ts: "map (\<lambda>s. case s of None \<Rightarrow> Some (lit ''null'') | Some (Data e x) \<Rightarrow> stringify x
     | Some (Accessor e x) \<Rightarrow> stringify x) sl = map Some ts" by (auto simp: all_some_iff)
  have "10 \<notin> set u" if "u \<in> set ts" for u
  proof -
    have "Some u \<in> set (map Some ts)" using that by simp
    then obtain s where s: "s \<in> set sl" "(case s of None \<Rightarrow> Some (lit ''null'') | Some (Data e x) \<Rightarrow> stringify x | Some (Accessor e x) \<Rightarrow> stringify x) = Some u"
      unfolding ts [symmetric] by auto
    show ?thesis
    proof (cases s)
      case None
      with s show ?thesis by (auto simp: lit_line)
    next
      case (Some x)
      with s 10 show ?thesis by (cases x) (fastforce simp: list_all_iff)+
    qed
  qed
  then show ?case unfolding t by (intro array_text_line) (simp add: list_all_iff)
next
  case (11 p ps)
  let ?f = "\<lambda>kq. case kq of (SKey k, Data e x) \<Rightarrow> if e \<and> \<not> omitted x then [map_option (Pair k) (stringify x)] else []
     | (SKey k, Accessor e x) \<Rightarrow> if e \<and> \<not> omitted x then [map_option (Pair k) (stringify x)] else [] | (Sym n, q) \<Rightarrow> []"
  obtain ts where t: "t = object_text ts" and ts: "concat (map ?f ps) = map Some ts" using 11(4) by (auto simp: all_some_iff)
  have "10 \<notin> set u" if "(k, u) \<in> set ts" for k u
  proof -
    have "Some (k, u) \<in> set (concat (map ?f ps))" using that ts by simp
    then obtain q where q: "q \<in> set ps" "Some (k, u) \<in> set (?f q)" by auto
    obtain l y where qy: "q = (l, y)" by (cases q)
    have step: "e \<and> \<not> omitted x \<and> stringify x = Some u" if "Some (k, u) \<in> set (if e \<and> \<not> omitted x then [map_option (Pair m) (stringify x)] else [])" for e x m
      using that by (cases "stringify x") (auto split: if_splits)
    show ?thesis
    proof (cases l)
      case (SKey m)
      show ?thesis
      proof (cases y)
        case (Data e x)
        have "e \<and> \<not> omitted x \<and> stringify x = Some u" by (rule step [of e x m]) (use q(2) qy SKey Data in simp)
        moreover have "printed x" using 11(3) q(1) unfolding qy Data by (auto simp: list_all_iff)
        ultimately show ?thesis using 11(1) [OF q(1)] qy SKey Data by simp
      next
        case (Accessor e x)
        have "e \<and> \<not> omitted x \<and> stringify x = Some u" by (rule step [of e x m]) (use q(2) qy SKey Accessor in simp)
        moreover have "printed x" using 11(3) q(1) unfolding qy Accessor by (auto simp: list_all_iff)
        ultimately show ?thesis using 11(2) [OF q(1)] qy SKey Accessor by simp
      qed
    qed (use q(2) qy in simp)
  qed
  then show ?case unfolding t by (intro object_text_line) (auto simp: list_all_iff)
qed (auto simp: lit_line int_text_line quote_line split: if_splits)


definition printed_props :: "(pkey \<times> jsval jsprop) list \<Rightarrow> bool" where
  "printed_props ps \<longleftrightarrow> list_all (\<lambda>(k, q). printed (read_prop q)) ps"

lemma printed_members: "list_all (\<lambda>kq. case kq of (k, Data e x) \<Rightarrow> printed x | (k, Accessor e x) \<Rightarrow> printed x) ps = printed_props ps"
proof -
  have "(case kq of (k, Data e x) \<Rightarrow> printed x | (k, Accessor e x) \<Rightarrow> printed x) = (case kq of (k, q) \<Rightarrow> printed (read_prop q))" for kq :: "pkey \<times> jsval jsprop"
    by (auto split: prod.split jsprop.split)
  then show ?thesis by (simp add: printed_props_def)
qed

lemma printed_slots: "list_all (\<lambda>s. case s of None \<Rightarrow> True | Some (Data e x) \<Rightarrow> printed x | Some (Accessor e x) \<Rightarrow> printed x) sl \<Longrightarrow>
    printed_props (index_props n sl)"
  by (induction n sl rule: index_props.induct) (auto simp: printed_props_def split: jsprop.splits)

lemma printed_own: "printed v \<Longrightarrow> printed_props (own_props v)"
proof (cases v)
  case (Arr p sl ex)
  assume "printed v"
  with Arr have "printed_props (index_props 0 sl)" "printed_props ex" using printed_slots by (simp_all add: printed_members)
  with Arr show ?thesis by (simp add: printed_props_def)
next
  case (Buf bs)
  have "printed_props (index_props n (map (\<lambda>b. Some (Data True (Number (uint b)))) bs))" for n
    by (induction bs arbitrary: n) (simp_all add: printed_props_def)
  with Buf show ?thesis by simp
qed (simp_all add: printed_members, simp_all add: printed_props_def)

lemma printed_setm: "printed v \<Longrightarrow> printed x \<Longrightarrow> printed (setm k x v)"
proof (cases v)
  case (Obj p ps)
  assume "printed v" "printed x"
  moreover have "printed_props ps \<Longrightarrow> printed x \<Longrightarrow> printed_props (AList.update k (Data True x) ps)" for k
    by (induction ps) (auto simp: printed_props_def)
  ultimately show ?thesis using Obj by (simp add: printed_members)
qed simp_all

lemma printed_spread: "printed v \<Longrightarrow> printed (spread v)"
  using printed_own [of v] by (auto simp: spread_def printed_members printed_props_def list_all_iff)

lemma frame_line:
  assumes "printed members" "frame_of name members i = Some t"
  shows "10 \<notin> set t"
proof (rule stringify_line)
  show "printed (with_members (spread members) [(''method'', Str name), (''request_id'', Str i)])"
    using printed_spread [OF assms(1)] by (simp add: with_members_Cons printed_setm)
qed (use assms(2) in \<open>simp add: frame_of_def\<close>)

lemma empty_frame: "\<exists>t. frame_of name (obj []) i = Some t \<and> 10 \<notin> set t"
proof -
  obtain t where "frame_of name (obj []) i = Some t" by (simp add: frame_of_def obj_def spread_def with_members_def)
  with frame_line [of "obj []"] show ?thesis by (auto simp: obj_def)
qed

end
