(* ===== verification/Foreground_Client.thy ===== *)
theory Foreground_Client
  imports Client_State
begin

text \<open>
  The foreground connection (\<open>loopex-client.mjs\<close>): requests and their guards, the handling of
  records, the waiters, and the ways a connection ends.  \<open>JSON.parse\<close> is the parameter \<open>parse\<close>
  (\<open>None\<close> where it throws); the child process and its streams appear only as outputs.
\<close>

section \<open>Waiters\<close>

definition release :: "connection \<Rightarrow> connection \<times> effect list" where
  "release c = (let found = \<lambda>w. find (predicate w) (events c) in
     (c\<lparr>waiters := filter (\<lambda>w. found w = None) (waiters c)\<rparr>,
      List.map_filter (\<lambda>w. map_option (Woken (timer w)) (found w)) (waiters c)))"

definition waitForEvent :: "(jsval \<Rightarrow> bool) \<Rightarrow> connection \<Rightarrow> connection \<times> effect list" where
  "waitForEvent wanted c = (case find wanted (events c) of Some event \<Rightarrow> (c, [Found event])
     | None \<Rightarrow> (c\<lparr>nextTimer := Suc (nextTimer c), waiters := waiters c @ [\<lparr>predicate = wanted, timer = nextTimer c\<rparr>]\<rparr>, []))"

text \<open>The timer fires; a cleared timer does not\<close>

definition wait_expired :: "nat \<Rightarrow> connection \<Rightarrow> connection \<times> effect list" where
  "wait_expired t c = (if t \<in> set (map timer (waiters c))
     then (c\<lparr>waiters := filter (\<lambda>w. timer w \<noteq> t) (waiters c)\<rparr>, [Expired t]) else (c, []))"

section \<open>Requests\<close>

definition request_guard :: "ustring \<Rightarrow> jsval \<Rightarrow> connection \<Rightarrow> client_error option" where
  "request_guard name members c =
     (if closed c then Some Connection_closed
      else if hasOwn members ''method'' \<or> hasOwn members ''request_id'' then Some Envelope_overridden
      else if name \<noteq> lit ''initialize'' \<and> initialization c \<noteq> Verified then Some Unverified
      else if name = lit ''initialize'' \<and> initialization c = Negotiating then Some Already_negotiating else None)"

definition request :: "ustring \<Rightarrow> jsval \<Rightarrow> connection \<Rightarrow> connection \<times> effect list" where
  "request name members c = (case request_guard name members c of Some e \<Rightarrow> (c, [Thrown e])
     | None \<Rightarrow> let request_id = lit ''c'' @ dec (nextRequest c); c = c\<lparr>nextRequest := Suc (nextRequest c)\<rparr> in
         (case frame_of name members request_id of None \<Rightarrow> (c, [Thrown Not_serialisable])
          | Some frame \<Rightarrow> if 10 \<in> set frame then (c, [Thrown Newline_in_frame])
              else let k = \<lparr>initializing = (name = lit ''initialize''), prior = initialization c\<rparr>;
                       c = (if name = lit ''initialize'' then c\<lparr>initialization := Negotiating\<rparr> else c) in
                (c\<lparr>pending := pending c @ [(request_id, k)]\<rparr>, [Sent request_id name (frame @ [10])])))"

definition close :: "connection \<Rightarrow> connection \<times> effect list" where
  "close c = (c\<lparr>closed := True\<rparr>, [Input_ended])"

definition kill :: "connection \<Rightarrow> connection \<times> effect list" where
  "kill c = (c\<lparr>closed := True\<rparr>, [Process_killed])"

text \<open>The rest of \<open>request\<close> once its answer has arrived\<close>

definition resume :: "connection \<Rightarrow> connection \<times> effect list" where
  "resume c = (case ready c of [] \<Rightarrow> (c, [])
     | (i, k, reply) # r \<Rightarrow> let c = c\<lparr>ready := r\<rparr> in
         if \<not> initializing k then (c, [Resolved i reply])
         else if mem reply ''type'' = js ''initialized'' then
           (if \<not> matchesContractIdentity reply foreground_contract then
              let (c, outs) = close (c\<lparr>initialization := Refused\<rparr>) in (c, outs @ [Rejected i Identity_mismatch])
            else (c\<lparr>initialization := Verified, limits := mem reply ''limits'', schemaDigest := mem reply ''exact_schema_sha256'',
                supported := mem reply ''supported_methods''\<rparr>, [Resolved i reply]))
         else (c\<lparr>initialization := if mem reply ''code'' = js ''invalid_request'' \<or> mem reply ''code'' = js ''already_initialized''
                 then prior k else Refused\<rparr>, [Resolved i reply]))"

text \<open>\<open>initialize\<close>: its request, and its verdict on the reply\<close>

definition initialize :: "jsval \<Rightarrow> connection \<Rightarrow> connection \<times> effect list" where
  "initialize capabilities c = request (lit ''initialize'')
     (obj [(''generations'', arr [mem foreground_contract ''generation'']), (''capabilities'', capabilities)]) c"

definition initialize_reply :: "jsval \<Rightarrow> client_error + jsval" where
  "initialize_reply reply = (if mem reply ''type'' \<noteq> js ''initialized''
     then Inl (Initialization_refused (if mem reply ''code'' = Undefined \<or> mem reply ''code'' = Null then js ''unknown'' else mem reply ''code''))
     else Inr reply)"

section \<open>Records\<close>

definition validate :: "jsval \<Rightarrow> failure option" where
  "validate item = (if item = Null then Some Null_record
     else if mem item ''type'' = js ''snapshot'' then (case validateSnapshot item of Inl e \<Rightarrow> Some (Record_failure e) | Inr v \<Rightarrow> None)
     else if mem item ''type'' = js ''progress'' then (case validateProgress item of Inl e \<Rightarrow> Some (Record_failure e) | Inr v \<Rightarrow> None)
     else None)"

fun awaited :: "jsval \<Rightarrow> connection \<Rightarrow> (ustring \<times> call) option" where
  "awaited (Str i) c = map_option (Pair i) (map_of (pending c) i)"
| "awaited _ c = None"

definition settle_with :: "ustring \<Rightarrow> call \<Rightarrow> jsval \<Rightarrow> connection \<Rightarrow> connection" where
  "settle_with i k item c = c\<lparr>pending := AList.delete i (pending c), ready := ready c @ [(i, k, item)]\<rparr>"

definition deliver :: "jsval \<Rightarrow> connection \<Rightarrow> connection \<times> effect list \<times> failure option" where
  "deliver item c = (case validate item of Some e \<Rightarrow> (c, [], Some e)
     | None \<Rightarrow>
        if mem item ''type'' = js ''event'' then
          (case validateEvent item of Inl e \<Rightarrow> (c, [], Some (Record_failure e))
           | Inr event \<Rightarrow> let (c, outs) = release (c\<lparr>events := events c @ [event]\<rparr>) in (c, outs, None))
        else if mem item ''type'' = js ''progress'' then (c\<lparr>progress := progress c @ [mem item ''progress'']\<rparr>, [], None)
        else (case awaited (mem item ''request_id'') c of
            Some (i, k) \<Rightarrow> (settle_with i k item c, [], None)
          | None \<Rightarrow> (c\<lparr>uncorrelated := uncorrelated c @ [item]\<rparr>, [], None)))"

lemma release_buffer [simp]: "buffer (fst (release c)) = buffer c"
  by (simp add: release_def Let_def)

lemma deliver_buffer: "deliver item c = (c', outs, e) \<Longrightarrow> buffer c' = buffer c"
  by (auto simp: deliver_def settle_with_def release_def Let_def split: option.splits sum.splits if_splits)

function absorb_lines :: "(ustring \<Rightarrow> jsval option) \<Rightarrow> connection \<Rightarrow> connection \<times> effect list \<times> failure option" where
  "absorb_lines parse c = (case split_line (buffer c) of None \<Rightarrow> (c, [], None)
     | Some (line, rest) \<Rightarrow> let c = c\<lparr>buffer := rest\<rparr> in
         if line = [] then absorb_lines parse c
         else (case parse line of None \<Rightarrow> (c, [], Some Syntax_failure)
           | Some item \<Rightarrow> (case deliver item c of (c', outs, Some e) \<Rightarrow> (c', outs, Some e)
               | (c', outs, None) \<Rightarrow> let (c'', more, e) = absorb_lines parse c' in (c'', outs @ more, e))))"
  by pat_completeness auto
termination absorb_lines
  by (relation "measure (\<lambda>(parse, c). length (buffer c))") (auto simp: split_line_iff dest!: deliver_buffer [OF sym])

declare absorb_lines.simps [simp del]

definition absorb :: "(ustring \<Rightarrow> jsval option) \<Rightarrow> ustring \<Rightarrow> connection \<Rightarrow> connection \<times> effect list \<times> failure option" where
  "absorb parse chunk c = absorb_lines parse (c\<lparr>buffer := buffer c @ chunk\<rparr>)"

text \<open>The end of the process: every pending request is rejected and the waiters are released once more\<close>

definition exit :: "connection \<Rightarrow> connection \<times> effect list" where
  "exit c = (let outs = map (\<lambda>(i, k). Rejected i Peer_ended) (pending c);
       (c, woken) = release (c\<lparr>closed := True, pending := []\<rparr>) in (c, outs @ woken))"

section \<open>The wire helpers\<close>

definition wire_identity :: "ustring \<Rightarrow> ustring" where
  "wire_identity bytes = b64url (utf8 bytes)"

definition wire_decodeIdentity :: "ustring \<Rightarrow> ustring" where
  "wire_decodeIdentity v = utf8_decode (b64url_decode v)"

definition wire_bytes :: "bytes \<Rightarrow> ustring" where
  "wire_bytes v = b64url v"

definition wire_decodeBytes :: "ustring \<Rightarrow> bytes" where
  "wire_decodeBytes v = b64url_decode v"

definition wire_u64 :: "jsval \<Rightarrow> ustring option" where
  "wire_u64 v = to_text v"


section \<open>The client as a machine\<close>

fun quiet :: "connection \<times> effect list \<Rightarrow> connection \<times> effect list \<times> failure option" where
  "quiet (c, outs) = (c, outs, None)"

fun foreground_act :: "(ustring \<Rightarrow> jsval option) \<Rightarrow> client" where
  "foreground_act parse (Ask name members) c = quiet (request name members c)"
| "foreground_act parse (Await wanted) c = quiet (waitForEvent wanted c)"
| "foreground_act parse (Chunk chunk) c = absorb parse chunk c"
| "foreground_act parse (Expire t) c = quiet (wait_expired t c)"
| "foreground_act parse End c = quiet (exit c)"
| "foreground_act parse Close c = quiet (close c)"
| "foreground_act parse Kill c = quiet (kill c)"
| "foreground_act parse Continue c = quiet (resume c)"

interpretation fg_lines: line_reader deliver "absorb_lines parse" parse for parse
proof
  show "absorb_lines parse c = (case split_line (buffer c) of None \<Rightarrow> (c, [], None)
     | Some (line, rest) \<Rightarrow> let c = c\<lparr>buffer := rest\<rparr> in
         if line = [] then absorb_lines parse c
         else (case parse line of None \<Rightarrow> (c, [], Some Syntax_failure)
           | Some item \<Rightarrow> (case deliver item c of (c', outs, Some e) \<Rightarrow> (c', outs, Some e)
               | (c', outs, None) \<Rightarrow> let (c'', more, e) = absorb_lines parse c' in (c'', outs @ more, e))))" for c
    by (subst absorb_lines.simps) simp
  have awaited: "awaited v (c\<lparr>buffer := b\<rparr>) = awaited v c" for v c b by (cases v) simp_all
  show "deliver item (c\<lparr>buffer := b\<rparr>) = (case deliver item c of (c', outs, e) \<Rightarrow> (c'\<lparr>buffer := b\<rparr>, outs, e))" for item b c
    by (auto simp: deliver_def release_def settle_with_def awaited Let_def split: option.split sum.split)
qed

subsection \<open>The laws of a session client\<close>

lemma awaited_Some: "awaited v c = Some (i, k) \<Longrightarrow> map_of (pending c) i = Some k"
  by (cases v) auto

lemma deliver_quiescent: "deliver item c = (c', outs, e) \<Longrightarrow> quiescent c outs c'"
  by (auto simp: deliver_def release_def settle_with_def Let_def dest!: awaited_Some split: option.splits sum.splits if_splits
    intro: settled_quiescent quiescent_same)

interpretation fg_quiet: quiescent_reader deliver "absorb_lines parse" parse for parse
  by unfold_locales (rule deliver_quiescent)

lemma request_shape: "request name members c = requesting ''c'' name members c"
  unfolding request_def requesting_def request_guard_def call_guard_def Let_def by (rule refl)

lemma resume_shape: "resume c = resuming foreground_contract c"
  unfolding resume_def resuming_def close_def Let_def prod.case append.simps by (rule refl)

lemma exit_cases:
  assumes "exit c = (c', outs)"
  shows "pending c' = []" "ready c' = ready c" "nextRequest c' = nextRequest c" "initialization c' = initialization c"
    "schemaDigest c' = schemaDigest c" "closed c'"
    "\<exists>woken. outs = map (\<lambda>(i, k). Rejected i Peer_ended) (pending c) @ woken \<and> sent woken = [] \<and> settled woken = []"
  using assms by (auto simp: exit_def release_def Let_def)

lemma other_acts_lawful:
  assumes that: "foreground_act parse a c = (c', outs, None)" and other: "\<And>n m. a \<noteq> Ask n m" "a \<noteq> Continue"
  shows "lawful contract prefix c outs c'"
proof (cases a)
  case End
  with that have e: "exit c = (c', outs)" by (cases "exit c") simp
  obtain woken where "outs = map (\<lambda>(i, k). Rejected i Peer_ended) (pending c) @ woken" "sent woken = []" "settled woken = []"
    using exit_cases(7) [OF e] by blast
  from ending_laws [OF exit_cases(1-5) [OF e] this] show ?thesis unfolding lawful_def by blast
next
  case (Chunk chunk)
  have "quiescent (c\<lparr>buffer := buffer c @ chunk\<rparr>) outs c'" using that Chunk by (intro fg_quiet.absorb_quiescent) (simp add: absorb_def)
  moreover have "quiescent c [] (c\<lparr>buffer := buffer c @ chunk\<rparr>)" by (rule quiescent_same) simp_all
  ultimately have "quiescent c outs c'" using quiescent_trans by fastforce
  then show ?thesis by (rule quiescent_lawful)
next
  case (Await wanted)
  with that have "quiescent c outs c'" by (auto simp: waitForEvent_def intro!: quiescent_same split: option.splits)
  then show ?thesis by (rule quiescent_lawful)
next
  case (Expire t)
  with that have "quiescent c outs c'" by (auto simp: wait_expired_def intro!: quiescent_same split: if_splits)
  then show ?thesis by (rule quiescent_lawful)
next
  case Close
  with that have "quiescent c outs c'" by (auto simp: close_def intro!: quiescent_same)
  then show ?thesis by (rule quiescent_lawful)
next
  case Kill
  with that have "quiescent c outs c'" by (auto simp: kill_def intro!: quiescent_same)
  then show ?thesis by (rule quiescent_lawful)
qed (use other in simp_all)

interpretation foreground: session_client "foreground_act parse" foreground_contract "''c''" for parse
proof
  have laws: "lawful foreground_contract ''c'' c outs c'" if "foreground_act parse a c = (c', outs, None)" for a c c' outs
  proof (cases a)
    case (Ask name members)
    with that have "request name members c = (c', outs)" by (cases "request name members c") simp
    then show ?thesis using requesting_laws unfolding request_shape by blast
  next
    case Continue
    with that have "resume c = (c', outs)" by (cases "resume c") simp
    then show ?thesis using resuming_laws unfolding resume_shape by blast
  qed (use that other_acts_lawful in blast)+
  fix a c c' outs e
  show "foreground_act parse a c = (c', outs, None) \<Longrightarrow> accounted c outs c'" using laws unfolding lawful_def by blast
  show "foreground_act parse a c = (c', outs, None) \<Longrightarrow> numbered ''c'' c outs c'" using laws unfolding lawful_def by blast
  show "foreground_act parse a c = (c', outs, None) \<Longrightarrow> gated c outs" using laws unfolding lawful_def by blast
  show "pinned foreground_contract c \<Longrightarrow> foreground_act parse a c = (c', outs, None) \<Longrightarrow> pinned foreground_contract c'" using laws unfolding lawful_def by blast
  show "foreground_act parse End c = (c', outs, e) \<Longrightarrow> e = None \<and> closed c' \<and> pending c' = [] \<and> ready c' = ready c"
    using exit_cases [of c] by (cases "exit c") simp
qed


section \<open>Properties\<close>

text \<open>A parse of the two texts the examples below receive\<close>

definition server_welcome :: jsval where
  "server_welcome = obj [(''type'', js ''initialized''), (''request_id'', js ''c0''), (''selected_generation'', mem foreground_contract ''generation''),
     (''exact_schema_sha256'', mem foreground_contract ''schemaDigest''), (''limits'', obj []), (''supported_methods'', arr [])]"

definition welcoming :: "ustring \<Rightarrow> jsval option" where
  "welcoming line = (if line = lit ''server_welcome'' then Some server_welcome else None)"

text \<open>C8. The framing of the server's output is independent of how it arrives: handling a chunk that is the concatenation of two
  is handling the first and then, unless a record in it was refused, the second, with the same effects in the same order.\<close>

theorem foreground_chunks:
  "absorb parse (s @ t) c = (case absorb parse s c of
     (c', outs, Some e) \<Rightarrow> (c'\<lparr>buffer := buffer c' @ t\<rparr>, outs, Some e)
   | (c', outs, None) \<Rightarrow> let (c'', more, e) = absorb parse t c' in (c'', outs @ more, e))"
  using fg_lines.absorb_append [of parse "c\<lparr>buffer := buffer c @ s\<rparr>" t] unfolding absorb_def by simp

text \<open>C1. No session request leaves a foreground connection before the server's contract is verified: whenever a frame other than
  \<open>initialize\<close> is sent, the connection is open, verified, and holds the digest of the pinned foreground contract, and so in every
  reachable state, whatever the server answers and however calls and chunks interleave.\<close>

theorem foreground_frames_gated:
  assumes "run (foreground_act parse) c log" "foreground_act parse a c = (c', outs, None)" "Sent i m f \<in> set outs" "m \<noteq> lit ''initialize''"
  shows "initialization c = Verified \<and> schemaDigest c = mem foreground_contract ''schemaDigest'' \<and> \<not> closed c"
  using assms by (rule foreground.session_frame_pinned)

text \<open>C10. Request identities are never reused and every request is settled at most once: in every reachable state the identities
  sent are distinct, and each is settled, pending, or waiting to continue, exactly once.\<close>

theorem foreground_accounting:
  assumes "run (foreground_act parse) c log"
  shows "distinct (sent log) \<and> set (sent log) \<subseteq> fresh_ids ''c'' 0 (nextRequest c) \<and>
    mset (sent log) = mset (settled log) + mset (map fst (pending c)) + mset (map fst (ready c))"
  using foreground.run_accounted [OF assms] by (simp add: open_ids_def ac_simps)

text \<open>C2. No request is left hanging: when the server process ends, every request ever sent has been settled exactly once, and the
  connection accepts no further request.\<close>

theorem foreground_end_settles:
  assumes "run (foreground_act parse) c log" "ready c = []" "foreground_act parse End c = (c', outs, e)"
  shows "closed c' \<and> distinct (settled (log @ outs)) \<and> set (settled (log @ outs)) = set (sent (log @ outs)) \<and>
    request name members c' = (c', [Thrown Connection_closed])"
proof -
  have "closed c' \<and> distinct (settled (log @ outs)) \<and> set (settled (log @ outs)) = set (sent (log @ outs))"
    using assms foreground.end_settles by simp
  then show ?thesis by (simp add: request_def request_guard_def)
qed

text \<open>C38. Every request goes out as one line: the frame ends in a line feed and has no other, and the guard against line feeds never
  refuses a request, because serialised text escapes them.\<close>

theorem foreground_frames_are_lines:
  assumes "printed members" "request name members c = (c', outs)"
  shows "Thrown Newline_in_frame \<notin> set outs \<and>
    (\<forall>i m f. Sent i m f \<in> set outs \<longrightarrow> (\<exists>line. f = line @ [10] \<and> 10 \<notin> set line) \<and> m = name)"
proof (cases "request_guard name members c")
  case (Some e)
  then have "e \<noteq> Newline_in_frame" by (auto simp: request_guard_def split: if_splits)
  with Some assms(2) show ?thesis by (auto simp: request_def)
next
  case None
  show ?thesis
  proof (cases "frame_of name members (lit ''c'' @ dec (nextRequest c))")
    case none: None
    with None assms(2) show ?thesis by (auto simp: request_def Let_def)
  next
    case (Some frame)
    with frame_line assms(1) have "10 \<notin> set frame" by blast
    with None Some assms(2) show ?thesis by (auto simp: request_def Let_def)
  qed
qed

section \<open>An example run\<close>

lemma request_sends:
  assumes "\<not> closed c" "name = lit ''initialize'' \<and> initialization c \<noteq> Negotiating \<or> initialization c = Verified"
  shows "\<exists>frame. request name (obj []) c = ((if name = lit ''initialize'' then c\<lparr>initialization := Negotiating\<rparr> else c)\<lparr>nextRequest := Suc (nextRequest c),
       pending := pending c @ [(lit ''c'' @ dec (nextRequest c), \<lparr>initializing = (name = lit ''initialize''), prior = initialization c\<rparr>)]\<rparr>,
     [Sent (lit ''c'' @ dec (nextRequest c)) name frame])"
proof -
  have "request_guard name (obj []) c = None" using assms by (auto simp: request_guard_def hasOwn_obj)
  moreover obtain t where "frame_of name (obj []) (lit ''c'' @ dec (nextRequest c)) = Some t" "10 \<notin> set t" using empty_frame by blast
  ultimately show ?thesis by (intro exI [of _ "t @ [10]"]) (simp add: request_def Let_def)
qed

definition verified_state :: connection where
  "verified_state = initial\<lparr>initialization := Verified, nextRequest := 1, limits := obj [],
     schemaDigest := mem foreground_contract ''schemaDigest'', supported := arr []\<rparr>"

lemma welcome_reply: "matchesContractIdentity server_welcome foreground_contract" "validate server_welcome = None"
  "mem server_welcome ''type'' = js ''initialized''" "mem server_welcome ''request_id'' = js ''c0''" "mem server_welcome ''limits'' = obj []"
  "mem server_welcome ''exact_schema_sha256'' = mem foreground_contract ''schemaDigest''" "mem server_welcome ''supported_methods'' = arr []"
proof -
  have d: "mem foreground_contract ''schemaDigest'' = js ''1ae2d39c23036e0d6636e73358119def56bbf25f64365140f7ff6f12f2254151''"
    by (simp add: foreground_contract_def mem_obj)
  have "digest_text (mem foreground_contract ''schemaDigest'')"
    unfolding d by (simp add: digest_text_def lit_def unit_of_char_def hex_unit_def)
  moreover have "isObject foreground_contract" "plainProto foreground_contract" "isString (mem foreground_contract ''generation'')"
    by (simp_all add: foreground_contract_def member_simps)
  ultimately show "matchesContractIdentity server_welcome foreground_contract"
    by (simp add: matchesContractIdentity_def server_welcome_def member_simps)
  show t: "mem server_welcome ''type'' = js ''initialized''" by (simp add: server_welcome_def mem_obj)
  show "mem server_welcome ''request_id'' = js ''c0''" "mem server_welcome ''limits'' = obj []"
    "mem server_welcome ''exact_schema_sha256'' = mem foreground_contract ''schemaDigest''" "mem server_welcome ''supported_methods'' = arr []"
    by (simp_all add: server_welcome_def mem_obj)
  have "server_welcome \<noteq> Null" by (simp add: server_welcome_def member_simps)
  with t show "validate server_welcome = None" by (simp add: validate_def)
qed

lemma verified_run: "\<exists>log. run (foreground_act welcoming) verified_state log"
proof -
  let ?i = "lit ''c'' @ dec 0" and ?k = "\<lparr>initializing = True, prior = Uninitialized\<rparr>"
  have i: "?i = lit ''c0''" by (simp add: dec_zero flip: lit_append)
  define c1 where "c1 = initial\<lparr>initialization := Negotiating, nextRequest := 1, pending := [(lit ''c0'', ?k)]\<rparr>"
  define c2 where "c2 = c1\<lparr>pending := [], ready := [(lit ''c0'', ?k, server_welcome)]\<rparr>"
  obtain frame where "request (lit ''initialize'') (obj []) initial = (c1, [Sent ?i (lit ''initialize'') frame])"
    using request_sends [of initial "lit ''initialize''"] by (auto simp: c1_def i initial_def)
  then have s1: "foreground_act welcoming (Ask (lit ''initialize'') (obj [])) initial = (c1, [Sent ?i (lit ''initialize'') frame], None)" by simp
  have no: "10 \<notin> set (lit ''server_welcome'')" by (simp only: lit_line) simp
  have "deliver server_welcome (c1\<lparr>buffer := []\<rparr>) = (c2, [], None)"
    using welcome_reply by (simp add: deliver_def settle_with_def c1_def c2_def initial_def)
  moreover have "split_line (lit ''server_welcome'' @ [10]) = Some (lit ''server_welcome'', [])" using no by (simp add: split_line_iff)
  moreover have "absorb_lines welcoming c2 = (c2, [], None)" by (subst absorb_lines.simps) (simp add: c2_def c1_def initial_def)
  ultimately have s2: "foreground_act welcoming (Chunk (lit ''server_welcome'' @ [10])) c1 = (c2, [], None)"
    unfolding foreground_act.simps absorb_def
    by (subst absorb_lines.simps) (simp add: c1_def initial_def welcoming_def lit_def)
  have s3: "foreground_act welcoming Continue c2 = (verified_state, [Resolved (lit ''c0'') server_welcome], None)"
    using welcome_reply by (simp add: resume_def c2_def c1_def verified_state_def initial_def)
  have r1: "run (foreground_act welcoming) c1 ([] @ [Sent ?i (lit ''initialize'') frame])" 
    by (rule run.step [where a = "Ask (lit ''initialize'') (obj [])" and c = initial]) (rule run.start, simp, rule s1)
  have r2: "run (foreground_act welcoming) c2 (([] @ [Sent ?i (lit ''initialize'') frame]) @ [])"
    by (rule run.step [where a = "Chunk (lit ''server_welcome'' @ [10])" and c = c1]) (rule r1, simp add: c1_def initial_def, rule s2)
  show ?thesis by (rule exI, rule run.step [where a = Continue and c = c2]) (rule r2, simp, rule s3)
qed


lemma verified_facts: "initialization verified_state = Verified" "\<not> closed verified_state" "ready verified_state = []"
  by (simp_all add: verified_state_def initial_def)

lemma status_sent: "\<exists>c' i frame. request (lit ''status'') (obj []) verified_state = (c', [Sent i (lit ''status'') frame])"
  using request_sends [of verified_state "lit ''status''"] verified_facts by auto

theorem foreground_frames_gated_witness:
  "\<exists>c' outs. foreground_act welcoming (Ask (lit ''status'') (obj [])) verified_state = (c', outs, None) \<and>
     schemaDigest verified_state = mem foreground_contract ''schemaDigest''"
proof -
  obtain log where log: "run (foreground_act welcoming) verified_state log" using verified_run by blast
  obtain c' i frame where "request (lit ''status'') (obj []) verified_state = (c', [Sent i (lit ''status'') frame])" using status_sent by blast
  then have a: "foreground_act welcoming (Ask (lit ''status'') (obj [])) verified_state = (c', [Sent i (lit ''status'') frame], None)" by simp
  from foreground_frames_gated [OF log a, of i "lit ''status''" frame] a show ?thesis by simp
qed

theorem foreground_accounting_witness:
  "\<exists>log. run (foreground_act welcoming) verified_state log \<and> distinct (sent log) \<and> mset (sent log) = mset (settled log)"
proof -
  obtain log where log: "run (foreground_act welcoming) verified_state log" using verified_run by blast
  from foreground_accounting [OF log] log show ?thesis by (auto simp: verified_state_def initial_def)
qed

theorem foreground_end_settles_witness:
  "\<exists>log c'. run (foreground_act welcoming) verified_state log \<and> closed c' \<and> request (lit ''status'') (obj []) c' = (c', [Thrown Connection_closed])"
proof -
  obtain log where log: "run (foreground_act welcoming) verified_state log" using verified_run by blast
  obtain c' outs e where "foreground_act welcoming End verified_state = (c', outs, e)" by (metis prod_cases3)
  from foreground_end_settles [OF log verified_facts(3) this, of "lit ''status''" "obj []"] log show ?thesis by blast
qed

theorem foreground_frames_are_lines_witness:
  "\<exists>c' i frame line. request (lit ''status'') (obj []) verified_state = (c', [Sent i (lit ''status'') frame]) \<and> frame = line @ [10] \<and> 10 \<notin> set line"
proof -
  obtain c' i frame where r: "request (lit ''status'') (obj []) verified_state = (c', [Sent i (lit ''status'') frame])" using status_sent by blast
  have "printed (obj [])" by (simp add: obj_def)
  from foreground_frames_are_lines [OF this r] r show ?thesis by auto
qed

text \<open>C39. The wire helpers invert each other: an identity decodes to the text it was made from exactly when that text is well formed,
  bytes decode to themselves, and an identity of 1 to 256 bytes of UTF-8 is one the record validators read back.\<close>

theorem wire_helpers_invert:
  "(wire_decodeIdentity (wire_identity s) = s \<longleftrightarrow> isWellFormed s) \<and> wire_decodeBytes (wire_bytes bs) = bs \<and>
   (record_identity (Str (wire_identity s)) 256 = Some (utf8 s) \<longleftrightarrow> 1 \<le> byteLength s \<and> byteLength s \<le> 256)"
proof -
  have "record_identity (Str (wire_identity s)) 256 = Some (utf8 s) \<longleftrightarrow> 1 \<le> byteLength s \<and> byteLength s \<le> 256"
    unfolding record_identity_eq identity_within_iff wire_identity_def by (simp add: id_ok_def byteLength_def)
  then show ?thesis by (simp add: wire_decodeIdentity_def wire_identity_def wire_decodeBytes_def wire_bytes_def)
qed

end
