(* ===== verification/Daemon_Client.thy ===== *)
theory Daemon_Client
  imports Foreground_Client
begin

text \<open>
  The daemon connection (\<open>daemon-client.mjs\<close>), which repeats the operations of the foreground client
  over a socket: its requests are numbered \<open>n0, n1, ...\<close>, its pin is the daemon contract, and a
  record is matched with a request before its kind is considered.  \<open>#notices\<close> is the field
  \<open>uncorrelated\<close>.  The theory ends with the equivalence of the two.
\<close>

section \<open>Waiters\<close>

definition daemon_release :: "connection \<Rightarrow> connection \<times> effect list" where
  "daemon_release c = (let found = \<lambda>w. find (predicate w) (events c) in
     (c\<lparr>waiters := filter (\<lambda>w. found w = None) (waiters c)\<rparr>,
      List.map_filter (\<lambda>w. map_option (Woken (timer w)) (found w)) (waiters c)))"

definition daemon_waitForEvent :: "(jsval \<Rightarrow> bool) \<Rightarrow> connection \<Rightarrow> connection \<times> effect list" where
  "daemon_waitForEvent wanted c = (case find wanted (events c) of Some event \<Rightarrow> (c, [Found event])
     | None \<Rightarrow> (c\<lparr>nextTimer := Suc (nextTimer c), waiters := waiters c @ [\<lparr>predicate = wanted, timer = nextTimer c\<rparr>]\<rparr>, []))"

text \<open>The timer fires; a cleared timer does not\<close>

definition daemon_wait_expired :: "nat \<Rightarrow> connection \<Rightarrow> connection \<times> effect list" where
  "daemon_wait_expired t c = (if t \<in> set (map timer (waiters c))
     then (c\<lparr>waiters := filter (\<lambda>w. timer w \<noteq> t) (waiters c)\<rparr>, [Expired t]) else (c, []))"

section \<open>Requests\<close>

definition daemon_request_guard :: "ustring \<Rightarrow> jsval \<Rightarrow> connection \<Rightarrow> client_error option" where
  "daemon_request_guard name members c =
     (if closed c then Some Connection_closed
      else if hasOwn members ''method'' \<or> hasOwn members ''request_id'' then Some Envelope_overridden
      else if name \<noteq> lit ''initialize'' \<and> initialization c \<noteq> Verified then Some Unverified
      else if name = lit ''initialize'' \<and> initialization c = Negotiating then Some Already_negotiating else None)"

definition daemon_request :: "ustring \<Rightarrow> jsval \<Rightarrow> connection \<Rightarrow> connection \<times> effect list" where
  "daemon_request name members c = (case daemon_request_guard name members c of Some e \<Rightarrow> (c, [Thrown e])
     | None \<Rightarrow> let request_id = lit ''n'' @ dec (nextRequest c); c = c\<lparr>nextRequest := Suc (nextRequest c)\<rparr> in
         (case frame_of name members request_id of None \<Rightarrow> (c, [Thrown Not_serialisable])
          | Some frame \<Rightarrow> if 10 \<in> set frame then (c, [Thrown Newline_in_frame])
              else let k = \<lparr>initializing = (name = lit ''initialize''), prior = initialization c\<rparr>;
                       c = (if name = lit ''initialize'' then c\<lparr>initialization := Negotiating\<rparr> else c) in
                (c\<lparr>pending := pending c @ [(request_id, k)]\<rparr>, [Sent request_id name (frame @ [10])])))"

definition daemon_close :: "connection \<Rightarrow> connection \<times> effect list" where
  "daemon_close c = (c\<lparr>closed := True\<rparr>, [Input_ended])"

text \<open>The rest of \<open>request\<close> once its answer has arrived\<close>

definition daemon_resume :: "connection \<Rightarrow> connection \<times> effect list" where
  "daemon_resume c = (case ready c of [] \<Rightarrow> (c, [])
     | (i, k, reply) # r \<Rightarrow> let c = c\<lparr>ready := r\<rparr> in
         if \<not> initializing k then (c, [Resolved i reply])
         else if mem reply ''type'' = js ''initialized'' then
           (if \<not> matchesContractIdentity reply daemon_contract then
              let (c, outs) = daemon_close (c\<lparr>initialization := Refused\<rparr>) in (c, outs @ [Rejected i Identity_mismatch])
            else (c\<lparr>initialization := Verified, limits := mem reply ''limits'', schemaDigest := mem reply ''exact_schema_sha256'',
                supported := mem reply ''supported_methods''\<rparr>, [Resolved i reply]))
         else (c\<lparr>initialization := if mem reply ''code'' = js ''invalid_request'' \<or> mem reply ''code'' = js ''already_initialized''
                 then prior k else Refused\<rparr>, [Resolved i reply]))"

text \<open>\<open>initialize\<close>: its request, and its verdict on the reply\<close>

definition daemon_initialize :: "jsval \<Rightarrow> connection \<Rightarrow> connection \<times> effect list" where
  "daemon_initialize capabilities c = daemon_request (lit ''initialize'')
     (obj [(''generations'', arr [mem daemon_contract ''generation'']), (''capabilities'', capabilities)]) c"

definition daemon_initialize_reply :: "jsval \<Rightarrow> client_error + jsval" where
  "daemon_initialize_reply reply = (if mem reply ''type'' \<noteq> js ''initialized''
     then Inl (Initialization_refused (if mem reply ''code'' = Undefined \<or> mem reply ''code'' = Null then js ''unknown'' else mem reply ''code''))
     else Inr reply)"

section \<open>Records\<close>

definition daemon_deliver :: "jsval \<Rightarrow> connection \<Rightarrow> connection \<times> effect list \<times> failure option" where
  "daemon_deliver item c = (case validate item of Some e \<Rightarrow> (c, [], Some e)
     | None \<Rightarrow>
        if mem item ''type'' = js ''event'' then
          (case validateEvent item of Inl e \<Rightarrow> (c, [], Some (Record_failure e))
           | Inr event \<Rightarrow> let (c, outs) = daemon_release (c\<lparr>events := events c @ [event]\<rparr>) in (c, outs, None))
        else (case awaited (mem item ''request_id'') c of
            Some (i, k) \<Rightarrow> (settle_with i k item c, [], None)
          | None \<Rightarrow> if mem item ''type'' = js ''progress'' then (c\<lparr>progress := progress c @ [mem item ''progress'']\<rparr>, [], None)
              else (c\<lparr>uncorrelated := uncorrelated c @ [item]\<rparr>, [], None)))"

lemma daemon_release_buffer [simp]: "buffer (fst (daemon_release c)) = buffer c"
  by (simp add: daemon_release_def Let_def)

lemma daemon_deliver_buffer: "daemon_deliver item c = (c', outs, e) \<Longrightarrow> buffer c' = buffer c"
  by (auto simp: daemon_deliver_def settle_with_def daemon_release_def Let_def split: option.splits sum.splits if_splits)

function daemon_absorb_lines :: "(ustring \<Rightarrow> jsval option) \<Rightarrow> connection \<Rightarrow> connection \<times> effect list \<times> failure option" where
  "daemon_absorb_lines parse c = (case split_line (buffer c) of None \<Rightarrow> (c, [], None)
     | Some (line, rest) \<Rightarrow> let c = c\<lparr>buffer := rest\<rparr> in
         if line = [] then daemon_absorb_lines parse c
         else (case parse line of None \<Rightarrow> (c, [], Some Syntax_failure)
           | Some item \<Rightarrow> (case daemon_deliver item c of (c', outs, Some e) \<Rightarrow> (c', outs, Some e)
               | (c', outs, None) \<Rightarrow> let (c'', more, e) = daemon_absorb_lines parse c' in (c'', outs @ more, e))))"
  by pat_completeness auto
termination daemon_absorb_lines
  by (relation "measure (\<lambda>(parse, c). length (buffer c))") (auto simp: split_line_iff dest!: daemon_deliver_buffer [OF sym])

declare daemon_absorb_lines.simps [simp del]

definition daemon_absorb :: "(ustring \<Rightarrow> jsval option) \<Rightarrow> ustring \<Rightarrow> connection \<Rightarrow> connection \<times> effect list \<times> failure option" where
  "daemon_absorb parse chunk c = daemon_absorb_lines parse (c\<lparr>buffer := buffer c @ chunk\<rparr>)"

text \<open>The socket closes: every pending request is rejected and the waiters are released once more\<close>

definition socket_closed :: "connection \<Rightarrow> connection \<times> effect list" where
  "socket_closed c = (let outs = map (\<lambda>(i, k). Rejected i Peer_ended) (pending c);
       (c, woken) = daemon_release (c\<lparr>closed := True, pending := []\<rparr>) in (c, outs @ woken))"



fun daemon_act :: "(ustring \<Rightarrow> jsval option) \<Rightarrow> client" where
  "daemon_act parse (Ask name members) c = quiet (daemon_request name members c)"
| "daemon_act parse (Await wanted) c = quiet (daemon_waitForEvent wanted c)"
| "daemon_act parse (Chunk chunk) c = daemon_absorb parse chunk c"
| "daemon_act parse (Expire t) c = quiet (daemon_wait_expired t c)"
| "daemon_act parse End c = quiet (socket_closed c)"
| "daemon_act parse Close c = quiet (daemon_close c)"
| "daemon_act parse Kill c = (c, [], None)"
| "daemon_act parse Continue c = quiet (daemon_resume c)"

section \<open>The copies agree\<close>

lemma daemon_copies [copy_eqs]:
  "daemon_release = release" "daemon_waitForEvent = waitForEvent" "daemon_wait_expired = wait_expired"
  "daemon_request_guard = request_guard" "daemon_close = close" "daemon_initialize_reply = initialize_reply" "socket_closed = exit"
  by (auto simp: fun_eq_iff daemon_release_def release_def daemon_waitForEvent_def waitForEvent_def daemon_wait_expired_def wait_expired_def
    daemon_request_guard_def request_guard_def daemon_close_def close_def daemon_initialize_reply_def initialize_reply_def socket_closed_def exit_def)

text \<open>A progress record is closed, so it carries no request identity\<close>

lemma progress_uncorrelated:
  assumes "validate item = None" "mem item ''type'' = js ''progress''"
  shows "awaited (mem item ''request_id'') c = None"
proof -
  have "js ''progress'' \<noteq> js ''snapshot''" by simp
  then obtain v where "validateProgress item = Inr v"
    using assms by (auto simp: validate_def split: if_splits sum.splits)
  then have "record_closed item [''type'', ''session_id'', ''progress'']" by (auto simp: validateProgress_def Let_def split: if_splits)
  then have "list_all (\<lambda>(k, p). k \<in> set (map (\<lambda>s. SKey (lit s)) [''type'', ''session_id'', ''progress'']) \<and> is_data p \<and> enumerable p) (own_props item)"
    by (simp add: record_closed_eq closedOwn_def)
  then have "SKey (lit ''request_id'') \<notin> fst ` set (own_props item)" by (auto simp: list_all_iff)
  then have "mem item ''request_id'' = Undefined" by (simp add: memU_def map_of_eq_None_iff [THEN iffD2])
  then show ?thesis by simp
qed

lemma daemon_deliver_eq: "daemon_deliver = deliver"
  using progress_uncorrelated unfolding fun_eq_iff daemon_deliver_def deliver_def daemon_copies by (auto split: option.splits)

lemma daemon_absorb_lines_eq: "daemon_absorb_lines parse c = absorb_lines parse c"
proof (induction "length (buffer c)" arbitrary: c rule: less_induct)
  case less
  have IH: "daemon_absorb_lines parse d = absorb_lines parse d" if "length (buffer d) < length (buffer c)" for d using less that by blast
  show ?case
  proof (cases "split_line (buffer c)")
    case None
    then show ?thesis by (subst daemon_absorb_lines.simps, subst absorb_lines.simps) simp
  next
    case (Some p)
    obtain line rest where p: "p = (line, rest)" by (cases p)
    have short: "length rest < length (buffer c)" using Some p by (simp add: split_line_iff)
    let ?c = "c\<lparr>buffer := rest\<rparr>"
    note both = daemon_absorb_lines.simps [of parse c] absorb_lines.simps [of parse c]
    show ?thesis
    proof (cases "line = []")
      case True
      have "daemon_absorb_lines parse ?c = absorb_lines parse ?c" using short by (intro IH) simp
      with True Some p both show ?thesis by simp
    next
      case False
      show ?thesis
      proof (cases "parse line")
        case None
        with False Some p both show ?thesis by simp
      next
        case item: (Some item)
        obtain c1 o1 e1 where d: "deliver item ?c = (c1, o1, e1)" by (cases "deliver item ?c")
        have "daemon_absorb_lines parse c1 = absorb_lines parse c1" using short deliver_buffer [OF d] by (intro IH) simp
        with False Some p item d both daemon_deliver_eq show ?thesis by simp
      qed
    qed
  qed
qed

lemma daemon_absorb_eq: "daemon_absorb = absorb"
  by (simp add: fun_eq_iff daemon_absorb_def absorb_def daemon_absorb_lines_eq)

lemma daemon_request_shape: "daemon_request name members c = requesting ''n'' name members c"
  unfolding daemon_request_def requesting_def daemon_request_guard_def call_guard_def Let_def by (rule refl)

lemma daemon_resume_shape: "daemon_resume c = resuming daemon_contract c"
  unfolding daemon_resume_def resuming_def daemon_close_def Let_def prod.case append.simps by (rule refl)

interpretation daemon_lines: quiescent_reader daemon_deliver "daemon_absorb_lines parse" parse for parse
  unfolding daemon_deliver_eq daemon_absorb_lines_eq [abs_def] by (rule fg_quiet.quiescent_reader_axioms)


lemma daemon_acts:
  "daemon_act parse (Await wanted) c = foreground_act parse (Await wanted) c" "daemon_act parse (Chunk chunk) c = foreground_act parse (Chunk chunk) c"
  "daemon_act parse (Expire t) c = foreground_act parse (Expire t) c" "daemon_act parse End c = foreground_act parse End c"
  "daemon_act parse Close c = foreground_act parse Close c"
  by (simp_all add: daemon_copies daemon_absorb_eq)

interpretation daemon: session_client "daemon_act parse" daemon_contract "''n''" for parse
proof
  have laws: "lawful daemon_contract ''n'' c outs c'" if "daemon_act parse a c = (c', outs, None)" for a c c' outs
  proof (cases a)
    case (Ask name members)
    with that have "daemon_request name members c = (c', outs)" by (cases "daemon_request name members c") simp
    then show ?thesis using requesting_laws unfolding daemon_request_shape by blast
  next
    case Continue
    with that have "daemon_resume c = (c', outs)" by (cases "daemon_resume c") simp
    then show ?thesis using resuming_laws unfolding daemon_resume_shape by blast
  next
    case Kill
    with that have "quiescent c outs c'" by (auto intro: quiescent_same)
    then show ?thesis by (rule quiescent_lawful)
  qed (use that daemon_acts other_acts_lawful [of parse a] in auto)
  fix a c c' outs e
  show "daemon_act parse a c = (c', outs, None) \<Longrightarrow> accounted c outs c'" using laws unfolding lawful_def by blast
  show "daemon_act parse a c = (c', outs, None) \<Longrightarrow> numbered ''n'' c outs c'" using laws unfolding lawful_def by blast
  show "daemon_act parse a c = (c', outs, None) \<Longrightarrow> gated c outs" using laws unfolding lawful_def by blast
  show "pinned daemon_contract c \<Longrightarrow> daemon_act parse a c = (c', outs, None) \<Longrightarrow> pinned daemon_contract c'" using laws unfolding lawful_def by blast
  show "daemon_act parse End c = (c', outs, e) \<Longrightarrow> e = None \<and> closed c' \<and> pending c' = [] \<and> ready c' = ready c"
    unfolding daemon_acts by (rule foreground.act_ends)
qed

section \<open>Properties\<close>

text \<open>C34. The daemon client is the foreground client over another stream: records, waits, timeouts and the end of the connection are
  handled alike in every state, although the daemon client matches a record with a request before it looks for progress, and the
  two verdicts on the reply to \<open>initialize\<close> are the same.\<close>

theorem clients_handle_alike:
  "daemon_deliver item c = deliver item c \<and> daemon_absorb parse chunk c = absorb parse chunk c \<and>
   daemon_waitForEvent wanted c = waitForEvent wanted c \<and> daemon_wait_expired t c = wait_expired t c \<and> socket_closed c = exit c \<and>
   daemon_request_guard name members c = request_guard name members c \<and> daemon_initialize_reply reply = initialize_reply reply"
  by (simp add: daemon_copies daemon_absorb_eq daemon_deliver_eq)

text \<open>C11. A daemon connection accounts for its requests and gates them on the daemon contract: in every reachable state the identities
  sent are distinct and each is settled, pending or about to continue exactly once; a frame other than \<open>initialize\<close> leaves only a
  verified connection that holds the pinned daemon digest; and when the socket closes every request has been settled exactly once.\<close>

theorem daemon_session_safe:
  assumes "run (daemon_act parse) c log"
  shows "distinct (sent log) \<and> mset (sent log) = mset (settled log) + mset (map fst (pending c)) + mset (map fst (ready c)) \<and>
    (\<forall>a c' outs i m f. daemon_act parse a c = (c', outs, None) \<longrightarrow> Sent i m f \<in> set outs \<longrightarrow> m \<noteq> lit ''initialize'' \<longrightarrow>
      initialization c = Verified \<and> schemaDigest c = mem daemon_contract ''schemaDigest'') \<and>
    (\<forall>c' outs. ready c = [] \<longrightarrow> socket_closed c = (c', outs) \<longrightarrow>
      distinct (settled (log @ outs)) \<and> set (settled (log @ outs)) = set (sent (log @ outs)))"
proof (intro conjI allI impI)
  note acc = daemon.run_accounted [OF assms]
  show "distinct (sent log)" using acc by blast
  show "mset (sent log) = mset (settled log) + mset (map fst (pending c)) + mset (map fst (ready c))"
    using acc by (simp add: open_ids_def ac_simps)
next
  fix a c' outs i m f
  assume "daemon_act parse a c = (c', outs, None)" "Sent i m f \<in> set outs" "m \<noteq> lit ''initialize''"
  from daemon.session_frame_pinned [OF assms this] show "initialization c = Verified" "schemaDigest c = mem daemon_contract ''schemaDigest''"
    by blast+
next
  fix c' outs assume "ready c = []" "socket_closed c = (c', outs)"
  then have "daemon_act parse End c = (c', outs, None)" by simp
  from daemon.end_settles [OF assms _ this] \<open>ready c = []\<close>
  show "distinct (settled (log @ outs))" "set (settled (log @ outs)) = set (sent (log @ outs))" by simp_all
qed

theorem daemon_session_safe_witness:
  "\<exists>c' outs. socket_closed initial = (c', outs) \<and> set (settled outs) = set (sent outs)"
proof -
  obtain c' outs where s: "socket_closed initial = (c', outs)" by (cases "socket_closed initial")
  have "run (daemon_act (\<lambda>line. None)) initial []" by (rule run.start)
  from daemon_session_safe [OF this] s have "set (settled ([] @ outs)) = set (sent ([] @ outs))" by (auto simp: initial_def)
  with s show ?thesis by simp
qed

end
