(* ===== verification/Contract_Peer.thy ===== *)
theory Contract_Peer
  imports Daemon_Client
begin

text \<open>
  The two connections against the peer that the repository tests them with
  (\<open>contract-negotiation-tests.mjs\<close>): \<open>responder\<close>, which negotiates once per connection and answers each
  frame in order, and the queues of frames between the two ends.  The model stands between the two
  \<open>JSON.parse\<close>: a queue holds the values the frames denote.  The modes of the peer are those of the source;
  the theory shows that the client's view of the negotiation is the peer's at every state they reach,
  however their steps interleave.
\<close>

section \<open>The peer\<close>

datatype contract_kind = Foreground | Daemon

fun current_contract :: "contract_kind \<Rightarrow> jsval" where
  "current_contract Foreground = foreground_contract"
| "current_contract Daemon = daemon_contract"

fun other_kind :: "contract_kind \<Rightarrow> contract_kind" where
  "other_kind Foreground = Daemon"
| "other_kind Daemon = Foreground"

definition malformed_initialization :: "jsval \<Rightarrow> bool" where
  "malformed_initialization frame \<longleftrightarrow> (let generations = mem frame ''generations'' in
     join_texts (sort (objectKeys frame)) \<noteq> lit ''capabilities,generations,method,request_id'' \<or>
     \<not> isArray generations \<or> elements generations = [] \<or> \<not> list_all isString (elements generations) \<or>
     \<not> isArray (mem frame ''capabilities''))"

definition refusal :: "jsval \<Rightarrow> string \<Rightarrow> string \<Rightarrow> jsval" where
  "refusal frame code message = obj [(''type'', js ''error''), (''request_id'', mem frame ''request_id''), (''code'', js code), (''message'', js message)]"

definition welcome_of :: "contract_kind \<Rightarrow> string \<Rightarrow> jsval \<Rightarrow> jsval" where
  "welcome_of kind mode frame = obj [(''type'', js ''initialized''), (''request_id'', mem frame ''request_id''),
     (''selected_generation'', mem (current_contract (if mode = ''wrong_generation'' then other_kind kind else kind)) ''generation''),
     (''exact_schema_sha256'', if mode = ''wrong_digest'' then Str (replicate 64 48) else mem (current_contract kind) ''schemaDigest''),
     (''supported_methods'', arr []), (''record_families'', arr []), (''limits'', obj []), (''unsupported_capabilities'', mem frame ''capabilities'')]"

text \<open>The reply to a frame, and whether the negotiation is consumed afterwards\<close>

definition responder :: "contract_kind \<Rightarrow> string \<Rightarrow> bool \<Rightarrow> jsval \<Rightarrow> jsval \<times> bool" where
  "responder kind mode consumed frame =
     (if mem frame ''method'' \<noteq> js ''initialize'' then
        (obj [(''type'', js ''result''), (''request_id'', mem frame ''request_id''), (''method'', mem frame ''method''), (''result'', obj [])], consumed)
      else if malformed_initialization frame then (refusal frame ''invalid_request'' ''invalid initialization'', consumed)
      else if consumed then (refusal frame ''already_initialized'' ''negotiation already attempted'', True)
      else if mem (current_contract kind) ''generation'' \<notin> set (elements (mem frame ''generations'')) then
        (refusal frame ''unsupported_generation'' ''no current generation'', True)
      else (welcome_of kind mode frame, True))"

section \<open>The two ends\<close>

text \<open>\<open>Connection\<close> or \<open>DaemonConnection\<close>\<close>

fun client_request :: "contract_kind \<Rightarrow> ustring \<Rightarrow> jsval \<Rightarrow> connection \<Rightarrow> connection \<times> effect list" where
  "client_request Foreground = request"
| "client_request Daemon = daemon_request"

fun client_resume :: "contract_kind \<Rightarrow> connection \<Rightarrow> connection \<times> effect list" where
  "client_resume Foreground = resume"
| "client_resume Daemon = daemon_resume"

fun client_deliver :: "contract_kind \<Rightarrow> jsval \<Rightarrow> connection \<Rightarrow> connection \<times> effect list \<times> failure option" where
  "client_deliver Foreground = deliver"
| "client_deliver Daemon = daemon_deliver"

fun request_prefix :: "contract_kind \<Rightarrow> string" where
  "request_prefix Foreground = ''c''"
| "request_prefix Daemon = ''n''"

text \<open>The value a frame denotes: what \<open>request\<close> passes to \<open>JSON.stringify\<close>\<close>

definition frame_value :: "ustring \<Rightarrow> jsval \<Rightarrow> ustring \<Rightarrow> jsval" where
  "frame_value name members i = with_members (spread members) [(''method'', Str name), (''request_id'', Str i)]"

text \<open>Frames on their way to the peer, replies on their way back, and what the peer has served in order\<close>

record exchange =
  client :: connection
  inbound :: "jsval list"
  outbound :: "jsval list"
  consumed :: bool
  served :: "(jsval \<times> jsval) list"

definition connected :: exchange where
  "connected = \<lparr>client = initial, inbound = [], outbound = [], consumed = False, served = []\<rparr>"

inductive exchanging :: "contract_kind \<Rightarrow> string \<Rightarrow> exchange \<Rightarrow> bool" for kind mode where
  connect: "exchanging kind mode connected"
| sends: "exchanging kind mode x \<Longrightarrow> json members \<Longrightarrow> client_request kind name members (client x) = (c, [Sent i n text]) \<Longrightarrow>
     exchanging kind mode (x\<lparr>client := c, inbound := inbound x @ [frame_value name members i]\<rparr>)"
| refuses: "exchanging kind mode x \<Longrightarrow> client_request kind name members (client x) = (c, [Thrown e]) \<Longrightarrow>
     exchanging kind mode (x\<lparr>client := c\<rparr>)"
| serves: "exchanging kind mode x \<Longrightarrow> inbound x = frame # frames \<Longrightarrow> responder kind mode (consumed x) frame = (reply, b) \<Longrightarrow>
     exchanging kind mode (x\<lparr>inbound := frames, outbound := outbound x @ [reply], consumed := b, served := served x @ [(frame, reply)]\<rparr>)"
| arrives: "exchanging kind mode x \<Longrightarrow> outbound x = reply # replies \<Longrightarrow> client_deliver kind reply (client x) = (c, outs, None) \<Longrightarrow>
     exchanging kind mode (x\<lparr>client := c, outbound := replies\<rparr>)"
| continues: "exchanging kind mode x \<Longrightarrow> client_resume kind (client x) = (c, outs) \<Longrightarrow> exchanging kind mode (x\<lparr>client := c\<rparr>)"
| hangs_up: "exchanging kind mode x \<Longrightarrow> close (client x) = (c, outs) \<Longrightarrow> exchanging kind mode (x\<lparr>client := c\<rparr>)"

text \<open>What the two ends do without a new call: the peer serves a frame, a reply arrives, or a call whose reply has arrived goes on\<close>

inductive answering :: "contract_kind \<Rightarrow> string \<Rightarrow> exchange \<Rightarrow> effect list \<Rightarrow> exchange \<Rightarrow> bool" for kind mode where
  serving: "inbound x = frame # frames \<Longrightarrow> responder kind mode (consumed x) frame = (reply, b) \<Longrightarrow>
     answering kind mode x [] (x\<lparr>inbound := frames, outbound := outbound x @ [reply], consumed := b, served := served x @ [(frame, reply)]\<rparr>)"
| arriving: "outbound x = reply # replies \<Longrightarrow> client_deliver kind reply (client x) = (c, outs, None) \<Longrightarrow>
     answering kind mode x outs (x\<lparr>client := c, outbound := replies\<rparr>)"
| continuing: "ready (client x) \<noteq> [] \<Longrightarrow> client_resume kind (client x) = (c, outs) \<Longrightarrow> answering kind mode x outs (x\<lparr>client := c\<rparr>)"

text \<open>So many of these steps, with their effects\<close>

inductive answers_in :: "contract_kind \<Rightarrow> string \<Rightarrow> nat \<Rightarrow> exchange \<Rightarrow> effect list \<Rightarrow> exchange \<Rightarrow> bool" for kind mode where
  stays: "answers_in kind mode 0 x [] x"
| goes_on: "answers_in kind mode n x log y \<Longrightarrow> answering kind mode y outs z \<Longrightarrow> answers_in kind mode (Suc n) x (log @ outs) z"

section \<open>Both clients alike\<close>

lemma client_shapes:
  "client_request kind = requesting (request_prefix kind)" "client_resume kind = resuming (current_contract kind)" "client_deliver kind = deliver"
  by (cases kind; simp add: fun_eq_iff request_shape daemon_request_shape resume_shape daemon_resume_shape daemon_deliver_eq)+

section \<open>The peer's view\<close>

definition honest :: "string \<Rightarrow> bool" where
  "honest mode \<longleftrightarrow> mode \<noteq> ''wrong_digest'' \<and> mode \<noteq> ''wrong_generation''"

definition welcomed :: "(jsval \<times> jsval) list \<Rightarrow> bool" where
  "welcomed log \<longleftrightarrow> (\<exists>(frame, reply) \<in> set log. mem reply ''type'' = js ''initialized'')"

definition peer_view :: "string \<Rightarrow> bool \<Rightarrow> (jsval \<times> jsval) list \<Rightarrow> initialization" where
  "peer_view mode used log = (if \<not> used then Uninitialized else if welcomed log \<and> honest mode then Verified else Refused)"

lemma welcome_matches: "matchesContractIdentity (welcome_of kind mode frame) (current_contract kind) \<longleftrightarrow> honest mode"
proof -
  have d: "digest_text (mem foreground_contract ''schemaDigest'')" "digest_text (mem daemon_contract ''schemaDigest'')"
    by (simp_all add: foreground_contract_def daemon_contract_def member_simps)
      (simp_all add: digest_text_def lit_def unit_of_char_def hex_unit_def)
  have o: "isObject foreground_contract" "plainProto foreground_contract" "isString (mem foreground_contract ''generation'')"
    "isObject daemon_contract" "plainProto daemon_contract" "isString (mem daemon_contract ''generation'')"
    "mem foreground_contract ''generation'' \<noteq> mem daemon_contract ''generation''"
    by (simp_all add: foreground_contract_def daemon_contract_def member_simps)
  have z: "mem foreground_contract ''schemaDigest'' \<noteq> Str (replicate 64 48)" "mem daemon_contract ''schemaDigest'' \<noteq> Str (replicate 64 48)"
    by (simp_all add: foreground_contract_def daemon_contract_def member_simps) (simp_all add: lit_def unit_of_char_def numeral_eq_Suc)
  show ?thesis using d o z z [symmetric] o(7) [symmetric]
    by (cases kind) (auto simp: matchesContractIdentity_def welcome_of_def member_simps honest_def)
qed

lemma peer_view_stable: "peer_view mode used log = Verified \<Longrightarrow> peer_view mode True (log @ entries) = Verified"
  by (auto simp: peer_view_def welcomed_def split: if_splits)

lemma peer_view_settled [simp]: "peer_view mode used log \<noteq> Negotiating"
  by (simp add: peer_view_def)

section \<open>In step\<close>

text \<open>What the client will believe once the answer of an initialization has been applied\<close>

fun verdict :: "contract_kind \<Rightarrow> call \<Rightarrow> jsval option \<Rightarrow> initialization" where
  "verdict kind k None = prior k"
| "verdict kind k (Some reply) =
     (if mem reply ''type'' = js ''initialized'' then
        if matchesContractIdentity reply (current_contract kind) then Verified else Refused
      else if mem reply ''code'' = js ''invalid_request'' \<or> mem reply ''code'' = js ''already_initialized'' then prior k else Refused)"

fun answers :: "ustring \<times> call \<Rightarrow> jsval \<Rightarrow> bool" where
  "answers (i, k) reply \<longleftrightarrow> mem reply ''request_id'' = Str i \<and> validate reply = None \<and>
     mem reply ''type'' \<noteq> js ''event'' \<and> mem reply ''type'' \<noteq> js ''progress''"

declare verdict.simps(2) [simp del]

fun asks_for :: "ustring \<times> call \<Rightarrow> jsval \<Rightarrow> bool" where
  "asks_for (i, k) frame \<longleftrightarrow> mem frame ''request_id'' = Str i \<and> (initializing k \<longleftrightarrow> mem frame ''method'' = js ''initialize'')"

text \<open>The calls under way, each with its reply once the peer has given one\<close>

definition flight :: "(ustring \<times> call \<times> jsval) list \<Rightarrow> (ustring \<times> call) list \<Rightarrow> jsval list \<Rightarrow> (ustring \<times> call) list \<Rightarrow> (call \<times> jsval option) list" where
  "flight resolved waiting replies asked = map (\<lambda>(i, k, reply). (k, Some reply)) resolved @
     map (\<lambda>((i, k), reply). (k, Some reply)) (zip waiting replies) @ map (\<lambda>(i, k). (k, None)) asked"

definition negotiations :: "(call \<times> jsval option) list \<Rightarrow> (call \<times> jsval option) list" where
  "negotiations calls = filter (\<lambda>(k, r). initializing k) calls"

definition believes :: "contract_kind \<Rightarrow> initialization \<Rightarrow> (call \<times> jsval option) list \<Rightarrow> initialization \<Rightarrow> bool" where
  "believes kind now calls view \<longleftrightarrow>
     (if now = Negotiating then \<exists>k r. negotiations calls = [(k, r)] \<and> verdict kind k r = view
      else negotiations calls = [] \<and> now = view)"

definition orderly :: "string \<Rightarrow> (jsval \<times> jsval) list \<Rightarrow> bool" where
  "orderly mode log \<longleftrightarrow> (\<forall>earlier frame reply later. log = earlier @ (frame, reply) # later \<longrightarrow>
     mem frame ''method'' \<noteq> js ''initialize'' \<longrightarrow> welcomed earlier \<and> honest mode)"

definition view_of :: "string \<Rightarrow> exchange \<Rightarrow> initialization" where
  "view_of mode x = peer_view mode (consumed x) (served x)"

definition in_step :: "contract_kind \<Rightarrow> string \<Rightarrow> exchange \<Rightarrow> bool" where
  "in_step kind mode x \<longleftrightarrow> (\<exists>waiting asked. pending (client x) = waiting @ asked \<and>
     list_all2 answers waiting (outbound x) \<and> list_all2 asks_for asked (inbound x) \<and>
     distinct (map fst (pending (client x))) \<and>
     set (map fst (pending (client x))) \<subseteq> fresh_ids (request_prefix kind) 0 (nextRequest (client x)) \<and>
     believes kind (initialization (client x)) (flight (ready (client x)) waiting (outbound x) asked) (view_of mode x) \<and>
     list_all (\<lambda>frame. mem frame ''method'' = js ''initialize'' \<or> view_of mode x = Verified) (inbound x) \<and>
     orderly mode (served x) \<and> (welcomed (served x) \<longrightarrow> consumed x))"

lemma in_stepI:
  assumes "pending (client x) = waiting @ asked" "list_all2 answers waiting (outbound x)" "list_all2 asks_for asked (inbound x)"
    "distinct (map fst (pending (client x)))" "set (map fst (pending (client x))) \<subseteq> fresh_ids (request_prefix kind) 0 (nextRequest (client x))"
    "believes kind (initialization (client x)) (flight (ready (client x)) waiting (outbound x) asked) (view_of mode x)"
    "list_all (\<lambda>frame. mem frame ''method'' = js ''initialize'' \<or> view_of mode x = Verified) (inbound x)" "orderly mode (served x)"
    "welcomed (served x) \<Longrightarrow> consumed x"
  shows "in_step kind mode x"
  using assms unfolding in_step_def by blast

lemma in_stepE:
  assumes "in_step kind mode x"
  obtains (parts) waiting asked where "pending (client x) = waiting @ asked" "list_all2 answers waiting (outbound x)" "list_all2 asks_for asked (inbound x)"
    "distinct (map fst (pending (client x)))" "set (map fst (pending (client x))) \<subseteq> fresh_ids (request_prefix kind) 0 (nextRequest (client x))"
    "believes kind (initialization (client x)) (flight (ready (client x)) waiting (outbound x) asked) (view_of mode x)"
    "list_all (\<lambda>frame. mem frame ''method'' = js ''initialize'' \<or> view_of mode x = Verified) (inbound x)" "orderly mode (served x)"
    "welcomed (served x) \<longrightarrow> consumed x"
  using assms unfolding in_step_def by blast

lemma negotiations_simps [simp]:
  "negotiations [] = []" "negotiations ((k, r) # calls) = (if initializing k then (k, r) # negotiations calls else negotiations calls)"
  "negotiations (calls @ calls') = negotiations calls @ negotiations calls'"
  by (simp_all add: negotiations_def)

lemma fresh_ids_Suc: "fresh_ids prefix 0 n \<subseteq> fresh_ids prefix 0 (Suc n)" "lit prefix @ dec n \<in> fresh_ids prefix 0 (Suc n)"
    "lit prefix @ dec n \<notin> fresh_ids prefix 0 n"
  by (auto simp: fresh_ids_def)

lemma frame_value_members [simp]:
  "mem (frame_value name members i) ''method'' = Str name" "mem (frame_value name members i) ''request_id'' = Str i"
proof -
  obtain ps where "spread members = Obj ObjectProto ps" using spread_Obj by blast
  then show "mem (frame_value name members i) ''method'' = Str name" "mem (frame_value name members i) ''request_id'' = Str i"
    by (simp_all add: frame_value_def mem_with_members)
qed

text \<open>A request that is sent was let through by its guard\<close>

lemma requesting_let_through: "requesting prefix name members c = (c', [Sent i n f]) \<Longrightarrow> call_guard name members c = None"
  by (auto simp: requesting_def split: option.splits)

lemma orderly_snoc:
  assumes "orderly mode log" "mem frame ''method'' \<noteq> js ''initialize'' \<longrightarrow> welcomed log \<and> honest mode"
  shows "orderly mode (log @ [(frame, reply)])"
  unfolding orderly_def
proof (intro allI impI)
  fix earlier frame' reply' later
  assume l: "log @ [(frame, reply)] = earlier @ (frame', reply') # later" and m: "mem frame' ''method'' \<noteq> js ''initialize''"
  show "welcomed earlier \<and> honest mode"
  proof (cases later rule: rev_cases)
    case Nil
    with l m assms(2) show ?thesis by simp
  next
    case (snoc before p)
    with l have "log = earlier @ (frame', reply') # before" by simp
    with assms(1) m show ?thesis unfolding orderly_def by blast
  qed
qed

section \<open>Every step keeps them in step\<close>

lemma sends_in_step:
  assumes "in_step kind mode x" "requesting (request_prefix kind) name members (client x) = (c, [Sent i n text])"
  shows "in_step kind mode (x\<lparr>client := c, inbound := inbound x @ [frame_value name members i]\<rparr>)"
  using assms(1)
proof (cases rule: in_stepE)
  case (parts waiting asked)
  note s = this
  let ?k = "\<lparr>initializing = (name = lit ''initialize''), prior = initialization (client x)\<rparr>"
  have guard: "name = lit ''initialize'' \<Longrightarrow> initialization (client x) \<noteq> Negotiating"
    using requesting_let_through [OF assms(2)] by (auto simp: call_guard_def split: if_splits)
  have c: "name = lit ''initialize'' \<or> initialization (client x) = Verified" "i = lit (request_prefix kind) @ dec (nextRequest (client x))"
    "c = (if name = lit ''initialize'' then (client x)\<lparr>initialization := Negotiating\<rparr> else client x)\<lparr>nextRequest := Suc (nextRequest (client x)),
       pending := pending (client x) @ [(i, ?k)]\<rparr>"
    using assms(2) by (cases rule: requesting_cases; auto)+
  show ?thesis
  proof (rule in_stepI [where waiting = waiting and asked = "asked @ [(i, ?k)]"])
    show "list_all2 asks_for (asked @ [(i, ?k)]) (inbound (x\<lparr>client := c, inbound := inbound x @ [frame_value name members i]\<rparr>))"
      using s(3) by (simp add: list_all2_appendI)
    show "believes kind (initialization (client (x\<lparr>client := c, inbound := inbound x @ [frame_value name members i]\<rparr>)))
       (flight (ready (client (x\<lparr>client := c, inbound := inbound x @ [frame_value name members i]\<rparr>))) waiting
         (outbound (x\<lparr>client := c, inbound := inbound x @ [frame_value name members i]\<rparr>)) (asked @ [(i, ?k)]))
       (view_of mode (x\<lparr>client := c, inbound := inbound x @ [frame_value name members i]\<rparr>))"
      using s(6) c(1) guard by (auto simp: c(3) believes_def flight_def view_of_def)
    show "list_all (\<lambda>frame. mem frame ''method'' = js ''initialize'' \<or> view_of mode (x\<lparr>client := c, inbound := inbound x @ [frame_value name members i]\<rparr>) = Verified)
       (inbound (x\<lparr>client := c, inbound := inbound x @ [frame_value name members i]\<rparr>))"
      using s(6,7) c(1) by (auto simp: view_of_def believes_def)
    show "distinct (map fst (pending (client (x\<lparr>client := c, inbound := inbound x @ [frame_value name members i]\<rparr>))))"
      using s(4,5) fresh_ids_Suc(3) by (auto simp: c(2,3))
    show "set (map fst (pending (client (x\<lparr>client := c, inbound := inbound x @ [frame_value name members i]\<rparr>))))
       \<subseteq> fresh_ids (request_prefix kind) 0 (nextRequest (client (x\<lparr>client := c, inbound := inbound x @ [frame_value name members i]\<rparr>)))"
      using s(5) fresh_ids_Suc by (auto simp: c(2,3))
  qed (use s in \<open>simp_all add: c(3)\<close>)
qed

lemma refuses_in_step:
  assumes "in_step kind mode x" "requesting (request_prefix kind) name members (client x) = (c, [Thrown e])"
  shows "in_step kind mode (x\<lparr>client := c\<rparr>)"
proof -
  have "c = client x \<or> c = (client x)\<lparr>nextRequest := Suc (nextRequest (client x))\<rparr>" using assms(2) by (cases rule: requesting_cases) auto
  then show ?thesis
  proof
    assume "c = client x"
    with assms(1) show ?thesis by simp
  next
    assume c: "c = (client x)\<lparr>nextRequest := Suc (nextRequest (client x))\<rparr>"
    from assms(1) show ?thesis
      by (rule in_stepE) (rule in_stepI, simp_all add: c view_of_def subset_trans [OF _ fresh_ids_Suc(1)])
  qed
qed

lemma hangs_up_in_step: "in_step kind mode x \<Longrightarrow> in_step kind mode (x\<lparr>client := (client x)\<lparr>closed := True\<rparr>\<rparr>)"
  by (simp add: in_step_def view_of_def)

subsection \<open>The peer serves a frame\<close>

lemma responder_reply:
  assumes "responder kind mode used frame = (reply, b)" "mem frame ''request_id'' = Str i"
  shows "mem reply ''request_id'' = Str i \<and> validate reply = None \<and> mem reply ''type'' \<noteq> js ''event'' \<and> mem reply ''type'' \<noteq> js ''progress''"
  using assms by (auto simp: responder_def refusal_def welcome_of_def validate_def member_simps split: if_splits)

text \<open>A session frame leaves the negotiation alone; an initialization moves the peer's view as the client will read it\<close>

lemma responder_session:
  assumes "responder kind mode used frame = (reply, b)" "mem frame ''method'' \<noteq> js ''initialize''"
  shows "b = used \<and> peer_view mode used (log @ [(frame, reply)]) = peer_view mode used log"
  using assms by (auto simp: responder_def peer_view_def welcomed_def member_simps)

lemma welcomed_snoc: "welcomed (log @ [(frame, reply)]) \<longleftrightarrow> welcomed log \<or> mem reply ''type'' = js ''initialized''"
  by (auto simp: welcomed_def)

lemma reply_members:
  "mem (refusal frame code message) ''type'' = js ''error''" "mem (refusal frame code message) ''code'' = js code"
  "mem (welcome_of kind mode frame) ''type'' = js ''initialized''"
  by (simp_all add: refusal_def welcome_of_def member_simps)

lemma responder_initialization:
  assumes "responder kind mode used frame = (reply, b)" "mem frame ''method'' = js ''initialize''" "prior k = peer_view mode used log"
    "welcomed log \<longrightarrow> used"
  shows "verdict kind k (Some reply) = peer_view mode b (log @ [(frame, reply)])" "welcomed (log @ [(frame, reply)]) \<longrightarrow> b"
proof -
  consider (same) code message where "reply = refusal frame code message" "b = used" "code = ''invalid_request'' \<or> code = ''already_initialized''"
    | (unsupported) message where "reply = refusal frame ''unsupported_generation'' message" "b" "\<not> used"
    | (accepts) "reply = welcome_of kind mode frame" "b" "\<not> used"
    using assms(1,2) by (auto simp: responder_def split: if_splits)
  then have "verdict kind k (Some reply) = peer_view mode b (log @ [(frame, reply)]) \<and> (welcomed (log @ [(frame, reply)]) \<longrightarrow> b)"
  proof cases
    case same
    then show ?thesis using assms(3,4) by (auto simp: verdict.simps reply_members welcomed_snoc peer_view_def)
  next
    case unsupported
    then show ?thesis using assms(4) by (simp add: verdict.simps reply_members welcomed_snoc peer_view_def)
  next
    case accepts
    then show ?thesis by (simp add: verdict.simps reply_members welcomed_snoc peer_view_def welcome_matches)
  qed
  then show "verdict kind k (Some reply) = peer_view mode b (log @ [(frame, reply)])" "welcomed (log @ [(frame, reply)]) \<longrightarrow> b"
    by blast+
qed

lemma flight_served:
  assumes "length waiting = length replies"
  shows "flight resolved waiting replies ((i, k) # asked) = flight resolved waiting replies [] @ (k, None) # map (\<lambda>(i, k). (k, None)) asked"
    "flight resolved (waiting @ [(i, k)]) (replies @ [reply]) asked =
       flight resolved waiting replies [] @ (k, Some reply) # map (\<lambda>(i, k). (k, None)) asked"
  using assms by (simp_all add: flight_def)

lemma believes_served:
  assumes "believes kind now (before @ (k, None) # after) view"
  shows "\<not> initializing k \<Longrightarrow> believes kind now (before @ (k, Some reply) # after) view"
    "initializing k \<Longrightarrow> prior k = view"
    "initializing k \<Longrightarrow> verdict kind k (Some reply) = view' \<Longrightarrow> believes kind now (before @ (k, Some reply) # after) view'"
  using assms by (auto simp: believes_def append_eq_Cons_conv split: if_splits)

lemma serves_in_step:
  assumes "in_step kind mode x" "inbound x = frame # frames" "responder kind mode (consumed x) frame = (reply, b)"
  shows "in_step kind mode (x\<lparr>inbound := frames, outbound := outbound x @ [reply], consumed := b, served := served x @ [(frame, reply)]\<rparr>)"
    (is "in_step kind mode ?y")
  using assms(1)
proof (cases rule: in_stepE)
  case (parts waiting asked)
  note s = this
  from s(3) assms(2) obtain i k asked' where a: "asked = (i, k) # asked'" "asks_for (i, k) frame" "list_all2 asks_for asked' frames"
    by (auto simp: list_all2_Cons2)
  let ?before = "flight (ready (client x)) waiting (outbound x) []" and ?after = "map (\<lambda>(i, k). (k, None :: jsval option)) asked'"
  have believed: "believes kind (initialization (client x)) (?before @ (k, None) # ?after) (view_of mode x)"
    using s(6) flight_served(1) [OF list_all2_lengthD [OF s(2)]] by (simp add: a(1))
  have "believes kind (initialization (client x)) (?before @ (k, Some reply) # ?after) (view_of mode ?y) \<and>
      (welcomed (served x @ [(frame, reply)]) \<longrightarrow> b)"
  proof (cases "initializing k")
    case True
    with a(2) have m: "mem frame ''method'' = js ''initialize''" by simp
    have p: "prior k = peer_view mode (consumed x) (served x)" using believes_served(2) [OF believed True] by (simp add: view_of_def)
    note served = responder_initialization [OF assms(3) m p s(9)]
    from served(1) have "verdict kind k (Some reply) = view_of mode ?y" by (simp add: view_of_def)
    from believes_served(3) [OF believed True this] served(2) show ?thesis by blast
  next
    case False
    with a(2) have m: "mem frame ''method'' \<noteq> js ''initialize''" by simp
    have "mem reply ''type'' = js ''result''" using assms(3) m by (auto simp: responder_def member_simps)
    with s(9) responder_session [OF assms(3) m, of "served x"] have "view_of mode ?y = view_of mode x" "welcomed (served x @ [(frame, reply)]) \<longrightarrow> b"
      by (simp_all add: view_of_def welcomed_snoc)
    with believes_served(1) [OF believed False] show ?thesis by simp
  qed
  moreover have "view_of mode ?y = Verified" if "view_of mode x = Verified"
  proof -
    from that have "consumed x" by (simp add: view_of_def peer_view_def split: if_splits)
    with assms(3) have "b" by (auto simp: responder_def split: if_splits)
    with peer_view_stable that show ?thesis by (simp add: view_of_def)
  qed
  moreover have "welcomed (served x) \<and> honest mode" if "mem frame ''method'' \<noteq> js ''initialize''"
    using s(7) assms(2) that by (simp add: view_of_def peer_view_def split: if_splits)
  ultimately have r: "believes kind (initialization (client x)) (?before @ (k, Some reply) # ?after) (view_of mode ?y)"
      "welcomed (served x @ [(frame, reply)]) \<longrightarrow> b" "view_of mode x = Verified \<Longrightarrow> view_of mode ?y = Verified"
      "mem frame ''method'' \<noteq> js ''initialize'' \<longrightarrow> welcomed (served x) \<and> honest mode"
    by blast+
  have "answers (i, k) reply" using responder_reply [OF assms(3), of i] a(2) by simp
  with s(2) have w: "list_all2 answers (waiting @ [(i, k)]) (outbound x @ [reply])" by (simp add: list_all2_appendI)
  have f: "list_all (\<lambda>frame. mem frame ''method'' = js ''initialize'' \<or> view_of mode ?y = Verified) frames"
    using s(7) r(3) by (auto simp: assms(2) list_all_iff)
  have b: "believes kind (initialization (client x)) (flight (ready (client x)) (waiting @ [(i, k)]) (outbound x @ [reply]) asked') (view_of mode ?y)"
    using r(1) by (simp only: flight_served(2) [OF list_all2_lengthD [OF s(2)]])
  show ?thesis
    by (rule in_stepI [where waiting = "waiting @ [(i, k)]" and asked = asked'])
      (use s(1,4,5) a(1,3) w f b r(2) orderly_snoc [OF s(8) r(4)] in simp_all)
qed

subsection \<open>A reply arrives and its call goes on\<close>

lemma arrives_in_step:
  assumes "in_step kind mode x" "outbound x = reply # replies" "deliver reply (client x) = (c, outs, e)"
  shows "e = None \<and> outs = [] \<and> in_step kind mode (x\<lparr>client := c, outbound := replies\<rparr>)"
  using assms(1)
proof (cases rule: in_stepE)
  case (parts waiting asked)
  note s = this
  from s(2) assms(2) obtain i k waiting' where w: "waiting = (i, k) # waiting'" "answers (i, k) reply" "list_all2 answers waiting' replies"
    by (auto simp: list_all2_Cons2)
  have first: "AList.delete i (waiting' @ asked) = waiting' @ asked"
    using s(4) by (simp add: s(1) w(1) AList.delete_id image_Un)
  have d: "(c, outs, e) = (settle_with i k reply (client x), [], None)"
    using assms(3) w(2) s(1) by (simp add: deliver_def w(1))
  moreover have "flight (ready (client x) @ [(i, k, reply)]) waiting' replies asked = flight (ready (client x)) waiting (outbound x) asked"
    by (simp add: flight_def w(1) assms(2))
  ultimately have "in_step kind mode (x\<lparr>client := c, outbound := replies\<rparr>)" using s w
    by (intro in_stepI [where waiting = waiting' and asked = asked]) (simp_all add: settle_with_def first view_of_def)
  with d show ?thesis by simp
qed

lemma continues_in_step:
  assumes "in_step kind mode x" "resuming (current_contract kind) (client x) = (c, outs)"
  shows "in_step kind mode (x\<lparr>client := c\<rparr>)"
proof (cases "ready (client x)")
  case Nil
  with assms(2) have "c = client x" by (simp add: resuming_def)
  with assms(1) show ?thesis by simp
next
  case (Cons q rest)
  obtain i k reply where q: "q = (i, k, reply)" by (cases q)
  have c: "pending c = pending (client x)" "ready c = rest" "nextRequest c = nextRequest (client x)"
    "initialization c = (if initializing k then verdict kind k (Some reply) else initialization (client x))"
    using assms(2) by (auto simp: resuming_def Cons q Let_def verdict.simps split: if_splits)
  from assms(1) show ?thesis
  proof (cases rule: in_stepE)
    case (parts waiting asked)
    have "flight (ready (client x)) waiting (outbound x) asked = (k, Some reply) # flight rest waiting (outbound x) asked"
      by (simp add: flight_def Cons q)
    with parts(6) have "believes kind (initialization c) (flight rest waiting (outbound x) asked) (view_of mode x)"
      by (auto simp: believes_def c(4) view_of_def split: if_splits)
    with parts show ?thesis
      by (intro in_stepI [where waiting = waiting and asked = asked]) (simp_all add: c(1-3) view_of_def)
  qed
qed

theorem exchange_in_step: "exchanging kind mode x \<Longrightarrow> in_step kind mode x"
proof (induction rule: exchanging.induct)
  case connect
  show ?case by (auto simp: in_step_def connected_def initial_def believes_def flight_def view_of_def peer_view_def orderly_def welcomed_def)
next
  case (hangs_up x c outs)
  then show ?case using hangs_up_in_step [of kind mode x] by (simp add: close_def)
qed (auto simp: client_shapes dest: sends_in_step refuses_in_step serves_in_step arrives_in_step continues_in_step)

section \<open>Properties\<close>

text \<open>C3. The client and the peer agree.  At every state they reach, whichever way their steps interleave: a client that is not in the middle of a
  negotiation holds the peer's view of it (uninitialized until the peer has consumed the negotiation, verified when the peer has welcomed
  it under the pinned contract, refused otherwise); the peer has served a session frame only after it had welcomed the client, and never
  when it misstates the contract; and every reply it sends is taken by the client without an error.\<close>

theorem contract_agreement:
  assumes "exchanging kind mode x"
  shows "(initialization (client x) \<noteq> Negotiating \<longrightarrow> initialization (client x) = view_of mode x) \<and>
    (\<forall>earlier frame reply later. served x = earlier @ (frame, reply) # later \<longrightarrow> mem frame ''method'' \<noteq> js ''initialize'' \<longrightarrow>
       honest mode \<and> (\<exists>(f, r) \<in> set earlier. mem r ''type'' = js ''initialized'')) \<and>
    (\<forall>reply replies. outbound x = reply # replies \<longrightarrow> (\<exists>c. client_deliver kind reply (client x) = (c, [], None)))"
proof -
  have s: "in_step kind mode x" by (rule exchange_in_step [OF assms])
  then have "initialization (client x) \<noteq> Negotiating \<longrightarrow> initialization (client x) = view_of mode x" "orderly mode (served x)"
    by (auto simp: in_step_def believes_def)
  moreover have "\<exists>c. client_deliver kind reply (client x) = (c, [], None)" if "outbound x = reply # replies" for reply replies
    using arrives_in_step [OF s that] by (cases "deliver reply (client x)") (auto simp: client_shapes)
  ultimately show ?thesis unfolding orderly_def welcomed_def by blast
qed

text \<open>The handshake of the tests, step by step\<close>

definition foreground_offer :: jsval where
  "foreground_offer = obj [(''generations'', arr [mem foreground_contract ''generation'']), (''capabilities'', arr [])]"

lemma offer_value: "frame_value name foreground_offer i = obj [(''generations'', arr [mem foreground_contract ''generation'']), (''capabilities'', arr []),
    (''method'', Str name), (''request_id'', Str i)]"
  by (simp add: frame_value_def foreground_offer_def with_members_Cons) (simp add: obj_def)

lemma offer_frame: "\<exists>t. frame_of (lit ''initialize'') foreground_offer i = Some t \<and> 10 \<notin> set t"
proof -
  have g: "mem foreground_contract ''generation'' = js ''loopex.experimental/3''" by (simp add: foreground_contract_def member_simps)
  have "frame_of (lit ''initialize'') foreground_offer i = stringify (frame_value (lit ''initialize'') foreground_offer i)" by (simp add: frame_of_def frame_value_def)
  then obtain t where t: "frame_of (lit ''initialize'') foreground_offer i = Some t" unfolding offer_value g by (simp add: obj_def arr_def)
  moreover have "printed foreground_offer" by (simp add: foreground_offer_def g obj_def arr_def)
  ultimately show ?thesis using frame_line by blast
qed

lemma offer_keys: "join_texts (sort (map lit [''generations'', ''capabilities'', ''method'', ''request_id''])) = lit ''capabilities,generations,method,request_id''"
proof -
  have "sort (map lit [''generations'', ''capabilities'', ''method'', ''request_id'']) = map lit [''capabilities'', ''generations'', ''method'', ''request_id'']"
    by (simp add: lit_def unit_of_char_def)
  then show ?thesis by (simp add: lit_def)
qed

lemma offer_accepted: "responder Foreground ''good'' False (frame_value (lit ''initialize'') foreground_offer i) =
    (welcome_of Foreground ''good'' (frame_value (lit ''initialize'') foreground_offer i), True)"
proof -
  have "isString (mem foreground_contract ''generation'')" by (simp add: foreground_contract_def member_simps)
  then show ?thesis using offer_keys
    by (simp add: responder_def malformed_initialization_def Let_def offer_value member_simps arr_def)
qed

text \<open>The client has called \<open>initialize\<close> and the frame is on its way\<close>

definition offer_call :: call where
  "offer_call = \<lparr>initializing = True, prior = Uninitialized\<rparr>"

definition offered :: exchange where
  "offered = connected\<lparr>client := initial\<lparr>initialization := Negotiating, nextRequest := 1, pending := [(lit ''c0'', offer_call)]\<rparr>,
     inbound := [frame_value (lit ''initialize'') foreground_offer (lit ''c0'')]\<rparr>"

lemma offered_reached: "exchanging Foreground ''good'' offered"
proof -
  let ?c = "initial\<lparr>initialization := Negotiating, nextRequest := 1, pending := [(lit ''c0'', offer_call)]\<rparr>"
  have i: "lit ''c'' @ dec 0 = lit ''c0''" by (simp add: dec_zero flip: lit_append)
  obtain t where t: "frame_of (lit ''initialize'') foreground_offer (lit ''c0'') = Some t" "10 \<notin> set t" using offer_frame by blast
  have "call_guard (lit ''initialize'') foreground_offer initial = None" by (simp add: call_guard_def initial_def foreground_offer_def hasOwn_obj)
  with t have "requesting ''c'' (lit ''initialize'') foreground_offer initial = (?c, [Sent (lit ''c0'') (lit ''initialize'') (t @ [10])])"
    by (simp add: requesting_def Let_def i initial_def offer_call_def)
  then have sent: "client_request Foreground (lit ''initialize'') foreground_offer (client connected) = (?c, [Sent (lit ''c0'') (lit ''initialize'') (t @ [10])])"
    by (simp add: client_shapes connected_def del: client_request.simps)
  have "json foreground_offer" by (simp add: foreground_offer_def foreground_contract_def member_simps) (simp add: obj_def arr_def)
  from exchanging.sends [OF exchanging.connect this sent] show ?thesis by (simp add: offered_def connected_def)
qed

lemma handshake: "\<exists>x. exchanging Foreground ''good'' x \<and> initialization (client x) = Verified"
proof -
  let ?f = "frame_value (lit ''initialize'') foreground_offer (lit ''c0'')"
  let ?r = "welcome_of Foreground ''good'' ?f"
  let ?x2 = "offered\<lparr>inbound := [], outbound := [?r], consumed := True, served := [(?f, ?r)]\<rparr>"
  have x2: "exchanging Foreground ''good'' ?x2"
    using exchanging.serves [OF offered_reached, of ?f "[]" ?r True] offer_accepted by (simp add: offered_def connected_def)
  obtain d outs e where d: "deliver ?r (client offered) = (d, outs, e)" by (cases "deliver ?r (client offered)")
  have "e = None" using arrives_in_step [OF exchange_in_step [OF x2], of ?r "[]"] d by simp
  then have x3: "exchanging Foreground ''good'' (?x2\<lparr>client := d, outbound := []\<rparr>)"
    using exchanging.arrives [OF x2, of ?r "[]" d outs] d by simp
  have "ready d = [(lit ''c0'', offer_call, ?r)]" "initialization d = Negotiating"
    using d responder_reply [OF offer_accepted, of "lit ''c0''" "lit ''c0''"]
    by (auto simp: deliver_def settle_with_def offered_def initial_def reply_members)
  moreover have "matchesContractIdentity ?r (current_contract Foreground)" unfolding welcome_matches by (simp add: honest_def)
  ultimately obtain d' outs' where d': "resuming (current_contract Foreground) d = (d', outs')" "initialization d' = Verified"
    by (simp add: resuming_def reply_members offer_call_def)
  let ?x3 = "?x2\<lparr>client := d, outbound := []\<rparr>"
  have "client_resume Foreground (client ?x3) = (d', outs')" using d'(1) by (simp add: client_shapes del: client_resume.simps)
  from exchanging.continues [OF x3 this] d'(2) show ?thesis by (intro exI [of _ "?x3\<lparr>client := d'\<rparr>"]) simp
qed

theorem contract_agreement_witness:
  "\<exists>x. exchanging Foreground ''good'' x \<and> initialization (client x) = Verified \<and> view_of ''good'' x = Verified"
proof -
  obtain x where x: "exchanging Foreground ''good'' x" "initialization (client x) = Verified" using handshake by blast
  with contract_agreement [OF x(1)] show ?thesis by auto
qed

section \<open>Every call is answered\<close>

text \<open>The steps the two ends have left without a new call\<close>

definition outstanding :: "exchange \<Rightarrow> nat" where
  "outstanding x = 3 * length (inbound x) + 2 * length (outbound x) + length (ready (client x))"

lemma resuming_ready: "ready c \<noteq> [] \<Longrightarrow> length (ready (fst (resuming contract c))) < length (ready c)"
  by (auto simp: resuming_def Let_def split: list.splits)

lemma deliver_outstanding:
  assumes "in_step kind mode x" "outbound x = reply # replies" "deliver reply (client x) = (c, outs, e)"
  shows "length (ready c) = Suc (length (ready (client x)))"
proof -
  from assms(1,2) obtain i k where "answers (i, k) reply" "map_of (pending (client x)) i = Some k"
    by (cases rule: in_stepE) (auto simp: list_all2_Cons2)
  with assms(3) show ?thesis by (auto simp: deliver_def settle_with_def)
qed

lemma nothing_outstanding:
  assumes "in_step kind mode x" "outstanding x = 0"
  shows "pending (client x) = [] \<and> initialization (client x) = view_of mode x"
  using assms(1)
proof (cases rule: in_stepE)
  case (parts waiting asked)
  with assms(2) have e: "waiting = []" "asked = []" by (simp_all add: outstanding_def)
  with parts(6) assms(2) have "believes kind (initialization (client x)) [] (view_of mode x)" by (simp add: flight_def outstanding_def)
  with e parts(1) show ?thesis by (auto simp: believes_def split: if_splits)
qed

lemma in_step_distinct: "in_step kind mode x \<Longrightarrow> distinct (map fst (pending (client x)))"
  by (auto simp: in_step_def)

text \<open>A step loses no request, takes no new one and leaves less outstanding\<close>

lemma answering_step:
  assumes "exchanging kind mode x" "answering kind mode x outs y"
  shows "exchanging kind mode y" "outstanding y < outstanding x" "sent outs = []" "nextRequest (client y) = nextRequest (client x)"
    "mset (open_ids (client x)) = mset (settled outs) + mset (open_ids (client y))"
    "map fst (served y) @ inbound y = map fst (served x) @ inbound x"
proof -
  note s = exchange_in_step [OF assms(1)]
  have "exchanging kind mode y \<and> outstanding y < outstanding x \<and> sent outs = [] \<and> nextRequest (client y) = nextRequest (client x) \<and>
      mset (open_ids (client x)) = mset (settled outs) + mset (open_ids (client y)) \<and> map fst (served y) @ inbound y = map fst (served x) @ inbound x"
    using assms(2)
  proof (cases rule: answering.cases)
    case (serving frame frames reply b)
    with exchanging.serves [OF assms(1) serving(3,4)] show ?thesis by (simp add: outstanding_def)
  next
    case (arriving reply replies c)
    then have d: "deliver reply (client x) = (c, outs, None)" by (simp add: client_shapes)
    have "quiescent (client x) outs c" by (rule deliver_quiescent [OF d])
    with in_step_distinct [OF s] deliver_outstanding [OF s arriving(2) d] exchanging.arrives [OF assms(1) arriving(2,3)] arriving(1,2)
    show ?thesis by (simp add: quiescent_def outstanding_def)
  next
    case (continuing c)
    then have r: "resuming (current_contract kind) (client x) = (c, outs)" by (simp add: client_shapes)
    from resuming_laws [OF r, of "request_prefix kind"] have "accounted (client x) outs c" unfolding lawful_def by blast
    moreover from r obtain i where "nextRequest c = nextRequest (client x)" "sent outs = []"
      by (cases rule: resuming_cases) (use continuing(2) in auto)
    ultimately show ?thesis
      using in_step_distinct [OF s] resuming_ready [OF continuing(2), of "current_contract kind"] r exchanging.continues [OF assms(1) continuing(3)] continuing(1)
      by (simp add: accounted_def outstanding_def)
  qed
  then show "exchanging kind mode y" "outstanding y < outstanding x" "sent outs = []" "nextRequest (client y) = nextRequest (client x)"
    "mset (open_ids (client x)) = mset (settled outs) + mset (open_ids (client y))"
    "map fst (served y) @ inbound y = map fst (served x) @ inbound x" by blast+
qed

text \<open>A step is enabled as long as something is outstanding\<close>

lemma answering_enabled:
  assumes "exchanging kind mode x" "outstanding x \<noteq> 0"
  shows "\<exists>outs y. answering kind mode x outs y"
proof -
  note s = exchange_in_step [OF assms(1)]
  consider (ready) "ready (client x) \<noteq> []" | (reply) reply replies where "outbound x = reply # replies" | (frame) frame frames where "inbound x = frame # frames"
    using assms(2) by (fastforce simp: outstanding_def neq_Nil_conv)
  then show ?thesis
  proof cases
    case ready
    then show ?thesis using answering.continuing [OF ready, of kind] by (metis prod.exhaust)
  next
    case reply
    obtain c outs e where c: "deliver reply (client x) = (c, outs, e)" by (cases "deliver reply (client x)")
    with arrives_in_step [OF s reply c] answering.arriving [OF reply, of kind c outs] show ?thesis by (auto simp: client_shapes)
  next
    case frame
    then show ?thesis using answering.serving [OF frame, of kind mode] by (metis prod.exhaust)
  qed
qed

lemma answers_in_keeps:
  assumes "answers_in kind mode n x log y" "exchanging kind mode x"
  shows "exchanging kind mode y \<and> n + outstanding y \<le> outstanding x \<and> sent log = [] \<and> nextRequest (client y) = nextRequest (client x) \<and>
    mset (open_ids (client x)) = mset (settled log) + mset (open_ids (client y)) \<and> map fst (served y) @ inbound y = map fst (served x) @ inbound x"
  using assms
proof (induction rule: answers_in.induct)
  case (goes_on n x log y outs z)
  then have y: "exchanging kind mode y" by blast
  from answering_step [OF y goes_on.hyps(2)] goes_on show ?case by simp
qed simp

lemma answers_all:
  assumes "exchanging kind mode x"
  shows "\<exists>n log y. answers_in kind mode n x log y \<and> outstanding y = 0"
proof -
  have "answers_in kind mode n x log y \<Longrightarrow> \<exists>n log y. answers_in kind mode n x log y \<and> outstanding y = 0" for n log y
  proof (induction "outstanding y" arbitrary: n log y rule: less_induct)
    case less
    have y: "exchanging kind mode y" using answers_in_keeps [OF less.prems assms] by blast
    show ?case
    proof (cases "outstanding y = 0")
      case False
      from answering_enabled [OF y False] obtain outs z where z: "answering kind mode y outs z" by blast
      from less.hyps [OF answering_step(2) [OF y z] answers_in.goes_on [OF less.prems z]] show ?thesis .
    qed (use less.prems in blast)
  qed
  from this [OF answers_in.stays] show ?thesis .
qed

text \<open>C6. No call is left hanging.  From every state the two ends reach, whatever they do next without a new call (the peer serves a frame, a
  reply arrives, a call goes on) takes them, in a number of steps bounded from the start, to a state where nothing is outstanding: until
  then a step is always possible, no step sends a request, every request open at the start is settled once or still open, and at the end
  none is open, the frames on the way have been served in their order and the client holds the peer's view.\<close>

theorem exchange_completes:
  assumes "exchanging kind mode x" "answers_in kind mode n x log y"
  shows "n + outstanding y \<le> outstanding x \<and> sent log = [] \<and> nextRequest (client y) = nextRequest (client x) \<and>
    mset (open_ids (client x)) = mset (settled log) + mset (open_ids (client y)) \<and>
    (if outstanding y \<noteq> 0 then \<exists>outs z. answering kind mode y outs z
     else open_ids (client y) = [] \<and> map fst (served y) = map fst (served x) @ inbound x \<and> initialization (client y) = view_of mode y)"
proof -
  note k = answers_in_keeps [OF assms(2,1)]
  then have y: "exchanging kind mode y" by blast
  have "open_ids (client y) = [] \<and> map fst (served y) = map fst (served x) @ inbound x \<and> initialization (client y) = view_of mode y"
    if "outstanding y = 0"
    using nothing_outstanding [OF exchange_in_step [OF y] that] that k by (simp add: open_ids_def outstanding_def)
  with k answering_enabled [OF y] show ?thesis by simp
qed

theorem exchange_completes_witness:
  "\<exists>n log y. answers_in Foreground ''good'' n offered log y \<and> outstanding y = 0 \<and> settled log = [lit ''c0''] \<and> n \<le> 3"
proof -
  obtain n log y where y: "answers_in Foreground ''good'' n offered log y" "outstanding y = 0" using answers_all [OF offered_reached] by blast
  from exchange_completes [OF offered_reached y(1)] y(2)
  have "n \<le> outstanding offered" "mset (settled log) = mset (open_ids (client offered))" by simp_all
  then have "n \<le> 3" "settled log = [lit ''c0'']" by (simp_all add: offered_def connected_def initial_def outstanding_def open_ids_def)
  with y show ?thesis by blast
qed

end
