(* ===== verification/Creation_Cancellation.thy ===== *)
theory Creation_Cancellation
  imports Payload_Codec
begin

text \<open>
  \<open>clients/node/creation-cancellation.mjs\<close>: the admission that refuses a cancelled creation.  All but the
  request and command identities is fixed.  The byte view the encoder takes through the typed-array getters is
  the content of the buffer.
\<close>

definition cancellation_keys :: "string list" where
  "cancellation_keys = [''type'', ''request_id'', ''method'', ''command_id'', ''status'', ''reason'']"

definition cancellation_closed :: "jsval \<Rightarrow> bool" where
  "cancellation_closed value \<longleftrightarrow> isObject value \<and> plainProto value \<and>
     length (ownKeys value) = length cancellation_keys \<and>
     list_all (\<lambda>(k, p). string_key k \<and> k \<in> set (map (\<lambda>s. SKey (lit s)) cancellation_keys) \<and> is_data p \<and> enumerable p)
       (own_props value)"

definition fixed :: "jsval \<Rightarrow> bool" where
  "fixed value \<longleftrightarrow> mem value ''type'' = js ''admission'' \<and> mem value ''method'' = js ''session.create'' \<and>
     mem value ''status'' = js ''refused'' \<and> mem value ''reason'' = js ''creation_cancelled''"

text \<open>\<open>[A-Za-z0-9._~-]\<close>\<close>

definition is_request_char :: "code_unit \<Rightarrow> bool" where
  "is_request_char u \<longleftrightarrow> (65 \<le> unat u \<and> unat u \<le> 90) \<or> (97 \<le> unat u \<and> unat u \<le> 122) \<or> (48 \<le> unat u \<and> unat u \<le> 57) \<or>
     unat u = 46 \<or> unat u = 95 \<or> unat u = 126 \<or> unat u = 45"

definition request_text :: "jsval \<Rightarrow> bool" where
  "request_text value = (case value of Str s \<Rightarrow> 1 \<le> length s \<and> length s \<le> 64 \<and> \<not> list_ex (\<lambda>u. \<not> is_request_char u) s | _ \<Rightarrow> False)"

definition cancellation_identity :: "jsval \<Rightarrow> bytes option" where
  "cancellation_identity value = (case value of
     Str s \<Rightarrow> if length s < 1 \<or> 342 < length s \<or> list_ex (\<lambda>u. \<not> is_b64 u) s then None
       else let bytes = b64url_decode s in
         if 1 \<le> length bytes \<and> length bytes \<le> 256 \<and> b64url bytes = s then Some bytes else None
   | _ \<Rightarrow> None)"

definition cancellation_result :: "jsval \<Rightarrow> jsval \<Rightarrow> jsval" where
  "cancellation_result request command = obj [(''type'', js ''admission''), (''request_id'', request),
     (''method'', js ''session.create''), (''command_id'', command), (''status'', js ''refused''), (''reason'', js ''creation_cancelled'')]"

definition decodeCreationCancellation :: "jsval \<Rightarrow> jsval option" where
  "decodeCreationCancellation value =
     (if \<not> cancellation_closed value \<or> \<not> fixed value \<or> \<not> request_text (mem value ''request_id'') then None
      else map_option (\<lambda>command. cancellation_result (mem value ''request_id'') (Buf command))
        (cancellation_identity (mem value ''command_id'')))"

definition encodeCreationCancellation :: "jsval \<Rightarrow> jsval option" where
  "encodeCreationCancellation value =
     (if \<not> cancellation_closed value \<or> \<not> fixed value \<or> \<not> request_text (mem value ''request_id'') then None
      else case mem value ''command_id'' of
        Buf command \<Rightarrow> let size = length command in
          if size < 1 \<or> 256 < size then None else Some (cancellation_result (mem value ''request_id'') (Str (b64url command)))
      | _ \<Rightarrow> None)"

section \<open>Both directions\<close>

text \<open>The payload over a request identity and a command spelled by \<open>f\<close>\<close>

definition spells_cancellation :: "(bytes \<Rightarrow> jsval) \<Rightarrow> ustring \<Rightarrow> bytes \<Rightarrow> jsval \<Rightarrow> bool" where
  "spells_cancellation f request command v \<longleftrightarrow> cancellation_closed v \<and> fixed v \<and>
     mem v ''request_id'' = Str request \<and> mem v ''command_id'' = f command"

definition cancellation_ok :: "ustring \<Rightarrow> bytes \<Rightarrow> bool" where
  "cancellation_ok request command \<longleftrightarrow> 1 \<le> length request \<and> length request \<le> 64 \<and> list_all is_request_char request \<and> id_ok 256 command"

lemma cancellation_closed_eq [copy_eqs]: "cancellation_closed v = closedOwn v cancellation_keys"
  by (auto simp: cancellation_closed_def closedOwn_def list_all_iff)

lemma cancellation_identity_eq [copy_eqs]: "cancellation_identity = identity_within 256"
proof
  fix v
  have "list_ex (\<lambda>u. \<not> is_b64 u) s \<or> length s < 1 \<longleftrightarrow> \<not> b64_text s" for s
    by (cases s) (auto simp: b64_text_def list_ex_iff list_all_iff)
  then have "cancellation_identity v = (case v of Str i \<Rightarrow>
      if 342 < length i \<or> \<not> b64_text i then None
      else let bs = b64url_decode i in if 1 \<le> length bs \<and> length bs \<le> 256 \<and> b64url bs = i then Some bs else None
    | _ \<Rightarrow> None)" by (cases v) (auto simp: cancellation_identity_def)
  then show "cancellation_identity v = identity_within 256 v" by (simp add: identity_copy)
qed

lemma request_text_iff: "request_text v \<longleftrightarrow> (\<exists>s. v = Str s \<and> 1 \<le> length s \<and> length s \<le> 64 \<and> list_all is_request_char s)"
  by (cases v) (auto simp: request_text_def list_ex_iff list_all_iff)

lemma decodeCreationCancellation_iff:
  "decodeCreationCancellation v = Some r \<longleftrightarrow> (\<exists>q c. cancellation_ok q c \<and> spells_cancellation wire_id q c v \<and>
     r = cancellation_result (Str q) (Buf c))"
  by (auto simp: decodeCreationCancellation_def copy_eqs identity_within_iff request_text_iff cancellation_ok_def
      spells_cancellation_def)

lemma encodeCreationCancellation_iff:
  "encodeCreationCancellation v = Some r \<longleftrightarrow> (\<exists>q c. cancellation_ok q c \<and> spells_cancellation Buf q c v \<and>
     r = cancellation_result (Str q) (wire_id c))"
  by (auto simp: encodeCreationCancellation_def request_text_iff cancellation_ok_def id_ok_def spells_cancellation_def not_less Suc_le_eq
      split: jsval.splits if_splits)

lemma spells_cancellation_result: "spells_cancellation f q c (cancellation_result (Str q) (f c))"
  by (simp add: spells_cancellation_def fixed_def cancellation_result_def copy_eqs cancellation_keys_def member_simps)

definition cancellation_norm :: "jsval \<Rightarrow> jsval" where
  "cancellation_norm v = obj (map (\<lambda>k. (k, mem v k)) cancellation_keys)"

lemma cancellation_norm_spelled:
  "spells_cancellation f q c v \<Longrightarrow> cancellation_norm v = cancellation_result (Str q) (f c)"
  by (simp add: spells_cancellation_def fixed_def cancellation_norm_def cancellation_keys_def cancellation_result_def)

interpretation cancellation_codec: payload_codec encodeCreationCancellation decodeCreationCancellation cancellation_norm "\<lambda>v. True"
proof
  fix v w
  assume "encodeCreationCancellation v = Some w"
  then obtain q c where "cancellation_ok q c" "spells_cancellation Buf q c v" "w = cancellation_result (Str q) (wire_id c)"
    unfolding encodeCreationCancellation_iff by blast
  then show "True \<and> decodeCreationCancellation w = Some (cancellation_norm v)"
    unfolding decodeCreationCancellation_iff using spells_cancellation_result cancellation_norm_spelled by blast
next
  fix v w
  assume "decodeCreationCancellation w = Some v"
  then obtain q c where "cancellation_ok q c" "spells_cancellation wire_id q c w" "v = cancellation_result (Str q) (Buf c)"
    unfolding decodeCreationCancellation_iff by blast
  then show "True \<and> encodeCreationCancellation v = Some (cancellation_norm w)"
    unfolding encodeCreationCancellation_iff using spells_cancellation_result cancellation_norm_spelled by blast
qed

section \<open>Properties\<close>

text \<open>A cancelled creation survives both trips: what \<open>encodeCreationCancellation\<close> writes decodes to the same
  members, and what \<open>decodeCreationCancellation\<close> reads encodes back to them.\<close>

theorem cancellation_round_trip:
  "(encodeCreationCancellation v = Some w \<longrightarrow> decodeCreationCancellation w = Some (cancellation_norm v)) \<and>
   (decodeCreationCancellation w = Some v \<longrightarrow> encodeCreationCancellation v = Some (cancellation_norm w))"
  using cancellation_codec.encode_decode cancellation_codec.decode_encode by blast

theorem cancellation_round_trip_witness:
  "decodeCreationCancellation (cancellation_result (js ''q'') (wire_id [1])) = Some (cancellation_norm (cancellation_result (js ''q'') (Buf [1])))"
proof -
  have "cancellation_ok (lit ''q'') [1]" by (simp add: cancellation_ok_def id_ok_def) (simp add: lit_def is_request_char_def)
  then have "encodeCreationCancellation (cancellation_result (js ''q'') (Buf [1])) = Some (cancellation_result (js ''q'') (wire_id [1]))"
    unfolding encodeCreationCancellation_iff using spells_cancellation_result by blast
  then show ?thesis using cancellation_round_trip by blast
qed

end
