(* ===== verification/Configure_Request.thy ===== *)
theory Configure_Request
  imports Configuration Creation_Cancellation Inert_Objects
begin

text \<open>
  \<open>clients/node/configure-request.mjs\<close>: the authored configure request and the authored creation options.
  Members are copied out of the property descriptors first, so nothing is read through an accessor.
\<close>

definition changesKeys :: "string list" where
  "changesKeys = [''model'', ''reasoning'', ''instructions'', ''max_tokens'', ''context_token_budget'', ''system_class_tokens'']"

definition quantityKeys :: "string list" where
  "quantityKeys = [''max_tokens'', ''context_token_budget'', ''system_class_tokens'']"

definition instructionKeys :: "string list" where
  "instructionKeys = [''version'', ''base'', ''environment'', ''appendix'']"

definition members :: "jsval \<Rightarrow> jsval option" where
  "members value =
     (if \<not> isObject value \<or> \<not> plainProto value then None
      else if list_ex (\<lambda>(k, p). \<not> string_key k) (own_props value) then None
      else if list_ex (\<lambda>(k, p). \<not> enumerable p \<or> \<not> is_data p) (own_props value) then None
      else Some (Obj ObjectProto (map (\<lambda>(k, p). (k, Data True (read_prop p))) (own_props value))))"

definition configure_closed :: "jsval \<Rightarrow> string list \<Rightarrow> jsval option" where
  "configure_closed value keys = (case members value of
     None \<Rightarrow> None
   | Some data \<Rightarrow> if length (objectKeys data) = length keys \<and> list_all (hasOwn data) keys then Some data else None)"

definition configure_text :: "jsval \<Rightarrow> nat \<Rightarrow> nat option \<Rightarrow> bool" where
  "configure_text value minimum maximum = (case value of
     Str s \<Rightarrow> utf8_decode (utf8 s) = s \<and> minimum \<le> byteLength s \<and> (case maximum of None \<Rightarrow> True | Some m \<Rightarrow> byteLength s \<le> m)
   | _ \<Rightarrow> False)"

definition configure_identity :: "jsval \<Rightarrow> nat \<Rightarrow> bytes option" where
  "configure_identity value maximum = (case value of
     Str s \<Rightarrow> if \<not> b64_text s then None
       else let bytes = b64url_decode s in
         if 1 \<le> length bytes \<and> length bytes \<le> maximum \<and> b64url bytes = s then Some bytes else None
   | _ \<Rightarrow> None)"

definition positiveU64 :: "jsval \<Rightarrow> nat option" where
  "positiveU64 value = (case value of
     Str s \<Rightarrow> if \<not> positive_decimal s then None
       else let integer = decimal_value s in if integer \<le> u64 then Some integer else None
   | _ \<Rightarrow> None)"

definition instruction_sections :: "jsval \<Rightarrow> jsval option" where
  "instruction_sections member = do {
     sections \<leftarrow> configure_closed member instructionKeys;
     if \<not> configure_text (mem sections ''version'') 1 (Some 64) \<or> \<not> instruction_version (mem sections ''version'') \<or>
        \<not> configure_text (mem sections ''base'') 1 (Some 32768) \<or> \<not> configure_text (mem sections ''environment'') 0 (Some 4096) \<or>
        \<not> configure_text (mem sections ''appendix'') 0 (Some 16384) then None
     else Some sections
   }"

text \<open>\<open>Object.entries(data)\<close> of a copied object\<close>

definition entries :: "jsval \<Rightarrow> (ustring \<times> jsval) list" where
  "entries data = List.map_filter (\<lambda>(k, p). case k of SKey s \<Rightarrow> if enumerable p then Some (s, read_prop p) else None | Sym n \<Rightarrow> None)
     (own_props data)"

fun changes_loop :: "(ustring \<times> jsval) list \<Rightarrow> jsval \<Rightarrow> jsval option" where
  "changes_loop [] output = Some output"
| "changes_loop ((key, member) # rest) output =
     (if key = lit ''model'' then
        (if \<not> configure_text member 1 None then None else changes_loop rest (setU key member output))
      else if key = lit ''reasoning'' then
        (if \<not> one_of member [''default'', ''none'', ''low'', ''medium'', ''high''] then None else changes_loop rest (setU key member output))
      else if key = lit ''instructions'' then
        (case instruction_sections member of None \<Rightarrow> None | Some sections \<Rightarrow> changes_loop rest (setU key sections output))
      else if key \<in> set (map lit quantityKeys) then
        (case positiveU64 member of None \<Rightarrow> None | Some integer \<Rightarrow> changes_loop rest (setU key (big integer) output))
      else changes_loop rest output)"

definition decodeConfigureChanges :: "jsval \<Rightarrow> jsval option" where
  "decodeConfigureChanges value = (case members value of
     None \<Rightarrow> None
   | Some data \<Rightarrow>
       if objectKeys data = [] \<or> list_ex (\<lambda>key. key \<notin> set (map lit changesKeys)) (objectKeys data) then None
       else changes_loop (entries data) (obj []))"

definition request_id_text :: "jsval \<Rightarrow> bool" where
  "request_id_text value \<longleftrightarrow> configure_text value 1 (Some 64) \<and>
     (case value of Str s \<Rightarrow> s \<noteq> [] \<and> list_all is_request_char s | _ \<Rightarrow> False)"

definition decodeConfigureRequest :: "jsval \<Rightarrow> jsval \<Rightarrow> jsval option" where
  "decodeConfigureRequest value transport =
     (if transport \<noteq> js ''foreground'' \<and> transport \<noteq> js ''daemon'' then None
      else case configure_closed value ([''request_id'', ''method'', ''command_id'', ''changes''] @
          (if transport = js ''daemon'' then [''writer_epoch''] else [])) of
        None \<Rightarrow> None
      | Some data \<Rightarrow>
          if mem data ''method'' \<noteq> js ''session.configure'' \<or> \<not> request_id_text (mem data ''request_id'') then None
          else do {
            commandId \<leftarrow> configure_identity (mem data ''command_id'') 65536;
            changes \<leftarrow> decodeConfigureChanges (mem data ''changes'');
            (let output = obj [(''request_id'', mem data ''request_id''), (''command_id'', Buf commandId), (''changes'', changes)] in
             if transport = js ''daemon'' then
               map_option (\<lambda>writer. setm ''writer_epoch'' (Buf writer) output) (configure_identity (mem data ''writer_epoch'') 64)
             else Some output)
          })"

section \<open>Creation options\<close>

definition is_tool_char :: "code_unit \<Rightarrow> bool" where
  "is_tool_char u \<longleftrightarrow> (97 \<le> unat u \<and> unat u \<le> 122) \<or> (48 \<le> unat u \<and> unat u \<le> 57) \<or> unat u = 95"

text \<open>\<open>/^[a-z][a-z0-9_]{0,63}$/\<close> on a text of one to 64 bytes\<close>

definition tool_name :: "jsval \<Rightarrow> bool" where
  "tool_name value \<longleftrightarrow> configure_text value 1 (Some 64) \<and>
     (case value of Str s \<Rightarrow> s \<noteq> [] \<and> length s \<le> 64 \<and> 97 \<le> unat (hd s) \<and> unat (hd s) \<le> 122 \<and> list_all is_tool_char (tl s) | _ \<Rightarrow> False)"

fun tools_loop :: "jsval jsprop option list \<Rightarrow> jsval list \<Rightarrow> jsval list option" where
  "tools_loop [] found = Some found"
| "tools_loop (None # rest) found = None"
| "tools_loop (Some item # rest) found =
     (if \<not> enumerable item \<or> \<not> is_data item then None
      else let name = read_prop item in
        if \<not> tool_name name \<or> name \<in> set found then None else tools_loop rest (found @ [name]))"

definition creation_tools :: "jsval \<Rightarrow> jsval option" where
  "creation_tools tools = (case tools of
     Arr p sl ex \<Rightarrow> if p \<noteq> ArrayProto \<or> 1024 < length sl \<or> length (ownKeys tools) \<noteq> length sl + 1 then None
       else map_option arr (tools_loop sl [])
   | _ \<Rightarrow> None)"

definition decodeCreationOptions :: "jsval \<Rightarrow> jsval option" where
  "decodeCreationOptions value = (case members value of
     None \<Rightarrow> None
   | Some data \<Rightarrow>
       if \<not> hasOwn data ''version'' \<or> mem data ''version'' \<noteq> Number 1 \<or>
          list_ex (\<lambda>key. key \<notin> set (map lit [''version'', ''configuration'', ''tools''])) (objectKeys data) then None
       else do {
         output \<leftarrow> (if hasOwn data ''configuration'' then
             map_option (\<lambda>configuration. obj [(''version'', Number 1), (''configuration'', configuration)])
               (decodeConfigureChanges (mem data ''configuration''))
           else Some (obj [(''version'', Number 1)]));
         (if hasOwn data ''tools'' then map_option (\<lambda>names. setm ''tools'' names output) (creation_tools (mem data ''tools''))
          else Some output)
       })"

section \<open>Typed changes\<close>

datatype change =
    Set_model ustring
  | Set_reasoning string
  | Set_instructions ustring ustring ustring ustring
  | Set_quantity string nat

fun change_key :: "change \<Rightarrow> string" where
  "change_key (Set_model s) = ''model''"
| "change_key (Set_reasoning s) = ''reasoning''"
| "change_key (Set_instructions a b c d) = ''instructions''"
| "change_key (Set_quantity k n) = k"

fun spells_change :: "change \<Rightarrow> jsval \<Rightarrow> bool" where
  "spells_change (Set_model s) v \<longleftrightarrow> v = Str s \<and> isWellFormed s \<and> 1 \<le> byteLength s"
| "spells_change (Set_reasoning s) v \<longleftrightarrow> v = js s \<and> s \<in> set reasoning_levels"
| "spells_change (Set_instructions ver base env app) v \<longleftrightarrow> closedPlain v instructionKeys \<and>
     mem v ''version'' = Str ver \<and> instruction_version (Str ver) \<and> mem v ''base'' = Str base \<and> text_within 1 32768 (Str base) \<and>
     mem v ''environment'' = Str env \<and> text_within 0 4096 (Str env) \<and> mem v ''appendix'' = Str app \<and> text_within 0 16384 (Str app)"
| "spells_change (Set_quantity k n) v \<longleftrightarrow> k \<in> set quantityKeys \<and> v = wire_nat n \<and> nat_ok 1 (Some u64) n"

fun change_native :: "change \<Rightarrow> jsval \<Rightarrow> jsval" where
  "change_native (Set_quantity k n) v = big n"
| "change_native c v = v"

section \<open>Lemmas\<close>

lemma members_eq: "members v = (if plainData v then Some v else None)"
proof (cases "plainData v")
  case True
  then obtain ps where v: "v = Obj ObjectProto ps" and p: "list_all (\<lambda>(k, q). string_key k \<and> is_data q \<and> enumerable q) ps"
    by (cases v) (auto simp: plainData_def)
  have "map (\<lambda>(k, p). (k, Data True (read_prop p))) ps = ps" using p
  proof (induction ps)
    case (Cons q qs)
    then show ?case by (cases q, cases "snd q") auto
  qed simp
  moreover have "\<not> list_ex (\<lambda>(k, p). \<not> string_key k) ps" "\<not> list_ex (\<lambda>(k, p). \<not> enumerable p \<or> \<not> is_data p) ps"
    using p by (auto simp: list_all_iff list_ex_iff)
  ultimately show ?thesis using True by (simp add: members_def v)
next
  case False
  then show ?thesis by (auto simp: members_def plainData_def list_all_iff list_ex_iff)
qed

lemma configure_closed_eq [copy_eqs]: "configure_closed v ks = (if closedPlain v ks then Some v else None)"
  by (simp add: configure_closed_def members_eq closedPlain_def)

lemma configure_text_eq [copy_eqs]: "configure_text v lo (Some hi) = text_within lo hi v"
  by (cases v) (auto simp: configure_text_def text_within_def)

lemma configure_text_model: "configure_text v 1 None \<longleftrightarrow> (\<exists>s. v = Str s \<and> isWellFormed s \<and> 1 \<le> byteLength s)"
  by (cases v) (auto simp: configure_text_def)

lemma configure_identity_eq [copy_eqs]: "configure_identity v m = identity_within m v"
  by (cases v) (auto simp: configure_identity_def identity_within_def Let_def)

lemma positiveU64_eq [copy_eqs]: "positiveU64 = quantity_within 1 (Some u64)"
proof
  fix v
  show "positiveU64 v = quantity_within 1 (Some u64) v"
    by (cases v) (auto simp: positiveU64_def quantity_within_def positive_canonical Let_def)
qed

lemma instruction_version_text:
  assumes "instruction_version (Str s)"
  shows "text_within 1 64 (Str s)"
proof -
  have "is_version_char u \<Longrightarrow> unat u < 128" for u by (auto simp: is_version_char_def is_alnum_def)
  then have "list_all (\<lambda>u. unat u < 128) s" using assms by (auto simp: instruction_version_def list_all_iff)
  from ascii_text [OF this] assms show ?thesis by (simp add: instruction_version_def text_within_def)
qed

lemma instruction_sections_eq:
  "instruction_sections v = (if closedPlain v instructionKeys \<and> instruction_version (mem v ''version'') \<and>
     text_within 1 32768 (mem v ''base'') \<and> text_within 0 4096 (mem v ''environment'') \<and> text_within 0 16384 (mem v ''appendix'')
     then Some v else None)"
proof -
  have "instruction_version w \<Longrightarrow> text_within 1 64 w" for w
    using instruction_version_text instruction_version_Str by blast
  then show ?thesis by (auto simp: instruction_sections_def copy_eqs)
qed

lemma instruction_sections_iff:
  "instruction_sections v = Some x \<longleftrightarrow> (\<exists>a b c d. spells_change (Set_instructions a b c d) v) \<and> x = v"
proof
  assume "instruction_sections v = Some x"
  then have h: "closedPlain v instructionKeys" "instruction_version (mem v ''version'')" "text_within 1 32768 (mem v ''base'')"
    "text_within 0 4096 (mem v ''environment'')" "text_within 0 16384 (mem v ''appendix'')" "x = v"
    by (auto simp: instruction_sections_eq split: if_splits)
  from h(2-5) obtain a b c d where "mem v ''version'' = Str a" "mem v ''base'' = Str b" "mem v ''environment'' = Str c" "mem v ''appendix'' = Str d"
    using text_within_Str instruction_version_Str by metis
  with h have "spells_change (Set_instructions a b c d) v" by simp
  with h(6) show "(\<exists>a b c d. spells_change (Set_instructions a b c d) v) \<and> x = v" by blast
qed (auto simp: instruction_sections_eq)

text \<open>One entry, and the loop as one pass over the entries\<close>

definition change_of :: "ustring \<Rightarrow> jsval \<Rightarrow> change \<Rightarrow> bool" where
  "change_of key m c \<longleftrightarrow> key = lit (change_key c) \<and> spells_change c m"

lemma change_of_cases:
  "(\<exists>c. change_of key m c \<and> x = change_native c m) \<longleftrightarrow>
     key = lit ''model'' \<and> configure_text m 1 None \<and> x = m \<or>
     key = lit ''reasoning'' \<and> one_of m reasoning_levels \<and> x = m \<or>
     key = lit ''instructions'' \<and> instruction_sections m = Some x \<or>
     (\<exists>k n. key = lit k \<and> k \<in> set quantityKeys \<and> positiveU64 m = Some n \<and> x = big n)"
proof -
  have ex: "(\<exists>c. P c) \<longleftrightarrow> (\<exists>s. P (Set_model s)) \<or> (\<exists>s. P (Set_reasoning s)) \<or> (\<exists>a b c d. P (Set_instructions a b c d)) \<or>
    (\<exists>k n. P (Set_quantity k n))" for P
    by (metis change.exhaust)
  have o: "one_of m ss \<longleftrightarrow> (\<exists>s. m = js s \<and> s \<in> set ss)" for ss using one_of_js by auto
  show ?thesis
    unfolding ex instruction_sections_iff configure_text_model positiveU64_eq quantity_within_iff o change_of_def
    by simp blast
qed

lemma quantity_keys: "k \<in> set quantityKeys \<Longrightarrow> k \<noteq> ''model'' \<and> k \<noteq> ''reasoning'' \<and> k \<noteq> ''instructions''"
  by (auto simp: quantityKeys_def)

lemma changes_loop_step:
  assumes "key \<in> set (map lit changesKeys)"
  shows "changes_loop ((key, m) # rest) out = Some r \<longleftrightarrow>
    (\<exists>c. change_of key m c \<and> changes_loop rest (setU key (change_native c m) out) = Some r)"
proof -
  have "(\<exists>c. change_of key m c \<and> changes_loop rest (setU key (change_native c m) out) = Some r) \<longleftrightarrow>
    (\<exists>x. (\<exists>c. change_of key m c \<and> x = change_native c m) \<and> changes_loop rest (setU key x out) = Some r)" by blast
  also have "\<dots> \<longleftrightarrow> changes_loop ((key, m) # rest) out = Some r"
    using assms unfolding change_of_cases
    by (auto simp: changesKeys_def quantityKeys_def reasoning_levels_def split: option.split)
  finally show ?thesis by simp
qed

lemma changes_loop_iff:
  "list_all (\<lambda>(k, m). k \<in> set (map lit changesKeys)) es \<Longrightarrow>
   changes_loop es out = Some r \<longleftrightarrow> (\<exists>cs. list_all2 (\<lambda>c (k, m). change_of k m c) cs es \<and>
     r = with_members out (map2 (\<lambda>c (k, m). (change_key c, change_native c m)) cs es))"
proof (induction es arbitrary: out)
  case Nil
  then show ?case by (auto simp: with_members_def)
next
  case (Cons e es)
  obtain k m where e: "e = (k, m)" by (cases e)
  have k: "k \<in> set (map lit changesKeys)" using Cons.prems by (simp add: e)
  have ex: "(\<exists>cs. list_all2 P cs (e # es) \<and> Q cs) \<longleftrightarrow> (\<exists>c cs. P c e \<and> list_all2 P cs es \<and> Q (c # cs))"
    for P and Q :: "change list \<Rightarrow> bool" by (auto simp: list_all2_Cons2)
  have su: "change_of k m c \<Longrightarrow> setU k x out = setm (change_key c) x out" for c x
    by (simp add: change_of_def setU_lit)
  have ih: "changes_loop es o' = Some r \<longleftrightarrow> (\<exists>cs. list_all2 (\<lambda>c (k, m). change_of k m c) cs es \<and>
     r = with_members o' (map2 (\<lambda>c (k, m). (change_key c, change_native c m)) cs es))" for o'
    by (rule Cons.IH) (use Cons.prems in simp)
  have "changes_loop (e # es) out = Some r \<longleftrightarrow> (\<exists>c. change_of k m c \<and> changes_loop es (setm (change_key c) (change_native c m) out) = Some r)"
    unfolding e changes_loop_step [OF k] using su by (simp cong: conj_cong)
  then have "changes_loop (e # es) out = Some r \<longleftrightarrow> (\<exists>c cs. change_of k m c \<and> list_all2 (\<lambda>c (k, m). change_of k m c) cs es \<and>
      r = with_members (setm (change_key c) (change_native c m) out) (map2 (\<lambda>c (k, m). (change_key c, change_native c m)) cs es))"
    unfolding ih by blast
  also have "\<dots> \<longleftrightarrow> (\<exists>cs. list_all2 (\<lambda>c (k, m). change_of k m c) cs (e # es) \<and>
      r = with_members out (map2 (\<lambda>c (k, m). (change_key c, change_native c m)) cs (e # es)))"
    unfolding ex by (simp add: e with_members_Cons)
  finally show ?case .
qed

lemma with_members_obj:
  "distinct (map fst (ps @ ms)) \<Longrightarrow> with_members (obj ps) ms = obj (ps @ ms)"
proof (induction ms arbitrary: ps)
  case (Cons a ms)
  obtain k x where m: "a = (k, x)" by (cases a)
  have "with_members (obj ps) (a # ms) = with_members (with_members (obj ps) [(k, x)]) ms"
    unfolding m with_members_append [symmetric] by simp
  also have "\<dots> = with_members (obj (ps @ [(k, x)])) ms" using Cons.prems by (simp add: m with_member_obj)
  also have "\<dots> = obj ((ps @ [(k, x)]) @ ms)" using Cons.prems m by (intro Cons.IH) auto
  finally show ?case by (simp add: m)
qed (simp add: with_members_def)

lemma entry_keys: "map fst (entries v) = objectKeys v"
proof -
  have "map fst (List.map_filter (\<lambda>(k, p). case k of SKey s \<Rightarrow> if enumerable p then Some (s, read_prop p) else None | Sym n \<Rightarrow> None) qs) =
    List.map_filter (\<lambda>(k, p). case k of SKey s \<Rightarrow> if enumerable p then Some s else None | Sym n \<Rightarrow> None) qs"
    for qs :: "(pkey \<times> jsval jsprop) list"
  proof (induction qs)
    case (Cons q qs)
    then show ?case by (cases q, cases "fst q") (auto simp: map_filter_simps)
  qed (simp add: map_filter_simps)
  then show ?thesis by (simp add: entries_def objectKeys_def)
qed

lemma spells_change_key: "spells_change c m \<Longrightarrow> change_key c \<in> set changesKeys"
  by (cases c) (auto simp: changesKeys_def quantityKeys_def)

lemma decodeConfigureChanges_iff:
  assumes "distinct (ownKeys v)"
  shows "decodeConfigureChanges v = Some r \<longleftrightarrow> plainData v \<and> (\<exists>cs. cs \<noteq> [] \<and>
     list_all2 (\<lambda>c (k, m). k = lit (change_key c) \<and> spells_change c m) cs (entries v) \<and>
     r = obj (map2 (\<lambda>c (k, m). (change_key c, change_native c m)) cs (entries v)))" (is "_ \<longleftrightarrow> _ \<and> (\<exists>cs. ?R cs)")
proof (cases "plainData v \<and> objectKeys v \<noteq> [] \<and> list_all (\<lambda>(k, m). k \<in> set (map lit changesKeys)) (entries v)")
  case True
  have d: "distinct (map fst (entries v))"
    using plain_objectKeys [of v] assms True unfolding entry_keys by (metis distinct_map)
  have ne: "entries v \<noteq> []" using True entry_keys [of v] by fastforce
  have keys: "\<not> list_ex (\<lambda>key. key \<notin> set (map lit changesKeys)) (objectKeys v)"
    using True unfolding entry_keys [symmetric] by (auto simp: list_ex_iff list_all_iff)
  have run: "decodeConfigureChanges v = changes_loop (entries v) (obj [])"
    using True keys by (simp add: decodeConfigureChanges_def members_eq)
  have names: "map lit (map fst (map2 (\<lambda>c (k, m). (change_key c, change_native c m)) cs es)) = map fst es"
    if "list_all2 (\<lambda>c (k, m). change_of k m c) cs es" for cs es
    using that by (induction rule: list_all2_induct) (auto simp: change_of_def)
  have dist: "distinct (map fst (map2 (\<lambda>c (k, m). (change_key c, change_native c m)) cs (entries v)))"
    if "list_all2 (\<lambda>c (k, m). change_of k m c) cs (entries v)" for cs
    using d unfolding names [OF that, symmetric] distinct_map [of lit] by (rule conjunct1)
  have eq: "with_members (obj []) (map2 (\<lambda>c (k, m). (change_key c, change_native c m)) cs (entries v)) =
      obj (map2 (\<lambda>c (k, m). (change_key c, change_native c m)) cs (entries v))"
    if "list_all2 (\<lambda>c (k, m). change_of k m c) cs (entries v)" for cs
    using with_members_obj [of "[]"] dist [OF that] by simp
  have "cs \<noteq> []" if "list_all2 (\<lambda>c (k, m). change_of k m c) cs (entries v)" for cs using that ne by auto
  moreover have "changes_loop (entries v) (obj []) = Some r \<longleftrightarrow> (\<exists>cs. list_all2 (\<lambda>c (k, m). change_of k m c) cs (entries v) \<and>
     r = with_members (obj []) (map2 (\<lambda>c (k, m). (change_key c, change_native c m)) cs (entries v)))"
    by (rule changes_loop_iff) (use True in blast)
  ultimately show ?thesis unfolding run using True eq by (auto simp: change_of_def)
next
  case False
  have "?R cs \<Longrightarrow> plainData v \<Longrightarrow> False" for cs
  proof -
    assume r: "?R cs" and p: "plainData v"
    then have "entries v \<noteq> []" by auto
    then have ne: "objectKeys v \<noteq> []" using entry_keys [of v] by fastforce
    have "list_all (\<lambda>(k, m). k \<in> set (map lit changesKeys)) es"
      if "list_all2 (\<lambda>c (k, m). k = lit (change_key c) \<and> spells_change c m) cs es" for cs es
      using that by (induction rule: list_all2_induct) (auto dest: spells_change_key)
    with r p ne False show False by blast
  qed
  moreover have "decodeConfigureChanges v \<noteq> Some r"
  proof
    assume "decodeConfigureChanges v = Some r"
    then have "plainData v" "objectKeys v \<noteq> []" "\<not> list_ex (\<lambda>key. key \<notin> set (map lit changesKeys)) (objectKeys v)"
      by (auto simp: decodeConfigureChanges_def members_eq split: if_splits)
    moreover from this(3) have "list_all (\<lambda>(k, m). k \<in> set (map lit changesKeys)) (entries v)"
      unfolding entry_keys [symmetric] by (auto simp: list_ex_iff list_all_iff)
    ultimately show False using False by blast
  qed
  ultimately show ?thesis by blast
qed

section \<open>The request and the creation options\<close>

lemma request_id_text_iff:
  "request_id_text v \<longleftrightarrow> (\<exists>s. v = Str s \<and> 1 \<le> length s \<and> length s \<le> 64 \<and> list_all is_request_char s)"
proof (cases v)
  case (Str s)
  have "list_all (\<lambda>u. unat u < 128) s" if "list_all is_request_char s"
    using that by (auto simp: list_all_iff is_request_char_def)
  with ascii_text [of s] Str show ?thesis
    by (cases s) (auto simp: request_id_text_def copy_eqs text_within_def)
qed (simp_all add: request_id_text_def)

fun transport_name :: "bytes option \<Rightarrow> string" where
  "transport_name None = ''foreground''"
| "transport_name (Some w) = ''daemon''"

definition configure_keys :: "bytes option \<Rightarrow> string list" where
  "configure_keys writer = [''request_id'', ''method'', ''command_id'', ''changes''] @ (if writer = None then [] else [''writer_epoch''])"

lemma decodeConfigureRequest_iff:
  "decodeConfigureRequest v t = Some r \<longleftrightarrow> (\<exists>writer q c x. t = js (transport_name writer) \<and> closedPlain v (configure_keys writer) \<and>
     mem v ''method'' = js ''session.configure'' \<and> mem v ''request_id'' = Str q \<and> request_id_text (Str q) \<and>
     mem v ''command_id'' = wire_id c \<and> id_ok 65536 c \<and> decodeConfigureChanges (mem v ''changes'') = Some x \<and>
     (\<forall>w. writer = Some w \<longrightarrow> mem v ''writer_epoch'' = wire_id w \<and> id_ok 64 w) \<and>
     r = obj ([(''request_id'', Str q), (''command_id'', Buf c), (''changes'', x)] @
       (case writer of None \<Rightarrow> [] | Some w \<Rightarrow> [(''writer_epoch'', Buf w)])))"
proof -
  have w: "setm ''writer_epoch'' (Buf w) (obj [(''request_id'', a), (''command_id'', b), (''changes'', x)]) =
    obj [(''request_id'', a), (''command_id'', b), (''changes'', x), (''writer_epoch'', Buf w)]" for w a b x
    by (simp add: obj_def)
  have q: "request_id_text z \<longleftrightarrow> (\<exists>s. z = Str s \<and> request_id_text (Str s))" for z
    by (cases z) (simp_all add: request_id_text_def)
  consider "t = js ''foreground''" | "t = js ''daemon''" | "t \<noteq> js ''foreground''" "t \<noteq> js ''daemon''" by blast
  then show ?thesis
  proof cases
    case 1
    then show ?thesis 
      by (auto simp: decodeConfigureRequest_def copy_eqs bind_eq_Some_conv identity_within_iff split_option_ex configure_keys_def) (metis q)
  next
    case 2
    then show ?thesis 
      by (auto simp: decodeConfigureRequest_def copy_eqs bind_eq_Some_conv identity_within_iff split_option_ex configure_keys_def w) (metis q)
  next
    case 3
    then show ?thesis by (auto simp: decodeConfigureRequest_def split_option_ex)
  qed
qed

lemma tools_loop_iff:
  "tools_loop sl found = Some xs \<longleftrightarrow> (\<exists>ns. sl = map (\<lambda>x. Some (Data True x)) ns \<and> xs = found @ ns \<and> list_all tool_name ns \<and>
     distinct ns \<and> set ns \<inter> set found = {})"
proof (induction sl found rule: tools_loop.induct)
  case (3 item rest found)
  show ?case
  proof (cases "enumerable item \<and> is_data item")
    case True
    then obtain x where x: "item = Data True x" by (cases item) auto
    show ?thesis
    proof (cases "tool_name x \<and> x \<notin> set found")
      case True
      with 3 x show ?thesis by (auto simp: Cons_eq_map_conv)
    qed (auto simp: x Cons_eq_map_conv)
  qed (auto simp: Cons_eq_map_conv)
qed (auto simp: Cons_eq_map_conv)

lemma creation_tools_iff:
  "creation_tools t = Some r \<longleftrightarrow> (\<exists>ns. t = arr ns \<and> length ns \<le> 1024 \<and> list_all tool_name ns \<and> distinct ns) \<and> r = t"
proof (cases t)
  case (Arr p sl ex)
  have "length (ownKeys t) = length sl + 1 \<longleftrightarrow> ex = []" if "sl = map (\<lambda>x. Some (Data True x)) ns" for ns
    using that by (simp add: Arr ownKeys_def index_props_full)
  then show ?thesis
    by (auto simp: Arr creation_tools_def tools_loop_iff arr_def)
qed (auto simp: creation_tools_def arr_def)

section \<open>Properties\<close>

text \<open>C27. \<open>decodeConfigureChanges\<close> accepts exactly a nonempty object each of whose members spells one well-formed
  change, and returns the changes in the order they were authored, with quantities as BigInts.\<close>

theorem configure_changes_exact:
  assumes "distinct (ownKeys v)"
  shows "decodeConfigureChanges v = Some r \<longleftrightarrow> plainData v \<and> (\<exists>cs. cs \<noteq> [] \<and>
     list_all2 (\<lambda>c (k, m). k = lit (change_key c) \<and> spells_change c m) cs (entries v) \<and>
     r = obj (map2 (\<lambda>c (k, m). (change_key c, change_native c m)) cs (entries v)))"
  by (rule decodeConfigureChanges_iff [OF assms])

theorem configure_changes_exact_witness:
  "decodeConfigureChanges (obj [(''max_tokens'', wire_nat 7), (''reasoning'', js ''low'')]) =
     Some (obj [(''max_tokens'', big 7), (''reasoning'', js ''low'')])"
proof -
  let ?v = "obj [(''max_tokens'', wire_nat 7), (''reasoning'', js ''low'')]"
  have d: "distinct (ownKeys ?v)" "plainData ?v" by (simp_all add: member_simps)
  have e: "entries ?v = [(lit ''max_tokens'', wire_nat 7), (lit ''reasoning'', js ''low'')]"
    by (simp add: entries_def member_simps map_filter_simps)
  let ?cs = "[Set_quantity ''max_tokens'' 7, Set_reasoning ''low'']"
  have "list_all2 (\<lambda>c (k, m). k = lit (change_key c) \<and> spells_change c m) ?cs (entries ?v)"
    by (simp add: e quantityKeys_def reasoning_levels_def nat_ok_def)
  then have "\<exists>cs. cs \<noteq> [] \<and> list_all2 (\<lambda>c (k, m). k = lit (change_key c) \<and> spells_change c m) cs (entries ?v) \<and>
      obj [(''max_tokens'', big 7), (''reasoning'', js ''low'')] = obj (map2 (\<lambda>c (k, m). (change_key c, change_native c m)) cs (entries ?v))"
    by (intro exI [of _ ?cs]) (simp add: e)
  with configure_changes_exact [OF d(1)] d(2) show ?thesis by blast
qed

text \<open>\<open>decodeConfigureRequest\<close> on every branch: a foreground request has exactly the four authored members, a daemon
  request also a writer epoch of at most 64 bytes, which then and only then appears in the result; any other
  transport is refused.\<close>

theorem configure_request_exact:
  "decodeConfigureRequest v t = Some r \<longleftrightarrow> (\<exists>writer q c x. t = js (transport_name writer) \<and> closedPlain v (configure_keys writer) \<and>
     mem v ''method'' = js ''session.configure'' \<and> mem v ''request_id'' = Str q \<and>
     1 \<le> length q \<and> length q \<le> 64 \<and> list_all is_request_char q \<and>
     mem v ''command_id'' = wire_id c \<and> id_ok 65536 c \<and> decodeConfigureChanges (mem v ''changes'') = Some x \<and>
     (case writer of None \<Rightarrow> True | Some w \<Rightarrow> mem v ''writer_epoch'' = wire_id w \<and> id_ok 64 w) \<and>
     r = obj ([(''request_id'', Str q), (''command_id'', Buf c), (''changes'', x)] @
       (case writer of None \<Rightarrow> [] | Some w \<Rightarrow> [(''writer_epoch'', Buf w)])))"
  unfolding decodeConfigureRequest_iff request_id_text_iff split_option_ex by simp

text \<open>\<open>decodeCreationOptions\<close> refuses a tool list that is not an ordinary array of at most 1024 distinct well-formed
  names, and otherwise returns the supplied list unchanged.\<close>

theorem creation_options_exact:
  "decodeCreationOptions v = Some r \<longleftrightarrow> plainData v \<and> hasOwn v ''version'' \<and> mem v ''version'' = Number 1 \<and>
     set (objectKeys v) \<subseteq> {lit ''version'', lit ''configuration'', lit ''tools''} \<and>
     (\<exists>c t. (if hasOwn v ''configuration'' then \<exists>x. decodeConfigureChanges (mem v ''configuration'') = Some x \<and> c = [(''configuration'', x)]
             else c = []) \<and>
        (if hasOwn v ''tools'' then (\<exists>ns. mem v ''tools'' = arr ns \<and> length ns \<le> 1024 \<and> list_all tool_name ns \<and> distinct ns) \<and>
             t = [(''tools'', mem v ''tools'')] else t = []) \<and>
        r = obj ([(''version'', Number 1)] @ c @ t))"
proof -
  have s: "setm ''tools'' x (obj [(''version'', Number 1)]) = obj [(''version'', Number 1), (''tools'', x)]"
    "setm ''tools'' x (obj [(''version'', Number 1), (''configuration'', y)]) =
      obj [(''version'', Number 1), (''configuration'', y), (''tools'', x)]" for x y
    by (simp_all add: obj_def)
  have k: "list_ex (\<lambda>key. key \<notin> set (map lit [''version'', ''configuration'', ''tools''])) ks \<longleftrightarrow>
      \<not> set ks \<subseteq> {lit ''version'', lit ''configuration'', lit ''tools''}" for ks
    by (auto simp: list_ex_iff)
  show ?thesis
    unfolding decodeCreationOptions_def members_eq k
    by (cases "hasOwn v ''configuration''"; cases "hasOwn v ''tools''")
      (auto simp: bind_eq_Some_conv creation_tools_iff s)
qed

end
