(* ===== verification/Active_Bounds.thy ===== *)
theory Active_Bounds
  imports Payload_Codec
begin

text \<open>
  \<open>clients/node/active-bounds.mjs\<close>: the committed bounds of the active run, read from
  decimal text into BigInt and written back.  One function serves both directions; its
  typed view \<open>run_bounds\<close> has the four quantities.
\<close>

definition active_keys :: "string list" where
  "active_keys = [''max_turns'', ''token_budget'', ''deadline_ms'', ''deadline'']"

definition active_scalar :: "bool \<Rightarrow> string \<Rightarrow> jsval \<Rightarrow> jsval option" where
  "active_scalar encode key scalar =
     (if key = ''deadline'' \<and> scalar = Null then Some Null
      else case (if encode then bigint_of scalar
                 else case scalar of Str s \<Rightarrow> if canonical_decimal s then Some (int (decimal_value s)) else None
                   | _ \<Rightarrow> None) of
        None \<Rightarrow> None
      | Some integer \<Rightarrow>
          if \<not> encode \<and> Str (int_text integer) \<noteq> scalar then None
          else if integer < (if key = ''deadline'' then 0 else 1) \<or>
              (key \<in> {''deadline'', ''deadline_ms''} \<and> int u64 < integer) then None
          else Some (if encode then Str (int_text integer) else BigInt integer))"

definition active_closed :: "jsval \<Rightarrow> bool" where
  "active_closed value \<longleftrightarrow> isObject value \<and> \<not> isArray value \<and> plainProto value \<and>
     length (ownKeys value) = length active_keys \<and>
     \<not> list_ex (\<lambda>(k, p). \<not> string_key k \<or> k \<notin> set (map (\<lambda>s. SKey (lit s)) active_keys) \<or>
          \<not> is_data p \<or> \<not> enumerable p) (own_props value)"

definition active_project :: "jsval \<Rightarrow> bool \<Rightarrow> jsval option" where
  "active_project value encode =
     (if \<not> active_closed value then None
      else read_loop (active_scalar encode) value active_keys (obj []))"

definition decodeActiveBounds :: "jsval \<Rightarrow> jsval option" where
  "decodeActiveBounds value = active_project value False"

definition encodeActiveBounds :: "jsval \<Rightarrow> jsval option" where
  "encodeActiveBounds value = active_project value True"

section \<open>Typed view\<close>

record run_bounds =
  rb_max_turns :: nat
  rb_token_budget :: nat
  rb_deadline_ms :: nat
  rb_deadline :: "nat option"

definition run_bounds_ok :: "run_bounds \<Rightarrow> bool" where
  "run_bounds_ok b \<longleftrightarrow> 1 \<le> rb_max_turns b \<and> 1 \<le> rb_token_budget b \<and>
     nat_ok 1 (Some u64) (rb_deadline_ms b) \<and> (\<forall>d. rb_deadline b = Some d \<longrightarrow> d \<le> u64)"

text \<open>A payload over the bounds, with \<open>f\<close> spelling a quantity: as text or as a BigInt.\<close>

definition run_bounds_payload :: "(nat \<Rightarrow> jsval) \<Rightarrow> run_bounds \<Rightarrow> jsval" where
  "run_bounds_payload f b = obj [(''max_turns'', f (rb_max_turns b)), (''token_budget'', f (rb_token_budget b)),
     (''deadline_ms'', f (rb_deadline_ms b)), (''deadline'', or_null f (rb_deadline b))]"

definition spells_run_bounds :: "(nat \<Rightarrow> jsval) \<Rightarrow> run_bounds \<Rightarrow> jsval \<Rightarrow> bool" where
  "spells_run_bounds f b v \<longleftrightarrow> active_closed v \<and> mem v ''max_turns'' = f (rb_max_turns b) \<and>
     mem v ''token_budget'' = f (rb_token_budget b) \<and> mem v ''deadline_ms'' = f (rb_deadline_ms b) \<and>
     mem v ''deadline'' = or_null f (rb_deadline b)"

text \<open>The four members in the order of the source's key list.\<close>

definition active_norm :: "jsval \<Rightarrow> jsval" where
  "active_norm v = obj (map (\<lambda>k. (k, mem v k)) active_keys)"

section \<open>Lemmas\<close>

lemma active_closed_eq: "active_closed v \<longleftrightarrow> closedOwn v active_keys"
proof -
  have "closedOwn v active_keys \<Longrightarrow> \<not> isArray v"
    by (cases v) (auto simp: closedOwn_def list_all_iff active_keys_def)
  then show ?thesis
    by (auto simp: active_closed_def closedOwn_def list_all_iff list_ex_iff)
qed

definition active_low :: "string \<Rightarrow> nat" where
  "active_low key = (if key = ''deadline'' then 0 else 1)"

definition active_high :: "string \<Rightarrow> nat option" where
  "active_high key = (if key \<in> {''deadline'', ''deadline_ms''} then Some u64 else None)"

lemma active_refused:
  "i < (if key = ''deadline'' then 0 else 1) \<or> (key \<in> {''deadline'', ''deadline_ms''} \<and> int u64 < i) \<longleftrightarrow>
     \<not> (\<exists>n. i = int n \<and> nat_ok (active_low key) (active_high key) n)"
proof (cases "i < 0")
  case False
  then obtain n where i: "i = int n" by (metis nonneg_int_cases not_le)
  have "int n < (if key = ''deadline'' then 0 else 1) \<longleftrightarrow> n < active_low key"
    by (auto simp: active_low_def)
  moreover have "key \<in> {''deadline'', ''deadline_ms''} \<and> int u64 < int n \<longleftrightarrow>
    \<not> (case active_high key of None \<Rightarrow> True | Some h \<Rightarrow> n \<le> h)"
    by (auto simp: active_high_def)
  ultimately show ?thesis using i by (auto simp: nat_ok_def not_le)
qed auto

lemma active_scalar_encode:
  "active_scalar True key v = Some x \<longleftrightarrow> (key = ''deadline'' \<and> v = Null \<and> x = Null) \<or>
     (\<exists>n. nat_ok (active_low key) (active_high key) n \<and> v = big n \<and> x = wire_nat n)"
proof (cases v)
  case (BigInt i)
  show ?thesis unfolding BigInt active_scalar_def active_refused by auto
qed (auto simp: active_scalar_def)

lemma active_scalar_decode:
  "active_scalar False key v = Some x \<longleftrightarrow> (key = ''deadline'' \<and> v = Null \<and> x = Null) \<or>
     (\<exists>n. nat_ok (active_low key) (active_high key) n \<and> v = wire_nat n \<and> x = big n)"
proof (cases v)
  case (Str s)
  show ?thesis
  proof (cases "canonical_decimal s")
    case True
    then show ?thesis unfolding Str active_scalar_def active_refused by (auto simp: dec_decimal_value)
  next
    case False
    then show ?thesis unfolding Str active_scalar_def by auto
  qed
qed (auto simp: active_scalar_def)

lemma active_scalar_iff:
  "active_scalar e key v = Some x \<longleftrightarrow>
     (key = ''deadline'' \<and> v = Null \<and> x = Null) \<or> quantity_cell e (active_low key) (active_high key) v x"
  unfolding quantity_cell_def by (cases e) (simp_all add: active_scalar_encode active_scalar_decode)

lemma active_deadline:
  "active_scalar e ''deadline'' v = Some x \<longleftrightarrow> (\<exists>d. (\<forall>n. d = Some n \<longrightarrow> n \<le> u64) \<and>
     v = or_null (if e then big else wire_nat) d \<and> x = or_null (if e then wire_nat else big) d)"
  (is "_ = (\<exists>d. ?P d)")
proof -
  have "(\<exists>d. ?P d) \<longleftrightarrow> ?P None \<or> (\<exists>n. ?P (Some n))" by (rule split_option_ex)
  moreover have "(\<exists>n. ?P (Some n)) \<longleftrightarrow> quantity_cell e (active_low ''deadline'') (active_high ''deadline'') v x"
    by (simp add: quantity_cell_def active_low_def active_high_def nat_ok_def or_null_def if_distribR)
  ultimately show ?thesis
    unfolding active_scalar_iff by (simp add: or_null_def)
qed

lemma active_positive:
  assumes "k \<noteq> ''deadline''"
  shows "active_scalar e k v = Some x \<longleftrightarrow> (\<exists>n. nat_ok 1 (active_high k) n \<and>
     v = (if e then big else wire_nat) n \<and> x = (if e then wire_nat else big) n)"
  using assms unfolding active_scalar_iff quantity_cell_def by (simp add: active_low_def if_distribR)

lemma ex_run_bounds: "(\<exists>b. P b) \<longleftrightarrow> (\<exists>n1 n2 n3 n4. P \<lparr>rb_max_turns = n1, rb_token_budget = n2,
    rb_deadline_ms = n3, rb_deadline = n4\<rparr>)"
  by (metis run_bounds.cases)

lemma active_highs [simp]:
  "active_high ''max_turns'' = None" "active_high ''token_budget'' = None" "active_high ''deadline_ms'' = Some u64"
  by (simp_all add: active_high_def)

lemma active_project_iff:
  "active_project v e = Some r \<longleftrightarrow> (\<exists>b. run_bounds_ok b \<and>
     spells_run_bounds (if e then big else wire_nat) b v \<and> r = run_bounds_payload (if e then wire_nat else big) b)"
proof -
  define f g where "f = (if e then big else wire_nat)" and "g = (if e then wire_nat else big)"
  have loop: "active_project v e = Some r \<longleftrightarrow> active_closed v \<and> (\<exists>a b c d.
      active_scalar e ''max_turns'' (mem v ''max_turns'') = Some a \<and>
      active_scalar e ''token_budget'' (mem v ''token_budget'') = Some b \<and>
      active_scalar e ''deadline_ms'' (mem v ''deadline_ms'') = Some c \<and>
      active_scalar e ''deadline'' (mem v ''deadline'') = Some d \<and>
      r = obj [(''max_turns'', a), (''token_budget'', b), (''deadline_ms'', c), (''deadline'', d)])"
    by (auto simp: active_project_def active_keys_def read_loop_iff list_all2_Cons1 with_members_Cons obj_def)
  have fields: "active_project v e = Some r \<longleftrightarrow> active_closed v \<and> (\<exists>n1 n2 n3 n4.
      nat_ok 1 None n1 \<and> nat_ok 1 None n2 \<and> nat_ok 1 (Some u64) n3 \<and> (\<forall>n. n4 = Some n \<longrightarrow> n \<le> u64) \<and>
      mem v ''max_turns'' = f n1 \<and> mem v ''token_budget'' = f n2 \<and> mem v ''deadline_ms'' = f n3 \<and>
      mem v ''deadline'' = or_null f n4 \<and>
      r = obj [(''max_turns'', g n1), (''token_budget'', g n2), (''deadline_ms'', g n3), (''deadline'', or_null g n4)])"
    unfolding loop active_deadline f_def [symmetric] g_def [symmetric]
    by (simp add: active_positive f_def [symmetric] g_def [symmetric]) blast
  show ?thesis
    unfolding fields f_def [symmetric] g_def [symmetric]
    by (auto simp: ex_run_bounds run_bounds_ok_def spells_run_bounds_def run_bounds_payload_def nat_ok_def)
qed

lemma active_norm_spelled:
  assumes "spells_run_bounds f b v" shows "active_norm v = run_bounds_payload f b"
  using assms by (simp add: active_norm_def spells_run_bounds_def run_bounds_payload_def active_keys_def)

lemma run_bounds_payload_spells: "spells_run_bounds f b (run_bounds_payload f b)"
  by (simp add: spells_run_bounds_def run_bounds_payload_def active_closed_eq active_keys_def member_simps)

interpretation active_codec: payload_codec encodeActiveBounds decodeActiveBounds active_norm "\<lambda>v. True"
proof unfold_locales
  fix v w assume "encodeActiveBounds v = Some w"
  then obtain b where b: "run_bounds_ok b" "spells_run_bounds big b v" "w = run_bounds_payload wire_nat b"
    unfolding encodeActiveBounds_def active_project_iff by auto
  then have "decodeActiveBounds w = Some (run_bounds_payload big b)"
    unfolding decodeActiveBounds_def active_project_iff using run_bounds_payload_spells by auto
  with b(2) show "True \<and> decodeActiveBounds w = Some (active_norm v)" by (simp add: active_norm_spelled)
next
  fix v w assume "decodeActiveBounds w = Some v"
  then obtain b where b: "run_bounds_ok b" "spells_run_bounds wire_nat b w" "v = run_bounds_payload big b"
    unfolding decodeActiveBounds_def active_project_iff by auto
  then have "encodeActiveBounds v = Some (run_bounds_payload wire_nat b)"
    unfolding encodeActiveBounds_def active_project_iff using run_bounds_payload_spells by auto
  with b(2) show "True \<and> encodeActiveBounds v = Some (active_norm w)" by (simp add: active_norm_spelled)
qed

section \<open>Properties\<close>

text \<open>Encoding committed run bounds and decoding the result gives the same bounds, with the
  members in the order of the key list; nothing that can be encoded is refused on the way back.\<close>

theorem active_bounds_round_trip:
  "encodeActiveBounds v = Some w \<Longrightarrow> decodeActiveBounds w = Some (active_norm v)"
  using active_codec.encode_decode by blast

theorem active_bounds_round_trip_witness:
  "decodeActiveBounds (run_bounds_payload wire_nat \<lparr>rb_max_turns = 3, rb_token_budget = 9, rb_deadline_ms = 7, rb_deadline = None\<rparr>)
   = Some (active_norm (run_bounds_payload big \<lparr>rb_max_turns = 3, rb_token_budget = 9, rb_deadline_ms = 7, rb_deadline = None\<rparr>))"
  by (rule active_bounds_round_trip, unfold encodeActiveBounds_def active_project_iff)
    (auto intro!: exI [of _ "\<lparr>rb_max_turns = 3, rb_token_budget = 9, rb_deadline_ms = 7, rb_deadline = None\<rparr>"]
      simp: run_bounds_ok_def nat_ok_def run_bounds_payload_spells)

end
