(* ===== verification/Inspection.thy ===== *)
theory Inspection
  imports Session_Views Configuration Active_Bounds
begin

text \<open>
  \<open>clients/node/inspection.mjs\<close>: the current inspection of a session.  Before any member is read, the
  whole value is walked through its property descriptors; only then do the payload decoders see it.
\<close>

definition inspection_keys :: "string list" where
  "inspection_keys = [''status'', ''event_sequence'', ''active_run_id'', ''cleanup_grace_ms'', ''active_context_token_budget'',
     ''pending_work_ids'', ''open_interaction'', ''configuration'', ''active_bounds'', ''checkpoint'', ''active_maintenance'']"

definition inspection_quantity :: "jsval \<Rightarrow> nat \<Rightarrow> nat option" where
  "inspection_quantity value minimum = (case value of
     Str s \<Rightarrow> if \<not> canonical_decimal s then None
       else let integer = decimal_value s in if dec integer = s \<and> minimum \<le> integer \<and> integer \<le> u64 then Some integer else None
   | _ \<Rightarrow> None)"

definition inspection_identity :: "jsval \<Rightarrow> bytes option" where
  "inspection_identity value = (case value of
     Str s \<Rightarrow> if 87382 < length s \<or> \<not> b64_text s then None
       else let bytes = b64url_decode s in
         if 1 \<le> length bytes \<and> length bytes \<le> 65536 \<and> b64url bytes = s then Some bytes else None
   | _ \<Rightarrow> None)"

definition inspection_closed :: "jsval \<Rightarrow> string list \<Rightarrow> bool" where
  "inspection_closed value required \<longleftrightarrow> isObject value \<and> \<not> isArray value \<and> plainProto value \<and>
     length (objectKeys value) = length required \<and> list_all (hasOwn value) required"

text \<open>The recursion ends because the depth is refused above sixteen.\<close>

function plainTree :: "jsval \<Rightarrow> nat \<Rightarrow> bool" where
  "plainTree value depth =
     (if 16 < depth then False
      else if value = Null \<or> isString value \<or> isBoolean value then True
      else case value of
        Number n \<Rightarrow> isSafeInteger value
      | Arr p sl ex \<Rightarrow> p = ArrayProto \<and> length sl \<le> 1024 \<and> length (ownKeys value) = length sl + 1 \<and>
          list_all (\<lambda>(key, d). key = SKey (lit ''length'') \<or>
            (case key of SKey s \<Rightarrow> canonical_decimal s \<and> decimal_value s < length sl | Sym m \<Rightarrow> False) \<and>
            is_data d \<and> enumerable d \<and> plainTree (read_prop d) (depth + 1)) (own_props value)
      | Obj p ps \<Rightarrow> p = ObjectProto \<and> length (ownKeys value) \<le> 1024 \<and>
          list_all (\<lambda>(key, d). string_key key \<and> is_data d \<and> enumerable d \<and> plainTree (read_prop d) (depth + 1)) ps
      | _ \<Rightarrow> False)"
  by pat_completeness auto

termination
  by (relation "measure (\<lambda>(value, depth). 17 - depth)") auto

declare plainTree.simps [simp del]

definition decodeInspection :: "jsval \<Rightarrow> jsval option" where
  "decodeInspection value =
     (if \<not> plainTree value 0 \<or> \<not> inspection_closed value inspection_keys \<or> mem value ''status'' \<noteq> js ''active'' then None
      else do {
        cursor \<leftarrow> inspection_quantity (mem value ''event_sequence'') 0;
        cleanup \<leftarrow> inspection_quantity (mem value ''cleanup_grace_ms'') 0;
        context \<leftarrow> nullable (\<lambda>v. inspection_quantity v 1) (mem value ''active_context_token_budget'');
        run \<leftarrow> nullable inspection_identity (mem value ''active_run_id'');
        if \<not> isArray (mem value ''pending_work_ids'') \<or> 1024 < length (elements (mem value ''pending_work_ids'')) then None
        else do {
          pending \<leftarrow> traverse inspection_identity (elements (mem value ''pending_work_ids''));
          configuration \<leftarrow> decodeConfiguration (mem value ''configuration'');
          bounds \<leftarrow> nullable decodeActiveBounds (mem value ''active_bounds'');
          interaction \<leftarrow> nullable decodeOpenInteraction (mem value ''open_interaction'');
          checkpoint \<leftarrow> nullable decodeCheckpoint (mem value ''checkpoint'');
          maintenance \<leftarrow> decodeMaintenanceView (obj [(''active_maintenance'', mem value ''active_maintenance'')]);
          if (run = None) \<noteq> (bounds = None) then None
          else Some (with_members (spread value) [(''event_sequence'', big cursor), (''cleanup_grace_ms'', big cleanup),
            (''active_context_token_budget'', or_null big context), (''active_run_id'', or_null Buf run),
            (''pending_work_ids'', arr (map Buf pending)), (''configuration'', configuration),
            (''active_bounds'', or_null (\<lambda>x. x) bounds), (''open_interaction'', or_null (\<lambda>x. x) interaction),
            (''checkpoint'', or_null (\<lambda>x. x) checkpoint),
            (''active_maintenance'', mem maintenance ''active_maintenance'')])
        }
      })"

section \<open>Reachable descriptors\<close>

text \<open>\<open>reach n v x\<close>: \<open>x\<close> is read from \<open>v\<close> through \<open>n\<close> own properties in turn, of which none is the length of an array.\<close>

inductive reach :: "nat \<Rightarrow> jsval \<Rightarrow> jsval \<Rightarrow> bool" where
  here: "reach 0 v v"
| member: "reach n v x \<Longrightarrow> (k, p) \<in> set (own_props x) \<Longrightarrow> \<not> (isArray x \<and> k = SKey (lit ''length'')) \<Longrightarrow> reach (Suc n) v (read_prop p)"

lemma plainTree_no_buffer [simp]: "\<not> plainTree (Buf b) d"
  by (subst plainTree.simps) simp

lemma plainTree_member:
  assumes "plainTree v d" "(k, p) \<in> set (own_props v)" "\<not> (isArray v \<and> k = SKey (lit ''length''))"
  shows "is_data p \<and> enumerable p \<and> string_key k \<and> plainTree (read_prop p) (Suc d)"
proof (cases v)
  case (Arr q sl ex)
  then show ?thesis using assms
    by (subst (asm) plainTree.simps) (auto simp: list_all_iff split: if_splits pkey.splits dest!: bspec)
next
  case (Obj q ps)
  then show ?thesis using assms
    by (subst (asm) plainTree.simps) (auto simp: list_all_iff split: if_splits dest!: bspec)
qed (use assms in auto)

lemma plainTree_depth: "plainTree v d \<Longrightarrow> d \<le> 16"
  by (subst (asm) plainTree.simps) (auto split: if_splits)

lemma plainTree_reach: "reach n v x \<Longrightarrow> plainTree v d \<Longrightarrow> plainTree x (d + n)"
proof (induction rule: reach.induct)
  case (member n v x k p)
  then show ?case using plainTree_member [of x "d + n" k p] by simp
qed simp

section \<open>Typed view\<close>

record inspection =
  ip_cursor :: nat
  ip_cleanup :: nat
  ip_context :: "nat option"
  ip_run :: "(bytes \<times> run_bounds) option"
  ip_pending :: "bytes list"
  ip_configuration :: configuration
  ip_question :: "interaction option"
  ip_checkpoint :: "checkpoint option"
  ip_maintenance :: "maintenance option"

definition spells_inspection :: "inspection \<Rightarrow> jsval \<Rightarrow> bool" where
  "spells_inspection i v \<longleftrightarrow> closedKeys v inspection_keys \<and> mem v ''status'' = js ''active'' \<and>
     ip_cursor i \<le> u64 \<and> mem v ''event_sequence'' = wire_nat (ip_cursor i) \<and>
     ip_cleanup i \<le> u64 \<and> mem v ''cleanup_grace_ms'' = wire_nat (ip_cleanup i) \<and>
     (\<forall>n. ip_context i = Some n \<longrightarrow> nat_ok 1 (Some u64) n) \<and>
     mem v ''active_context_token_budget'' = or_null wire_nat (ip_context i) \<and>
     (\<forall>b. map_option fst (ip_run i) = Some b \<longrightarrow> id_ok 65536 b) \<and>
     mem v ''active_run_id'' = or_null wire_id (map_option fst (ip_run i)) \<and>
     spells_opt (\<lambda>b w. run_bounds_ok b \<and> spells_run_bounds wire_nat b w) (map_option snd (ip_run i)) (mem v ''active_bounds'') \<and>
     isArray (mem v ''pending_work_ids'') \<and> length (ip_pending i) \<le> 1024 \<and> list_all (id_ok 65536) (ip_pending i) \<and>
     elements (mem v ''pending_work_ids'') = map wire_id (ip_pending i) \<and>
     spells_configuration (ip_configuration i) (mem v ''configuration'') \<and>
     spells_opt (\<lambda>c w. checkpoint_ok c \<and> spells_checkpoint c w) (ip_checkpoint i) (mem v ''checkpoint'') \<and>
     spells_opt spells_maintenance (ip_maintenance i) (mem v ''active_maintenance'') \<and>
     spells_opt (\<lambda>x w. interaction_ok x \<and> spells_interaction False x w) (ip_question i) (mem v ''open_interaction'')"

definition inspection_native :: "inspection \<Rightarrow> jsval \<Rightarrow> jsval" where
  "inspection_native i v = with_members (spread v) [(''event_sequence'', big (ip_cursor i)), (''cleanup_grace_ms'', big (ip_cleanup i)),
     (''active_context_token_budget'', or_null big (ip_context i)), (''active_run_id'', or_null Buf (map_option fst (ip_run i))),
     (''pending_work_ids'', arr (map Buf (ip_pending i))),
     (''configuration'', configuration_native (ip_configuration i) (mem v ''configuration'')),
     (''active_bounds'', or_null (run_bounds_payload big) (map_option snd (ip_run i))),
     (''open_interaction'', or_null (\<lambda>x. with_members (mem v ''open_interaction'') (interaction_members True x)) (ip_question i)),
     (''checkpoint'', or_null (\<lambda>c. checkpoint_native c (mem v ''checkpoint'')) (ip_checkpoint i)),
     (''active_maintenance'', or_null (\<lambda>m. maintenance_native m (mem v ''active_maintenance'')) (ip_maintenance i))]"

lemma inspection_closed_eq [copy_eqs]: "inspection_closed = closedKeys"
  by (simp add: fun_eq_iff inspection_closed_def closedKeys_def)

lemma inspection_identity_eq [copy_eqs]: "inspection_identity = identity_within 65536"
  by (simp add: fun_eq_iff inspection_identity_def identity_copy)

lemma inspection_quantity_eq [copy_eqs]: "inspection_quantity v lo = quantity_within lo (Some u64) v"
  by (auto simp: inspection_quantity_def quantity_within_def dec_decimal_value Let_def split: jsval.split)

lemma bounds_member:
  "nullable decodeActiveBounds w = Some y \<longleftrightarrow>
    (\<exists>b. spells_opt (\<lambda>b w. run_bounds_ok b \<and> spells_run_bounds wire_nat b w) b w \<and> y = map_option (run_bounds_payload big) b)"
  by (rule nullable_spelled) (auto simp: decodeActiveBounds_def active_project_iff spells_run_bounds_def active_closed_def)

lemma pending_members:
  "traverse (identity_within 65536) xs = Some ys \<longleftrightarrow> list_all (id_ok 65536) ys \<and> xs = map wire_id ys"
  unfolding traverse_iff identity_within_iff by (induction xs arbitrary: ys) (auto simp: list_all2_Cons1 Cons_eq_map_conv)

lemma or_null_ident: "or_null (\<lambda>x. x) (map_option f y) = or_null f y"
  by (cases y) (simp_all add: or_null_def)

lemma decodeInspection_complete:
  assumes "json v" "plainTree v 0" "spells_inspection i v"
  shows "decodeInspection v = Some (inspection_native i v)"
proof -
  note sp = assms(3) [unfolded spells_inspection_def]
  have run: "nullable (identity_within 65536) (mem v ''active_run_id'') = Some (map_option fst (ip_run i))"
    using sp unfolding nullable_identity_iff by blast
  have cx: "nullable (quantity_within 1 (Some u64)) (mem v ''active_context_token_budget'') = Some (ip_context i)"
    using sp unfolding nullable_quantity_iff by blast
  have pd: "traverse (identity_within 65536) (elements (mem v ''pending_work_ids'')) = Some (ip_pending i)"
    using sp unfolding pending_members by blast
  have cf: "decodeConfiguration (mem v ''configuration'') = Some (configuration_native (ip_configuration i) (mem v ''configuration''))"
    using sp unfolding decodeConfiguration_iff by blast
  have bd: "nullable decodeActiveBounds (mem v ''active_bounds'') = Some (map_option (run_bounds_payload big) (map_option snd (ip_run i)))"
    using sp unfolding bounds_member by blast
  have q: "nullable decodeOpenInteraction (mem v ''open_interaction'') =
      Some (map_option (\<lambda>x. with_members (mem v ''open_interaction'') (interaction_members True x)) (ip_question i))"
    using sp unfolding question_member by blast
  have ck: "nullable decodeCheckpoint (mem v ''checkpoint'') = Some (map_option (\<lambda>c. checkpoint_native c (mem v ''checkpoint'')) (ip_checkpoint i))"
    using sp unfolding checkpoint_member [OF assms(1)] by blast
  have m: "decodeMaintenanceView (obj [(''active_maintenance'', mem v ''active_maintenance'')]) =
      Some (obj [(''active_maintenance'', or_null (\<lambda>m. maintenance_native m (mem v ''active_maintenance'')) (ip_maintenance i))])"
    using sp unfolding maintenance_member by blast
  have n: "quantity_within 0 (Some u64) (mem v ''event_sequence'') = Some (ip_cursor i)"
    "quantity_within 0 (Some u64) (mem v ''cleanup_grace_ms'') = Some (ip_cleanup i)"
    using sp by (simp_all add: quantity_within_iff nat_ok_def)
  have len: "length (elements (mem v ''pending_work_ids'')) = length (ip_pending i)" using sp by simp
  have am: "mem (obj [(''active_maintenance'', x)]) ''active_maintenance'' = x" for x by (simp add: member_simps)
  have rest: "closedKeys v inspection_keys" "mem v ''status'' = js ''active''" "isArray (mem v ''pending_work_ids'')" "length (ip_pending i) \<le> 1024"
    using sp by blast+
  show ?thesis
    unfolding decodeInspection_def copy_eqs run cx pd cf bd q ck m n bind.bind_lunit am or_null_ident
    using rest assms(2) len by (simp add: inspection_native_def)
qed

lemma decodeInspection_sound:
  assumes "json v" "decodeInspection v = Some r"
  shows "plainTree v 0 \<and> (\<exists>i. spells_inspection i v)"
proof -
  from assms(2) obtain cursor cleanup cx run pd cf bd q ck m where
      c: "plainTree v 0" "closedKeys v inspection_keys" "mem v ''status'' = js ''active''" "isArray (mem v ''pending_work_ids'')"
        "length (elements (mem v ''pending_work_ids'')) \<le> 1024"
    and parts: "quantity_within 0 (Some u64) (mem v ''event_sequence'') = Some cursor"
      "quantity_within 0 (Some u64) (mem v ''cleanup_grace_ms'') = Some cleanup"
      "nullable (quantity_within 1 (Some u64)) (mem v ''active_context_token_budget'') = Some cx"
      "nullable (identity_within 65536) (mem v ''active_run_id'') = Some run"
      "traverse (identity_within 65536) (elements (mem v ''pending_work_ids'')) = Some pd"
      "decodeConfiguration (mem v ''configuration'') = Some cf"
      "nullable decodeActiveBounds (mem v ''active_bounds'') = Some bd"
      "nullable decodeOpenInteraction (mem v ''open_interaction'') = Some q"
      "nullable decodeCheckpoint (mem v ''checkpoint'') = Some ck"
      "decodeMaintenanceView (obj [(''active_maintenance'', mem v ''active_maintenance'')]) = Some m"
    and rb: "run = None \<longleftrightarrow> bd = None"
    unfolding decodeInspection_def copy_eqs by (auto simp: bind_eq_Some_conv split: if_splits)
  from parts(6) obtain cf' where cf: "spells_configuration cf' (mem v ''configuration'')" unfolding decodeConfiguration_iff by blast
  from parts(7) obtain bd' where bd: "spells_opt (\<lambda>b w. run_bounds_ok b \<and> spells_run_bounds wire_nat b w) bd' (mem v ''active_bounds'')"
      "bd = map_option (run_bounds_payload big) bd'" unfolding bounds_member by blast
  from parts(8) obtain q' where q: "spells_opt (\<lambda>x w. interaction_ok x \<and> spells_interaction False x w) q' (mem v ''open_interaction'')"
    unfolding question_member by blast
  from parts(9) obtain ck' where ck: "spells_opt (\<lambda>c w. checkpoint_ok c \<and> spells_checkpoint c w) ck' (mem v ''checkpoint'')"
    unfolding checkpoint_member [OF assms(1)] by blast
  from parts(10) obtain m' where m: "spells_opt spells_maintenance m' (mem v ''active_maintenance'')" unfolding maintenance_member by blast
  have "run = None \<longleftrightarrow> bd' = None" using rb bd(2) by simp
  then obtain both where both: "run = map_option fst both" "bd' = map_option snd both" by (rule paired_options)
  let ?i = "\<lparr>ip_cursor = cursor, ip_cleanup = cleanup, ip_context = cx, ip_run = both, ip_pending = pd, ip_configuration = cf',
    ip_question = q', ip_checkpoint = ck', ip_maintenance = m'\<rparr>"
  have run: "\<forall>x. run = Some x \<longrightarrow> id_ok 65536 x" "mem v ''active_run_id'' = or_null wire_id run"
    using parts(4) unfolding nullable_identity_iff by blast+
  have cx: "\<forall>x. cx = Some x \<longrightarrow> nat_ok 1 (Some u64) x" "mem v ''active_context_token_budget'' = or_null wire_nat cx"
    using parts(3) unfolding nullable_quantity_iff by blast+
  have pd: "list_all (id_ok 65536) pd" "elements (mem v ''pending_work_ids'') = map wire_id pd" using parts(5) unfolding pending_members by blast+
  have "spells_inspection ?i v"
    unfolding spells_inspection_def inspection.simps both [symmetric]
    using c run cx pd cf bd(1) q ck m parts(1,2) by (simp add: quantity_within_iff nat_ok_def)
  with c(1) show ?thesis by blast
qed

section \<open>Properties\<close>

text \<open>C23. \<open>decodeInspection\<close> accepts a parsed inspection exactly when it is a plain tree whose members spell
  well-formed views, with active bounds exactly when there is an active run, and returns those views.\<close>

theorem inspection_exact:
  assumes "json v"
  shows "decodeInspection v = Some r \<longleftrightarrow> plainTree v 0 \<and> (\<exists>i. spells_inspection i v \<and> r = inspection_native i v)"
  using decodeInspection_complete [OF assms] decodeInspection_sound [OF assms] by (metis option.inject)

definition sample_inspection :: jsval where
  "sample_inspection = obj [(''status'', js ''active''), (''event_sequence'', js ''5''), (''active_run_id'', Null),
     (''cleanup_grace_ms'', js ''0''), (''active_context_token_budget'', Null), (''pending_work_ids'', arr [js ''AQ'']),
     (''open_interaction'', Null), (''configuration'', sample_configuration), (''active_bounds'', Null), (''checkpoint'', Null),
     (''active_maintenance'', Null)]"

definition sample_inspected :: inspection where
  "sample_inspected = \<lparr>ip_cursor = 5, ip_cleanup = 0, ip_context = None, ip_run = None, ip_pending = [[1]],
     ip_configuration = sample_settings, ip_question = None, ip_checkpoint = None, ip_maintenance = None\<rparr>"

lemma sample_inspection_json: "json sample_inspection"
  by (simp add: sample_inspection_def sample_configuration_def obj_def arr_def)

lemma sample_inspection_tree: "plainTree sample_inspection 0"
  by (simp add: sample_inspection_def sample_configuration_def obj_def arr_def plainTree.simps ownKeys_def)

lemma sample_inspected_spelled: "spells_inspection sample_inspected sample_inspection"
  using sample_configuration_spelled
  by (simp add: spells_inspection_def sample_inspected_def sample_inspection_def inspection_keys_def member_simps
      sample_texts id_ok_def or_null_def)

theorem inspection_exact_witness:
  "json sample_inspection \<and> decodeInspection sample_inspection = Some (inspection_native sample_inspected sample_inspection)"
  using inspection_exact [OF sample_inspection_json] sample_inspected_spelled sample_inspection_json sample_inspection_tree by blast

text \<open>C24. Whatever \<open>decodeInspection\<close> accepts runs no accessor: every property reachable from the argument, the length of an array
  apart, is an enumerable data property under a string key, and is reached through fewer than seventeen properties.\<close>

theorem inspection_reads_data_only:
  assumes "decodeInspection v = Some r" "reach n v x" "(k, p) \<in> set (own_props x)" "\<not> (isArray x \<and> k = SKey (lit ''length''))"
  shows "is_data p \<and> enumerable p \<and> string_key k \<and> n < 16"
proof -
  have "plainTree v 0" using assms(1) by (auto simp: decodeInspection_def split: if_splits)
  from plainTree_member [OF plainTree_reach [OF assms(2) this] assms(3,4)] plainTree_depth show ?thesis by fastforce
qed

theorem inspection_reads_data_only_witness:
  "\<exists>r p. decodeInspection sample_inspection = Some r \<and> (SKey (lit ''configuration''), p) \<in> set (own_props sample_inspection) \<and> is_data p"
proof -
  have d: "decodeInspection sample_inspection = Some (inspection_native sample_inspected sample_inspection)"
    by (rule decodeInspection_complete [OF sample_inspection_json sample_inspection_tree sample_inspected_spelled])
  have m: "(SKey (lit ''configuration''), Data True sample_configuration) \<in> set (own_props sample_inspection)"
    by (simp add: sample_inspection_def member_simps)
  have "\<not> isArray sample_inspection" by (simp add: sample_inspection_def member_simps)
  with inspection_reads_data_only [OF d reach.here m] d m show ?thesis by auto
qed

end
