(* ===== verification/Command_Bounds.thy ===== *)
theory Command_Bounds
  imports Payload_Codec
begin

text \<open>
  \<open>clients/node/command-bounds.mjs\<close>: the bounds a command is authored with.  The result is
  built by assigning the members in the order of the argument's own keys, so a round trip
  returns the argument itself.
\<close>

datatype field_cap = Uncapped | Capped nat | Json_integer

definition command_fields :: "(string \<times> (string \<times> field_cap) list) list" where
  "command_fields =
     [(''prompt'', [(''max_turns'', Uncapped), (''token_budget'', Uncapped), (''deadline_ms'', Capped u64),
        (''deadline_at_ms'', Json_integer)]),
      (''follow_up'', [(''deadline_at_ms'', Json_integer)]),
      (''compact'', [(''max_attempts'', Capped 4), (''deadline_ms'', Capped 60000), (''token_budget'', Capped 32768)])]"

text \<open>\<open>Object.hasOwn(fields, kind)\<close> and \<open>fields[kind]\<close>; then the same for one field\<close>

definition allowed_fields :: "jsval \<Rightarrow> (string \<times> field_cap) list option" where
  "allowed_fields kind = (case kind of
     Str k \<Rightarrow> map_of (map (\<lambda>(s, x). (lit s, x)) command_fields) k | _ \<Rightarrow> None)"

definition field_cap_of :: "(string \<times> field_cap) list \<Rightarrow> pkey \<Rightarrow> field_cap option" where
  "field_cap_of allowed key = map_of (map (\<lambda>(s, x). (SKey (lit s), x)) allowed) key"

definition command_scalar :: "bool \<Rightarrow> field_cap \<Rightarrow> jsval \<Rightarrow> jsval option" where
  "command_scalar encode maximum scalar =
     (if maximum = Json_integer then
        (case scalar of Number n \<Rightarrow> if \<not> isSafeInteger scalar \<or> n \<le> 0 then None else Some scalar | _ \<Rightarrow> None)
      else case (if encode then bigint_of scalar
                 else case scalar of Str s \<Rightarrow> if positive_decimal s then Some (int (decimal_value s)) else None
                   | _ \<Rightarrow> None) of
        None \<Rightarrow> None
      | Some integer \<Rightarrow>
          if integer \<le> 0 \<or> (case maximum of Capped m \<Rightarrow> int m < integer | _ \<Rightarrow> False) then None
          else if \<not> encode \<and> Str (int_text integer) \<noteq> scalar then None
          else Some (if encode then Str (int_text integer) else BigInt integer))"

fun set_key :: "pkey \<Rightarrow> jsval \<Rightarrow> jsval \<Rightarrow> jsval" where
  "set_key (SKey k) x v = setU k x v"
| "set_key (Sym n) x v = v"

fun command_loop :: "bool \<Rightarrow> (string \<times> field_cap) list \<Rightarrow> (pkey \<times> jsval jsprop) list \<Rightarrow> jsval \<Rightarrow> jsval option" where
  "command_loop encode allowed [] result = Some result"
| "command_loop encode allowed ((key, p) # rest) result =
     (case field_cap_of allowed key of
        None \<Rightarrow> None
      | Some maximum \<Rightarrow>
          (case command_scalar encode maximum (read_prop p) of
             None \<Rightarrow> None
           | Some x \<Rightarrow> command_loop encode allowed rest (set_key key x result)))"

definition command_project :: "jsval \<Rightarrow> jsval \<Rightarrow> bool \<Rightarrow> jsval option" where
  "command_project value kind encode =
     (case allowed_fields kind of
        None \<Rightarrow> None
      | Some allowed \<Rightarrow>
          if \<not> isObject value \<or> isArray value \<or> \<not> plainProto value then None
          else if list_ex (\<lambda>(k, p). \<not> string_key k \<or> field_cap_of allowed k = None \<or> \<not> is_data p \<or> \<not> enumerable p)
              (own_props value) \<or> (kind = js ''compact'' \<and> length (ownKeys value) \<noteq> 3) then None
          else command_loop encode allowed (own_props value) (obj []))"

definition decodeCommandBounds :: "jsval \<Rightarrow> jsval \<Rightarrow> jsval option" where
  "decodeCommandBounds value kind = command_project value kind False"

definition encodeCommandBounds :: "jsval \<Rightarrow> jsval \<Rightarrow> jsval option" where
  "encodeCommandBounds value kind = command_project value kind True"

section \<open>Specification\<close>

text \<open>One member in its two spellings: the wire form and the native form.\<close>

definition cap_ok :: "field_cap \<Rightarrow> nat \<Rightarrow> bool" where
  "cap_ok cap n \<longleftrightarrow> 1 \<le> n \<and>
     (case cap of Uncapped \<Rightarrow> True | Capped m \<Rightarrow> n \<le> m | Json_integer \<Rightarrow> n \<le> 9007199254740991)"

definition cap_wire :: "field_cap \<Rightarrow> nat \<Rightarrow> jsval" where
  "cap_wire cap n = (if cap = Json_integer then Number (int n) else wire_nat n)"

definition cap_native :: "field_cap \<Rightarrow> nat \<Rightarrow> jsval" where
  "cap_native cap n = (if cap = Json_integer then Number (int n) else big n)"

text \<open>The authored bounds: field names with their quantities, in the order they were written.\<close>

definition bounds_ok :: "string \<Rightarrow> (string \<times> nat) list \<Rightarrow> bool" where
  "bounds_ok kind b \<longleftrightarrow> (\<exists>allowed. map_of command_fields kind = Some allowed \<and> distinct (map fst b) \<and>
     (\<forall>(k, n) \<in> set b. \<exists>cap. map_of allowed k = Some cap \<and> cap_ok cap n) \<and>
     (kind = ''compact'' \<longrightarrow> length b = 3))"

definition cap_at :: "string \<Rightarrow> string \<Rightarrow> field_cap" where
  "cap_at kind k = (case map_of command_fields kind of None \<Rightarrow> Uncapped
     | Some allowed \<Rightarrow> (case map_of allowed k of None \<Rightarrow> Uncapped | Some c \<Rightarrow> c))"

definition bounds_payload :: "(field_cap \<Rightarrow> nat \<Rightarrow> jsval) \<Rightarrow> string \<Rightarrow> (string \<times> nat) list \<Rightarrow> jsval" where
  "bounds_payload f kind b = obj (map (\<lambda>(k, n). (k, f (cap_at kind k) n)) b)"

section \<open>Lemmas\<close>

lemma command_refused:
  "i \<le> 0 \<or> (case cap of Capped m \<Rightarrow> int m < i | _ \<Rightarrow> False) \<longleftrightarrow>
     \<not> (\<exists>n. i = int n \<and> cap_ok cap n)" if "cap \<noteq> Json_integer"
proof (cases "i \<le> 0")
  case False
  then obtain n where "i = int n" by (metis nonneg_int_cases le_cases)
  with False that show ?thesis by (cases cap) (auto simp: cap_ok_def)
qed (auto simp: cap_ok_def)

lemma command_scalar_encode:
  "command_scalar True cap v = Some x \<longleftrightarrow> (\<exists>n. cap_ok cap n \<and> v = cap_native cap n \<and> x = cap_wire cap n)"
proof (cases "cap = Json_integer")
  case True
  show ?thesis
  proof (cases v)
    case (Number i)
    show ?thesis
    proof (cases "0 < i")
      case pos: True
      then obtain n where "i = int n" by (metis pos_int_cases)
      with True Number show ?thesis by (auto simp: command_scalar_def cap_ok_def cap_native_def cap_wire_def)
    qed (use True Number in \<open>auto simp: command_scalar_def cap_ok_def cap_native_def cap_wire_def\<close>)
  qed (use True in \<open>auto simp: command_scalar_def cap_ok_def cap_native_def cap_wire_def\<close>)
next
  case False
  show ?thesis
  proof (cases v)
    case (BigInt i)
    show ?thesis unfolding BigInt command_scalar_def command_refused [OF False]
      using False by (auto simp: cap_native_def cap_wire_def)
  qed (use False in \<open>auto simp: command_scalar_def cap_native_def\<close>)
qed

lemma command_scalar_decode:
  "command_scalar False cap v = Some x \<longleftrightarrow> (\<exists>n. cap_ok cap n \<and> v = cap_wire cap n \<and> x = cap_native cap n)"
proof (cases "cap = Json_integer")
  case True
  then show ?thesis
    using command_scalar_encode [of cap v x]
    by (auto simp: command_scalar_def cap_native_def cap_wire_def)
next
  case False
  show ?thesis
  proof (cases v)
    case (Str s)
    show ?thesis
    proof (cases "positive_decimal s")
      case True
      then show ?thesis unfolding Str command_scalar_def command_refused [OF False]
        using False by (auto simp: dec_decimal_value_positive cap_native_def cap_wire_def)
    next
      case p: False
      then have "\<forall>n. cap_ok cap n \<longrightarrow> s \<noteq> dec n" by (auto simp: cap_ok_def)
      with p False Str show ?thesis by (auto simp: command_scalar_def cap_wire_def)
    qed
  qed (use False in \<open>auto simp: command_scalar_def cap_wire_def\<close>)
qed

lemma command_scalar_iff:
  "command_scalar e cap v = Some x \<longleftrightarrow> (\<exists>n. cap_ok cap n \<and> v = (if e then cap_native else cap_wire) cap n \<and>
     x = (if e then cap_wire else cap_native) cap n)"
  by (cases e) (simp_all add: command_scalar_encode command_scalar_decode)

lemma field_cap_of_Some:
  "field_cap_of allowed k = Some c \<longleftrightarrow> (\<exists>s. k = SKey (lit s) \<and> map_of allowed s = Some c)"
  unfolding field_cap_of_def by (rule map_of_inj_Some) (simp add: inj_def)

lemma field_cap_of_lit [simp]: "field_cap_of allowed (SKey (lit s)) = map_of allowed s"
  unfolding field_cap_of_def by (rule map_of_inj_key [of "\<lambda>s. SKey (lit s)"]) (simp add: inj_def)

lemma allowed_fields_Some:
  "allowed_fields kind = Some al \<longleftrightarrow> (\<exists>s. kind = js s \<and> map_of command_fields s = Some al)"
proof (cases kind)
  case (Str k)
  then show ?thesis using map_of_inj_Some [OF inj_lit, of command_fields k al] by (simp add: allowed_fields_def)
qed (simp_all add: allowed_fields_def)

abbreviation cap_from :: "bool \<Rightarrow> field_cap \<Rightarrow> nat \<Rightarrow> jsval" where
  "cap_from e \<equiv> (if e then cap_native else cap_wire)"

text \<open>What the loop reads and writes for one member of the bounds.\<close>

definition cap_prop :: "bool \<Rightarrow> string \<times> field_cap \<times> nat \<Rightarrow> pkey \<times> jsval jsprop" where
  "cap_prop e = (\<lambda>(k, c, n). (SKey (lit k), Data True (cap_from e c n)))"

definition cap_member :: "(string \<times> field_cap) list \<Rightarrow> string \<times> field_cap \<times> nat \<Rightarrow> bool" where
  "cap_member al = (\<lambda>(k, c, n). map_of al k = Some c \<and> cap_ok c n)"

lemma command_loop_step:
  assumes "k \<notin> fst ` set acc"
  shows "command_loop e al ((k, Data True x) # ps) (Obj ObjectProto acc) = Some r \<longleftrightarrow>
    (\<exists>t. cap_member al t \<and> cap_prop e t = (k, Data True x) \<and>
      command_loop e al ps (Obj ObjectProto (acc @ [cap_prop (\<not> e) t])) = Some r)"
proof (cases "field_cap_of al k")
  case None
  then have "\<forall>s c. \<not> (k = SKey (lit s) \<and> map_of al s = Some c)" by auto
  with None show ?thesis by (auto simp: cap_member_def cap_prop_def)
next
  case (Some c)
  then obtain s where s: "k = SKey (lit s)" "map_of al s = Some c" unfolding field_cap_of_Some by blast
  have t: "cap_member al t \<and> cap_prop e t = (k, Data True x) \<longleftrightarrow> (\<exists>n. t = (s, c, n) \<and> cap_ok c n \<and> x = cap_from e c n)" for t
    using s by (cases t) (auto simp: cap_member_def cap_prop_def)
  show ?thesis
  proof (cases "command_scalar e c x")
    case None
    then have "\<not> (cap_ok c n \<and> x = cap_from e c n)" for n
      using command_scalar_iff [of e c x "cap_from (\<not> e) c n"] by (cases e) auto
    then have "\<not> (cap_member al t \<and> cap_prop e t = (k, Data True x))" for t unfolding t by blast
    with None s show ?thesis by auto
  next
    case y: (Some y)
    then obtain n where n: "cap_ok c n" "x = cap_from e c n" "y = cap_from (\<not> e) c n"
      unfolding command_scalar_iff by auto
    have same: "cap_prop (\<not> e) (s, c, m) = (k, Data True y)" if "x = cap_from e c m" for m
      using that n(2,3) s by (auto simp: cap_prop_def cap_native_def cap_wire_def split: if_splits)
    have "(\<exists>t. (cap_member al t \<and> cap_prop e t = (k, Data True x)) \<and> P (cap_prop (\<not> e) t)) \<longleftrightarrow> P (k, Data True y)"
      for P unfolding t using n(1,2) same by metis
    from this [of "\<lambda>q. command_loop e al ps (Obj ObjectProto (acc @ [q])) = Some r"]
    show ?thesis using assms s y by (simp add: update_fresh)
  qed
qed

text \<open>The loop on the own properties of an inert object with distinct keys.\<close>

lemma command_loop_iff:
  assumes "distinct (map fst ps @ map fst acc)" "list_all (\<lambda>(k, p). is_data p \<and> enumerable p) ps"
  shows "command_loop e al ps (Obj ObjectProto acc) = Some r \<longleftrightarrow> (\<exists>b. list_all (cap_member al) b \<and>
    ps = map (cap_prop e) b \<and> r = Obj ObjectProto (acc @ map (cap_prop (\<not> e)) b))"
  using assms
proof (induction ps arbitrary: acc)
  case Nil
  then show ?case by auto
next
  case (Cons q ps)
  obtain k p where "q = (k, p)" by (cases q)
  moreover have "is_data p \<and> enumerable p" using Cons.prems(2) calculation by simp
  then obtain x where "p = Data True x" by (cases p) auto
  ultimately have q: "q = (k, Data True x)" by simp
  have fresh: "k \<notin> fst ` set acc" using Cons.prems(1) q by auto
  have ih: "command_loop e al ps (Obj ObjectProto (acc @ [cap_prop (\<not> e) t])) = Some r \<longleftrightarrow>
    (\<exists>b. list_all (cap_member al) b \<and> ps = map (cap_prop e) b \<and>
      r = Obj ObjectProto ((acc @ [cap_prop (\<not> e) t]) @ map (cap_prop (\<not> e)) b))"
    if "cap_prop e t = q" for t
    using Cons.prems that q by (intro Cons.IH) (auto simp: cap_prop_def split: prod.splits)
  have "command_loop e al (q # ps) (Obj ObjectProto acc) = Some r \<longleftrightarrow>
    (\<exists>t b. cap_member al t \<and> cap_prop e t = q \<and> list_all (cap_member al) b \<and> ps = map (cap_prop e) b \<and>
      r = Obj ObjectProto ((acc @ [cap_prop (\<not> e) t]) @ map (cap_prop (\<not> e)) b))"
    unfolding q command_loop_step [OF fresh] using ih [unfolded q] by blast
  also have "\<dots> \<longleftrightarrow> (\<exists>b. list_all (cap_member al) b \<and>
    q # ps = map (cap_prop e) b \<and> r = Obj ObjectProto (acc @ map (cap_prop (\<not> e)) b))"
    (is "?L = ?R")
  proof
    assume ?L
    then obtain t b where "cap_member al t" "cap_prop e t = q" "list_all (cap_member al) b" "ps = map (cap_prop e) b"
      "r = Obj ObjectProto ((acc @ [cap_prop (\<not> e) t]) @ map (cap_prop (\<not> e)) b)" by blast
    then show ?R by (intro exI [of _ "t # b"]) simp
  next
    assume ?R
    then obtain t b where "list_all (cap_member al) (t # b)" "q # ps = map (cap_prop e) (t # b)"
      "r = Obj ObjectProto (acc @ map (cap_prop (\<not> e)) (t # b))" by (metis list.exhaust list.simps(8) list.distinct(1))
    then show ?L by (intro exI [of _ t] exI [of _ b]) simp
  qed
  finally show ?case .
qed

text \<open>The typed bounds behind a list of loop members.\<close>

lemma cap_members_bounds:
  assumes "map_of command_fields kind = Some al" "list_all (cap_member al) b"
  shows "Obj ObjectProto (map (cap_prop e) b) = bounds_payload (cap_from e) kind (map (\<lambda>(k, c, n). (k, n)) b)"
proof -
  have "cap_at kind k = c" if "(k, c, n) \<in> set b" for k c n
    using that assms by (auto simp: cap_at_def cap_member_def list_all_iff)
  then show ?thesis by (auto simp: bounds_payload_def obj_def cap_prop_def)
qed

lemma bounds_members:
  assumes "bounds_ok kind b" "map_of command_fields kind = Some al"
  shows "list_all (cap_member al) (map (\<lambda>(k, n). (k, cap_at kind k, n)) b)"
  using assms by (fastforce simp: bounds_ok_def cap_member_def list_all_iff cap_at_def)

lemma command_project_sound:
  assumes "distinct (ownKeys v)" "command_project v kind e = Some r"
  shows "\<exists>s b. kind = js s \<and> bounds_ok s b \<and>
    v = bounds_payload (cap_from e) s b \<and> r = bounds_payload (cap_from (\<not> e)) s b"
proof -
  from assms(2) obtain al where al: "allowed_fields kind = Some al" and o: "isObject v" "\<not> isArray v" "plainProto v"
    and g: "list_all (\<lambda>(k, p). is_data p \<and> enumerable p) (own_props v)"
    and n: "kind = js ''compact'' \<longrightarrow> length (ownKeys v) = 3"
    and l: "command_loop e al (own_props v) (Obj ObjectProto []) = Some r"
    by (auto simp: command_project_def list_all_iff list_ex_iff obj_def split: option.splits if_splits)
  from al obtain s where s: "kind = js s" "map_of command_fields s = Some al" unfolding allowed_fields_Some by blast
  from o obtain ps where v: "v = Obj ObjectProto ps" by (cases v) auto
  have d: "distinct (map fst ps @ map fst [])" using assms(1) by (simp add: v ownKeys_def)
  from l g obtain b where b: "list_all (cap_member al) b" "ps = map (cap_prop e) b"
    "r = Obj ObjectProto (map (cap_prop (\<not> e)) b)"
    unfolding v own_props.simps command_loop_iff [OF d g [unfolded v own_props.simps]] by auto
  let ?b = "map (\<lambda>(k, c, n). (k, n)) b"
  have "distinct (map (\<lambda>t. SKey (lit (fst t))) b)" using d unfolding b(2)
    by (simp add: cap_prop_def comp_def case_prod_unfold)
  then have "distinct (map fst ?b)" by (simp add: distinct_map comp_def inj_on_def case_prod_unfold)
  moreover have "length b = 3" if "s = ''compact''" using that n s b(2) by (simp add: v ownKeys_def)
  ultimately have "bounds_ok s ?b"
    using s b(1) by (fastforce simp: bounds_ok_def cap_member_def list_all_iff)
  then show "\<exists>s b. kind = js s \<and> bounds_ok s b \<and>
    v = bounds_payload (cap_from e) s b \<and> r = bounds_payload (cap_from (\<not> e)) s b"
    using s(1) v b(2,3) cap_members_bounds [OF s(2) b(1)] by blast
qed

lemma command_project_complete:
  assumes "distinct (ownKeys v)" and s: "kind = js s" "bounds_ok s b" "v = bounds_payload (cap_from e) s b"
    "r = bounds_payload (cap_from (\<not> e)) s b"
  shows "command_project v kind e = Some r"
proof -
  from s(2) obtain al where al: "map_of command_fields s = Some al" by (auto simp: bounds_ok_def)
  let ?b = "map (\<lambda>(k, n). (k, cap_at s k, n)) b"
  have m: "list_all (cap_member al) ?b" using bounds_members [OF s(2) al] .
  have payload: "bounds_payload f s b = Obj ObjectProto (map (\<lambda>(k, c, n). (SKey (lit k), Data True (f c n))) ?b)" for f
    by (simp add: bounds_payload_def obj_def case_prod_unfold comp_def)
  have v: "v = Obj ObjectProto (map (cap_prop e) ?b)" and r: "r = Obj ObjectProto (map (cap_prop (\<not> e)) ?b)"
    using s(3,4) unfolding payload cap_prop_def by simp_all
  have props: "list_all (\<lambda>(k, p). string_key k \<and> field_cap_of al k \<noteq> None \<and> is_data p \<and> enumerable p) (map (cap_prop e) ?b)"
    using m by (auto simp: list_all_iff cap_prop_def cap_member_def)
  have d: "distinct (map fst (map (cap_prop e) ?b) @ map fst [])" using assms(1) by (simp add: v ownKeys_def)
  have "command_loop e al (map (cap_prop e) ?b) (Obj ObjectProto []) = Some r"
  proof (subst command_loop_iff [OF d])
    show "list_all (\<lambda>(k, p). is_data p \<and> enumerable p) (map (cap_prop e) ?b)"
      using props by (auto simp: list_all_iff)
  qed (use m r in \<open>blast intro: append_Nil [symmetric]\<close>)
  moreover have "s = ''compact'' \<longrightarrow> length (ownKeys v) = 3"
    using s(2) unfolding v ownKeys_def bounds_ok_def by auto
  ultimately show "command_project v kind e = Some r"
    using props al s(1) by (auto simp: command_project_def allowed_fields_Some [THEN iffD2] v obj_def list_ex_iff list_all_iff)
qed

lemma command_project_iff:
  "distinct (ownKeys v) \<Longrightarrow> command_project v kind e = Some r \<longleftrightarrow> (\<exists>s b. kind = js s \<and> bounds_ok s b \<and>
    v = bounds_payload (cap_from e) s b \<and> r = bounds_payload (cap_from (\<not> e)) s b)"
  using command_project_sound command_project_complete by blast

lemma ownKeys_bounds_payload: "ownKeys (bounds_payload f s b) = map (\<lambda>(k, n). SKey (lit k)) b"
  by (simp add: bounds_payload_def member_simps case_prod_unfold comp_def)

lemma bounds_payload_distinct: "bounds_ok s b \<Longrightarrow> distinct (ownKeys (bounds_payload f s b))"
  by (auto simp: bounds_ok_def ownKeys_bounds_payload distinct_map inj_on_def case_prod_unfold)

interpretation command_codec: payload_codec "\<lambda>v. encodeCommandBounds v kind" "\<lambda>v. decodeCommandBounds v kind"
    "\<lambda>v. v" "\<lambda>v. distinct (ownKeys v)" for kind
proof unfold_locales
  fix v w assume "distinct (ownKeys v)" "encodeCommandBounds v kind = Some w"
  then obtain s b where "kind = js s" "bounds_ok s b" "v = bounds_payload cap_native s b" "w = bounds_payload cap_wire s b"
    unfolding encodeCommandBounds_def by (auto simp: command_project_iff)
  then show "distinct (ownKeys w) \<and> decodeCommandBounds w kind = Some v"
    unfolding decodeCommandBounds_def by (auto simp: command_project_iff bounds_payload_distinct)
next
  fix v w assume "distinct (ownKeys w)" "decodeCommandBounds w kind = Some v"
  then obtain s b where "kind = js s" "bounds_ok s b" "w = bounds_payload cap_wire s b" "v = bounds_payload cap_native s b"
    unfolding decodeCommandBounds_def by (auto simp: command_project_iff)
  then show "distinct (ownKeys v) \<and> encodeCommandBounds v kind = Some w"
    unfolding encodeCommandBounds_def by (auto simp: command_project_iff bounds_payload_distinct)
qed

section \<open>Properties\<close>

text \<open>Encoding authored command bounds and decoding the result returns the very same object, member
  order included, for every command kind.\<close>

theorem command_bounds_round_trip:
  "distinct (ownKeys v) \<Longrightarrow> encodeCommandBounds v kind = Some w \<Longrightarrow> decodeCommandBounds w kind = Some v"
  using command_codec.encode_decode by blast

theorem command_bounds_round_trip_witness:
  "decodeCommandBounds (obj [(''max_turns'', wire_nat 5), (''deadline_at_ms'', Number 17)]) (js ''prompt'') =
     Some (obj [(''max_turns'', big 5), (''deadline_at_ms'', Number 17)])"
proof (rule command_bounds_round_trip)
  let ?b = "[(''max_turns'', 5), (''deadline_at_ms'', 17)]"
  have "bounds_ok ''prompt'' ?b" by (simp add: bounds_ok_def command_fields_def cap_ok_def)
  moreover have "bounds_payload cap_native ''prompt'' ?b = obj [(''max_turns'', big 5), (''deadline_at_ms'', Number 17)]"
    "bounds_payload cap_wire ''prompt'' ?b = obj [(''max_turns'', wire_nat 5), (''deadline_at_ms'', Number 17)]"
    by (simp_all add: bounds_payload_def cap_at_def command_fields_def cap_native_def cap_wire_def)
  ultimately show "encodeCommandBounds (obj [(''max_turns'', big 5), (''deadline_at_ms'', Number 17)]) (js ''prompt'') =
      Some (obj [(''max_turns'', wire_nat 5), (''deadline_at_ms'', Number 17)])"
    unfolding encodeCommandBounds_def
    by (subst command_project_iff) (auto simp: member_simps intro!: exI [of _ ?b])
qed (simp add: member_simps)

end
