(* ===== verification/Question_Answer.thy ===== *)
theory Question_Answer
  imports Wire_Scalars
begin

text \<open>
  \<open>clients/node/question-answer.mjs\<close>: the three-way answer to a question.  This module looks
  only at the enumerable string keys, and it checks the length of a choice identity where the
  other modules compare with the canonical spelling.
\<close>

definition decodeQuestionAnswer :: "jsval \<Rightarrow> jsval option" where
  "decodeQuestionAnswer answer =
     (if \<not> isObject answer \<or> isArray answer then None
      else case objectKeys answer of
        [key] \<Rightarrow>
          let value = memU answer key in
          if key = lit ''choice_id'' then
            (case value of
               Str s \<Rightarrow> if 87382 < length s \<or> \<not> b64_text s \<or> length s mod 4 = 1 then None
                 else let bytes = b64url_decode s in
                   if length bytes < 1 \<or> 65536 < length bytes then None
                   else Some (obj [(''choice_id'', Buf bytes)])
             | _ \<Rightarrow> None)
          else if key = lit ''text'' then
            (case value of
               Str s \<Rightarrow> if \<not> isWellFormed s then None
                 else let bytes = byteLength s in
                   if bytes < 1 \<or> 8192 < bytes then None else Some (obj [(''text'', value)])
             | _ \<Rightarrow> None)
          else if key = lit ''disposition'' \<and> value = js ''declined''
          then Some (obj [(''disposition'', js ''declined'')])
          else None
      | _ \<Rightarrow> None)"

datatype answer = Choice bytes | Answer_text ustring | Declined

fun answer_ok :: "answer \<Rightarrow> bool" where
  "answer_ok (Choice i) \<longleftrightarrow> id_ok 65536 i"
| "answer_ok (Answer_text s) \<longleftrightarrow> text_within 1 8192 (Str s)"
| "answer_ok Declined \<longleftrightarrow> True"

fun answer_native :: "answer \<Rightarrow> jsval" where
  "answer_native (Choice i) = obj [(''choice_id'', Buf i)]"
| "answer_native (Answer_text s) = obj [(''text'', Str s)]"
| "answer_native Declined = obj [(''disposition'', js ''declined'')]"

fun answer_wire :: "answer \<Rightarrow> jsval" where
  "answer_wire (Choice i) = obj [(''choice_id'', wire_id i)]"
| "answer_wire (Answer_text s) = obj [(''text'', Str s)]"
| "answer_wire Declined = obj [(''disposition'', js ''declined'')]"

text \<open>The bytes a base64url text stands for, its last character's spare bits ignored\<close>

fun spells_answer :: "answer \<Rightarrow> jsval \<Rightarrow> bool" where
  "spells_answer (Choice i) v \<longleftrightarrow> objectKeys v = [lit ''choice_id''] \<and>
     (\<exists>s. mem v ''choice_id'' = Str s \<and> b64_text s \<and> length s \<le> 87382 \<and> length s mod 4 \<noteq> 1 \<and> b64url_decode s = i)"
| "spells_answer (Answer_text s) v \<longleftrightarrow> objectKeys v = [lit ''text''] \<and> mem v ''text'' = Str s"
| "spells_answer Declined v \<longleftrightarrow> objectKeys v = [lit ''disposition''] \<and> mem v ''disposition'' = js ''declined''"

lemma decodeQuestionAnswer_keys: "decodeQuestionAnswer v = Some r \<Longrightarrow>
  isObject v \<and> \<not> isArray v \<and> (\<exists>k \<in> {''choice_id'', ''text'', ''disposition''}. objectKeys v = [lit k])"
  by (auto simp: decodeQuestionAnswer_def Let_def split: if_splits list.splits)

lemma decodeQuestionAnswer_iff:
  "decodeQuestionAnswer v = Some r \<longleftrightarrow> isObject v \<and> \<not> isArray v \<and>
     (\<exists>a. answer_ok a \<and> spells_answer a v \<and> r = answer_native a)" (is "?l \<longleftrightarrow> ?r")
proof
  assume l: ?l
  then obtain k where o: "isObject v" "\<not> isArray v" and k: "k \<in> {''choice_id'', ''text'', ''disposition''}" "objectKeys v = [lit k]"
    using decodeQuestionAnswer_keys by blast
  from k(1) consider "k = ''choice_id''" | "k = ''text''" | "k = ''disposition''" by blast
  then show ?r
  proof cases
    case 1
    with l o k obtain s where s: "mem v ''choice_id'' = Str s" "b64_text s" "length s \<le> 87382" "length s mod 4 \<noteq> 1"
      "id_ok 65536 (b64url_decode s)" "r = obj [(''choice_id'', Buf (b64url_decode s))]"
      by (auto simp: decodeQuestionAnswer_def Let_def id_ok_def not_less Suc_le_eq split: if_splits jsval.splits)
    with o k(2) 1 show ?thesis by (auto intro!: exI [of _ "Choice (b64url_decode s)"])
  next
    case 2
    with l o k obtain s where "mem v ''text'' = Str s" "text_within 1 8192 (Str s)" "r = obj [(''text'', Str s)]"
      by (auto simp: decodeQuestionAnswer_def Let_def text_within_def not_less Suc_le_eq split: if_splits jsval.splits)
    with o k(2) 2 show ?thesis by (auto intro!: exI [of _ "Answer_text s"])
  next
    case 3
    with l o k show ?thesis
      by (auto simp: decodeQuestionAnswer_def Let_def intro!: exI [of _ Declined] split: if_splits)
  qed
next
  assume ?r
  then obtain a where o: "isObject v" "\<not> isArray v" and a: "answer_ok a" "spells_answer a v" "r = answer_native a" by blast
  show ?l
    using o a by (cases a) (auto simp: decodeQuestionAnswer_def Let_def id_ok_def text_within_def)
qed

lemma length_b64url_mod: "length (b64url bs) mod 4 \<noteq> 1"
proof -
  obtain q r where n: "length bs = 3 * q + r" "r < 3"
    by (metis mod_less_divisor mult_div_mod_eq zero_less_numeral)
  from n(2) consider "r = 0" | "r = 1" | "r = 2" by linarith
  then show ?thesis unfolding length_b64url n(1) by cases presburger+
qed

lemma answer_wire_decoded: "answer_ok a \<Longrightarrow> decodeQuestionAnswer (answer_wire a) = Some (answer_native a)"
proof (cases a)
  case (Choice i)
  assume "answer_ok a"
  with Choice have i: "id_ok 65536 i" by simp
  then have "length (b64url i) \<le> 87382" using identity_length_guard [OF i] by simp
  moreover have "i \<noteq> []" using i by (auto simp: id_ok_def)
  ultimately show ?thesis unfolding decodeQuestionAnswer_iff
    using Choice i length_b64url_mod [of i]
    by (auto simp: member_simps intro!: exI [of _ "Choice i"])
next
  case (Answer_text s)
  assume "answer_ok a"
  with Answer_text show ?thesis unfolding decodeQuestionAnswer_iff
    by (auto simp: member_simps intro!: exI [of _ "Answer_text s"])
next
  case Declined
  then show ?thesis unfolding decodeQuestionAnswer_iff
    by (auto simp: member_simps intro!: exI [of _ Declined])
qed

section \<open>Properties\<close>

text \<open>Each well-formed answer decodes from its canonical wire form to its native form.\<close>

theorem answers_decode:
  assumes "answer_ok a"
  shows "decodeQuestionAnswer (answer_wire a) = Some (answer_native a)"
  by (rule answer_wire_decoded [OF assms])

theorem answers_decode_witness:
  "decodeQuestionAnswer (answer_wire (Choice [7])) = Some (answer_native (Choice [7]))"
  by (rule answers_decode) (simp add: id_ok_def)

text \<open>A choice identity need not be canonical base64url: two different texts decode to one choice, so decoding does not
  determine the text that was sent.\<close>

theorem choice_text_not_canonical:
  "decodeQuestionAnswer (obj [(''choice_id'', js ''QQ'')]) = Some (answer_native (Choice [65])) \<and>
   decodeQuestionAnswer (obj [(''choice_id'', js ''QR'')]) = Some (answer_native (Choice [65]))"
proof -
  have d: "b64url_decode (lit ''QQ'') = [65]" "b64url_decode (lit ''QR'') = [65]" by code_simp+
  have t: "b64_text (lit ''QQ'')" "b64_text (lit ''QR'')" by code_simp+
  have "spells_answer (Choice [65]) (obj [(''choice_id'', js ''QQ'')])" "spells_answer (Choice [65]) (obj [(''choice_id'', js ''QR'')])"
    using d t by (simp_all add: member_simps)
  moreover have "answer_ok (Choice [65])" by (simp add: id_ok_def)
  moreover have "isObject (obj xs)" "\<not> isArray (obj xs)" for xs by (simp_all add: member_simps)
  ultimately show ?thesis unfolding decodeQuestionAnswer_iff by blast
qed

end
