(* ===== verification/Frame_Vectors.thy ===== *)
theory Frame_Vectors
  imports Contract_Manifest
begin

text \<open>
  The framing rules of the conformance vectors (\<open>vectors.mjs\<close>): whether exact bytes are one
  well-formed frame, a member written twice, and the numbers a frame may carry.  \<open>JSON.parse\<close> is the
  parameter \<open>parse\<close>, \<open>None\<close> where it throws.
\<close>

section \<open>Strings in the text\<close>

text \<open>\<open>readString\<close> from behind the opening quote: the text up to the closing quote, escapes left as written, and what follows it\<close>

fun readString :: "ustring \<Rightarrow> (ustring \<times> ustring) option" where
  "readString [] = None"
| "readString (c # r) =
     (if c = 92 then (case r of [] \<Rightarrow> None | d # s \<Rightarrow> map_option (\<lambda>(v, rest). (c # d # v, rest)) (readString s))
      else if c = 34 then Some ([], r)
      else map_option (\<lambda>(v, rest). (c # v, rest)) (readString r))"

text \<open>\<open>\s\<close> of a regular expression\<close>

definition regex_space :: "code_unit \<Rightarrow> bool" where
  "regex_space u \<longleftrightarrow> (9 \<le> unat u \<and> unat u \<le> 13) \<or> (8192 \<le> unat u \<and> unat u \<le> 8202) \<or>
     unat u \<in> {32, 160, 5760, 8232, 8233, 8239, 8287, 12288, 65279}"

lemma readString_shorter: "readString s = Some (v, rest) \<Longrightarrow> length rest < length s"
  by (induction s arbitrary: v rest rule: readString.induct) (fastforce split: if_splits list.splits)+

section \<open>A member written twice\<close>

text \<open>The scan with \<open>seen[depth]\<close>, empty where the source has not created it\<close>

function duplicate_scan :: "(int \<Rightarrow> ustring list) \<Rightarrow> int \<Rightarrow> ustring \<Rightarrow> bool" where
  "duplicate_scan seen depth line = (case line of [] \<Rightarrow> False
     | c # r \<Rightarrow> if c = 34 then (case readString r of None \<Rightarrow> False
         | Some (v, rest) \<Rightarrow> (case dropWhile regex_space rest of
               d # t \<Rightarrow> if d = 58 then (if v \<in> set (seen depth) then True
                   else duplicate_scan (seen(depth := v # seen depth)) depth rest) else duplicate_scan seen depth rest
             | [] \<Rightarrow> duplicate_scan seen depth rest))
       else if c = 123 \<or> c = 91 then duplicate_scan (seen(depth + 1 := [])) (depth + 1) r
       else if c = 125 \<or> c = 93 then duplicate_scan seen (depth - 1) r
       else duplicate_scan seen depth r)"
  by pat_completeness auto
termination duplicate_scan
  by (relation "measure (\<lambda>(seen, depth, line). length line)") (auto dest!: readString_shorter)

declare duplicate_scan.simps [simp del]

definition hasDuplicateMember :: "ustring \<Rightarrow> bool" where
  "hasDuplicateMember line = duplicate_scan (\<lambda>depth. []) 0 line"

section \<open>Numbers\<close>

text \<open>\<open>\"(?:[^\"\\]|\\.)*\"\<close> behind its opening quote: what follows the match\<close>

fun string_match :: "ustring \<Rightarrow> ustring option" where
  "string_match [] = None"
| "string_match (c # r) =
     (if c = 34 then Some r
      else if c = 92 then (case r of [] \<Rightarrow> None | d # s \<Rightarrow> if unat d \<in> {10, 13, 8232, 8233} then None else string_match s)
      else string_match r)"

lemma string_match_shorter: "string_match s = Some r \<Longrightarrow> length r < length s"
  by (induction s arbitrary: r rule: string_match.induct) (fastforce split: if_splits list.splits)+

text \<open>Every string literal replaced by an empty one\<close>

function strip_strings :: "ustring \<Rightarrow> ustring" where
  "strip_strings line = (case line of [] \<Rightarrow> []
     | c # r \<Rightarrow> if c = 34 then (case string_match r of None \<Rightarrow> c # strip_strings r | Some s \<Rightarrow> [34, 34] @ strip_strings s)
         else c # strip_strings r)"
  by pat_completeness auto
termination strip_strings
  by (relation "measure length") (auto dest: string_match_shorter)

declare strip_strings.simps [simp del]

text \<open>\<open>-?\d+(?:\.\d+)?(?:[eE][-+]?\d+)?\<close> at the start of the text: the sign, the digits, whether a fraction or an exponent
  belongs to the literal, and the rest\<close>

definition fraction_match :: "ustring \<Rightarrow> ustring option" where
  "fraction_match s = (case s of c # d # r \<Rightarrow> if c = 46 \<and> is_digit d then Some (dropWhile is_digit r) else None | _ \<Rightarrow> None)"

definition exponent_match :: "ustring \<Rightarrow> ustring option" where
  "exponent_match s = (case s of c # r \<Rightarrow> if c \<noteq> 101 \<and> c \<noteq> 69 then None
       else (let t = (case r of d # q \<Rightarrow> if d = 45 \<or> d = 43 then q else r | [] \<Rightarrow> r) in
         case t of d # q \<Rightarrow> if is_digit d then Some (dropWhile is_digit q) else None | [] \<Rightarrow> None) | [] \<Rightarrow> None)"

definition number_match :: "ustring \<Rightarrow> (bool \<times> ustring \<times> bool \<times> ustring) option" where
  "number_match s =
     (let negative = (s \<noteq> [] \<and> hd s = 45); t = (if negative then tl s else s); digits = takeWhile is_digit t; r = dropWhile is_digit t in
      if digits = [] then None
      else let r1 = (case fraction_match r of None \<Rightarrow> r | Some q \<Rightarrow> q); r2 = (case exponent_match r1 of None \<Rightarrow> r1 | Some q \<Rightarrow> q) in
        Some (negative, digits, fraction_match r \<noteq> None \<or> exponent_match r1 \<noteq> None, r2))"

lemma fraction_shorter: "fraction_match s = Some r \<Longrightarrow> length r \<le> length s"
  using length_dropWhile_le [of is_digit]
  by (auto simp: fraction_match_def le_SucI split: list.splits if_splits)

lemma exponent_shorter: "exponent_match s = Some r \<Longrightarrow> length r \<le> length s"
  using length_dropWhile_le [of is_digit]
  by (auto simp: exponent_match_def Let_def le_SucI split: list.splits if_splits)

lemma number_shorter: "number_match s = Some (n, ds, f, r) \<Longrightarrow> length r < length s"
proof -
  assume m: "number_match s = Some (n, ds, f, r)"
  define t where "t = (if s \<noteq> [] \<and> hd s = 45 then tl s else s)"
  define q where "q = dropWhile is_digit t"
  have ne: "takeWhile is_digit t \<noteq> []" using m by (auto simp: number_match_def Let_def t_def split: if_splits)
  then have "t \<noteq> []" "is_digit (hd t)" by (cases t; auto split: if_splits)+
  then have "length q < length t" using length_dropWhile_le [of is_digit "tl t"] by (cases t) (auto simp: q_def)
  moreover have "length t \<le> length s" by (simp add: t_def)
  moreover have "length r \<le> length q"
  proof -
    define r1 where "r1 = (case fraction_match q of None \<Rightarrow> q | Some p \<Rightarrow> p)"
    have "length r1 \<le> length q" using fraction_shorter by (auto simp: r1_def split: option.split)
    moreover have "r = (case exponent_match r1 of None \<Rightarrow> r1 | Some p \<Rightarrow> p)"
      using m ne unfolding number_match_def Let_def r1_def q_def t_def by (auto split: if_splits)
    then have "length r \<le> length r1" using exponent_shorter by (auto split: option.split)
    ultimately show ?thesis by simp
  qed
  ultimately show ?thesis by simp
qed

function numbers :: "ustring \<Rightarrow> (bool \<times> ustring \<times> bool) list" where
  "numbers line = (case number_match line of Some (n, ds, f, r) \<Rightarrow> (n, ds, f) # numbers r
     | None \<Rightarrow> (case line of [] \<Rightarrow> [] | c # r \<Rightarrow> numbers r))"
  by pat_completeness auto
termination numbers
  by (relation "measure length") (auto dest: number_shorter)

declare numbers.simps [simp del]

definition everyNumberIsAdmissible :: "ustring \<Rightarrow> bool" where
  "everyNumberIsAdmissible line = list_all (\<lambda>(negative, digits, fractional). \<not> fractional \<and>
       isSafeInteger (Number (if negative then - int (decimal_value digits) else int (decimal_value digits)))) (numbers (strip_strings line))"

section \<open>Frames\<close>

definition frame_text :: "ustring \<Rightarrow> ustring option" where
  "frame_text s = (if 65533 \<in> set s \<or> s = [] \<or> last s \<noteq> 10 then None
     else let line = butlast s in
       if 10 \<in> set line \<or> 13 \<in> set line \<or> list_ex (\<lambda>n. n < 32) (code_points line) then None else Some line)"

definition admits :: "(ustring \<Rightarrow> jsval option) \<Rightarrow> bytes \<Rightarrow> bool" where
  "admits parse bytes = (case frame_text (utf8_decode bytes) of None \<Rightarrow> False
     | Some line \<Rightarrow> (case parse line of None \<Rightarrow> False
         | Some parsed \<Rightarrow> is_record parsed \<and> \<not> hasDuplicateMember line \<and> everyNumberIsAdmissible line))"


section \<open>A member written twice\<close>

text \<open>The two lines write the member \<open>a\<close> twice, the second time with an escape\<close>

definition plain_twice :: ustring where
  "plain_twice = [123, 34, 97, 34, 58, 49, 44, 34, 97, 34, 58, 50, 125]"

definition escaped_twice :: ustring where
  "escaped_twice = [123, 34, 97, 34, 58, 49, 44, 34, 92, 117, 48, 48, 54, 49, 34, 58, 50, 125]"

lemma ascii_decode: "list_all (\<lambda>u. unat u < 128) s \<Longrightarrow> utf8_decode (utf8 s) = s"
  using ascii_text(1) by simp

text \<open>C37. The scan for a member written twice compares keys as they are written: it finds a repeated key, but not one whose second
  spelling uses an escape, which the schema parser, comparing decoded keys, refuses.\<close>

theorem duplicate_scan_compares_spelling:
  "hasDuplicateMember plain_twice \<and> \<not> hasDuplicateMember escaped_twice \<and>
   parseSchemaJson (utf8 escaped_twice) = Inl Duplicate_member"
proof (intro conjI)
  show "hasDuplicateMember plain_twice"
    unfolding hasDuplicateMember_def plain_twice_def by (simp add: duplicate_scan.simps regex_space_def)
  show "\<not> hasDuplicateMember escaped_twice"
    unfolding hasDuplicateMember_def escaped_twice_def by (simp add: duplicate_scan.simps regex_space_def)
  have d: "utf8_decode (utf8 escaped_twice) = escaped_twice" by (rule ascii_decode) (simp add: escaped_twice_def)
  have "fatal_decode (utf8 escaped_twice) = Some escaped_twice" unfolding fatal_decode_def Let_def d by (simp add: escaped_twice_def)
  moreover have "parse_value (Suc (2 * length escaped_twice)) escaped_twice = Inl Duplicate_member"
  proof -
    let ?rest = "[34, 92, 117, 48, 48, 54, 49, 34, 58, 50, 125] :: ustring"
    have k1: "parse_string (34 # 97 # 34 # 58 # 49 # 44 # ?rest) = Inr ([97], 58 # 49 # 44 # ?rest)"
      by (simp add: parse_string_def is_high_def is_low_def)
    have k2: "parse_string ?rest = Inr ([97], [58, 50, 125])"
      by (simp add: parse_string_def hex_value_def is_digit_def digit_value_def is_high_def is_low_def)
    have one: "parse_value (Suc n) (49 # 44 # ?rest) = Inr (Number 1, 44 # ?rest)" for n
      by (simp add: parse_value.simps whitespace_def is_space_def parse_scalar_def literals_def starts_def lit_def unit_of_char_def
        integer_lexeme_def digits_lexeme_def is_digit_def decimal_value_def digit_value_def)
    have two: "parse_members (Suc n) [(SKey [97], Data True (Number 1))] ?rest = Inl Duplicate_member" for n
      unfolding parse_members.simps k2 by simp
    have m: "parse_members (Suc (Suc n)) [] (34 # 97 # 34 # 58 # 49 # 44 # ?rest) = Inl Duplicate_member" for n
      unfolding parse_members.simps(2) [of "Suc n"] k1 using one two by (simp add: whitespace_def is_space_def)
    have len: "Suc (2 * length escaped_twice) = Suc (Suc (Suc 34))" by (simp add: escaped_twice_def)
    show ?thesis unfolding len unfolding escaped_twice_def parse_value.simps
      using m [of 34] by (simp add: whitespace_def is_space_def)
  qed
  ultimately show "parseSchemaJson (utf8 escaped_twice) = Inl Duplicate_member" by (simp add: parseSchemaJson_def)
qed

end
