(* ===== verification/Script.thy ===== *)
theory Script
  imports Daemon_Client Frame_Vectors
begin

text \<open>
  Programs over the clients: the workflow scripts call \<open>request\<close>, \<open>waitForEvent\<close>, \<open>events\<close> and the
  other methods of a connection, and everything they learn arrives as an answer.  A script is the tree of
  what it does next for every answer; a connection is its number.  \<open>performs\<close> is the trace of a
  script, and \<open>obeys\<close> checks a condition on every request against the trace before it.
\<close>

section \<open>Scripts\<close>

datatype fault = Assertion ustring | Type_fault | Conversion_fault | Exhausted | Client client_error | Refusal string jsval

type_synonym answer = "client_error + jsval"

text \<open>
  \<open>Call n m f k\<close> is \<open>await connection.request(m, f)\<close>, \<open>Wait\<close> is \<open>await waitForEvent\<close>, \<open>Observe\<close> and
  \<open>Watch\<close> read \<open>events()\<close> and \<open>progress()\<close>, \<open>Hang_up\<close> is \<open>close()\<close>, \<open>Kill_peer\<close> is \<open>kill()\<close>, \<open>Join\<close> awaits
  \<open>ended()\<close>, \<open>Launch\<close> opens a connection, \<open>Clock\<close> is \<open>Date.now()\<close>, \<open>Pause\<close> awaits a
  timeout of so many milliseconds, and \<open>Write\<close> prints one line, of a value or of a
  failure.  An answer that never comes is a trace that ends there.
\<close>

datatype 'a script =
    Finish 'a
  | Raise fault
  | Call nat ustring jsval "answer \<Rightarrow> 'a script"
  | Wait nat "jsval \<Rightarrow> bool" "answer \<Rightarrow> 'a script"
  | Observe nat "jsval list \<Rightarrow> 'a script"
  | Watch nat "jsval list \<Rightarrow> 'a script"
  | Hang_up nat "'a script"
  | Kill_peer nat "'a script"
  | Join nat "'a script"
  | Launch nat "'a script"
  | Clock "int \<Rightarrow> 'a script"
  | Pause int "'a script"
  | Write "fault + jsval" "'a script"

text \<open>Sequencing, and \<open>try ... catch\<close>\<close>

primrec after :: "'a script \<Rightarrow> ('a \<Rightarrow> 'b script) \<Rightarrow> 'b script" where
  "after (Finish x) g = g x"
| "after (Raise e) g = Raise e"
| "after (Call n m f k) g = Call n m f (\<lambda>r. after (k r) g)"
| "after (Wait n p k) g = Wait n p (\<lambda>r. after (k r) g)"
| "after (Observe n k) g = Observe n (\<lambda>es. after (k es) g)"
| "after (Watch n k) g = Watch n (\<lambda>es. after (k es) g)"
| "after (Hang_up n k) g = Hang_up n (after k g)"
| "after (Kill_peer n k) g = Kill_peer n (after k g)"
| "after (Join n k) g = Join n (after k g)"
| "after (Launch n k) g = Launch n (after k g)"
| "after (Clock k) g = Clock (\<lambda>t. after (k t) g)"
| "after (Pause d k) g = Pause d (after k g)"
| "after (Write v k) g = Write v (after k g)"

primrec rescue :: "'a script \<Rightarrow> (fault \<Rightarrow> 'a script) \<Rightarrow> 'a script" where
  "rescue (Finish x) g = Finish x"
| "rescue (Raise e) g = g e"
| "rescue (Call n m f k) g = Call n m f (\<lambda>r. rescue (k r) g)"
| "rescue (Wait n p k) g = Wait n p (\<lambda>r. rescue (k r) g)"
| "rescue (Observe n k) g = Observe n (\<lambda>es. rescue (k es) g)"
| "rescue (Watch n k) g = Watch n (\<lambda>es. rescue (k es) g)"
| "rescue (Hang_up n k) g = Hang_up n (rescue k g)"
| "rescue (Kill_peer n k) g = Kill_peer n (rescue k g)"
| "rescue (Join n k) g = Join n (rescue k g)"
| "rescue (Launch n k) g = Launch n (rescue k g)"
| "rescue (Clock k) g = Clock (\<lambda>t. rescue (k t) g)"
| "rescue (Pause d k) g = Pause d (rescue k g)"
| "rescue (Write v k) g = Write v (rescue k g)"

text \<open>A request or a wait whose failure is not caught\<close>

definition ask :: "nat \<Rightarrow> string \<Rightarrow> jsval \<Rightarrow> (jsval \<Rightarrow> 'a script) \<Rightarrow> 'a script" where
  "ask n m f k = Call n (lit m) f (\<lambda>r. case r of Inl e \<Rightarrow> Raise (Client e) | Inr reply \<Rightarrow> k reply)"

definition wait_for :: "nat \<Rightarrow> (jsval \<Rightarrow> bool) \<Rightarrow> (jsval \<Rightarrow> 'a script) \<Rightarrow> 'a script" where
  "wait_for n p k = Wait n p (\<lambda>r. case r of Inl e \<Rightarrow> Raise (Client e) | Inr event \<Rightarrow> k event)"

text \<open>\<open>initialize()\<close> of either client, with the verdict on its reply\<close>

definition negotiate :: "jsval \<Rightarrow> nat \<Rightarrow> (jsval \<Rightarrow> 'a script) \<Rightarrow> 'a script" where
  "negotiate contract n k = ask n ''initialize''
     (obj [(''generations'', arr [mem contract ''generation'']), (''capabilities'', arr [])])
     (\<lambda>reply. case initialize_reply reply of Inl e \<Rightarrow> Raise (Client e) | Inr initialized \<Rightarrow> k initialized)"

section \<open>Reading answers\<close>

text \<open>A string in an object position: its indices and its length\<close>

fun boxed :: "jsval \<Rightarrow> jsval" where
  "boxed (Str s) = Obj OtherProto (index_props 0 (map (\<lambda>u. Some (Data True (Str [u]))) s) @
     [(SKey (lit ''length''), Data False (Number (int (length s))))])"
| "boxed v = v"

definition nullish :: "jsval \<Rightarrow> bool" where
  "nullish v \<longleftrightarrow> v = Null \<or> v = Undefined"

text \<open>\<open>value.key\<close>, \<open>Object.keys(value)\<close> and \<open>Object.keys(value).length\<close>: an exception for \<open>null\<close> and \<open>undefined\<close>\<close>

definition member :: "jsval \<Rightarrow> string \<Rightarrow> (jsval \<Rightarrow> 'a script) \<Rightarrow> 'a script" where
  "member v key k = (if nullish v then Raise Type_fault else k (mem (boxed v) key))"

definition keys_of :: "jsval \<Rightarrow> (ustring list \<Rightarrow> 'a script) \<Rightarrow> 'a script" where
  "keys_of v k = (if nullish v then Raise Type_fault else k (objectKeys (boxed v)))"

text \<open>\<open>left ?? right\<close>\<close>

definition otherwise :: "jsval \<Rightarrow> jsval \<Rightarrow> jsval" where
  "otherwise v w = (if nullish v then w else v)"

fun truthy :: "jsval \<Rightarrow> bool" where
  "truthy Undefined = False"
| "truthy Null = False"
| "truthy (Boolean b) = b"
| "truthy (Number n) = (n \<noteq> 0)"
| "truthy (NonInt s) = (s \<noteq> ''NaN'')"
| "truthy (BigInt i) = (i \<noteq> 0)"
| "truthy (Str s) = (s \<noteq> [])"
| "truthy _ = True"

text \<open>\<open>===\<close> on values of two different records: objects are never identical\<close>

definition strict_equal :: "jsval \<Rightarrow> jsval \<Rightarrow> bool" where
  "strict_equal v w \<longleftrightarrow> v = w \<and> \<not> isObject v"

text \<open>\<open>const [first] = value\<close>: arrays and strings are iterable\<close>

fun first_unit :: "ustring \<Rightarrow> jsval" where
  "first_unit [] = Undefined"
| "first_unit [u] = Str [u]"
| "first_unit (u # v # s) = (if is_high u \<and> is_low v then Str [u, v] else Str [u])"

definition first_value :: "jsval \<Rightarrow> jsval option" where
  "first_value v = (case v of Arr p sl ex \<Rightarrow> Some (case elements v of [] \<Rightarrow> Undefined | x # r \<Rightarrow> x)
     | Str s \<Rightarrow> Some (first_unit s) | _ \<Rightarrow> None)"

definition first_of :: "jsval \<Rightarrow> (jsval \<Rightarrow> 'a script) \<Rightarrow> 'a script" where
  "first_of v k = (case first_value v of None \<Rightarrow> Raise Type_fault | Some x \<Rightarrow> k x)"

text \<open>The array a method such as \<open>map\<close> is called on\<close>

definition array_of :: "jsval \<Rightarrow> (jsval list \<Rightarrow> 'a script) \<Rightarrow> 'a script" where
  "array_of v k = (if isArray v then k (elements v) else Raise Type_fault)"

text \<open>\<open>assert(condition, message)\<close>: the message is a template, evaluated whether or not the condition holds\<close>

definition template :: "jsval list \<Rightarrow> ustring option" where
  "template pieces = map_option concat (all_some (map to_text pieces))"

definition insist :: "bool \<Rightarrow> jsval list \<Rightarrow> 'a script \<Rightarrow> 'a script" where
  "insist condition pieces k = (case template pieces of None \<Rightarrow> Raise Type_fault
     | Some m \<Rightarrow> if condition then k else Raise (Assertion m))"

definition of_kind :: "string \<Rightarrow> jsval \<Rightarrow> bool" where
  "of_kind kind event \<longleftrightarrow> mem event ''kind'' = js kind"

text \<open>\<open>BigInt(value)\<close> of a string: whitespace around an optional sign and digits, or digits of another radix\<close>

definition radix_value :: "nat \<Rightarrow> ustring \<Rightarrow> int option" where
  "radix_value base ds = (let vs = map (\<lambda>d. if is_digit d then digit_value d else if 97 \<le> unat d \<and> unat d \<le> 102 then unat d - 87
       else if 65 \<le> unat d \<and> unat d \<le> 70 then unat d - 55 else 16) ds in
     if ds = [] \<or> list_ex (\<lambda>v. base \<le> v) vs then None else Some (int (foldl (\<lambda>a v. a * base + v) 0 vs)))"

definition string_to_bigint :: "ustring \<Rightarrow> int option" where
  "string_to_bigint text = (let s = rev (dropWhile regex_space (rev (dropWhile regex_space text))) in
     case s of [] \<Rightarrow> Some 0
     | c # r \<Rightarrow> if c = 45 then map_option uminus (radix_value 10 r) else if c = 43 then radix_value 10 r
         else if c = 48 \<and> r \<noteq> [] \<and> (hd r = 120 \<or> hd r = 88) then radix_value 16 (tl r)
         else if c = 48 \<and> r \<noteq> [] \<and> (hd r = 111 \<or> hd r = 79) then radix_value 8 (tl r)
         else if c = 48 \<and> r \<noteq> [] \<and> (hd r = 98 \<or> hd r = 66) then radix_value 2 (tl r)
         else radix_value 10 s)"

fun to_bigint :: "jsval \<Rightarrow> int option" where
  "to_bigint (Boolean b) = Some (if b then 1 else 0)"
| "to_bigint (Number n) = Some n"
| "to_bigint (BigInt i) = Some i"
| "to_bigint (Str s) = string_to_bigint s"
| "to_bigint (Buf b) = string_to_bigint (utf8_decode b)"
| "to_bigint (Arr p sl ex) = (case to_text (Arr p sl ex) of None \<Rightarrow> None | Some s \<Rightarrow> string_to_bigint s)"
| "to_bigint _ = None"

definition decode_u64 :: "jsval \<Rightarrow> (int \<Rightarrow> 'a script) \<Rightarrow> 'a script" where
  "decode_u64 v k = (case to_bigint v of None \<Rightarrow> Raise Conversion_fault | Some i \<Rightarrow> k i)"

text \<open>Values decoded one after another, as \<open>map\<close> does with a function that may throw\<close>

fun each :: "('x \<Rightarrow> ('y \<Rightarrow> 'a script) \<Rightarrow> 'a script) \<Rightarrow> 'x list \<Rightarrow> ('y list \<Rightarrow> 'a script) \<Rightarrow> 'a script" where
  "each f [] k = k []"
| "each f (x # xs) k = f x (\<lambda>y. each f xs (\<lambda>ys. k (y # ys)))"

section \<open>Traces\<close>

datatype act = Asked nat ustring jsval answer | Waited nat answer | Observed nat "jsval list" | Watched nat "jsval list"
  | Hung_up nat | Killed_peer nat | Joined nat | Launched nat | Clocked int | Paused int | Wrote "fault + jsval"

text \<open>The traces of a script; an event a wait ends with satisfies its predicate, as \<open>waitForEvent\<close> has it\<close>

inductive performs :: "'a script \<Rightarrow> act list \<Rightarrow> 'a script \<Rightarrow> bool" where
  here: "performs p [] p"
| calls: "performs (k r) log q \<Longrightarrow> performs (Call n m f k) (Asked n m f r # log) q"
| waits: "case r of Inl e \<Rightarrow> True | Inr event \<Rightarrow> w event \<Longrightarrow> performs (k r) log q \<Longrightarrow>
     performs (Wait n w k) (Waited n r # log) q"
| observes: "performs (k es) log q \<Longrightarrow> performs (Observe n k) (Observed n es # log) q"
| watches: "performs (k es) log q \<Longrightarrow> performs (Watch n k) (Watched n es # log) q"
| hangs_up: "performs p log q \<Longrightarrow> performs (Hang_up n p) (Hung_up n # log) q"
| kills: "performs p log q \<Longrightarrow> performs (Kill_peer n p) (Killed_peer n # log) q"
| joins: "performs p log q \<Longrightarrow> performs (Join n p) (Joined n # log) q"
| launches: "performs p log q \<Longrightarrow> performs (Launch n p) (Launched n # log) q"
| reads_clock: "performs (k t) log q \<Longrightarrow> performs (Clock k) (Clocked t # log) q"
| pauses: "performs p log q \<Longrightarrow> performs (Pause d p) (Paused d # log) q"
| writes: "performs p log q \<Longrightarrow> performs (Write v p) (Wrote v # log) q"

inductive_cases performs_finish [elim!]: "performs (Finish x) log q"
inductive_cases performs_raise [elim!]: "performs (Raise e) log q"

text \<open>A script run on a list of inputs, as far as they last\<close>

datatype input = Reply jsval | Fails client_error | Sees "jsval list" | Tick int

primrec play :: "'a script \<Rightarrow> input list \<Rightarrow> act list \<times> 'a script" where
  "play (Finish x) ins = ([], Finish x)"
| "play (Raise e) ins = ([], Raise e)"
| "play (Call n m f k) ins = (case ins of
       Reply v # rest \<Rightarrow> apfst (Cons (Asked n m f (Inr v))) (play (k (Inr v)) rest)
     | Fails e # rest \<Rightarrow> apfst (Cons (Asked n m f (Inl e))) (play (k (Inl e)) rest)
     | _ \<Rightarrow> ([], Call n m f k))"
| "play (Wait n w k) ins = (case ins of
       Reply v # rest \<Rightarrow> if w v then apfst (Cons (Waited n (Inr v))) (play (k (Inr v)) rest) else ([], Wait n w k)
     | Fails e # rest \<Rightarrow> apfst (Cons (Waited n (Inl e))) (play (k (Inl e)) rest)
     | _ \<Rightarrow> ([], Wait n w k))"
| "play (Observe n k) ins = (case ins of Sees es # rest \<Rightarrow> apfst (Cons (Observed n es)) (play (k es) rest) | _ \<Rightarrow> ([], Observe n k))"
| "play (Watch n k) ins = (case ins of Sees es # rest \<Rightarrow> apfst (Cons (Watched n es)) (play (k es) rest) | _ \<Rightarrow> ([], Watch n k))"
| "play (Hang_up n p) ins = apfst (Cons (Hung_up n)) (play p ins)"
| "play (Kill_peer n p) ins = apfst (Cons (Killed_peer n)) (play p ins)"
| "play (Join n p) ins = apfst (Cons (Joined n)) (play p ins)"
| "play (Launch n p) ins = apfst (Cons (Launched n)) (play p ins)"
| "play (Clock k) ins = (case ins of Tick t # rest \<Rightarrow> apfst (Cons (Clocked t)) (play (k t) rest) | _ \<Rightarrow> ([], Clock k))"
| "play (Pause d p) ins = apfst (Cons (Paused d)) (play p ins)"
| "play (Write v p) ins = apfst (Cons (Wrote v)) (play p ins)"

lemma performs_play: "performs p (fst (play p ins)) (snd (play p ins))"
proof (induction p arbitrary: ins)
  case (Wait n w k)
  then show ?case by (auto intro: performs.here performs.waits split: list.split input.split)
qed (auto intro: performs.intros split: list.split input.split)

lemma play_after_call:
  assumes "snd (play p ins) = Call n m f k"
  shows "play (after p g) ins = (fst (play p ins), Call n m f (\<lambda>r. after (k r) g))"
  using assms by (induction p arbitrary: ins) (auto split: list.splits input.splits if_splits)

lemma play_rescue_call:
  assumes "snd (play p ins) = Call n m f k"
  shows "play (rescue p g) ins = (fst (play p ins), Call n m f (\<lambda>r. rescue (k r) g))"
  using assms by (induction p arbitrary: ins) (auto split: list.splits input.splits if_splits)

named_theorems playing \<open>steps of a script on given inputs\<close>

lemma play_ask [playing]: "play (ask n m f k) (Reply v # ins) = apfst (Cons (Asked n (lit m) f (Inr v))) (play (k v) ins)"
  by (simp add: ask_def)

lemma play_ask_last [playing]: "play (ask n m f k) [] = ([], Call n (lit m) f (\<lambda>r. case r of Inl e \<Rightarrow> Raise (Client e) | Inr reply \<Rightarrow> k reply))"
  by (simp add: ask_def)

lemma play_wait [playing]: "w v \<Longrightarrow> play (wait_for n w k) (Reply v # ins) = apfst (Cons (Waited n (Inr v))) (play (k v) ins)"
  by (simp add: wait_for_def)

lemma play_negotiate [playing]: "mem v ''type'' = js ''initialized'' \<Longrightarrow> play (negotiate contract n k) (Reply v # ins) =
    apfst (Cons (Asked n (lit ''initialize'') (obj [(''generations'', arr [mem contract ''generation'']), (''capabilities'', arr [])]) (Inr v)))
      (play (k v) ins)"
  by (simp add: negotiate_def play_ask initialize_reply_def)

lemma boxed_obj [playing]: "boxed (obj ms) = obj ms"
  by (simp add: obj_def)

lemma boxed_arr [playing]: "boxed (arr xs) = arr xs"
  by (simp add: arr_def)

lemma not_nullish [playing]: "\<not> nullish (obj ms)" "\<not> nullish (arr xs)" "\<not> nullish (Str s)" "nullish Undefined" "nullish Null"
  by (simp_all add: nullish_def obj_def arr_def)

lemma play_member [playing]: "\<not> nullish v \<Longrightarrow> play (member v key k) ins = play (k (mem (boxed v) key)) ins"
  by (simp add: member_def)

lemma play_keys [playing]: "\<not> nullish v \<Longrightarrow> play (keys_of v k) ins = play (k (objectKeys (boxed v))) ins"
  by (simp add: keys_of_def)

lemma play_first [playing]: "first_value v = Some x \<Longrightarrow> play (first_of v k) ins = play (k x) ins"
  by (simp add: first_of_def)

definition printable :: "jsval list \<Rightarrow> bool" where
  "printable pieces = list_all (\<lambda>v. \<not> Option.is_none (to_text v)) pieces"

lemma printable_template: "printable pieces \<Longrightarrow> template pieces \<noteq> None"
  unfolding printable_def template_def by (induction pieces) (auto simp: Option.is_none_def)

lemma play_insist [playing]: "c \<Longrightarrow> printable pieces \<Longrightarrow> play (insist c pieces k) ins = play k ins"
  by (auto simp: insist_def dest: printable_template)

lemma printable_plain [playing]: "printable []" "printable (Str s # ps) \<longleftrightarrow> printable ps" "printable (Undefined # ps) \<longleftrightarrow> printable ps"
  by (simp_all add: printable_def Option.is_none_def)

lemma play_u64 [playing]: "to_bigint v = Some i \<Longrightarrow> play (decode_u64 v k) ins = play (k i) ins"
  by (simp add: decode_u64_def)

text \<open>
  A condition on every request, given what happened before it, and on the value a script ends with:
  the condition under which every trace of a script satisfies both, computed along the script
\<close>

type_synonym rule = "act list \<Rightarrow> nat \<Rightarrow> ustring \<Rightarrow> jsval \<Rightarrow> bool"

primrec obeys :: "rule \<Rightarrow> (act list \<Rightarrow> 'a \<Rightarrow> bool) \<Rightarrow> act list \<Rightarrow> 'a script \<Rightarrow> bool" where
  "obeys P Q h (Finish x) = Q h x"
| "obeys P Q h (Raise e) = True"
| "obeys P Q h (Call n m f k) = (P h n m f \<and> (\<forall>r. obeys P Q (h @ [Asked n m f r]) (k r)))"
| "obeys P Q h (Wait n w k) = (\<forall>r. (case r of Inl e \<Rightarrow> True | Inr event \<Rightarrow> w event) \<longrightarrow> obeys P Q (h @ [Waited n r]) (k r))"
| "obeys P Q h (Observe n k) = (\<forall>es. obeys P Q (h @ [Observed n es]) (k es))"
| "obeys P Q h (Watch n k) = (\<forall>es. obeys P Q (h @ [Watched n es]) (k es))"
| "obeys P Q h (Hang_up n p) = obeys P Q (h @ [Hung_up n]) p"
| "obeys P Q h (Kill_peer n p) = obeys P Q (h @ [Killed_peer n]) p"
| "obeys P Q h (Join n p) = obeys P Q (h @ [Joined n]) p"
| "obeys P Q h (Launch n p) = obeys P Q (h @ [Launched n]) p"
| "obeys P Q h (Clock k) = (\<forall>t. obeys P Q (h @ [Clocked t]) (k t))"
| "obeys P Q h (Pause d p) = obeys P Q (h @ [Paused d]) p"
| "obeys P Q h (Write v p) = obeys P Q (h @ [Wrote v]) p"

lemma obeys_performs: "performs p log q \<Longrightarrow> obeys P Q h p \<Longrightarrow> obeys P Q (h @ log) q"
proof (induction arbitrary: h rule: performs.induct)
  case (calls k r log q n m f)
  then show ?case using calls.IH [of "h @ [Asked n m f r]"] by simp
next
  case (waits r w k log q n)
  then show ?case using waits.IH [of "h @ [Waited n r]"] by simp
next
  case (observes k es log q n)
  then show ?case using observes.IH [of "h @ [Observed n es]"] by simp
next
  case (watches k es log q n)
  then show ?case using watches.IH [of "h @ [Watched n es]"] by simp
next
  case (hangs_up p log q n)
  then show ?case using hangs_up.IH [of "h @ [Hung_up n]"] by simp
next
  case (kills p log q n)
  then show ?case using kills.IH [of "h @ [Killed_peer n]"] by simp
next
  case (joins p log q n)
  then show ?case using joins.IH [of "h @ [Joined n]"] by simp
next
  case (launches p log q n)
  then show ?case using launches.IH [of "h @ [Launched n]"] by simp
next
  case (reads_clock k t log q)
  then show ?case using reads_clock.IH [of "h @ [Clocked t]"] by simp
next
  case (pauses p log q d)
  then show ?case using pauses.IH [of "h @ [Paused d]"] by simp
next
  case (writes p log q v)
  then show ?case using writes.IH [of "h @ [Wrote v]"] by simp
qed simp

lemma obeys_call: "obeys P Q [] p \<Longrightarrow> performs p log (Call n m f k) \<Longrightarrow> P log n m f"
  using obeys_performs [of p log "Call n m f k" P Q "[]"] by simp

lemma obeys_result: "obeys P Q [] p \<Longrightarrow> performs p log (Finish x) \<Longrightarrow> Q log x"
  using obeys_performs [of p log "Finish x" P Q "[]"] by simp

named_theorems obeying \<open>rules that walk through a script\<close>

lemma obeys_after_iff: "obeys P Q h (after p g) \<longleftrightarrow> obeys P (\<lambda>h x. obeys P Q h (g x)) h p"
  by (induction p arbitrary: h) simp_all

lemma obeys_after [obeying]: "obeys P (\<lambda>h x. obeys P Q h (g x)) h p \<Longrightarrow> obeys P Q h (after p g)"
  by (simp add: obeys_after_iff)

lemma obeys_rescue [obeying]: "(\<And>h e. obeys P Q h (g e)) \<Longrightarrow> obeys P Q h p \<Longrightarrow> obeys P Q h (rescue p g)"
  by (induction p arbitrary: h) simp_all

lemma obeys_finish [obeying]: "Q h x \<Longrightarrow> obeys P Q h (Finish x)"
  by simp

lemma obeys_acts [obeying]:
  "obeys P Q h (Raise e)"
  "(\<And>es. obeys P Q (h @ [Observed n es]) (observe es)) \<Longrightarrow> obeys P Q h (Observe n observe)"
  "(\<And>es. obeys P Q (h @ [Watched n es]) (observe es)) \<Longrightarrow> obeys P Q h (Watch n observe)"
  "(\<And>t. obeys P Q (h @ [Clocked t]) (tick t)) \<Longrightarrow> obeys P Q h (Clock tick)"
  "obeys P Q (h @ [Hung_up n]) p \<Longrightarrow> obeys P Q h (Hang_up n p)"
  "obeys P Q (h @ [Killed_peer n]) p \<Longrightarrow> obeys P Q h (Kill_peer n p)"
  "obeys P Q (h @ [Joined n]) p \<Longrightarrow> obeys P Q h (Join n p)"
  "obeys P Q (h @ [Launched n]) p \<Longrightarrow> obeys P Q h (Launch n p)"
  "obeys P Q (h @ [Paused d]) p \<Longrightarrow> obeys P Q h (Pause d p)"
  "obeys P Q (h @ [Wrote v]) p \<Longrightarrow> obeys P Q h (Write v p)"
  by simp_all

lemma obeys_ask [obeying]:
  "P h n (lit m) f \<Longrightarrow> (\<And>v. obeys P Q (h @ [Asked n (lit m) f (Inr v)]) (k v)) \<Longrightarrow> obeys P Q h (ask n m f k)"
  by (simp add: ask_def split: sum.split)

lemma obeys_wait [obeying]:
  "(\<And>v. w v \<Longrightarrow> obeys P Q (h @ [Waited n (Inr v)]) (k v)) \<Longrightarrow> obeys P Q h (wait_for n w k)"
  by (simp add: wait_for_def split: sum.split)

lemma obeys_member [obeying]: "obeys P Q h (k (mem (boxed v) key)) \<Longrightarrow> obeys P Q h (member v key k)"
  by (simp add: member_def)

lemma obeys_keys [obeying]: "obeys P Q h (k (objectKeys (boxed v))) \<Longrightarrow> obeys P Q h (keys_of v k)"
  by (simp add: keys_of_def)

lemma obeys_insist [obeying]: "(c \<Longrightarrow> obeys P Q h k) \<Longrightarrow> obeys P Q h (insist c pieces k)"
  by (simp add: insist_def split: option.split)

lemma obeys_first [obeying]: "(\<And>x. first_value v = Some x \<Longrightarrow> obeys P Q h (k x)) \<Longrightarrow> obeys P Q h (first_of v k)"
  by (simp add: first_of_def split: option.split)

lemma obeys_option [obeying]:
  "(v = None \<Longrightarrow> obeys P Q h p) \<Longrightarrow> (\<And>x. v = Some x \<Longrightarrow> obeys P Q h (g x)) \<Longrightarrow> obeys P Q h (case v of None \<Rightarrow> p | Some x \<Rightarrow> g x)"
  by (simp split: option.split)

lemma obeys_if [obeying]:
  "(c \<Longrightarrow> obeys P Q h p) \<Longrightarrow> (\<not> c \<Longrightarrow> obeys P Q h q) \<Longrightarrow> obeys P Q h (if c then p else q)"
  "(c \<Longrightarrow> obeys P Q h (f k)) \<Longrightarrow> (\<not> c \<Longrightarrow> obeys P Q h (g k)) \<Longrightarrow> obeys P Q h ((if c then f else g) k)"
  by simp_all

lemma obeys_array [obeying]: "(\<And>xs. obeys P Q h (k xs)) \<Longrightarrow> obeys P Q h (array_of v k)"
  by (simp add: array_of_def)

lemma obeys_u64 [obeying]: "(\<And>i. obeys P Q h (k i)) \<Longrightarrow> obeys P Q h (decode_u64 v k)"
  by (simp add: decode_u64_def split: option.split)

lemma obeys_negotiate [obeying]:
  "P h n (lit ''initialize'') (obj [(''generations'', arr [mem contract ''generation'']), (''capabilities'', arr [])]) \<Longrightarrow>
   (\<And>v. mem v ''type'' = js ''initialized'' \<Longrightarrow> obeys P Q (h @ [Asked n (lit ''initialize'')
      (obj [(''generations'', arr [mem contract ''generation'']), (''capabilities'', arr [])]) (Inr v)]) (k v)) \<Longrightarrow>
   obeys P Q h (negotiate contract n k)"
  unfolding negotiate_def by (rule obeys_ask) (simp_all add: initialize_reply_def)

lemma obeys_each:
  assumes f: "\<And>x k. (\<And>y. obeys P Q h (k y)) \<Longrightarrow> obeys P Q h (f x k)" and k: "\<And>ys. obeys P Q h (k ys)"
  shows "obeys P Q h (each f xs k)"
  using k by (induction xs arbitrary: k) (simp_all add: f)

end
