(* ===== verification/Workflow.thy ===== *)
theory Workflow
  imports Script
begin

text \<open>
  The integrated workflow (\<open>workflow.mjs\<close>): negotiate, create, attach, prompt, follow the run to its end,
  inspect, and see an unknown method refused.  A reply is an object, since a client finds the request it
  answers by a member of it, so reading a member of a reply does not fail; reading a member of a member may.
  What \<open>Buffer.from(value, "base64url")\<close> makes of a value that is not a string is the parameter \<open>foreign\<close>
  (\<open>None\<close> where it throws).
\<close>

section \<open>Launching the server\<close>

text \<open>\<open>process.env.NAME || fallback\<close>\<close>

definition or_default :: "ustring option \<Rightarrow> string \<Rightarrow> ustring" where
  "or_default env fallback = (case env of None \<Rightarrow> lit fallback | Some s \<Rightarrow> if s = [] then lit fallback else s)"

text \<open>Each path ending in \<open>.exs\<close> is required, every other is a code directory\<close>

definition ends_with :: "string \<Rightarrow> ustring \<Rightarrow> bool" where
  "ends_with t s \<longleftrightarrow> length t \<le> length s \<and> drop (length s - length t) s = lit t"

fun serverArgs :: "ustring list \<Rightarrow> ustring option \<Rightarrow> ustring list" where
  "serverArgs [] entry = [lit ''-e'', or_default entry ''Loopex.AppServer.Fixture.serve()'']"
| "serverArgs (path # rest) entry =
     (if ends_with ''.exs'' path then [lit ''-r'', path] else [lit ''-pa'', path]) @ serverArgs rest entry"

section \<open>The workflow\<close>

definition command :: "string \<Rightarrow> jsval" where
  "command name = Str (wire_identity (lit name))"

text \<open>\<open>wire.decodeBytes\<close> and \<open>wire.decodeIdentity\<close> of a value that may not be a string\<close>

definition decode_bytes :: "(jsval \<Rightarrow> bytes option) \<Rightarrow> jsval \<Rightarrow> (bytes \<Rightarrow> 'a script) \<Rightarrow> 'a script" where
  "decode_bytes foreign v k = (case v of Str s \<Rightarrow> k (wire_decodeBytes s)
     | _ \<Rightarrow> (case foreign v of None \<Rightarrow> Raise Type_fault | Some bs \<Rightarrow> k bs))"

definition decode_identity :: "(jsval \<Rightarrow> bytes option) \<Rightarrow> jsval \<Rightarrow> (ustring \<Rightarrow> 'a script) \<Rightarrow> 'a script" where
  "decode_identity foreign v k = (case v of Str s \<Rightarrow> k (wire_decodeIdentity s)
     | _ \<Rightarrow> (case foreign v of None \<Rightarrow> Raise Type_fault | Some bs \<Rightarrow> k (utf8_decode bs)))"

definition snapshotMembers :: "ustring list" where
  "snapshotMembers = map lit [''active_maintenance'', ''active_run_id'', ''active_run_phase'', ''checkpoint'',
     ''configuration'', ''event_sequence'', ''last_compact'', ''open_interaction'', ''session_id'', ''snapshot_revision'']"

definition names_text :: "ustring list \<Rightarrow> ustring option" where
  "names_text ks = stringify (arr (map Str ks))"

text \<open>\<open>sequences.every((value, index) => index === 0 ? true : value > sequences[index - 1])\<close>\<close>

definition ordered :: "int list \<Rightarrow> bool" where
  "ordered sequences = list_all (\<lambda>index. index = 0 \<or> sequences ! index > sequences ! (index - 1)) [0..<length sequences]"

text \<open>The checks on the snapshot, and what is kept of it.  The two decoded identities are compared after the texts were, so
  they are the same value; a value that is not a string is refused by \<open>Buffer.from\<close>.\<close>

definition check_attached :: "jsval \<Rightarrow> jsval \<Rightarrow> ((string \<times> jsval) list \<Rightarrow> 'a script) \<Rightarrow> 'a script" where
  "check_attached session attached k =
     insist (mem attached ''type'' = js ''snapshot'') [js ''expected a snapshot, received '', mem attached ''type'']
     (let snapshot = mem attached ''snapshot'' in member snapshot ''snapshot_revision'' (\<lambda>revision.
     insist (revision = Number 3) [js ''unexpected snapshot revision'']
     (keys_of snapshot (\<lambda>members.
     insist (names_text (sort members) = names_text snapshotMembers) [js ''snapshot does not carry exactly the current ten fields'']
     (member snapshot ''session_id'' (\<lambda>identity.
     insist (strict_equal identity session) [js ''snapshot changed the opaque session identity'']
     (member snapshot ''event_sequence'' (\<lambda>reached.
     insist (strict_equal reached (mem attached ''event_cursor'')) [js ''snapshot and cursor differ'']
     (if \<not> (isString identity \<and> isString session) then Raise Type_fault
      else decode_bytes (\<lambda>v. None) identity (\<lambda>left. decode_bytes (\<lambda>v. None) session (\<lambda>right.
     insist (left = right) [js ''snapshot identity bytes differ'']
     (decode_u64 reached (\<lambda>i.
     k [(''snapshot_revision'', revision), (''attached_cursor'', mem attached ''event_cursor''),
        (''snapshot_members'', arr (map Str (sort members)))])))))))))))))"

definition workflow_run :: "(jsval \<Rightarrow> bytes option) \<Rightarrow> ustring \<Rightarrow> jsval script" where
  "workflow_run foreign task =
     negotiate foreground_contract 0 (\<lambda>initialized.
     member (mem initialized ''supported_methods'') ''length'' (\<lambda>method_count.
     member (mem initialized ''limits'') ''frame_bytes'' (\<lambda>frame_bytes.
     ask 0 ''session.create'' (obj [(''command_id'', command ''client-create''), (''session_options'', obj [(''version'', Number 1)])])
     (\<lambda>created.
     insist (mem created ''type'' = js ''admission'') [js ''expected an admission, received '', mem created ''type'']
     (insist (mem created ''status'' = js ''accepted'') [js ''creation was '', mem created ''status'']
     (decode_identity foreign (mem created ''command_id'') (\<lambda>returned.
     let session = mem created ''session_id'' in
     ask 0 ''session.attach'' (obj [(''session_id'', session), (''after_event_sequence'', js ''0'')]) (\<lambda>attached.
     check_attached session attached (\<lambda>attachment.
     ask 0 ''session.prompt'' (obj [(''command_id'', command ''client-prompt''), (''content_b64'', Str (wire_bytes (utf8 task)))])
     (\<lambda>prompted.
     insist (mem prompted ''type'' = js ''admission'') [js ''expected an admission, received '', mem prompted ''type'']
     (insist (mem prompted ''status'' = js ''accepted'')
        [js ''the prompt was '', mem prompted ''status'', js '': '', mem prompted ''reason'']
     (wait_for 0 (of_kind ''run.finished'') (\<lambda>finished.
     Observe 0 (\<lambda>seen.
     each (\<lambda>event. decode_u64 (mem event ''event_sequence'')) seen (\<lambda>sequences.
     ask 0 ''session.inspect'' (obj [(''session_id'', session)]) (\<lambda>inspected.
     insist (mem inspected ''type'' = js ''result'') [js ''expected a result, received '', mem inspected ''type'']
     (keys_of (mem inspected ''result'') (\<lambda>inspect_members.
     member (mem inspected ''result'') ''event_sequence'' (\<lambda>reached.
     ask 0 ''session.teleport'' (obj []) (\<lambda>refused.
     insist (mem refused ''type'' = js ''error'') [js ''an unknown method was not refused'']
     (ask 0 ''session.inspect'' (obj [(''session_id'', session)]) (\<lambda>still_alive.
     insist (mem still_alive ''type'' = js ''result'') [js ''the connection did not survive a refusal'']
     (Finish (obj ([(''generation'', mem initialized ''selected_generation''), (''schema_digest'', mem initialized ''exact_schema_sha256''),
        (''method_count'', method_count), (''frame_bytes'', frame_bytes), (''session_created'', Boolean True),
        (''command_id_returned'', Str returned)] @ attachment @
        [(''prompt_accepted'', Boolean True), (''run_finished_sequence'', mem finished ''event_sequence''),
        (''event_kinds'', arr (map (\<lambda>event. mem event ''kind'') seen)), (''sequences_ordered'', Boolean (ordered sequences)),
        (''inspect_members'', arr (map Str (sort inspect_members))), (''event_sequence_is_string'', Boolean (isString reached)),
        (''unknown_method_code'', mem refused ''code''), (''survived_refusal'', Boolean True)])))))))))))))))))))))))))"

text \<open>The program: the summary or the failure on one line, and the exit code\<close>

definition workflow_main :: "(jsval \<Rightarrow> bytes option) \<Rightarrow> ustring \<Rightarrow> nat script" where
  "workflow_main foreign task = rescue
     (after (workflow_run foreign task) (\<lambda>summary. Write (Inr summary) (Hang_up 0 (Join 0 (Finish 0)))))
     (\<lambda>failure. Write (Inl failure) (Hang_up 0 (Finish 1)))"

section \<open>The text of a list of names\<close>

lemma unicode_escape_marks: "92 \<in> set (unicode_escape u)"
  by (simp add: unicode_escape_def lit_def unit_of_char_def)

lemma escape_unmarked: "92 \<notin> set (escape_unit u) \<Longrightarrow> escape_unit u = [u] \<and> u \<noteq> 34"
  using unicode_escape_marks [of u] by (auto simp: escape_unit_def lit_def unit_of_char_def split: if_splits)

lemma quote_unmarked: "92 \<notin> set (quote_body s) \<Longrightarrow> quote_body s = s \<and> 34 \<notin> set s"
proof (induction s rule: quote_body.induct)
  case (2 u)
  then show ?case using unicode_escape_marks escape_unmarked [of u] by (auto split: if_splits)
next
  case (3 u v s)
  have "\<not> is_high 34" "\<not> is_low 34" by (simp_all add: is_high_def is_low_def)
  with 3 show ?case using unicode_escape_marks escape_unmarked [of u] by (auto split: if_splits)
qed simp

lemma split_at_quote: "x @ 34 # r = y @ 34 # q \<Longrightarrow> (34 :: code_unit) \<notin> set x \<Longrightarrow> 34 \<notin> set y \<Longrightarrow> x = y \<and> r = q"
proof (induction x arbitrary: y)
  case Nil
  then show ?case by (cases y) auto
next
  case (Cons u x)
  then show ?case by (cases y) auto
qed

lemma join_unmarked:
  "join [44] (map (\<lambda>x. 34 # x @ [34]) xs) = join [44] (map (\<lambda>x. 34 # x @ [34]) ys) \<Longrightarrow>
   list_all (\<lambda>x. (34 :: code_unit) \<notin> set x) xs \<Longrightarrow> list_all (\<lambda>x. 34 \<notin> set x) ys \<Longrightarrow> xs = ys"
proof (induction xs arbitrary: ys)
  case Nil
  then show ?case by (cases ys rule: remdups_adj.cases) auto
next
  case (Cons x xs)
  let ?j = "\<lambda>zs. (case zs of [] \<Rightarrow> [] | z # r \<Rightarrow> (44 :: code_unit) # join [44] (map (\<lambda>x. 34 # x @ [34]) zs))"
  have j: "join [44] (map (\<lambda>x. 34 # x @ [34]) (z # zs)) = 34 # z @ 34 # ?j zs" for z zs
    by (cases zs) simp_all
  from Cons.prems obtain y zs where ys: "ys = y # zs" by (cases ys) (auto simp: j simp del: list.map(2))
  from Cons.prems have "x = y \<and> ?j xs = ?j zs" unfolding ys j by (intro split_at_quote) simp_all
  then have "x = y" "join [44] (map (\<lambda>x. 34 # x @ [34]) xs) = join [44] (map (\<lambda>x. 34 # x @ [34]) zs)"
    by (auto split: list.splits)
  with Cons ys show ?case by simp
qed

lemma join_set: "\<Union> (set ` set ts) \<subseteq> set (join sep ts)"
  by (induction sep ts rule: join.induct) auto

lemma names_text_eq: "names_text ks = Some (array_text (map quote ks))"
proof -
  have "all_some (map (Some \<circ> quote) ks) = Some (map quote ks)" by (induction ks) simp_all
  then show ?thesis by (simp add: names_text_def arr_def comp_def)
qed

lemma names_text_plain:
  assumes "names_text ks = names_text ms" "list_all (list_all plain_unit) ms"
  shows "ks = ms"
proof -
  have no: "\<not> plain_unit 34" "\<not> plain_unit 92" by (simp_all add: plain_unit_def)
  have ms: "map quote ms = map (\<lambda>x. 34 # x @ [34]) ms" "list_all (\<lambda>x. 34 \<notin> set x \<and> 92 \<notin> set x) ms"
    using assms(2) no by (auto simp: list_all_iff quote_def quote_body_plain)
  have eq: "join [44] (map quote ks) = join [44] (map quote ms)" using assms(1) by (simp add: names_text_eq array_text_def)
  have "92 \<notin> set (join [44] (map quote ms))"
  proof -
    have "set (join [44] ts) \<subseteq> insert 44 (\<Union> (set ` set ts))" for ts :: "ustring list"
      by (induction "[44] :: ustring" ts rule: join.induct) auto
    then show ?thesis using ms by (fastforce simp: list_all_iff)
  qed
  then have "92 \<notin> set (quote_body k)" if "k \<in> set ks" for k
    using that join_set [of "map quote ks" "[44]"] unfolding eq [symmetric] by (fastforce simp: quote_def)
  then have ks: "map quote ks = map (\<lambda>x. 34 # x @ [34]) ks" "list_all (\<lambda>x. 34 \<notin> set x) ks"
    using quote_unmarked by (simp_all add: quote_def list_all_iff)
  from ms(2) have "list_all (\<lambda>x. 34 \<notin> set x) ms" by (simp add: list_all_iff)
  from join_unmarked [OF eq [unfolded ks(1) ms(1)] ks(2) this] show ?thesis .
qed

lemma snapshot_members_plain: "list_all (list_all plain_unit) snapshotMembers"
  by (simp add: snapshotMembers_def lit_def unit_of_char_def plain_unit_def)

section \<open>The order of requests\<close>

lemma obeys_identity [obeying]: "(\<And>s. obeys P Q h (k s)) \<Longrightarrow> obeys P Q h (decode_identity foreign v k)"
  by (simp add: decode_identity_def split: jsval.split option.split)

lemma obeys_bytes [obeying]: "(\<And>s. obeys P Q h (k s)) \<Longrightarrow> obeys P Q h (decode_bytes foreign v k)"
  by (simp add: decode_bytes_def split: jsval.split option.split)

text \<open>What an attachment that passed the checks says\<close>

definition attached_to :: "jsval \<Rightarrow> jsval \<Rightarrow> bool" where
  "attached_to session attached \<longleftrightarrow> mem attached ''type'' = js ''snapshot'' \<and>
     mem (boxed (mem attached ''snapshot'')) ''snapshot_revision'' = Number 3 \<and>
     sort (objectKeys (boxed (mem attached ''snapshot''))) = snapshotMembers \<and>
     isString session \<and> mem (boxed (mem attached ''snapshot'')) ''session_id'' = session \<and>
     mem (boxed (mem attached ''snapshot'')) ''event_sequence'' = mem attached ''event_cursor''"

lemma obeys_attached [obeying]:
  "(\<And>cursor ms. attached_to session attached \<Longrightarrow> obeys P Q h
      (k [(''snapshot_revision'', Number 3), (''attached_cursor'', cursor), (''snapshot_members'', ms)])) \<Longrightarrow>
   obeys P Q h (check_attached session attached k)"
  unfolding check_attached_def Let_def
  by (auto intro!: obeying simp: attached_to_def strict_equal_def dest!: names_text_plain [OF _ snapshot_members_plain])

definition answered :: "act list \<Rightarrow> string \<Rightarrow> jsval \<Rightarrow> bool" where
  "answered log m reply \<longleftrightarrow> (\<exists>f. Asked 0 (lit m) f (Inr reply) \<in> set log)"

lemma answered_append [simp]: "answered (h @ h') m v \<longleftrightarrow> answered h m v \<or> answered h' m v"
  by (auto simp: answered_def)

lemma answered_simps [simp]: "\<not> answered [] m v" "answered (x # h) m v \<longleftrightarrow> (\<exists>f. x = Asked 0 (lit m) f (Inr v)) \<or> answered h m v"
  by (auto simp: answered_def)

text \<open>The requests of one method with their answers, in order, and the trace around the first of them\<close>

fun asked_with :: "string \<Rightarrow> act \<Rightarrow> (jsval \<times> answer) option" where
  "asked_with m (Asked n m' f r) = (if m' = lit m then Some (f, r) else None)"
| "asked_with m _ = None"

definition asks :: "string \<Rightarrow> act list \<Rightarrow> (jsval \<times> answer) list" where
  "asks m log = List.map_filter (asked_with m) log"

lemma asks_simps [simp]: "asks m [] = []" "asks m (x # log) = (case asked_with m x of None \<Rightarrow> asks m log | Some q \<Rightarrow> q # asks m log)"
  "asks m (log @ log') = asks m log @ asks m log'"
  by (simp_all add: asks_def List.map_filter_def split: option.split)

fun around :: "string \<Rightarrow> act list \<Rightarrow> (act list \<times> act \<times> act list) option" where
  "around m [] = None"
| "around m (x # log) = (if asked_with m x \<noteq> None then Some ([], x, log) else map_option (\<lambda>(h, y, h'). (x # h, y, h')) (around m log))"

lemma around_split: "around m log = Some (h, x, h') \<Longrightarrow> log = h @ x # h'"
  by (induction log arbitrary: h) (auto split: if_splits)

lemma asks_answered: "(f, Inr reply) \<in> set (asks m log) \<Longrightarrow> \<exists>n. Asked n (lit m) f (Inr reply) \<in> set log"
proof (induction log)
  case (Cons x log)
  then show ?case by (cases x) (auto split: if_splits)
qed simp

definition workflow_rule :: rule where
  "workflow_rule h n m f \<longleftrightarrow>
     (m \<noteq> lit ''initialize'' \<longrightarrow> (\<exists>reply. answered h ''initialize'' reply \<and> mem reply ''type'' = js ''initialized'')) \<and>
     (m \<notin> {lit ''initialize'', lit ''session.create''} \<longrightarrow> (\<exists>created. answered h ''session.create'' created \<and>
        mem created ''type'' = js ''admission'' \<and> mem created ''status'' = js ''accepted'' \<and>
        (m \<noteq> lit ''session.attach'' \<longrightarrow> (\<exists>attached. answered h ''session.attach'' attached \<and>
           attached_to (mem created ''session_id'') attached))))"

text \<open>The methods a completed run has asked for, in order\<close>

fun asked_method :: "act \<Rightarrow> ustring option" where
  "asked_method (Asked n m f r) = Some m"
| "asked_method _ = None"

definition methods :: "act list \<Rightarrow> ustring list" where
  "methods log = List.map_filter asked_method log"

lemma methods_simps [simp]: "methods [] = []" "methods (x # log) = (case asked_method x of None \<Rightarrow> methods log | Some m \<Rightarrow> m # methods log)"
  "methods (log @ log') = methods log @ methods log'"
  by (simp_all add: methods_def List.map_filter_def split: option.split)

definition workflow_end :: "act list \<Rightarrow> jsval \<Rightarrow> bool" where
  "workflow_end log summary \<longleftrightarrow>
     methods log = map lit [''initialize'', ''session.create'', ''session.attach'', ''session.prompt'', ''session.inspect'',
       ''session.teleport'', ''session.inspect''] \<and>
     (\<exists>seen sequences. Observed 0 seen \<in> set log \<and> map (\<lambda>event. to_bigint (mem event ''event_sequence'')) seen = map Some sequences \<and>
       mem summary ''sequences_ordered'' = Boolean (sorted_wrt (<) sequences)) \<and>
     (\<exists>refused. answered log ''session.teleport'' refused \<and> mem refused ''type'' = js ''error'' \<and>
       mem summary ''unknown_method_code'' = mem refused ''code'')"

lemma ordered_iff: "ordered sequences \<longleftrightarrow> sorted_wrt (<) sequences"
proof -
  have "ordered sequences \<longleftrightarrow> (\<forall>i. Suc i < length sequences \<longrightarrow> sequences ! i < sequences ! Suc i)"
    unfolding ordered_def list_all_iff
  proof (intro iffI ballI allI impI)
    fix i assume a: "\<forall>index\<in>set [0..<length sequences]. index = 0 \<or> sequences ! (index - 1) < sequences ! index" and "Suc i < length sequences"
    then show "sequences ! i < sequences ! Suc i" using bspec [OF a, of "Suc i"] by simp
  next
    fix index assume a: "\<forall>i. Suc i < length sequences \<longrightarrow> sequences ! i < sequences ! Suc i" and "index \<in> set [0..<length sequences]"
    then show "index = 0 \<or> sequences ! (index - 1) < sequences ! index" using spec [OF a, of "index - 1"] by (cases index) simp_all
  qed
  then show ?thesis by (simp add: sorted_wrt_iff_nth_Suc_transp)
qed

lemma obeys_sequences [obeying]:
  "(\<And>ys. map (\<lambda>event. to_bigint (mem event ''event_sequence'')) xs = map Some ys \<Longrightarrow> obeys P Q h (k ys)) \<Longrightarrow>
   obeys P Q h (each (\<lambda>event. decode_u64 (mem event ''event_sequence'')) xs k)"
proof (induction xs arbitrary: k)
  case (Cons x xs)
  show ?case
  proof (cases "to_bigint (mem x ''event_sequence'')")
    case (Some i)
    then show ?thesis using Cons by (simp add: decode_u64_def)
  qed (simp add: decode_u64_def)
qed simp

lemma workflow_obeys: "obeys workflow_rule workflow_end [] (workflow_run foreign task)"
  unfolding workflow_run_def Let_def
  by (intro obeying) (simp_all add: workflow_rule_def workflow_end_def member_simps ordered_iff)

lemma workflow_main_obeys: "obeys workflow_rule (\<lambda>h x. True) [] (workflow_main foreign task)"
  unfolding workflow_main_def
proof (intro obeying TrueI)
  show "obeys workflow_rule (\<lambda>h x. obeys workflow_rule (\<lambda>h x. True) h (Write (Inr x) (Hang_up 0 (Join 0 (Finish 0))))) [] (workflow_run foreign task)"
    unfolding workflow_run_def Let_def by (intro obeying) (simp_all add: workflow_rule_def)
qed

text \<open>A server's side of one complete run\<close>

definition created_reply :: jsval where
  "created_reply = obj [(''type'', js ''admission''), (''status'', js ''accepted''), (''session_id'', js ''s''), (''command_id'', js ''c'')]"

definition attached_reply :: jsval where
  "attached_reply = obj [(''type'', js ''snapshot''), (''event_cursor'', js ''0''), (''snapshot'', obj
     [(''active_maintenance'', Null), (''active_run_id'', Null), (''active_run_phase'', Null), (''checkpoint'', Null),
      (''configuration'', Null), (''event_sequence'', js ''0''), (''last_compact'', Null), (''open_interaction'', Null),
      (''session_id'', js ''s''), (''snapshot_revision'', Number 3)])]"

definition accepted_reply :: jsval where
  "accepted_reply = obj [(''type'', js ''admission''), (''status'', js ''accepted'')]"

definition finished_event :: jsval where
  "finished_event = obj [(''kind'', js ''run.finished''), (''event_sequence'', js ''1'')]"

definition result_reply :: jsval where
  "result_reply = obj [(''type'', js ''result''), (''result'', obj [])]"

definition refusing_reply :: jsval where
  "refusing_reply = obj [(''type'', js ''error''), (''code'', js ''unknown_method'')]"

definition good_server :: "input list" where
  "good_server = [Reply server_welcome, Reply created_reply, Reply attached_reply, Reply accepted_reply, Reply finished_event,
     Sees [finished_event], Reply result_reply, Reply refusing_reply, Reply result_reply]"

lemma sample_keys: "objectKeys (obj ms) = map (lit \<circ> fst) ms"
  by (simp add: objectKeys_obj comp_def case_prod_unfold)

lemma snapshotMembers_sorted: "sort snapshotMembers = snapshotMembers"
  by (simp add: snapshotMembers_def lit_def unit_of_char_def)

lemma sample_attached: "names_text (sort (objectKeys (mem attached_reply ''snapshot''))) = names_text snapshotMembers"
proof -
  have "objectKeys (mem attached_reply ''snapshot'') = snapshotMembers"
    by (simp add: attached_reply_def mem_obj sample_keys snapshotMembers_def)
  then show ?thesis using snapshotMembers_sorted by simp
qed

lemma play_attached [playing]:
  "play (check_attached (js ''s'') attached_reply k) ins = play (k [(''snapshot_revision'', Number 3), (''attached_cursor'', js ''0''),
     (''snapshot_members'', arr (map Str snapshotMembers))]) ins"
proof -
  have m: "mem attached_reply ''type'' = js ''snapshot''" "mem attached_reply ''event_cursor'' = js ''0''"
    by (simp_all add: attached_reply_def mem_obj)
  have s: "\<not> nullish (mem attached_reply ''snapshot'')" "boxed (mem attached_reply ''snapshot'') = mem attached_reply ''snapshot''"
    "mem (mem attached_reply ''snapshot'') ''snapshot_revision'' = Number 3" "mem (mem attached_reply ''snapshot'') ''session_id'' = js ''s''"
    "mem (mem attached_reply ''snapshot'') ''event_sequence'' = js ''0''"
    by (simp_all add: attached_reply_def mem_obj playing)
  have z: "to_bigint (js ''0'') = Some 0"
    by (simp add: string_to_bigint_def lit_def unit_of_char_def regex_space_def radix_value_def is_digit_def digit_value_def)
  have k: "sort (objectKeys (mem attached_reply ''snapshot'')) = snapshotMembers"
    using names_text_plain [OF sample_attached snapshot_members_plain] .
  show ?thesis unfolding check_attached_def Let_def decode_bytes_def
    by (simp add: m s k play_u64 [OF z] playing strict_equal_def)
qed

lemma play_identity [playing]: "play (decode_identity foreign (Str s) k) ins = play (k (wire_decodeIdentity s)) ins"
  by (simp add: decode_identity_def)

lemma one_sequence: "to_bigint (js ''1'') = Some 1"
  by (simp add: string_to_bigint_def lit_def unit_of_char_def regex_space_def radix_value_def is_digit_def digit_value_def)

lemma good_run: "\<exists>log summary. play (workflow_run foreign task) good_server = (log, Finish summary)"
  unfolding workflow_run_def good_server_def Let_def
  by (simp add: playing welcome_reply created_reply_def accepted_reply_def finished_event_def result_reply_def refusing_reply_def
    mem_obj of_kind_def play_u64 [OF one_sequence])

section \<open>Properties\<close>

text \<open>C17. The workflow asks for nothing but \<open>initialize\<close> before the server has said it is initialized, nothing for a session before its
  creation was accepted, and nothing but the attachment before a snapshot of that very session arrived with revision 3, exactly the
  ten current members and a sequence equal to its cursor; whatever the server answers.\<close>

theorem workflow_in_order:
  assumes "performs (workflow_main foreign task) log (Call n m f k)" "m \<noteq> lit ''initialize''"
  shows "(\<exists>reply. answered log ''initialize'' reply \<and> mem reply ''type'' = js ''initialized'') \<and>
    (m \<noteq> lit ''session.create'' \<longrightarrow> (\<exists>created. answered log ''session.create'' created \<and>
       mem created ''type'' = js ''admission'' \<and> mem created ''status'' = js ''accepted'' \<and>
       (m \<noteq> lit ''session.attach'' \<longrightarrow> (\<exists>attached. answered log ''session.attach'' attached \<and>
          attached_to (mem created ''session_id'') attached))))"
  using obeys_call [OF workflow_main_obeys assms(1)] assms(2) by (simp add: workflow_rule_def)

theorem workflow_in_order_witness:
  "\<exists>log f k. performs (workflow_main (\<lambda>v. None) []) log (Call 0 (lit ''session.create'') f k) \<and>
     (\<exists>reply. answered log ''initialize'' reply \<and> mem reply ''type'' = js ''initialized'')"
proof -
  obtain log f k where "play (workflow_main (\<lambda>v. None) []) [Reply server_welcome] = (log, Call 0 (lit ''session.create'') f k)"
    unfolding workflow_main_def workflow_run_def
    by (auto simp: negotiate_def ask_def initialize_reply_def member_def nullish_def welcome_reply obj_def arr_def)
  then have "performs (workflow_main (\<lambda>v. None) []) log (Call 0 (lit ''session.create'') f k)"
    using performs_play [of "workflow_main (\<lambda>v. None) []" "[Reply server_welcome]"] by simp
  from this workflow_in_order [OF this] show ?thesis by auto
qed

text \<open>C19. A run of the workflow that ends with a summary made exactly its seven requests in order; the summary says that the durable
  sequences are ordered exactly when the observed events carry strictly increasing integers, and names the code with which the unknown
  method was refused.\<close>

theorem workflow_summary:
  assumes "performs (workflow_run foreign task) log (Finish summary)"
  shows "methods log = map lit [''initialize'', ''session.create'', ''session.attach'', ''session.prompt'', ''session.inspect'',
      ''session.teleport'', ''session.inspect''] \<and>
    (\<exists>seen sequences. Observed 0 seen \<in> set log \<and> map (\<lambda>event. to_bigint (mem event ''event_sequence'')) seen = map Some sequences \<and>
      mem summary ''sequences_ordered'' = Boolean (sorted_wrt (<) sequences)) \<and>
    (\<exists>refused. answered log ''session.teleport'' refused \<and> mem refused ''type'' = js ''error'' \<and>
      mem summary ''unknown_method_code'' = mem refused ''code'')"
  using obeys_result [OF workflow_obeys assms] unfolding workflow_end_def .

theorem workflow_summary_witness:
  "\<exists>log summary. performs (workflow_run (\<lambda>v. None) []) log (Finish summary) \<and> length (methods log) = 7"
proof -
  obtain log summary where "play (workflow_run (\<lambda>v. None) []) good_server = (log, Finish summary)" using good_run by blast
  then have "performs (workflow_run (\<lambda>v. None) []) log (Finish summary)"
    using performs_play [of "workflow_run (\<lambda>v. None) []" good_server] by simp
  from this workflow_summary [OF this] show ?thesis by auto
qed

end
