(* ===== verification/Artifact_Refusal.thy ===== *)
theory Artifact_Refusal
  imports Workflow Creation_Cancellation
begin

text \<open>
  Refusals of artifact transfers: the closed decoder of the contract vectors
  (\<open>current-contract-manifest-vectors.mjs\<close>), with its two forms, and the assertion the interaction workflow
  makes of a refused opening (\<open>interaction-workflow.mjs\<close>).
\<close>

section \<open>The decoder\<close>

definition admittedOpenReasons :: "string list" where
  "admittedOpenReasons = [''invalid_artifact_request'', ''invalid_open_context'', ''reservation_required'', ''reservation_conflict'',
     ''unknown_artifact_use'', ''artifact_use_mismatch'', ''artifact_integrity_failed'', ''artifact_digest_mismatch'', ''unknown_artifact'',
     ''artifact_too_large'', ''invalid_window'', ''open_deadline_exhausted'', ''open_work_budget_exhausted'', ''transfer_limit_reached'',
     ''transfers_unavailable'', ''artifact_unreadable'', ''cancelled'']"

definition ordinaryReasons :: "(string \<times> string list) list" where
  "ordinaryReasons = [
     (''open_preadmission'', [''attachment_required'', ''invalid_attachment'', ''stale_attachment'', ''invalid_artifact_request'',
        ''artifact_transfer_unsupported'', ''transfer_limit_reached'', ''open_work_budget_exhausted'', ''transfers_unavailable'']),
     (''read'', [''attachment_required'', ''invalid_attachment'', ''stale_attachment'', ''unknown_transfer'', ''invalid_chunk_length'',
        ''open_work_budget_exhausted'', ''transfers_unavailable'', ''read_deadline_exhausted'', ''artifact_unreadable'', ''runtime_unavailable'']),
     (''close'', [''attachment_required'', ''invalid_attachment'', ''stale_attachment'', ''unknown_transfer'', ''cleanup_unproved''])]"

definition requiredAdmitted :: "string list" where
  "requiredAdmitted = [''type'', ''request_id'', ''code'', ''message'', ''reason'', ''cleanup'']"

definition requiredOrdinary :: "string list" where
  "requiredOrdinary = filter (\<lambda>key. key \<noteq> ''cleanup'') requiredAdmitted"

text \<open>The tests on a closed record, once the reasons and the keys of its scope are known\<close>

definition refusal_fields :: "string list \<Rightarrow> string list \<Rightarrow> bool \<Rightarrow> jsval \<Rightarrow> bool" where
  "refusal_fields reasons ks opened value \<longleftrightarrow> isObject value \<and> plainProto value \<and> length (objectKeys value) = length ks \<and>
     list_all (hasOwn value) ks \<and> mem value ''type'' = js ''error'' \<and> mem value ''code'' = js ''transfer_refused'' \<and>
     request_text (mem value ''request_id'') \<and>
     (case mem value ''message'' of Str s \<Rightarrow> isWellFormed s \<and> byteLength s \<le> 131072 | _ \<Rightarrow> False) \<and>
     one_of (mem value ''reason'') reasons \<and> (opened \<longrightarrow> one_of (mem value ''cleanup'') [''proved'', ''unproved''])"

definition decodeArtifactRefusal :: "jsval \<Rightarrow> string \<Rightarrow> jsval option" where
  "decodeArtifactRefusal value scope =
     (let opened = (scope = ''open_admitted'');
          reasons = (if opened then Some admittedOpenReasons else map_of ordinaryReasons scope);
          ks = (if opened then requiredAdmitted else requiredOrdinary) in
      case reasons of None \<Rightarrow> None | Some rs \<Rightarrow> if refusal_fields rs ks opened value then Some value else None)"

text \<open>\<open>retained\<close>: a decoded value with its quantities as text and its bytes as hexadecimal, for comparison\<close>

definition hex_bytes :: "bytes \<Rightarrow> ustring" where
  "hex_bytes bs = concat (map (\<lambda>b. [hex_char (unat b div 16), hex_char (unat b mod 16)]) bs)"

fun retained :: "jsval \<Rightarrow> jsval" where
  "retained (BigInt i) = Str (int_text i)"
| "retained (Buf bs) = obj [(''opaque_hex'', Str (hex_bytes bs))]"
| "retained (Arr p sl ex) = Arr ArrayProto (map (\<lambda>s. case s of None \<Rightarrow> None | Some (Data e x) \<Rightarrow> Some (Data True (retained x))
     | Some (Accessor e x) \<Rightarrow> Some (Data True (retained x))) sl) []"
| "retained (Obj p ps) = Obj ObjectProto (concat (map (\<lambda>kq. case kq of
       (SKey k, Data e x) \<Rightarrow> if e then [(SKey k, Data True (retained x))] else []
     | (SKey k, Accessor e x) \<Rightarrow> if e then [(SKey k, Data True (retained x))] else []
     | (Sym n, q) \<Rightarrow> []) ps))"
| "retained v = v"

section \<open>The assertion\<close>

definition admitted_keys :: "ustring list" where
  "admitted_keys = map lit [''cleanup'', ''code'', ''message'', ''reason'', ''request_id'', ''type'']"

definition assertAdmittedRefusal :: "jsval \<Rightarrow> string \<Rightarrow> 'a script \<Rightarrow> 'a script" where
  "assertAdmittedRefusal answer reason k =
     keys_of answer (\<lambda>ks.
     insist (names_text (sort ks) = names_text admitted_keys) [js ''the admitted transfer refusal has unexpected fields'']
     (insist (mem answer ''type'' = js ''error'') [js ''expected a transfer error'']
     (insist (mem answer ''code'' = js ''transfer_refused'') [js ''expected a transfer refusal'']
     (insist (mem answer ''reason'' = js reason) [js ''expected refusal reason '', js reason]
     (insist (mem answer ''cleanup'' = js ''proved'' \<or> mem answer ''cleanup'' = js ''unproved'') [js ''the refusal has no valid cleanup observation'']
     (insist (case mem answer ''request_id'' of Str s \<Rightarrow> 0 < length s | _ \<Rightarrow> False) [js ''the refusal has no request identity'']
     (insist (mem answer ''message'' = js ''the transfer was refused'') [js ''unexpected refusal message''] k)))))))"

lemma admitted_keys_plain: "list_all (list_all plain_unit) admitted_keys"
  by (simp add: admitted_keys_def lit_def unit_of_char_def plain_unit_def)

text \<open>What an answer that passed the assertion says\<close>

definition refused_admitted :: "jsval \<Rightarrow> string \<Rightarrow> bool" where
  "refused_admitted answer reason \<longleftrightarrow> sort (objectKeys (boxed answer)) = admitted_keys \<and> mem answer ''type'' = js ''error'' \<and>
     mem answer ''code'' = js ''transfer_refused'' \<and> mem answer ''reason'' = js reason \<and>
     mem answer ''cleanup'' \<in> {js ''proved'', js ''unproved''}"

lemma obeys_refusal [obeying]:
  "(refused_admitted answer reason \<Longrightarrow> obeys P Q h k) \<Longrightarrow> obeys P Q h (assertAdmittedRefusal answer reason k)"
  unfolding assertAdmittedRefusal_def
  by (intro obeying) (auto simp: refused_admitted_def dest!: names_text_plain [OF _ admitted_keys_plain])

section \<open>Properties\<close>

lemma refusal_keys: "length requiredAdmitted = 6" "length requiredOrdinary = 5"
  by (simp_all add: requiredAdmitted_def requiredOrdinary_def)

lemma decodeArtifactRefusal_iff:
  "decodeArtifactRefusal value scope = Some w \<longleftrightarrow> w = value \<and>
     (if scope = ''open_admitted'' then refusal_fields admittedOpenReasons requiredAdmitted True value
      else \<exists>rs. map_of ordinaryReasons scope = Some rs \<and> refusal_fields rs requiredOrdinary False value)"
  by (auto simp: decodeArtifactRefusal_def Let_def split: option.split if_splits)

text \<open>The two forms of a transfer refusal are mutually exclusive: a record that an admitted opening may answer with, six members and
  a cleanup observation, is not one that any other operation may, and a decoded record is returned as it is.\<close>

theorem refusal_forms_exclusive:
  assumes "decodeArtifactRefusal value ''open_admitted'' = Some w"
  shows "w = value \<and> mem value ''cleanup'' \<in> {js ''proved'', js ''unproved''} \<and> (\<forall>scope. decodeArtifactRefusal value scope \<noteq> None \<longrightarrow> scope = ''open_admitted'')"
proof (intro conjI allI impI)
  have f: "refusal_fields admittedOpenReasons requiredAdmitted True value" and "w = value" using assms by (simp_all add: decodeArtifactRefusal_iff)
  then show "w = value" by simp
  from f show "mem value ''cleanup'' \<in> {js ''proved'', js ''unproved''}" by (auto simp: refusal_fields_def one_of_def)
  fix scope assume "decodeArtifactRefusal value scope \<noteq> None"
  then show "scope = ''open_admitted''" using f refusal_keys by (auto simp: decodeArtifactRefusal_iff refusal_fields_def split: if_splits)
qed

definition sample_refusal :: jsval where
  "sample_refusal = obj [(''type'', js ''error''), (''request_id'', js ''c9''), (''code'', js ''transfer_refused''),
     (''message'', js ''the transfer was refused''), (''reason'', js ''invalid_window''), (''cleanup'', js ''proved'')]"

lemma sample_refusal_decodes: "decodeArtifactRefusal sample_refusal ''open_admitted'' = Some sample_refusal"
proof -
  have "request_text (js ''c9'')" by (simp add: request_text_def is_request_char_def lit_def unit_of_char_def)
  moreover have "isWellFormed (lit ''the transfer was refused'') \<and> byteLength (lit ''the transfer was refused'') \<le> 131072"
    by (simp add: byteLength_lit)
  ultimately show ?thesis
    by (simp add: decodeArtifactRefusal_iff refusal_fields_def sample_refusal_def member_simps requiredAdmitted_def one_of_def admittedOpenReasons_def)
qed

theorem refusal_forms_exclusive_witness:
  "decodeArtifactRefusal sample_refusal ''read'' = None"
  using refusal_forms_exclusive [OF sample_refusal_decodes] by (auto simp: list.inject)

end
