(* ===== verification/Interaction_Workflow.thy ===== *)
theory Interaction_Workflow
  imports Artifact_Refusal
begin

text \<open>
  The interaction chain (\<open>interaction-workflow.mjs\<close>): find an admitted skill and select it, prompt, answer the
  question the host's policy asks, wait for the tool, read back an artifact, and survive the loss of the
  server process.  Beside \<open>foreign\<close>, the parameters are \<open>sha\<close>, the hexadecimal SHA-256 digest, and \<open>to_iso\<close>, the
  text of \<open>Date.toISOString\<close> for a reading of the clock.
\<close>

section \<open>The steps\<close>

text \<open>\<open>replace(/\.\d{3}Z$/, "Z")\<close>\<close>

definition without_millis :: "ustring \<Rightarrow> ustring" where
  "without_millis s = (let n = length s - 5; t = drop n s in
     if length t = 5 \<and> t ! 0 = 46 \<and> is_digit (t ! 1) \<and> is_digit (t ! 2) \<and> is_digit (t ! 3) \<and> t ! 4 = 90 then take n s @ [90] else s)"

definition list_catalog :: "jsval \<Rightarrow> (jsval \<Rightarrow> 'a script) \<Rightarrow> 'a script" where
  "list_catalog session k = ask 0 ''resources.catalog'' (obj [(''session_id'', session)]) (\<lambda>reply.
     insist (mem reply ''type'' = js ''result'') [js ''the catalog was refused: '', mem reply ''code''] (k reply))"

definition reason_of :: "jsval \<Rightarrow> jsval" where
  "reason_of reply = otherwise (mem reply ''reason'') (js ''no reason'')"

definition admit_fields :: "ustring \<Rightarrow> jsval \<Rightarrow> ustring \<Rightarrow> jsval" where
  "admit_fields workspaceRef manifest_digest issued = obj [(''command_id'', command ''chain-admit''), (''manifest_digest'', manifest_digest),
     (''decision'', obj [(''manifest_digest'', manifest_digest), (''workspace_ref'', Str workspaceRef), (''trust_scope'', js ''project_skills''),
        (''decision_source'', js ''interactive_operator''), (''issued_at'', Str issued), (''expires_at'', Null),
        (''revocation_state'', js ''active'')])]"

text \<open>The catalog before any decision, the relayed decision, and the catalog after it\<close>

definition admit_leg :: "(int \<Rightarrow> ustring) \<Rightarrow> ustring \<Rightarrow> jsval \<Rightarrow> (jsval \<Rightarrow> jsval \<Rightarrow> (string \<times> jsval) list \<Rightarrow> 'a script) \<Rightarrow> 'a script" where
  "admit_leg to_iso workspaceRef session k =
     list_catalog session (\<lambda>withheld. let result = mem withheld ''result'' in
     member result ''configured_manifest_digest'' (\<lambda>manifest_digest.
     insist (isString manifest_digest) [js ''the catalog named no configured manifest'']
     (member result ''entries'' (\<lambda>hidden. member hidden ''length'' (\<lambda>hidden_count.
     keys_of result (\<lambda>ks.
     Clock (\<lambda>now.
     ask 0 ''session.admit_resources'' (admit_fields workspaceRef manifest_digest (without_millis (to_iso now))) (\<lambda>admission.
     insist (mem admission ''status'' = js ''accepted'') [js ''the admission was '', mem admission ''status'', js '': '', reason_of admission]
     (list_catalog session (\<lambda>catalog.
     member (mem catalog ''result'') ''entries'' (\<lambda>entries. member entries ''length'' (\<lambda>count.
     array_of entries (\<lambda>listed. each (\<lambda>entry next_entry. member entry ''name'' next_entry) listed (\<lambda>entry_names.
     first_of entries (\<lambda>skill.
     insist (truthy skill) [js ''the admitted catalog described no skill'']
     (k manifest_digest skill
        [(''catalog_before'', obj [(''disposition'', mem (boxed result) ''decision_disposition''), (''entries'', hidden_count),
           (''admitted'', mem (boxed result) ''admitted_manifest_digest''), (''names_workspace'', Boolean (lit ''workspace_ref'' \<in> set ks))]),
         (''admission_accepted'', Boolean True),
         (''catalog_after'', obj [(''disposition'', mem (boxed (mem catalog ''result'')) ''decision_disposition''), (''entries'', count),
           (''names'', arr entry_names)])]))))))))))))))))"

definition activate_fields :: "jsval \<Rightarrow> jsval \<Rightarrow> jsval" where
  "activate_fields manifest_digest skill = obj [(''command_id'', command ''chain-skill''), (''manifest_digest'', manifest_digest),
     (''pack_digest'', mem (boxed skill) ''pack_digest''), (''source_id'', mem (boxed skill) ''source_id''), (''name'', mem (boxed skill) ''name''),
     (''supporting_labels'', arr [js ''notes.txt''])]"

text \<open>The question, and the answer with the identity of \<open>allow\<close>\<close>

definition answer_leg :: "(jsval \<Rightarrow> bytes option) \<Rightarrow> jsval \<Rightarrow> ((string \<times> jsval) list \<Rightarrow> 'a script) \<Rightarrow> 'a script" where
  "answer_leg foreign session k =
     wait_for 0 (of_kind ''interaction.requested'') (\<lambda>requested. let question = mem requested ''data'' in
     member question ''prompt'' (\<lambda>prompt. member question ''choices'' (\<lambda>choices.
     array_of (otherwise choices (arr [])) (\<lambda>offered.
     each (\<lambda>choice next_choice. member choice ''id'' (\<lambda>identity. decode_identity foreign identity next_choice)) offered (\<lambda>choice_ids.
     member question ''interaction_id'' (\<lambda>interaction_id.
     ask 0 ''session.respond_interaction'' (obj [(''command_id'', command ''chain-answer''), (''interaction_id'', interaction_id),
        (''answer'', obj [(''choice_id'', command ''allow'')])]) (\<lambda>answer.
     insist (mem answer ''status'' = js ''accepted'') [js ''the answer was '', mem answer ''status'', js '': '', reason_of answer]
     (wait_for 0 (of_kind ''interaction.resolved'') (\<lambda>resolved.
     member (mem resolved ''data'') ''status'' (\<lambda>status.
     k [(''session_created'', Boolean True), (''session_id'', session), (''question_prompt'', prompt),
        (''choice_ids'', arr (map Str choice_ids)), (''interaction_id'', interaction_id), (''answer_accepted'', Boolean True),
        (''resolution'', otherwise (otherwise status (mem (boxed (mem resolved ''data'')) ''resolution'')) Null)]))))))))))"

text \<open>The opened transfer is of the published artifact\<close>

definition check_opened :: "jsval \<Rightarrow> jsval \<Rightarrow> 'a script \<Rightarrow> 'a script" where
  "check_opened artifact result k = (let entry = (\<lambda>key. memU (boxed artifact) key) in
     member result ''use_reference'' (\<lambda>use_reference.
     keys_of use_reference (\<lambda>use_keys. keys_of artifact (\<lambda>artifact_keys.
     insist (length use_keys = length artifact_keys \<and> list_all (\<lambda>key. strict_equal (memU (boxed use_reference) key) (entry key)) artifact_keys)
       [js ''the transfer did not resolve the exact published use reference'']
     (member result ''object_reference'' (\<lambda>reference.
     keys_of reference (\<lambda>reference_keys.
     insist (length reference_keys = 3 \<and> strict_equal (mem (boxed reference) ''digest'') (entry (lit ''digest'')) \<and>
         strict_equal (mem (boxed reference) ''size'') (entry (lit ''size'')) \<and>
         strict_equal (mem (boxed reference) ''locator'') (entry (lit ''locator'')))
       [js ''the transfer resolved a different object'']
     (insist (strict_equal (mem (boxed result) ''object_digest'') (entry (lit ''digest''))) [js ''the transfer named a different digest'']
     k))))))))"

text \<open>The chunk that was read, unless the transfer was at its end\<close>

definition chunk_leg :: "(jsval \<Rightarrow> bytes option) \<Rightarrow> (bytes \<Rightarrow> ustring) \<Rightarrow> jsval \<Rightarrow> ((string \<times> jsval) list \<Rightarrow> 'a script) \<Rightarrow> 'a script" where
  "chunk_leg foreign sha chunk k =
     (if mem chunk ''type'' \<noteq> js ''result'' then k []
      else let result = mem chunk ''result'' in member result ''eof'' (\<lambda>eof.
       if truthy eof then k []
       else decode_bytes foreign (mem (boxed result) ''bytes_b64'') (\<lambda>bs.
         insist (Str (sha bs) = mem (boxed result) ''chunk_digest'') [js ''the artifact chunk digest did not cover its exact bytes'']
         (k [(''chunk_bytes'', Number (int (length bs))), (''chunk_has_digest'', Boolean (isString (mem (boxed result) ''chunk_digest'')))]))))"

definition open_fields :: "jsval \<Rightarrow> jsval \<Rightarrow> jsval" where
  "open_fields artifact offset = obj [(''use_ref'', mem (boxed artifact) ''use_locator''), (''start_offset'', offset)]"

definition transfer_leg :: "(jsval \<Rightarrow> bytes option) \<Rightarrow> (bytes \<Rightarrow> ustring) \<Rightarrow> jsval \<Rightarrow> ((string \<times> jsval) list \<Rightarrow> 'a script) \<Rightarrow> 'a script" where
  "transfer_leg foreign sha artifact k =
     ask 0 ''artifact.open_transfer'' (open_fields artifact (js ''0'')) (\<lambda>opened.
     if mem opened ''type'' \<noteq> js ''result'' then
       k [(''transfer_refused'', otherwise (mem opened ''reason'') (mem opened ''code''))]
     else let result = mem opened ''result''; transfer = mem (boxed result) ''transfer_ref'' in
       check_opened artifact result (
       ask 0 ''artifact.read_chunk'' (obj [(''transfer_ref'', transfer), (''length'', Number 64)]) (\<lambda>chunk.
       chunk_leg foreign sha chunk (\<lambda>read.
       ask 0 ''artifact.close_transfer'' (obj [(''transfer_ref'', transfer)]) (\<lambda>finished.
       decode_u64 (mem (boxed result) ''total_size'') (\<lambda>total.
       ask 0 ''artifact.open_transfer'' (open_fields artifact (Str (int_text (total + 1)))) (\<lambda>refused.
       assertAdmittedRefusal refused ''invalid_window''
       (k ([(''transfer_opened'', Boolean True), (''total_size'', mem (boxed result) ''total_size'')] @ read @
          [(''transfer_closed'', Boolean (mem finished ''type'' = js ''result'')), (''invalid_window_refused'', Boolean True),
           (''invalid_window_cleanup'', mem refused ''cleanup'')])))))))))"

text \<open>A second server over the same store, after the first was killed\<close>

definition surviveAbruptLoss :: "jsval \<Rightarrow> (string \<times> jsval) list script" where
  "surviveAbruptLoss session = Kill_peer 0 (Launch 1 (rescue
     (after
       (negotiate foreground_contract 1 (\<lambda>initialized.
        ask 1 ''session.resume'' (obj [(''command_id'', command ''chain-resume''), (''session_id'', session)]) (\<lambda>resumed.
        ask 1 ''session.attach'' (obj [(''session_id'', session), (''after_event_sequence'', js ''0'')]) (\<lambda>reattached.
        ask 1 ''session.inspect'' (obj [(''session_id'', session)]) (\<lambda>inspected.
        Finish [(''restarted'', Boolean True),
          (''resume_refused'', if mem resumed ''type'' = js ''error'' then otherwise (mem resumed ''code'') (Boolean True) else Boolean False),
          (''reattached'', Boolean (mem reattached ''type'' = js ''snapshot'')),
          (''session_known_after_restart'', Boolean (mem inspected ''type'' = js ''result''))])))))
       (\<lambda>found. Hang_up 1 (Finish found)))
     (\<lambda>failure. Hang_up 1 (Raise failure))))"

definition interaction_run :: "(jsval \<Rightarrow> bytes option) \<Rightarrow> (bytes \<Rightarrow> ustring) \<Rightarrow> (int \<Rightarrow> ustring) \<Rightarrow> ustring \<Rightarrow> ustring \<Rightarrow> ustring option \<Rightarrow> jsval script" where
  "interaction_run foreign sha to_iso workspaceRef task store =
     negotiate foreground_contract 0 (\<lambda>initialized.
     ask 0 ''session.create'' (obj [(''command_id'', command ''chain-create''), (''session_options'', obj [(''version'', Number 1)])])
     (\<lambda>created.
     insist (mem created ''status'' = js ''accepted'') [js ''creation was '', mem created ''status'']
     (let session = mem created ''session_id'' in
     ask 0 ''session.attach'' (obj [(''session_id'', session), (''after_event_sequence'', js ''0'')]) (\<lambda>attached.
     insist (mem attached ''type'' = js ''snapshot'') [js ''expected a snapshot, received '', mem attached ''type'']
     (admit_leg to_iso workspaceRef session (\<lambda>manifest_digest skill catalog.
     ask 0 ''session.activate_skill'' (activate_fields manifest_digest skill) (\<lambda>activated.
     insist (mem activated ''status'' = js ''accepted'')
        [js ''the skill selection was '', mem activated ''status'', js '': '', reason_of activated]
     (ask 0 ''session.prompt'' (obj [(''command_id'', command ''chain-prompt''), (''content_b64'', Str (wire_bytes (utf8 task)))]) (\<lambda>prompted.
     insist (mem prompted ''status'' = js ''accepted'') [js ''the prompt was '', mem prompted ''status'', js '': '', mem prompted ''reason'']
     (answer_leg foreign session (\<lambda>answer.
     wait_for 0 (of_kind ''tool.finished'') (\<lambda>finished.
     member (mem finished ''data'') ''artifacts'' (\<lambda>published. let artifacts = otherwise published (arr []) in
     member artifacts ''length'' (\<lambda>count. first_of artifacts (\<lambda>artifact.
     (if truthy artifact then transfer_leg foreign sha artifact else (\<lambda>k. k [])) (\<lambda>transfer.
     wait_for 0 (of_kind ''run.finished'') (\<lambda>ended_run.
     Observe 0 (\<lambda>seen. let summary = catalog @
        [(''skill_selected'', mem (boxed skill) ''name''), (''skill_pack_digest'', mem (boxed skill) ''pack_digest'')] @ answer @
        [(''tool_finished'', Boolean True), (''artifacts'', count)] @ transfer @
        [(''event_kinds'', arr (map (\<lambda>event. mem event ''kind'') seen))] in
     if store \<noteq> None \<and> store \<noteq> Some [] then after (surviveAbruptLoss session) (\<lambda>found. Finish (obj (summary @ found)))
     else Finish (obj summary)))))))))))))))))))"

definition interaction_main :: "(jsval \<Rightarrow> bytes option) \<Rightarrow> (bytes \<Rightarrow> ustring) \<Rightarrow> (int \<Rightarrow> ustring) \<Rightarrow> ustring \<Rightarrow> ustring \<Rightarrow> ustring option \<Rightarrow> nat script" where
  "interaction_main foreign sha to_iso workspaceRef task store = rescue
     (after (interaction_run foreign sha to_iso workspaceRef task store) (\<lambda>summary. Write (Inr summary) (Hang_up 0 (Finish 0))))
     (\<lambda>failure. Write (Inl failure) (Hang_up 0 (Finish 1)))"

section \<open>The client relays\<close>

abbreviation digest_of :: "jsval \<Rightarrow> jsval" where
  "digest_of catalog \<equiv> mem (boxed (mem catalog ''result'')) ''configured_manifest_digest''"

definition waited :: "act list \<Rightarrow> string \<Rightarrow> jsval \<Rightarrow> bool" where
  "waited log kind event \<longleftrightarrow> Waited 0 (Inr event) \<in> set log \<and> of_kind kind event"

lemma waited_append [simp]: "waited (h @ h') kind v \<longleftrightarrow> waited h kind v \<or> waited h' kind v"
  by (auto simp: waited_def)

lemma waited_simps [simp]: "\<not> waited [] kind v"
  "waited (x # h) kind v \<longleftrightarrow> x = Waited 0 (Inr v) \<and> of_kind kind v \<or> waited h kind v"
  by (auto simp: waited_def)

text \<open>What the client may ask in the chain: every value in a request is the operator's, a constant, or one a record named\<close>

definition relay_rule :: "ustring \<Rightarrow> rule" where
  "relay_rule workspaceRef h n m f \<longleftrightarrow>
     (m = lit ''session.admit_resources'' \<longrightarrow> (\<exists>catalog issued. answered h ''resources.catalog'' catalog \<and>
        isString (digest_of catalog) \<and> f = admit_fields workspaceRef (digest_of catalog) issued)) \<and>
     (m = lit ''session.activate_skill'' \<longrightarrow> (\<exists>before issued admission catalog skill f1 f2 h1 h2.
        around ''session.admit_resources'' h = Some (h1, Asked 0 (lit ''session.admit_resources'') (admit_fields workspaceRef (digest_of before) issued)
          (Inr admission), h2) \<and> asks ''resources.catalog'' h1 = [(f1, Inr before)] \<and> mem admission ''status'' = js ''accepted'' \<and>
        asks ''resources.catalog'' h2 = [(f2, Inr catalog)] \<and> mem catalog ''type'' = js ''result'' \<and>
        first_value (mem (boxed (mem catalog ''result'')) ''entries'') = Some skill \<and> truthy skill \<and>
        f = activate_fields (digest_of before) skill)) \<and>
     (m = lit ''session.respond_interaction'' \<longrightarrow> (\<exists>event. waited h ''interaction.requested'' event \<and>
        f = obj [(''command_id'', command ''chain-answer''), (''interaction_id'', mem (boxed (mem event ''data'')) ''interaction_id''),
          (''answer'', obj [(''choice_id'', command ''allow'')])])) \<and>
     (m \<in> {lit ''artifact.read_chunk'', lit ''artifact.close_transfer''} \<longrightarrow> (\<exists>opened. answered h ''artifact.open_transfer'' opened \<and>
        mem opened ''type'' = js ''result'' \<and> mem f ''transfer_ref'' = mem (boxed (mem opened ''result'')) ''transfer_ref'')) \<and>
     (n = 0 \<and> Killed_peer 0 \<notin> set h \<or> n = 1 \<and> Killed_peer 0 \<in> set h \<and> (\<exists>event. waited h ''run.finished'' event) \<and>
        m \<in> {lit ''initialize'', lit ''session.resume'', lit ''session.attach'', lit ''session.inspect''})"

lemma interaction_obeys: "obeys (relay_rule workspaceRef) (\<lambda>h x. True) [] (interaction_main foreign sha to_iso workspaceRef task store)"
  unfolding interaction_main_def interaction_run_def admit_leg_def list_catalog_def answer_leg_def transfer_leg_def chunk_leg_def check_opened_def
    surviveAbruptLoss_def Let_def
  by (intro obeying obeys_each TrueI) (simp_all add: relay_rule_def mem_obj, blast+)

lemma relay_activates:
  assumes "relay_rule workspaceRef log n (lit ''session.activate_skill'') f"
  shows "\<exists>before issued admission catalog skill f1 f2 h1 h2.
        log = h1 @ Asked 0 (lit ''session.admit_resources'') (admit_fields workspaceRef (digest_of before) issued) (Inr admission) # h2 \<and>
        asks ''resources.catalog'' h1 = [(f1, Inr before)] \<and> mem admission ''status'' = js ''accepted'' \<and>
        asks ''resources.catalog'' h2 = [(f2, Inr catalog)] \<and> mem catalog ''type'' = js ''result'' \<and>
        first_value (mem (boxed (mem catalog ''result'')) ''entries'') = Some skill \<and> truthy skill \<and>
        f = activate_fields (digest_of before) skill"
proof -
  from assms obtain before issued admission catalog skill f1 f2 h1 h2 where
    a: "around ''session.admit_resources'' log = Some (h1, Asked 0 (lit ''session.admit_resources'')
      (admit_fields workspaceRef (digest_of before) issued) (Inr admission), h2)"
    and rest: "asks ''resources.catalog'' h1 = [(f1, Inr before)]" "mem admission ''status'' = js ''accepted''"
      "asks ''resources.catalog'' h2 = [(f2, Inr catalog)]" "mem catalog ''type'' = js ''result''"
      "first_value (mem (boxed (mem catalog ''result'')) ''entries'') = Some skill" "truthy skill" "f = activate_fields (digest_of before) skill"
    unfolding relay_rule_def by auto
  from around_split [OF a] rest show ?thesis by (intro exI conjI) assumption+
qed

text \<open>A server's side of the chain up to the question, which offers one choice, to deny\<close>

definition skill_catalog :: "jsval list \<Rightarrow> jsval" where
  "skill_catalog entries = obj [(''type'', js ''result''), (''result'',
     obj [(''configured_manifest_digest'', js ''d''), (''entries'', arr entries)])]"

definition denying_question :: jsval where
  "denying_question = obj [(''kind'', js ''interaction.requested''), (''data'', obj [(''interaction_id'', js ''i''), (''choices'', arr [obj [(''id'', command ''deny'')]])])]"

definition sample_skill :: jsval where
  "sample_skill = obj [(''name'', js ''n'')]"

definition asking_server :: "input list" where
  "asking_server = [Reply server_welcome, Reply created_reply, Reply attached_reply, Reply (skill_catalog []), Tick 0, Reply accepted_reply,
     Reply (skill_catalog [sample_skill]), Reply accepted_reply, Reply accepted_reply, Reply denying_question]"

definition allow_fields :: "jsval \<Rightarrow> jsval" where
  "allow_fields interaction_id = obj [(''command_id'', command ''chain-answer''), (''interaction_id'', interaction_id),
     (''answer'', obj [(''choice_id'', command ''allow'')])]"

lemma first_value_arr [playing]: "first_value (arr (x # xs)) = Some x"
  by (simp add: first_value_def arr_def)

lemma play_array [playing]: "play (array_of (arr xs) k) ins = play (k xs) ins"
proof -
  have "elements (arr xs) = xs" by (simp add: arr_def comp_def)
  then show ?thesis by (simp add: array_of_def arr_def)
qed

lemma asking_run: "\<exists>log k. play (interaction_run foreign sha to_iso workspaceRef task store) asking_server =
    (log, Call 0 (lit ''session.respond_interaction'') (allow_fields (js ''i'')) k) \<and> waited log ''interaction.requested'' denying_question"
proof -
  have a: "mem accepted_reply ''status'' = js ''accepted''" "mem created_reply ''status'' = js ''accepted''" "mem attached_reply ''type'' = js ''snapshot''"
    "mem (skill_catalog es) ''type'' = js ''result''" "mem (skill_catalog es) ''result'' = obj [(''configured_manifest_digest'', js ''d''), (''entries'', arr es)]"
    "mem denying_question ''data'' = obj [(''interaction_id'', js ''i''), (''choices'', arr [obj [(''id'', command ''deny'')]])]"
    "mem accepted_reply ''reason'' = Undefined" "mem (skill_catalog es) ''code'' = Undefined" for es
    by (simp_all add: accepted_reply_def created_reply_def attached_reply_def skill_catalog_def denying_question_def mem_obj)
  have b: "\<not> nullish sample_skill" "boxed sample_skill = sample_skill" "truthy sample_skill" "of_kind ''interaction.requested'' denying_question"
    "reason_of accepted_reply = js ''no reason''" "otherwise (arr xs) v = arr xs" for xs v
    by (simp_all add: sample_skill_def playing of_kind_def denying_question_def mem_obj reason_of_def otherwise_def accepted_reply_def) (simp add: obj_def)
  show ?thesis
    unfolding interaction_run_def admit_leg_def list_catalog_def answer_leg_def asking_server_def Let_def allow_fields_def
    by (simp add: playing welcome_reply a b mem_obj command_def)
qed

section \<open>Properties\<close>

text \<open>C14. What the client of the interaction chain asks is what it was told.  It admits the operator's workspace reference under the digest a
  catalog named; it activates the first skill of the one catalog listed after that admission was accepted, under the digest of the one
  listed before it; it answers the interaction an event asked about, always with the identity of \<open>allow\<close>; it reads and closes a transfer
  the server opened; and nothing is asked of the first server once it was killed, nor of a second one before that.\<close>

theorem interaction_relays:
  assumes "performs (interaction_main foreign sha to_iso workspaceRef task store) log (Call n m f k)"
  shows "(m = lit ''session.admit_resources'' \<longrightarrow> (\<exists>catalog issued. answered log ''resources.catalog'' catalog \<and>
        isString (digest_of catalog) \<and> f = admit_fields workspaceRef (digest_of catalog) issued)) \<and>
     (m = lit ''session.activate_skill'' \<longrightarrow> (\<exists>before issued admission catalog skill f1 f2 h1 h2.
        log = h1 @ Asked 0 (lit ''session.admit_resources'') (admit_fields workspaceRef (digest_of before) issued) (Inr admission) # h2 \<and>
        asks ''resources.catalog'' h1 = [(f1, Inr before)] \<and> mem admission ''status'' = js ''accepted'' \<and>
        asks ''resources.catalog'' h2 = [(f2, Inr catalog)] \<and> mem catalog ''type'' = js ''result'' \<and>
        first_value (mem (boxed (mem catalog ''result'')) ''entries'') = Some skill \<and> truthy skill \<and>
        f = activate_fields (digest_of before) skill)) \<and>
     (m = lit ''session.respond_interaction'' \<longrightarrow> (\<exists>event. waited log ''interaction.requested'' event \<and>
        f = allow_fields (mem (boxed (mem event ''data'')) ''interaction_id''))) \<and>
     (m \<in> {lit ''artifact.read_chunk'', lit ''artifact.close_transfer''} \<longrightarrow> (\<exists>opened. answered log ''artifact.open_transfer'' opened \<and>
        mem opened ''type'' = js ''result'' \<and> mem f ''transfer_ref'' = mem (boxed (mem opened ''result'')) ''transfer_ref'')) \<and>
     (n = 0 \<longleftrightarrow> Killed_peer 0 \<notin> set log)"
proof -
  have r: "relay_rule workspaceRef log n m f" by (rule obeys_call [OF interaction_obeys assms])
  show ?thesis
  proof (intro conjI)
    show "n = 0 \<longleftrightarrow> Killed_peer 0 \<notin> set log" using r unfolding relay_rule_def by linarith
    show "m = lit ''session.activate_skill'' \<longrightarrow> (\<exists>before issued admission catalog skill f1 f2 h1 h2.
        log = h1 @ Asked 0 (lit ''session.admit_resources'') (admit_fields workspaceRef (digest_of before) issued) (Inr admission) # h2 \<and>
        asks ''resources.catalog'' h1 = [(f1, Inr before)] \<and> mem admission ''status'' = js ''accepted'' \<and>
        asks ''resources.catalog'' h2 = [(f2, Inr catalog)] \<and> mem catalog ''type'' = js ''result'' \<and>
        first_value (mem (boxed (mem catalog ''result'')) ''entries'') = Some skill \<and> truthy skill \<and>
        f = activate_fields (digest_of before) skill)"
      using relay_activates r by blast
  qed (use r in \<open>unfold relay_rule_def allow_fields_def, blast\<close>)+
qed

theorem interaction_relays_witness:
  "\<exists>log k. performs (interaction_main (\<lambda>v. None) (\<lambda>b. []) (\<lambda>t. []) [119] [] None) log
      (Call 0 (lit ''session.respond_interaction'') (allow_fields (js ''i'')) k) \<and>
     (\<exists>event. waited log ''interaction.requested'' event \<and> allow_fields (js ''i'') = allow_fields (mem (boxed (mem event ''data'')) ''interaction_id''))"
proof -
  let ?run = "interaction_run (\<lambda>v. None) (\<lambda>b. []) (\<lambda>t. []) [119] [] None"
  let ?main = "interaction_main (\<lambda>v. None) (\<lambda>b. []) (\<lambda>t. []) [119] [] None"
  obtain log k where "play ?run asking_server = (log, Call 0 (lit ''session.respond_interaction'') (allow_fields (js ''i'')) k)"
    using asking_run by blast
  then obtain k' where "play ?main asking_server = (log, Call 0 (lit ''session.respond_interaction'') (allow_fields (js ''i'')) k')"
    unfolding interaction_main_def by (simp add: play_rescue_call play_after_call)
  then have "performs ?main log (Call 0 (lit ''session.respond_interaction'') (allow_fields (js ''i'')) k')"
    using performs_play [of ?main asking_server] by simp
  from this interaction_relays [OF this] show ?thesis by blast
qed

text \<open>C36. The answer is the identity of \<open>allow\<close> whatever the question offers: there is a chain in which the event offers the one choice to
  deny, and the client answers \<open>allow\<close>.\<close>

theorem allow_without_offer:
  "\<exists>log k. performs (interaction_run foreign sha to_iso workspaceRef task store) log
      (Call 0 (lit ''session.respond_interaction'') (allow_fields (js ''i'')) k) \<and>
     waited log ''interaction.requested'' denying_question \<and>
     mem (mem denying_question ''data'') ''choices'' = arr [obj [(''id'', command ''deny'')]] \<and> command ''deny'' \<noteq> command ''allow''"
proof -
  obtain log k where "play (interaction_run foreign sha to_iso workspaceRef task store) asking_server =
      (log, Call 0 (lit ''session.respond_interaction'') (allow_fields (js ''i'')) k)" "waited log ''interaction.requested'' denying_question"
    using asking_run by blast
  moreover have "command ''deny'' \<noteq> command ''allow''"
  proof
    assume "command ''deny'' = command ''allow''"
    then have "wire_decodeIdentity (wire_identity (lit ''deny'')) = wire_decodeIdentity (wire_identity (lit ''allow''))" by (simp add: command_def)
    moreover have "utf8_decode (utf8 (lit ''deny'')) = lit ''deny''" "utf8_decode (utf8 (lit ''allow'')) = lit ''allow''"
      by (rule ascii_decode, simp add: lit_def unit_of_char_def)+
    ultimately show False by (simp add: wire_decodeIdentity_def wire_identity_def)
  qed
  ultimately show ?thesis
    using performs_play [of "interaction_run foreign sha to_iso workspaceRef task store" asking_server]
    by (auto simp: denying_question_def mem_obj)
qed

end
