(* ===== verification/Takeover.thy ===== *)
theory Takeover
  imports Workflow
begin

text \<open>
  The takeover of a session (\<open>daemon-takeover.mjs\<close>): observe, ask for control until the earlier lease lapses
  or patience ends, then abort the running work or prompt under the granted epoch, and release control.
  The loop has fuel, since a server could keep it going; the random suffix of a command is the parameter
  \<open>nonce\<close>.  A refusal, printed and followed by exit code 1, is \<open>Raise (Refusal step reply)\<close>.
\<close>

section \<open>Arguments\<close>

definition takeover_usage :: "ustring option \<Rightarrow> ustring option \<Rightarrow> ustring option \<Rightarrow> ustring option \<Rightarrow> bool" where
  "takeover_usage socketPath sessionId flag promptText \<longleftrightarrow> (let given = (\<lambda>a. a \<noteq> None \<and> a \<noteq> Some []) in
     \<not> given socketPath \<or> \<not> given sessionId \<or> flag \<noteq> None \<and> \<not> (flag = Some (lit ''--prompt'') \<and> given promptText))"

section \<open>Control\<close>

definition acquire_fields :: "jsval \<Rightarrow> jsval" where
  "acquire_fields session = obj [(''session_id'', session)]"

text \<open>\<open>while (epoch === null)\<close>: the epoch and the attempts, or \<open>None\<close> when the fuel ends\<close>

fun acquire :: "nat \<Rightarrow> jsval \<Rightarrow> int \<Rightarrow> nat \<Rightarrow> (jsval \<times> nat) option script" where
  "acquire 0 session started attempts = Finish None"
| "acquire (Suc fuel) session started attempts =
     ask 0 ''session.acquire_control'' (acquire_fields session) (\<lambda>reply.
     if mem reply ''type'' = js ''result'' then member (mem reply ''result'') ''writer_epoch'' (\<lambda>epoch.
       if epoch = Null then acquire fuel session started (Suc attempts) else Finish (Some (epoch, Suc attempts)))
     else if one_of (mem reply ''code'') [''control_held'', ''control_pending''] then
       Clock (\<lambda>now. if now - started > 90000 then Raise (Refusal ''take over'' reply)
         else Pause 1000 (acquire fuel session started (Suc attempts)))
     else Raise (Refusal ''take over'' reply))"

section \<open>After the grant\<close>

definition later :: "string \<Rightarrow> int \<Rightarrow> jsval \<Rightarrow> bool" where
  "later kind mark event \<longleftrightarrow> of_kind kind event \<and> (case to_bigint (mem event ''event_sequence'') of None \<Rightarrow> False | Some s \<Rightarrow> s > mark)"

definition lastSequence :: "jsval list \<Rightarrow> (int \<Rightarrow> 'a script) \<Rightarrow> 'a script" where
  "lastSequence seen k = each (\<lambda>event. decode_u64 (mem event ''event_sequence'')) seen
     (\<lambda>sequences. k (foldl (\<lambda>most s. if s > most then s else most) 0 sequences))"

text \<open>\<open>waitForEvent(predicate).then(() => true, () => false)\<close>\<close>

definition whether :: "nat \<Rightarrow> (jsval \<Rightarrow> bool) \<Rightarrow> (bool \<Rightarrow> 'a script) \<Rightarrow> 'a script" where
  "whether n w k = Wait n w (\<lambda>r. k (case r of Inl e \<Rightarrow> False | Inr event \<Rightarrow> True))"

definition release_control :: "jsval \<Rightarrow> jsval \<Rightarrow> 'a script \<Rightarrow> 'a script" where
  "release_control session epoch k = ask 0 ''session.release_control'' (obj [(''session_id'', session), (''writer_epoch'', epoch)])
     (\<lambda>reply. Hang_up 0 k)"

definition prompt_leg :: "ustring \<Rightarrow> jsval \<Rightarrow> ustring \<Rightarrow> jsval \<Rightarrow> nat \<Rightarrow> unit script" where
  "prompt_leg nonce session promptText epoch attempts =
     wait_for 0 (of_kind ''run.finished'') (\<lambda>earlier. Observe 0 (\<lambda>seen. lastSequence seen (\<lambda>mark.
     ask 0 ''session.prompt'' (obj [(''command_id'', Str (wire_identity (lit ''node-prompt-'' @ nonce))),
        (''content_b64'', Str (wire_bytes (utf8 promptText))), (''writer_epoch'', epoch)]) (\<lambda>prompt.
     if mem prompt ''type'' \<noteq> js ''admission'' \<or> mem prompt ''status'' \<noteq> js ''accepted'' then Raise (Refusal ''prompt'' prompt)
     else whether 0 (later ''run.finished'' mark) (\<lambda>ended_run. Observe 0 (\<lambda>seen.
       let replied = list_ex (later ''assistant.message_appended'' mark) seen in
       release_control session epoch (Write (Inr (obj [(''granted'', Boolean True), (''prompt'', mem prompt ''status''), (''answered'', Boolean replied),
         (''finished'', Boolean ended_run), (''attempts'', Number (int attempts))])) (Finish ()))))))))"

definition abort_leg :: "ustring \<Rightarrow> jsval \<Rightarrow> jsval \<Rightarrow> nat \<Rightarrow> unit script" where
  "abort_leg nonce session epoch attempts =
     ask 0 ''session.abort'' (obj [(''command_id'', Str (wire_identity (lit ''node-abort-'' @ nonce))), (''writer_epoch'', epoch)]) (\<lambda>abort.
     if mem abort ''type'' \<noteq> js ''admission'' then Raise (Refusal ''abort'' abort)
     else whether 0 (of_kind ''run.finished'') (\<lambda>ended_run.
       release_control session epoch (Write (Inr (obj [(''granted'', Boolean True), (''abort'', mem abort ''status''), (''finished'', Boolean ended_run),
         (''attempts'', Number (int attempts))])) (Finish ()))))"

definition takeover :: "nat \<Rightarrow> ustring \<Rightarrow> ustring \<Rightarrow> ustring option \<Rightarrow> unit script" where
  "takeover fuel nonce sessionId promptText = Launch 0 (negotiate daemon_contract 0 (\<lambda>initialized.
     let session = Str (wire_identity sessionId) in
     ask 0 ''session.attach'' (obj [(''session_id'', session), (''after_event_sequence'', js ''0'')]) (\<lambda>attached.
     if mem attached ''type'' \<noteq> js ''snapshot'' then Raise (Refusal ''attach'' attached)
     else Write (Inr (obj [(''attached'', Boolean True)])) (Clock (\<lambda>started.
       after (acquire fuel session started 0) (\<lambda>granted. case granted of None \<Rightarrow> Raise Exhausted
         | Some (epoch, attempts) \<Rightarrow> (case promptText of Some s \<Rightarrow> prompt_leg nonce session s epoch attempts
             | None \<Rightarrow> abort_leg nonce session epoch attempts)))))))"

section \<open>The order of requests\<close>

definition granted :: "act list \<Rightarrow> jsval \<Rightarrow> bool" where
  "granted log epoch \<longleftrightarrow> (\<exists>reply. answered log ''session.acquire_control'' reply \<and> mem reply ''type'' = js ''result'' \<and>
     mem (boxed (mem reply ''result'')) ''writer_epoch'' = epoch \<and> epoch \<noteq> Null)"

definition takeover_rule :: rule where
  "takeover_rule h n m f \<longleftrightarrow>
     (if m \<in> {lit ''session.abort'', lit ''session.prompt'', lit ''session.release_control''} then granted h (mem f ''writer_epoch'')
      else m \<in> {lit ''initialize'', lit ''session.attach'', lit ''session.acquire_control''} \<and> (\<nexists>epoch. granted h epoch)) \<and>
     (m \<notin> {lit ''initialize'', lit ''session.attach''} \<longrightarrow>
        (\<exists>attached. answered h ''session.attach'' attached \<and> mem attached ''type'' = js ''snapshot''))"

definition observing :: "act list \<Rightarrow> bool" where
  "observing h \<longleftrightarrow> (\<exists>attached. answered h ''session.attach'' attached \<and> mem attached ''type'' = js ''snapshot'')"

lemma granted_simps [simp]: "\<not> granted [] epoch" "granted (h @ h') epoch \<longleftrightarrow> granted h epoch \<or> granted h' epoch"
  "granted (x # h) epoch \<longleftrightarrow> granted h epoch \<or>
    (\<exists>f reply. x = Asked 0 (lit ''session.acquire_control'') f (Inr reply) \<and> mem reply ''type'' = js ''result'' \<and>
       mem (boxed (mem reply ''result'')) ''writer_epoch'' = epoch \<and> epoch \<noteq> Null)"
  by (auto simp: granted_def)

lemma observing_simps [simp]: "\<not> observing []" "observing (h @ h') \<longleftrightarrow> observing h \<or> observing h'" "observing (x # h) \<longleftrightarrow> observing h \<or>
    (\<exists>f attached. x = Asked 0 (lit ''session.attach'') f (Inr attached) \<and> mem attached ''type'' = js ''snapshot'')"
  by (auto simp: observing_def)

lemma takeover_steps:
  "(\<And>epoch. \<not> granted h epoch) \<Longrightarrow> takeover_rule h n (lit ''initialize'') f"
  "(\<And>epoch. \<not> granted h epoch) \<Longrightarrow> takeover_rule h n (lit ''session.attach'') f"
  "(\<And>epoch. \<not> granted h epoch) \<Longrightarrow> observing h \<Longrightarrow> takeover_rule h n (lit ''session.acquire_control'') f"
  "granted h (mem f ''writer_epoch'') \<Longrightarrow> observing h \<Longrightarrow> takeover_rule h n (lit ''session.abort'') f"
  "granted h (mem f ''writer_epoch'') \<Longrightarrow> observing h \<Longrightarrow> takeover_rule h n (lit ''session.prompt'') f"
  "granted h (mem f ''writer_epoch'') \<Longrightarrow> observing h \<Longrightarrow> takeover_rule h n (lit ''session.release_control'') f"
  by (simp_all add: takeover_rule_def observing_def)

lemma obeys_acquire:
  assumes "observing h" "\<nexists>epoch. granted h epoch"
    and Q: "\<And>h. Q h None" "\<And>h epoch m. observing h \<Longrightarrow> granted h epoch \<Longrightarrow> Q h (Some (epoch, m))"
  shows "obeys takeover_rule Q h (acquire fuel session started n)"
  using assms(1,2)
proof (induction fuel arbitrary: h n)
  case 0
  show ?case using Q(1) by simp
next
  case (Suc fuel)
  show ?case unfolding acquire.simps
    by (intro obeying takeover_steps) (use Suc.prems in \<open>auto intro!: Suc.IH Q(2)\<close>)
qed

lemma obeys_prompt:
  "observing h \<Longrightarrow> granted h epoch \<Longrightarrow> obeys takeover_rule (\<lambda>h x. True) h (prompt_leg nonce session s epoch attempts)"
  unfolding prompt_leg_def lastSequence_def release_control_def whether_def Let_def
  by (intro obeying obeys_each TrueI, simp_all) (auto simp: mem_obj intro!: obeying takeover_steps)

lemma obeys_abort:
  "observing h \<Longrightarrow> granted h epoch \<Longrightarrow> obeys takeover_rule (\<lambda>h x. True) h (abort_leg nonce session epoch attempts)"
  unfolding abort_leg_def release_control_def whether_def Let_def
  by (intro obeying TrueI, simp_all) (auto simp: mem_obj intro!: obeying takeover_steps)

lemma takeover_obeys: "obeys takeover_rule (\<lambda>h x. True) [] (takeover fuel nonce sessionId promptText)"
  unfolding takeover_def Let_def
  by (intro obeying obeys_acquire takeover_steps) (auto simp: obeys_prompt obeys_abort split: option.split)

section \<open>Patience\<close>

text \<open>A trace under a clock that never runs back and timeouts that never fire early\<close>

fun paced :: "int \<Rightarrow> act list \<Rightarrow> bool" where
  "paced now [] = True"
| "paced now (Clocked t # log) \<longleftrightarrow> now \<le> t \<and> paced t log"
| "paced now (Paused d # log) = paced (now + d) log"
| "paced now (_ # log) = paced now log"

text \<open>A server that grants nothing but epochs\<close>

fun proper_grant :: "act \<Rightarrow> bool" where
  "proper_grant (Asked n m f (Inr reply)) \<longleftrightarrow> mem reply ''type'' = js ''result'' \<longrightarrow> mem (boxed (mem reply ''result'')) ''writer_epoch'' \<noteq> Null"
| "proper_grant _ \<longleftrightarrow> True"

inductive_cases performs_call: "performs (Call n m f k) log q"
inductive_cases performs_clock: "performs (Clock k) log q"
inductive_cases performs_pause: "performs (Pause d p) log q"

lemma performs_acquire:
  assumes "performs (acquire (Suc fuel) session started n) log (Finish r)"
  obtains (granted) reply epoch where "log = [Asked 0 (lit ''session.acquire_control'') (acquire_fields session) (Inr reply)]"
      "r = Some (epoch, Suc n)"
  | (again) reply log' where "log = Asked 0 (lit ''session.acquire_control'') (acquire_fields session) (Inr reply) # log'"
      "mem reply ''type'' = js ''result''" "mem (boxed (mem reply ''result'')) ''writer_epoch'' = Null"
  | (held) reply now log' where "log = Asked 0 (lit ''session.acquire_control'') (acquire_fields session) (Inr reply) # Clocked now # Paused 1000 # log'"
      "now - started \<le> 90000" "performs (acquire fuel session started (Suc n)) log' (Finish r)"
  using assms unfolding acquire.simps ask_def
  by (elim performs_call) (auto simp: member_def not_less split: sum.splits if_splits elim!: performs_clock performs_pause)

lemma acquire_patience:
  "performs (acquire fuel session started n) log (Finish r) \<Longrightarrow> paced now log \<Longrightarrow> list_all proper_grant log \<Longrightarrow>
   started + 90000 < now + 1000 * (int fuel - 1) \<Longrightarrow> 0 < fuel \<Longrightarrow> \<exists>epoch m. r = Some (epoch, m) \<and> m \<le> n + fuel"
proof (induction fuel arbitrary: n log now)
  case (Suc fuel)
  from Suc.prems(1) show ?case
  proof (cases rule: performs_acquire)
    case granted
    then show ?thesis by simp
  next
    case again
    then show ?thesis using Suc.prems(3) by simp
  next
    case (held reply t log')
    with Suc.prems have t: "now \<le> t" "paced (t + 1000) log'" "list_all proper_grant log'" by simp_all
    then have "0 < fuel" using held(2) Suc.prems(4) by (cases fuel) simp_all
    with Suc.IH [OF held(3) t(2,3)] t(1) Suc.prems(4) obtain epoch m where "r = Some (epoch, m)" "m \<le> Suc n + fuel" by force
    then show ?thesis by simp
  qed
qed simp

section \<open>Properties\<close>

text \<open>Whether a result of the request for control names an epoch at all\<close>

fun names_epoch :: "act \<Rightarrow> bool" where
  "names_epoch (Asked n m f (Inr reply)) \<longleftrightarrow> m = lit ''session.acquire_control'' \<longrightarrow> mem reply ''type'' = js ''result'' \<longrightarrow>
     mem (boxed (mem reply ''result'')) ''writer_epoch'' \<noteq> Undefined"
| "names_epoch _ \<longleftrightarrow> True"

lemma granted_names: "granted log epoch \<Longrightarrow> list_all names_epoch log \<Longrightarrow> epoch \<noteq> Undefined"
  by (auto simp: granted_def answered_def list_all_iff)

text \<open>C15. The takeover never forces a live holder off: until a request for control was answered with a result whose epoch is not \<open>null\<close>, it
  asks for nothing but to observe and for control, in particular it neither aborts, prompts nor releases.  Afterwards it asks for control
  no more, and each of those commands carries as its epoch what such a result named.  That is an epoch provided the results name one; a
  result without the member ends the loop as well, and the commands after it have an undefined epoch.\<close>

theorem takeover_waits_for_control:
  assumes "performs (takeover fuel nonce sessionId promptText) log (Call n m f k)"
  shows "((\<nexists>epoch. granted log epoch) \<longrightarrow> m \<in> {lit ''initialize'', lit ''session.attach'', lit ''session.acquire_control''}) \<and>
    ((\<exists>epoch. granted log epoch) \<longrightarrow> m \<in> {lit ''session.abort'', lit ''session.prompt'', lit ''session.release_control''} \<and>
       granted log (mem f ''writer_epoch'') \<and>
       (list_all names_epoch log \<longrightarrow> mem f ''writer_epoch'' \<noteq> Undefined \<and> mem f ''writer_epoch'' \<noteq> Null))"
proof -
  have r: "takeover_rule log n m f" by (rule obeys_call [OF takeover_obeys assms])
  have "mem f ''writer_epoch'' \<noteq> Null" if "granted log (mem f ''writer_epoch'')" using that by (auto simp: granted_def)
  with r granted_names [of log "mem f ''writer_epoch''"] show ?thesis unfolding takeover_rule_def by (auto split: if_splits)
qed

definition daemon_welcome :: jsval where
  "daemon_welcome = obj [(''type'', js ''initialized'')]"

definition grant_reply :: jsval where
  "grant_reply = obj [(''type'', js ''result''), (''result'', obj [(''writer_epoch'', js ''e'')])]"

lemma grant_members: "mem grant_reply ''type'' = js ''result''" "mem grant_reply ''result'' = obj [(''writer_epoch'', js ''e'')]"
  by (simp_all add: grant_reply_def mem_obj)

lemma play_acquire: "play (after (acquire (Suc fuel) session started n) g) (Reply grant_reply # ins) =
    apfst (Cons (Asked 0 (lit ''session.acquire_control'') (acquire_fields session) (Inr grant_reply))) (play (g (Some (js ''e'', Suc n))) ins)"
  unfolding acquire.simps ask_def by (simp add: grant_members member_def mem_obj playing)

lemma takeover_run:
  "\<exists>log k. play (takeover 92 nonce [] None) [Reply daemon_welcome, Reply attached_reply, Tick 0, Reply grant_reply] =
     (log, Call 0 (lit ''session.abort'') (obj [(''command_id'', Str (wire_identity (lit ''node-abort-'' @ nonce))), (''writer_epoch'', js ''e'')]) k) \<and>
     granted log (js ''e'')"
proof -
  have m: "mem daemon_welcome ''type'' = js ''initialized''" "mem attached_reply ''type'' = js ''snapshot''"
    by (simp_all add: daemon_welcome_def attached_reply_def mem_obj)
  show ?thesis
    unfolding takeover_def abort_leg_def Let_def
    by (simp add: playing m mem_obj play_acquire [of 91, simplified] grant_members)
qed

theorem takeover_waits_for_control_witness:
  "\<exists>log f k. performs (takeover 92 [] [] None) log (Call 0 (lit ''session.abort'') f k) \<and> granted log (mem f ''writer_epoch'')"
proof -
  obtain log k f where "play (takeover 92 [] [] None) [Reply daemon_welcome, Reply attached_reply, Tick 0, Reply grant_reply] =
     (log, Call 0 (lit ''session.abort'') f k)" "granted log (js ''e'')" using takeover_run [of "[]"] by blast
  moreover from this have "performs (takeover 92 [] [] None) log (Call 0 (lit ''session.abort'') f k)"
    using performs_play [of "takeover 92 [] [] None" "[Reply daemon_welcome, Reply attached_reply, Tick 0, Reply grant_reply]"] by simp
  moreover from this takeover_waits_for_control [OF this] calculation(2) have "granted log (mem f ''writer_epoch'')" by blast
  ultimately show ?thesis by blast
qed

text \<open>A grant without an epoch\<close>

definition empty_grant :: jsval where
  "empty_grant = obj [(''type'', js ''result''), (''result'', obj [])]"

definition abort_fields :: "ustring \<Rightarrow> jsval \<Rightarrow> jsval" where
  "abort_fields nonce epoch = obj [(''command_id'', Str (wire_identity (lit ''node-abort-'' @ nonce))), (''writer_epoch'', epoch)]"

text \<open>C35. A result that names no epoch is taken for a grant: the loop tests its epoch against \<open>null\<close> only, so after such a reply the takeover
  sends its abort, and the frame is the one of an abort without any writer epoch, since the serialiser leaves the undefined member out.\<close>

theorem epochless_grant:
  "\<exists>log k. performs (takeover 92 nonce sessionId None) log (Call 0 (lit ''session.abort'') (abort_fields nonce Undefined) k) \<and>
     answered log ''session.acquire_control'' empty_grant \<and> \<not> hasOwn (mem empty_grant ''result'') ''writer_epoch'' \<and>
     (\<forall>i. frame_of (lit ''session.abort'') (abort_fields nonce Undefined) i =
        frame_of (lit ''session.abort'') (obj [(''command_id'', Str (wire_identity (lit ''node-abort-'' @ nonce)))]) i \<and>
        frame_of (lit ''session.abort'') (abort_fields nonce Undefined) i \<noteq> None)"
proof -
  let ?ins = "[Reply daemon_welcome, Reply attached_reply, Tick 0, Reply empty_grant]"
  have m: "mem daemon_welcome ''type'' = js ''initialized''" "mem attached_reply ''type'' = js ''snapshot''"
    by (simp_all add: daemon_welcome_def attached_reply_def mem_obj)
  have g: "mem empty_grant ''type'' = js ''result''" "mem empty_grant ''result'' = obj []" by (simp_all add: empty_grant_def mem_obj)
  have a: "play (after (acquire (Suc n) session started 0) h) (Reply empty_grant # ins) =
      apfst (Cons (Asked 0 (lit ''session.acquire_control'') (acquire_fields session) (Inr empty_grant))) (play (h (Some (Undefined, 1))) ins)"
    for n session started h ins
    unfolding acquire.simps ask_def by (simp add: g member_def mem_obj playing)
  have "\<exists>log k. play (takeover 92 nonce sessionId None) ?ins = (log, Call 0 (lit ''session.abort'') (abort_fields nonce Undefined) k) \<and>
      answered log ''session.acquire_control'' empty_grant"
    unfolding takeover_def abort_leg_def abort_fields_def Let_def by (simp add: playing m mem_obj a [of 91, simplified])
  then obtain log k where p: "play (takeover 92 nonce sessionId None) ?ins = (log, Call 0 (lit ''session.abort'') (abort_fields nonce Undefined) k)"
    "answered log ''session.acquire_control'' empty_grant" by blast
  have "performs (takeover 92 nonce sessionId None) log (Call 0 (lit ''session.abort'') (abort_fields nonce Undefined) k)"
    using performs_play [of "takeover 92 nonce sessionId None" ?ins] p(1) by simp
  moreover have "frame_of (lit ''session.abort'') (abort_fields nonce Undefined) i =
        frame_of (lit ''session.abort'') (obj [(''command_id'', Str (wire_identity (lit ''node-abort-'' @ nonce)))]) i \<and>
        frame_of (lit ''session.abort'') (abort_fields nonce Undefined) i \<noteq> None" for i
    by (simp add: frame_of_def abort_fields_def with_members_Cons) (simp add: obj_def)
  moreover have "\<not> hasOwn (mem empty_grant ''result'') ''writer_epoch''" by (simp add: g hasOwn_obj)
  ultimately show ?thesis using p(2) by blast
qed

text \<open>C16. Patience ends the loop for control: if the clock never runs back, no timeout fires early and every grant carries an epoch, 92
  attempts are enough, since a lease still held more than ninety seconds after the start ends the program; so the loop never runs out of
  fuel and returns an epoch after at most 92 attempts.\<close>

theorem takeover_patience:
  assumes "performs (acquire 92 session started 0) log (Finish r)" "paced started log" "list_all proper_grant log"
  shows "\<exists>epoch attempts. r = Some (epoch, attempts) \<and> attempts \<le> 92"
  using acquire_patience [OF assms] by simp

theorem takeover_patience_witness:
  "\<exists>log r attempts. performs (acquire 92 (js ''s'') 0 0) log (Finish r) \<and> r = Some (js ''e'', attempts) \<and> attempts \<le> 92"
proof -
  let ?log = "[Asked 0 (lit ''session.acquire_control'') (acquire_fields (js ''s'')) (Inr grant_reply)]"
  have "performs (acquire (Suc 91) (js ''s'') 0 0) ?log (Finish (Some (js ''e'', 1)))"
    using performs_play [of "acquire (Suc 91) (js ''s'') 0 0" "[Reply grant_reply]"]
    unfolding acquire.simps by (simp add: playing grant_members mem_obj)
  then have p: "performs (acquire 92 (js ''s'') 0 0) ?log (Finish (Some (js ''e'', 1)))" by simp
  have "paced 0 ?log" "list_all proper_grant ?log" by (simp_all add: grant_members playing mem_obj)
  from takeover_patience [OF p this] show ?thesis by (intro exI conjI) (rule p, auto)
qed

end
