(* ===== verification/Maintenance_Workflow.thy ===== *)
theory Maintenance_Workflow
  imports Takeover
begin

text \<open>
  The maintenance workflows over either server: configure and compact a session, repeating each command
  exactly (\<open>maintenance-workflow.mjs\<close>), and observe the activity of a compaction
  (\<open>compaction-activity-workflow.mjs\<close>); and the negotiation with a real server
  (\<open>real-negotiation-workflow.mjs\<close>).  \<open>daemon\<close> says which server the arguments chose.
\<close>

section \<open>Opening a session\<close>

text \<open>\<open>!target || (target === "--daemon" ? rest.length !== 1 : rest.length === 0)\<close>\<close>

definition target_usage :: "ustring option \<Rightarrow> ustring list \<Rightarrow> bool" where
  "target_usage target rest \<longleftrightarrow> (case target of None \<Rightarrow> True
     | Some t \<Rightarrow> t = [] \<or> (if t = lit ''--daemon'' then length rest \<noteq> 1 else rest = []))"

definition contract_of :: "bool \<Rightarrow> jsval" where
  "contract_of daemon = (if daemon then daemon_contract else foreground_contract)"

text \<open>The epoch as the members it adds to a command: none for the foreground server\<close>

definition take_control :: "bool \<Rightarrow> jsval \<Rightarrow> ((string \<times> jsval) list \<Rightarrow> 'a script) \<Rightarrow> 'a script" where
  "take_control daemon session k = (if \<not> daemon then k []
     else ask 0 ''session.acquire_control'' (obj [(''session_id'', session)]) (\<lambda>control.
       let epoch = mem (boxed (mem control ''result'')) ''writer_epoch'' in
       if \<not> truthy epoch then Raise (Refusal ''acquire'' control) else k [(''writer_epoch'', epoch)]))"

definition open_session :: "bool \<Rightarrow> (jsval \<Rightarrow> (string \<times> jsval) list \<Rightarrow> 'a script) \<Rightarrow> 'a script" where
  "open_session daemon k = Launch 0 (negotiate (contract_of daemon) 0 (\<lambda>initialized.
     ask 0 ''session.create'' (obj [(''command_id'', command ''node-create''), (''session_options'', obj [(''version'', Number 1)])]) (\<lambda>created.
     if mem created ''status'' \<noteq> js ''accepted'' then Raise (Refusal ''create'' created)
     else let session = mem created ''session_id'' in take_control daemon session (\<lambda>epoch.
       ask 0 ''session.attach'' (obj [(''session_id'', session), (''after_event_sequence'', js ''0'')]) (\<lambda>attached.
       if mem attached ''type'' \<noteq> js ''snapshot'' then Raise (Refusal ''attach'' attached) else k session epoch)))))"

definition leave :: "bool \<Rightarrow> nat \<Rightarrow> 'a script \<Rightarrow> 'a script" where
  "leave daemon n k = Hang_up n (if daemon then k else Join n k)"

section \<open>Configure and compact\<close>

definition configure_fields :: "ustring \<Rightarrow> (string \<times> jsval) list \<Rightarrow> jsval" where
  "configure_fields alias epoch = obj ([(''command_id'', command ''node-configure''),
     (''changes'', obj [(''model'', Str alias), (''max_tokens'', js ''512'')])] @ epoch)"

definition compact_fields :: "(string \<times> jsval) list \<Rightarrow> jsval" where
  "compact_fields epoch = obj ([(''command_id'', command ''node-compact''),
     (''bounds'', obj [(''max_attempts'', js ''4''), (''deadline_ms'', js ''60000''), (''token_budget'', js ''32768'')])] @ epoch)"

text \<open>The command under an epoch that is not held: \<open>{ ...configure, writer_epoch: wire.identity("stale") }\<close>\<close>

definition stale_fields :: "ustring \<Rightarrow> (string \<times> jsval) list \<Rightarrow> jsval" where
  "stale_fields alias epoch = setm ''writer_epoch'' (command ''stale'') (configure_fields alias epoch)"

definition try_stale :: "bool \<Rightarrow> ustring \<Rightarrow> (string \<times> jsval) list \<Rightarrow> (jsval \<Rightarrow> 'a script) \<Rightarrow> 'a script" where
  "try_stale daemon alias epoch k = (if \<not> daemon then k Null
     else ask 0 ''session.configure'' (stale_fields alias epoch) (\<lambda>refused.
       if mem refused ''type'' \<noteq> js ''error'' \<or> mem refused ''code'' \<noteq> js ''control_not_held'' then Raise (Refusal ''stale'' refused)
       else k (mem refused ''code'')))"

text \<open>\<open>isDeepStrictEqual({ ...left, request_id: null }, { ...right, request_id: null })\<close>\<close>

definition same_reply :: "jsval \<Rightarrow> jsval \<Rightarrow> bool" where
  "same_reply left right = deep_equal (setm ''request_id'' Null (spread left)) (setm ''request_id'' Null (spread right))"

text \<open>A command asked, its durable event awaited, and the command asked again\<close>

definition compact_twice :: "(string \<times> jsval) list \<Rightarrow> (jsval \<Rightarrow> jsval \<Rightarrow> jsval \<Rightarrow> 'a script) \<Rightarrow> 'a script" where
  "compact_twice epoch k =
     ask 0 ''session.compact'' (compact_fields epoch) (\<lambda>compacted.
     if mem compacted ''status'' \<noteq> js ''accepted'' then Raise (Refusal ''compact'' compacted)
     else wait_for 0 (of_kind ''context.compaction_finished'') (\<lambda>finished.
       if decodeCompactCompletion (mem finished ''data'') = None then Raise (Refusal ''compaction_finished'' finished)
       else ask 0 ''session.compact'' (compact_fields epoch) (\<lambda>retry. k compacted retry finished)))"

definition configure_twice :: "ustring \<Rightarrow> (string \<times> jsval) list \<Rightarrow> (jsval \<Rightarrow> jsval \<Rightarrow> jsval \<Rightarrow> 'a script) \<Rightarrow> 'a script" where
  "configure_twice alias epoch k =
     ask 0 ''session.configure'' (configure_fields alias epoch) (\<lambda>configured.
     if mem configured ''status'' \<noteq> js ''accepted'' then Raise (Refusal ''configure'' configured)
     else wait_for 0 (of_kind ''session.configured'') (\<lambda>change.
       case decodeConfiguredEvent (mem change ''data'') of None \<Rightarrow> Raise (Refusal ''configured'' change)
       | Some decoded \<Rightarrow> if mem decoded ''command_id'' \<noteq> Buf (utf8 (lit ''node-configure'')) then Raise (Refusal ''configured'' change)
           else ask 0 ''session.configure'' (configure_fields alias epoch) (\<lambda>retry. k configured retry decoded)))"

definition maintenance :: "bool \<Rightarrow> ustring \<Rightarrow> unit script" where
  "maintenance daemon alias = open_session daemon (\<lambda>session epoch.
     try_stale daemon alias epoch (\<lambda>stale.
     configure_twice alias epoch (\<lambda>configured configure_retry decoded.
     compact_twice epoch (\<lambda>compacted compact_retry finished.
     let configuration = mem decoded ''configuration'' in
     case to_text (mem configuration ''max_tokens'') of None \<Rightarrow> Raise Type_fault | Some max_tokens \<Rightarrow>
     Observe 0 (\<lambda>seen. Write (Inr (obj [(''stale'', stale), (''model'', mem configuration ''model''), (''max_tokens'', Str max_tokens),
         (''configure_retry_matches'', Boolean (same_reply configured configure_retry)),
         (''disposition'', mem (mem (mem finished ''data'') ''result'') ''disposition''),
         (''compact_retry_matches'', Boolean (same_reply compacted compact_retry)),
         (''configured_events'', Number (int (length (filter (of_kind ''session.configured'') seen))))]))
       (leave daemon 0 (Finish ())))))))"

section \<open>The activity of a compaction\<close>

text \<open>The items are polled until one arrives or the deadline has passed\<close>

fun await_activity :: "nat \<Rightarrow> int \<Rightarrow> jsval list option script" where
  "await_activity 0 deadline = Finish None"
| "await_activity (Suc fuel) deadline = Watch 0 (\<lambda>progress.
     let items = filter (of_kind ''context.compaction_progress'') progress in
     if items \<noteq> [] then Finish (Some items)
     else Clock (\<lambda>now. if now > deadline then Raise (Refusal ''activity'' (arr progress))
       else Pause 10 (await_activity fuel deadline)))"

fun buffer_bytes :: "jsval \<Rightarrow> bytes" where
  "buffer_bytes (Buf bs) = bs"
| "buffer_bytes v = []"

definition report_activity :: "jsval list \<Rightarrow> jsval \<Rightarrow> jsval \<Rightarrow> 'a script \<Rightarrow> 'a script" where
  "report_activity items completion finished k = (case decodeCompactionProgress (hd items) of None \<Rightarrow> Raise (Refusal ''activity'' (hd items))
     | Some activity \<Rightarrow> Write (Inr (obj [(''activities'', Number (int (length items))),
         (''owner'', obj [(''kind'', mem (mem activity ''owner'') ''kind''),
            (''id'', Str (utf8_decode (buffer_bytes (mem (mem activity ''owner'') ''id''))))]),
         (''same_episode'', Boolean (mem activity ''episode_id'' = mem completion ''episode_id'')),
         (''disposition'', mem (mem (mem finished ''data'') ''result'') ''disposition'')])) k)"

definition compaction_activity :: "nat \<Rightarrow> bool \<Rightarrow> unit script" where
  "compaction_activity fuel daemon = open_session daemon (\<lambda>session epoch.
     ask 0 ''session.prompt'' (obj ([(''command_id'', command ''node-history''),
       (''content_b64'', Str (wire_bytes (utf8 (concat (replicate 2000 (lit ''old ''))))))] @ epoch)) (\<lambda>prompted.
     if mem prompted ''status'' \<noteq> js ''accepted'' then Raise (Refusal ''prompt'' prompted)
     else wait_for 0 (of_kind ''run.finished'') (\<lambda>ended_run.
     ask 0 ''session.compact'' (compact_fields epoch) (\<lambda>compacted.
     if mem compacted ''status'' \<noteq> js ''accepted'' then Raise (Refusal ''compact'' compacted)
     else wait_for 0 (of_kind ''context.compaction_finished'') (\<lambda>finished.
     case decodeCompactCompletion (mem finished ''data'') of None \<Rightarrow> Raise (Refusal ''compaction_finished'' finished)
     | Some completion \<Rightarrow> Clock (\<lambda>now. after (await_activity fuel (now + 10000)) (\<lambda>found.
         case found of None \<Rightarrow> Raise Exhausted
         | Some items \<Rightarrow> report_activity items completion finished (leave daemon 0 (Finish ())))))))))"

section \<open>Negotiation with a real server\<close>

text \<open>A session request made at once: whether it was refused by this client for want of verified initialization\<close>

definition refusedLocally :: "nat \<Rightarrow> (bool \<Rightarrow> 'a script) \<Rightarrow> 'a script" where
  "refusedLocally n k = Call n (lit ''session.create'')
     (obj [(''command_id'', command ''never''), (''session_options'', obj [(''version'', Number 1)])])
     (\<lambda>r. k (case r of Inl e \<Rightarrow> e = Unverified | Inr reply \<Rightarrow> False))"

definition offer :: "jsval list \<Rightarrow> jsval" where
  "offer generations = obj [(''generations'', arr generations), (''capabilities'', arr [])]"

definition real_negotiation :: "bool \<Rightarrow> unit script" where
  "real_negotiation daemon = (let contract = contract_of daemon in
     Launch 0 (refusedLocally 0 (\<lambda>early. leave daemon 0 (
     Launch 1 (ask 1 ''initialize'' (offer [js ''loopex.session.v1-experimental'', js ''loopex.experimental/1'', js ''loopex.experimental/2'']) (\<lambda>old.
     refusedLocally 1 (\<lambda>still. leave daemon 1 (
     Launch 2 (negotiate contract 2 (\<lambda>initialized.
     ask 2 ''initialize'' (offer [mem contract ''generation'']) (\<lambda>repeated. leave daemon 2 (
     Write (Inr (obj [(''refused_before_initialize'', Boolean early), (''old_offer_code'', mem old ''code''),
       (''refused_after_old_offer'', Boolean still), (''generation'', mem initialized ''selected_generation''),
       (''digest_matches_pin'', Boolean (mem initialized ''exact_schema_sha256'' = mem contract ''schemaDigest'')),
       (''repeat_code'', mem repeated ''code'')])) (Finish ())))))))))))))"

section \<open>Exact retries\<close>

text \<open>The commands and the waits of a trace, and what a completed maintenance run did and reported\<close>

fun commanding :: "act \<Rightarrow> bool" where
  "commanding (Asked n m f r) \<longleftrightarrow> m = lit ''session.configure'' \<or> m = lit ''session.compact''"
| "commanding (Waited n r) \<longleftrightarrow> True"
| "commanding _ \<longleftrightarrow> False"

definition maintenance_end :: "bool \<Rightarrow> ustring \<Rightarrow> act list \<Rightarrow> bool" where
  "maintenance_end daemon alias log \<longleftrightarrow> (\<exists>epoch refusal configured configured' change decoded compacted compacted' finished summary.
     (if daemon then (\<exists>control. answered log ''session.acquire_control'' control \<and> truthy (mem (boxed (mem control ''result'')) ''writer_epoch'') \<and>
          epoch = [(''writer_epoch'', mem (boxed (mem control ''result'')) ''writer_epoch'')]) else epoch = []) \<and>
     filter commanding log = (if daemon then [Asked 0 (lit ''session.configure'') (stale_fields alias epoch) (Inr refusal)] else []) @
       [Asked 0 (lit ''session.configure'') (configure_fields alias epoch) (Inr configured), Waited 0 (Inr change),
        Asked 0 (lit ''session.configure'') (configure_fields alias epoch) (Inr configured'),
        Asked 0 (lit ''session.compact'') (compact_fields epoch) (Inr compacted), Waited 0 (Inr finished),
        Asked 0 (lit ''session.compact'') (compact_fields epoch) (Inr compacted')] \<and>
     (daemon \<longrightarrow> mem refusal ''type'' = js ''error'' \<and> mem refusal ''code'' = js ''control_not_held'') \<and>
     mem configured ''status'' = js ''accepted'' \<and> of_kind ''session.configured'' change \<and>
     decodeConfiguredEvent (mem change ''data'') = Some decoded \<and> mem decoded ''command_id'' = Buf (utf8 (lit ''node-configure'')) \<and>
     mem compacted ''status'' = js ''accepted'' \<and> of_kind ''context.compaction_finished'' finished \<and>
     decodeCompactCompletion (mem finished ''data'') \<noteq> None \<and>
     Wrote (Inr summary) \<in> set log \<and>
     mem summary ''configure_retry_matches'' = Boolean (same_reply configured configured') \<and>
     mem summary ''compact_retry_matches'' = Boolean (same_reply compacted compacted'))"

lemma maintenance_obeys: "obeys (\<lambda>h n m f. True) (\<lambda>h x. maintenance_end daemon alias h) [] (maintenance daemon alias)"
  unfolding maintenance_def open_session_def take_control_def try_stale_def configure_twice_def compact_twice_def leave_def Let_def
  by (intro obeying TrueI) (auto simp: maintenance_end_def mem_obj)

section \<open>A complete run\<close>

definition sample_result :: jsval where
  "sample_result = obj [(''disposition'', js ''unchanged''), (''checkpoint_id'', Null), (''failure'', Null),
     (''usage'', obj [(''attempts'', wire_nat 1), (''reported_tokens'', wire_nat 2), (''estimated_tokens'', wire_nat 3),
       (''total_tokens'', wire_nat 5)]), (''cleanup'', js ''confirmed'')]"

definition completion_event :: jsval where
  "completion_event = obj [(''kind'', js ''context.compaction_finished''), (''data'',
     obj [(''episode_id'', js ''AQ''), (''command_id'', js ''AQ''), (''result'', sample_result)])]"

definition configured_event :: jsval where
  "configured_event = obj [(''kind'', js ''session.configured''), (''data'',
     obj [(''command_id'', command ''node-configure''), (''configuration'', sample_configuration)])]"

lemma completion_decodes: "decodeCompactCompletion (mem completion_event ''data'') \<noteq> None"
proof -
  let ?u = "\<lparr>us_attempts = 1, us_reported = 2, us_estimated = 3, us_total = 5\<rparr>"
  have "json sample_result" by (simp add: sample_result_def obj_def)
  moreover have "spells_outcome Unchanged sample_result" "spells_usage ?u (mem sample_result ''usage'')" "closedKeys sample_result result_keys"
    "compact_outcome_ok Unchanged"
    by (simp_all add: sample_result_def spells_usage_def member_simps result_keys_def)
  ultimately obtain r where r: "decodeCompactResult sample_result = Some r" using decodeCompactResult_iff by blast
  have "identity_within 65536 (js ''AQ'') = Some [1]"
    unfolding identity_within_iff by (simp add: id_ok_def sample_texts)
  with r show ?thesis
    unfolding completion_event_def by (simp add: mem_obj decodeCompactCompletion_def copy_eqs member_simps)
qed

lemma configured_decodes:
  "\<exists>c. decodeConfiguredEvent (mem configured_event ''data'') = Some (obj [(''command_id'', Buf (utf8 (lit ''node-configure''))), (''configuration'', c)]) \<and>
     to_text (mem c ''max_tokens'') \<noteq> None"
proof -
  have c: "decodeConfiguration sample_configuration = Some (configuration_native sample_settings sample_configuration)"
    using sample_configuration_spelled decodeConfiguration_iff by blast
  have l: "length (utf8 (lit ''node-configure'')) = 14" using byteLength_lit [of "''node-configure''"] by (simp add: byteLength_def)
  then have "utf8 (lit ''node-configure'') \<noteq> []" by auto
  with l have "decodeConfiguredEvent (mem configured_event ''data'') = Some (obj [(''command_id'', Buf (utf8 (lit ''node-configure''))),
      (''configuration'', configuration_native sample_settings sample_configuration)])"
    unfolding configured_event_def command_def wire_identity_def
    by (simp add: mem_obj decodeConfiguredEvent_def c copy_eqs member_simps Let_def length_b64url)
  moreover have "mem (configuration_native sample_settings sample_configuration) ''max_tokens'' = big (cfg_max_tokens sample_settings)"
    by (simp add: configuration_native_def with_members_Cons member_simps sample_configuration_def)
  ultimately show ?thesis by (intro exI conjI) (assumption, simp)
qed

definition good_maintenance :: "input list" where
  "good_maintenance = [Reply server_welcome, Reply created_reply, Reply attached_reply, Reply accepted_reply, Reply configured_event,
     Reply accepted_reply, Reply accepted_reply, Reply completion_event, Reply accepted_reply, Sees [configured_event]]"

lemma play_if: "c \<Longrightarrow> play (if c then p else q) ins = play p ins" "\<not> c \<Longrightarrow> play (if c then p else q) ins = play q ins"
  by simp_all

lemma maintenance_run: "\<exists>log. play (maintenance False alias) good_maintenance = (log, Finish ())"
proof -
  have k: "mem created_reply ''status'' = js ''accepted''" "mem attached_reply ''type'' = js ''snapshot''" "mem accepted_reply ''status'' = js ''accepted''"
    "of_kind ''session.configured'' configured_event" "of_kind ''context.compaction_finished'' completion_event"
    by (simp_all add: created_reply_def attached_reply_def accepted_reply_def configured_event_def completion_event_def of_kind_def mem_obj)
  obtain c t where c: "decodeConfiguredEvent (mem configured_event ''data'') =
      Some (obj [(''command_id'', Buf (utf8 (lit ''node-configure''))), (''configuration'', c)])" "to_text (mem c ''max_tokens'') = Some t"
    using configured_decodes by blast
  show ?thesis
    unfolding maintenance_def open_session_def take_control_def try_stale_def configure_twice_def compact_twice_def leave_def
      good_maintenance_def Let_def
    by (simp add: playing k c completion_decodes welcome_reply mem_obj)
qed

section \<open>Patience\<close>

lemma activity_patience:
  "performs (await_activity fuel deadline) log (Finish r) \<Longrightarrow> paced now log \<Longrightarrow> deadline < now + 10 * (int fuel - 1) \<Longrightarrow> 0 < fuel \<Longrightarrow>
   \<exists>items. r = Some items \<and> items \<noteq> []"
proof (induction fuel arbitrary: log now)
  case (Suc fuel)
  from Suc.prems(1) obtain progress log' where log: "log = Watched 0 progress # log'"
    and rest: "if filter (of_kind ''context.compaction_progress'') progress \<noteq> []
      then log' = [] \<and> r = Some (filter (of_kind ''context.compaction_progress'') progress)
      else \<exists>t log''. log' = Clocked t # Paused 10 # log'' \<and> t \<le> deadline \<and> performs (await_activity fuel deadline) log'' (Finish r)"
    by (cases rule: performs.cases)
      (auto simp: Let_def not_less split: if_splits elim!: performs_clock performs_pause)
  show ?case
  proof (cases "filter (of_kind ''context.compaction_progress'') progress = []")
    case False
    with rest show ?thesis by simp
  next
    case True
    with rest obtain t log'' where l: "log' = Clocked t # Paused 10 # log''" "t \<le> deadline"
      "performs (await_activity fuel deadline) log'' (Finish r)" by auto
    with Suc.prems(2) log have t: "now \<le> t" "paced (t + 10) log''" by simp_all
    then have "0 < fuel" using l(2) Suc.prems(3) by (cases fuel) simp_all
    with Suc.IH [OF l(3) t(2)] t(1) Suc.prems(3) show ?thesis by simp
  qed
qed simp

section \<open>Properties\<close>

text \<open>C18. A maintenance run that ends has asked for the configuration and for the compaction exactly twice each, with identical requests.
  Between the two, the first was accepted and its durable event awaited and decoded (for the configuration, as that of this very command),
  and nothing else was commanded or awaited; over the daemon every command carries the granted epoch, and before them the configuration
  was asked once under a stale epoch and refused because control is not held.  What the run reports of the retries is whether the two
  admissions are equal but for their request identities.\<close>

theorem maintenance_retries:
  assumes "performs (maintenance daemon alias) log (Finish ())"
  shows "\<exists>epoch refusal configured configured' change decoded compacted compacted' finished summary.
     (if daemon then (\<exists>control. answered log ''session.acquire_control'' control \<and> truthy (mem (boxed (mem control ''result'')) ''writer_epoch'') \<and>
          epoch = [(''writer_epoch'', mem (boxed (mem control ''result'')) ''writer_epoch'')]) else epoch = []) \<and>
     filter commanding log = (if daemon then [Asked 0 (lit ''session.configure'') (stale_fields alias epoch) (Inr refusal)] else []) @
       [Asked 0 (lit ''session.configure'') (configure_fields alias epoch) (Inr configured), Waited 0 (Inr change),
        Asked 0 (lit ''session.configure'') (configure_fields alias epoch) (Inr configured'),
        Asked 0 (lit ''session.compact'') (compact_fields epoch) (Inr compacted), Waited 0 (Inr finished),
        Asked 0 (lit ''session.compact'') (compact_fields epoch) (Inr compacted')] \<and>
     (daemon \<longrightarrow> mem refusal ''type'' = js ''error'' \<and> mem refusal ''code'' = js ''control_not_held'') \<and>
     mem configured ''status'' = js ''accepted'' \<and> of_kind ''session.configured'' change \<and>
     decodeConfiguredEvent (mem change ''data'') = Some decoded \<and> mem decoded ''command_id'' = Buf (utf8 (lit ''node-configure'')) \<and>
     mem compacted ''status'' = js ''accepted'' \<and> of_kind ''context.compaction_finished'' finished \<and>
     decodeCompactCompletion (mem finished ''data'') \<noteq> None \<and>
     Wrote (Inr summary) \<in> set log \<and>
     mem summary ''configure_retry_matches'' = Boolean (same_reply configured configured') \<and>
     mem summary ''compact_retry_matches'' = Boolean (same_reply compacted compacted')"
  using obeys_result [OF maintenance_obeys assms] unfolding maintenance_end_def .

theorem maintenance_retries_witness:
  "\<exists>log. performs (maintenance False (lit ''m'')) log (Finish ()) \<and> length (filter commanding log) = 6"
proof -
  obtain log where "play (maintenance False (lit ''m'')) good_maintenance = (log, Finish ())" using maintenance_run by blast
  then have p: "performs (maintenance False (lit ''m'')) log (Finish ())"
    using performs_play [of "maintenance False (lit ''m'')" good_maintenance] by simp
  from maintenance_retries [OF this] have "length (filter commanding log) = 6" by auto
  with p show ?thesis by blast
qed

text \<open>C20. Polling for the activity ends: with a clock that never runs back and timeouts that never fire early, 1002 polls are enough for
  the ten seconds allowed, so the loop ends with at least one item, or, past the deadline, with the refusal, and never runs out of
  fuel.\<close>

theorem activity_polls_enough:
  assumes "performs (await_activity 1002 (now + 10000)) log (Finish r)" "paced now log"
  shows "\<exists>items. r = Some items \<and> items \<noteq> []"
  using activity_patience [OF assms] by simp

theorem activity_polls_enough_witness:
  "\<exists>log items. performs (await_activity 1002 (0 + 10000)) log (Finish (Some items)) \<and> items \<noteq> []"
proof -
  let ?item = "obj [(''kind'', js ''context.compaction_progress'')]"
  have "of_kind ''context.compaction_progress'' ?item" by (simp add: of_kind_def mem_obj)
  then have "performs (await_activity (Suc 1001) (0 + 10000)) [Watched 0 [?item]] (Finish (Some [?item]))"
    using performs_play [of "await_activity (Suc 1001) (0 + 10000)" "[Sees [?item]]"] unfolding await_activity.simps by (simp add: Let_def)
  then have p: "performs (await_activity 1002 (0 + 10000)) [Watched 0 [?item]] (Finish (Some [?item]))" by simp
  have "paced 0 [Watched 0 [?item]]" by simp
  from activity_polls_enough [OF p this] show ?thesis by (intro exI conjI) (rule p, simp)
qed

end
