(* ===== verification/Driven_Workflow.thy ===== *)
theory Driven_Workflow
  imports Maintenance_Workflow
begin

text \<open>
  A workflow and the foreground connection it drives, together: the script runs until it awaits a request or
  an event, the environment feeds the connection, and what the connection settles resumes the script.  The
  connection's part of every such run is a run of the client, so what holds of those holds here; and a program
  that keeps the rule \<open>gate_rule\<close> never meets the guards of \<open>request\<close>, which the workflows are
  interpreted to do.
\<close>

section \<open>A script over a connection\<close>

datatype 'a program = Running "'a script" | Blocked ustring "answer \<Rightarrow> 'a script" | Sleeping nat "answer \<Rightarrow> 'a script"

fun woken :: "effect \<Rightarrow> 'a program \<Rightarrow> 'a program" where
  "woken (Resolved i v) (Blocked j k) = (if i = j then Running (k (Inr v)) else Blocked j k)"
| "woken (Rejected i e) (Blocked j k) = (if i = j then Running (k (Inl e)) else Blocked j k)"
| "woken (Woken t v) (Sleeping u k) = (if t = u then Running (k (Inr v)) else Sleeping u k)"
| "woken (Expired t) (Sleeping u k) = (if t = u then Running (k (Inl Wait_expired)) else Sleeping u k)"
| "woken _ w = w"

definition wake :: "effect list \<Rightarrow> 'a program \<Rightarrow> 'a program" where
  "wake outs w = fold woken outs w"

fun requested :: "(answer \<Rightarrow> 'a script) \<Rightarrow> effect list \<Rightarrow> 'a program" where
  "requested k (Sent i m frame # outs) = Blocked i k"
| "requested k (Thrown e # outs) = Running (k (Inl e))"
| "requested k _ = Running (Raise Type_fault)"

fun awaited_event :: "(answer \<Rightarrow> 'a script) \<Rightarrow> nat \<Rightarrow> effect list \<Rightarrow> 'a program" where
  "awaited_event k t (Found v # outs) = Running (k (Inr v))"
| "awaited_event k t _ = Sleeping t k"

text \<open>Steps that leave the connection as it is\<close>

inductive silent :: "connection \<Rightarrow> 'a script \<Rightarrow> 'a script \<Rightarrow> bool" where
  "silent c (Observe 0 k) (k (events c))"
| "silent c (Watch 0 k) (k (progress c))"
| "silent c (Join 0 p) p"
| "silent c (Launch 0 p) p"
| "silent c (Clock k) (k t)"
| "silent c (Pause d p) p"
| "silent c (Write v p) p"

fun from_outside :: "action \<Rightarrow> bool" where
  "from_outside (Chunk s) = True"
| "from_outside (Expire t) = True"
| "from_outside End = True"
| "from_outside Continue = True"
| "from_outside _ = False"

inductive driven :: "(ustring \<Rightarrow> jsval option) \<Rightarrow> 'a script \<Rightarrow> 'a program \<Rightarrow> connection \<Rightarrow> effect list \<Rightarrow> bool" for parse p where
  starts: "driven parse p (Running p) initial []"
| asks: "driven parse p (Running (Call 0 m f k)) c log \<Longrightarrow> request m f c = (c', outs) \<Longrightarrow> driven parse p (requested k outs) c' (log @ outs)"
| awaits: "driven parse p (Running (Wait 0 w k)) c log \<Longrightarrow> waitForEvent w c = (c', outs) \<Longrightarrow>
    driven parse p (awaited_event k (nextTimer c) outs) c' (log @ outs)"
| hangs_up: "driven parse p (Running (Hang_up 0 q)) c log \<Longrightarrow> close c = (c', outs) \<Longrightarrow> driven parse p (Running q) c' (log @ outs)"
| kills: "driven parse p (Running (Kill_peer 0 q)) c log \<Longrightarrow> kill c = (c', outs) \<Longrightarrow> driven parse p (Running q) c' (log @ outs)"
| silently: "driven parse p (Running q) c log \<Longrightarrow> silent c q q' \<Longrightarrow> driven parse p (Running q') c log"
| outside: "driven parse p w c log \<Longrightarrow> from_outside a \<Longrightarrow> enabled a c \<Longrightarrow> foreground_act parse a c = (c', outs, None) \<Longrightarrow>
    driven parse p (wake outs w) c' (log @ outs)"

text \<open>The connection's part of a driven run is a run of the client\<close>

lemma driven_run: "driven parse p w c log \<Longrightarrow> run (foreground_act parse) c log"
proof (induction rule: driven.induct)
  case (asks m f k c log c' outs)
  then show ?case by (intro run.step [where a = "Ask m f" and c = c]) simp_all
next
  case (awaits w k c log c' outs)
  then show ?case by (intro run.step [where a = "Await w" and c = c]) simp_all
next
  case (hangs_up q c log c' outs)
  then show ?case by (intro run.step [where a = Close and c = c]) simp_all
next
  case (kills q c log c' outs)
  then show ?case by (intro run.step [where a = Kill and c = c]) simp_all
next
  case (outside w c log a c' outs)
  then show ?case by (intro run.step [where a = a and c = c])
qed (auto intro: run.start)

section \<open>What the environment can do to a connection with one user\<close>

text \<open>At most one request open and at most one waiter: a chunk settles the request or wakes the waiter, each at most once\<close>

definition settles_one :: "connection \<Rightarrow> connection \<Rightarrow> bool" where
  "settles_one c c' \<longleftrightarrow> pending c' = pending c \<and> ready c' = ready c \<or>
     (\<exists>i k v. pending c = [(i, k)] \<and> ready c = [] \<and> pending c' = [] \<and> ready c' = [(i, k, v)])"

definition wakes_one :: "connection \<Rightarrow> effect list \<Rightarrow> connection \<Rightarrow> bool" where
  "wakes_one c outs c' \<longleftrightarrow> waiters c' = waiters c \<and> outs = [] \<or>
     (\<exists>x v. waiters c = [x] \<and> waiters c' = [] \<and> outs = [Woken (timer x) v] \<and> predicate x v)"

definition handles :: "connection \<Rightarrow> effect list \<Rightarrow> connection \<Rightarrow> bool" where
  "handles c outs c' \<longleftrightarrow> initialization c' = initialization c \<and> settles_one c c' \<and> wakes_one c outs c'"

definition one_user :: "connection \<Rightarrow> bool" where
  "one_user c \<longleftrightarrow> length (pending c) + length (ready c) \<le> 1 \<and> length (waiters c) \<le> 1"

lemma handles_refl: "handles c [] c"
  by (simp add: handles_def settles_one_def wakes_one_def)

lemma handles_one_user: "handles c outs c' \<Longrightarrow> one_user c \<Longrightarrow> one_user c'"
  by (auto simp: handles_def settles_one_def wakes_one_def one_user_def)

lemma handles_trans: "handles c outs c' \<Longrightarrow> handles c' outs' c'' \<Longrightarrow> handles c (outs @ outs') c''"
  unfolding handles_def settles_one_def wakes_one_def by auto

lemma one_cases: "length xs \<le> 1 \<Longrightarrow> xs = [] \<or> (\<exists>x. xs = [x])"
  by (cases xs) auto

lemma find_holds: "find P xs = Some x \<Longrightarrow> P x"
  by (induction xs) (auto split: if_splits)

lemma release_handles: 
  assumes "one_user c" "release c = (c', outs)"
  shows "handles c outs c'"
proof -
  have "length (waiters c) \<le> 1" using assms(1) by (simp add: one_user_def)
  then consider "waiters c = []" | x where "waiters c = [x]" using one_cases by blast
  then show ?thesis
  proof cases
    case 1
    with assms(2) show ?thesis by (auto simp: release_def Let_def handles_def settles_one_def wakes_one_def)
  next
    case (2 x)
    show ?thesis
    proof (cases "find (predicate x) (events c)")
      case None
      with 2 assms(2) show ?thesis by (auto simp: release_def Let_def handles_def settles_one_def wakes_one_def)
    next
      case (Some v)
      with find_holds have "predicate x v" by metis
      with 2 Some assms(2) show ?thesis by (auto simp: release_def Let_def handles_def settles_one_def wakes_one_def)
    qed
  qed
qed

lemma deliver_handles:
  assumes u: "one_user c" and d: "deliver item c = (c', outs, e)"
  shows "handles c outs c'"
proof (cases "validate item")
  case (Some x)
  with d show ?thesis by (simp add: deliver_def handles_refl)
next
  case None
  note d = d [unfolded deliver_def None option.case]
  show ?thesis
  proof (cases "mem item ''type'' = js ''event''")
    case True
    show ?thesis
    proof (cases "validateEvent item")
      case (Inl x)
      with True d show ?thesis by (simp add: handles_refl)
    next
      case (Inr event)
      let ?c = "c\<lparr>events := events c @ [event]\<rparr>"
      obtain c1 o1 where r: "release ?c = (c1, o1)" by (cases "release ?c")
      with True Inr d have "c' = c1" "outs = o1" by (simp_all add: Let_def)
      moreover have "handles ?c o1 c1" by (rule release_handles [OF _ r]) (use u in \<open>simp add: one_user_def\<close>)
      ultimately show ?thesis by (simp add: handles_def settles_one_def wakes_one_def)
    qed
  next
    case ev: False
    show ?thesis
    proof (cases "mem item ''type'' = js ''progress''")
      case True
      with ev d show ?thesis by (auto simp: handles_def settles_one_def wakes_one_def)
    next
      case False
      show ?thesis
      proof (cases "awaited (mem item ''request_id'') c")
        case none: None
        with ev False d show ?thesis by (auto simp: handles_def settles_one_def wakes_one_def)
      next
        case (Some q)
        obtain i k where q: "q = (i, k)" by (cases q)
        with Some awaited_Some have m: "map_of (pending c) i = Some k" by blast
        have "length (pending c) \<le> 1" using u by (simp add: one_user_def)
        with m have p: "pending c = [(i, k)]" using one_cases [of "pending c"] by (auto split: if_splits)
        with u have "ready c = []" by (simp add: one_user_def)
        with p ev False Some q d show ?thesis by (auto simp: handles_def settles_one_def wakes_one_def settle_with_def)
      qed
    qed
  qed
qed

lemma absorb_lines_handles:
  "absorb_lines parse c = (c', outs, e) \<Longrightarrow> one_user c \<Longrightarrow> handles c outs c'"
proof (induction parse c arbitrary: c' outs e rule: absorb_lines.induct)
  case (1 parse c)
  have same: "handles c os d \<longleftrightarrow> handles (c\<lparr>buffer := b\<rparr>) os d" "one_user c \<longleftrightarrow> one_user (c\<lparr>buffer := b\<rparr>)" for b os d
    by (simp_all add: handles_def settles_one_def wakes_one_def one_user_def)
  show ?case
  proof (cases "split_line (buffer c)")
    case None
    with 1(3) show ?thesis by (subst (asm) absorb_lines.simps) (simp add: handles_refl)
  next
    case (Some q)
    obtain line rest where q: "q = (line, rest)" by (cases q)
    let ?c = "c\<lparr>buffer := rest\<rparr>"
    show ?thesis
    proof (cases "line = []")
      case True
      with 1(3) Some q have "absorb_lines parse ?c = (c', outs, e)" by (subst (asm) absorb_lines.simps) simp
      from 1(1) [OF Some q [symmetric] refl True this] 1(4) same(2) [of rest] show ?thesis using same(1) [of outs c' rest] by simp
    next
      case line: False
      show ?thesis
      proof (cases "parse line")
        case None
        with 1(3) Some q line show ?thesis by (subst (asm) absorb_lines.simps) (auto simp: handles_def settles_one_def wakes_one_def)
      next
        case parsed: (Some item)
        obtain c1 o1 e1 where d: "deliver item ?c = (c1, o1, e1)" by (cases "deliver item ?c")
        have h: "handles ?c o1 c1" by (rule deliver_handles [OF _ d]) (use 1(4) in \<open>simp add: one_user_def\<close>)
        show ?thesis
        proof (cases e1)
          case (Some x)
          with 1(3) \<open>split_line (buffer c) = Some q\<close> q line parsed d have "c' = c1" "outs = o1"
            by (subst (asm) absorb_lines.simps, simp)+
          with h same(1) [of o1 c1 rest] show ?thesis by simp
        next
          case None
          obtain c2 o2 e2 where a: "absorb_lines parse c1 = (c2, o2, e2)" by (cases "absorb_lines parse c1")
          have "c' = c2" "outs = o1 @ o2"
            using 1(3) \<open>split_line (buffer c) = Some q\<close> q line parsed d None a by (subst (asm) absorb_lines.simps, simp)+
          moreover have "handles c1 o2 c2"
          proof -
            have u: "one_user c1" by (rule handles_one_user [OF h]) (use 1(4) in \<open>simp add: one_user_def\<close>)
            have dd: "(c1, o1, None) = deliver item ?c" using d None by simp
            show ?thesis by (rule 1(2) [OF \<open>split_line (buffer c) = Some q\<close> q [symmetric] refl line parsed dd refl refl a u])
          qed
          ultimately show ?thesis using handles_trans [OF h] same(1) [of "o1 @ o2" c2 rest] by simp
        qed
      qed
    qed
  qed
qed

section \<open>Programs that keep the rule of the gate\<close>

definition gate_rule :: rule where
  "gate_rule h n m f \<longleftrightarrow> \<not> hasOwn f ''method'' \<and> \<not> hasOwn f ''request_id'' \<and>
     (if m = lit ''initialize'' then \<forall>g r. Asked 0 (lit ''initialize'') g r \<notin> set h
      else \<exists>g reply. Asked 0 (lit ''initialize'') g (Inr reply) \<in> set h \<and> mem reply ''type'' = js ''initialized'')"

text \<open>What a script has learnt of the negotiation is what the connection holds\<close>

definition agreed :: "act list \<Rightarrow> connection \<Rightarrow> bool" where
  "agreed h c \<longleftrightarrow>
     (\<forall>g reply. Asked 0 (lit ''initialize'') g (Inr reply) \<in> set h \<and> mem reply ''type'' = js ''initialized'' \<longrightarrow> initialization c = Verified) \<and>
     ((\<forall>g r. Asked 0 (lit ''initialize'') g r \<notin> set h) \<longrightarrow> initialization c = Uninitialized)"

definition idle :: "connection \<Rightarrow> bool" where
  "idle c \<longleftrightarrow> pending c = [] \<and> ready c = []"

text \<open>The one request of a blocked program: still pending, or answered and not yet resumed\<close>

definition one_request :: "ustring \<Rightarrow> bool \<Rightarrow> connection \<Rightarrow> bool" where
  "one_request i first c \<longleftrightarrow> (\<exists>k. initializing k = first \<and>
     (pending c = [(i, k)] \<and> ready c = [] \<or> (\<exists>v. pending c = [] \<and> ready c = [(i, k, v)])))"

fun linked :: "'a script \<Rightarrow> act list \<Rightarrow> 'a program \<Rightarrow> connection \<Rightarrow> bool" where
  "linked p h (Running q) c \<longleftrightarrow> performs p h q \<and> agreed h c \<and> idle c \<and> waiters c = []"
| "linked p h (Blocked i k) c \<longleftrightarrow> (\<exists>m f. performs p h (Call 0 m f k) \<and> waiters c = [] \<and> one_request i (m = lit ''initialize'') c \<and>
     (m \<noteq> lit ''initialize'' \<longrightarrow> agreed h c))"
| "linked p h (Sleeping t k) c \<longleftrightarrow> (\<exists>w. performs p h (Wait 0 w k) \<and> agreed h c \<and> idle c \<and> waiters c = [\<lparr>predicate = w, timer = t\<rparr>])"

lemma performs_trans: "performs p h q \<Longrightarrow> performs q h' r \<Longrightarrow> performs p (h @ h') r"
  by (induction rule: performs.induct) (auto intro: performs.intros)

lemma performs_asked: "performs p h (Call n m f k) \<Longrightarrow> performs p (h @ [Asked n m f r]) (k r)"
  by (erule performs_trans) (rule performs.calls, rule performs.here)

lemma performs_waited: "performs p h (Wait n w k) \<Longrightarrow> case r of Inl e \<Rightarrow> True | Inr v \<Rightarrow> w v \<Longrightarrow> performs p (h @ [Waited n r]) (k r)"
  by (erule performs_trans) (rule performs.waits, assumption, rule performs.here)

lemma agreed_other: "agreed h c \<Longrightarrow> m \<noteq> lit ''initialize'' \<Longrightarrow> agreed (h @ [Asked n m f r]) c"
  by (auto simp: agreed_def)

lemma agreed_same: "initialization c' = initialization c \<Longrightarrow> agreed h c' = agreed h c"
  by (simp add: agreed_def)

lemma agreed_updates [simp]: "agreed h (c\<lparr>nextRequest := n\<rparr>) = agreed h c" "agreed h (c\<lparr>pending := q\<rparr>) = agreed h c"
  "agreed h (c\<lparr>ready := r\<rparr>) = agreed h c" "agreed h (c\<lparr>waiters := ws\<rparr>) = agreed h c" "agreed h (c\<lparr>closed := b\<rparr>) = agreed h c"
  "agreed h (c\<lparr>buffer := s\<rparr>) = agreed h c" "agreed h (c\<lparr>nextTimer := n\<rparr>) = agreed h c"
  by (simp_all add: agreed_def)

lemma silent_linked: "silent c q q' \<Longrightarrow> linked p h (Running q) c \<Longrightarrow> \<exists>h'. linked p h' (Running q') c"
proof (induction rule: silent.induct)
  case (1 c k)
  then have "performs p (h @ [Observed 0 (events c)]) (k (events c))" by (auto intro!: performs_trans intro: performs.intros)
  with 1 show ?case by (intro exI [of _ "h @ [Observed 0 (events c)]"]) (auto simp: agreed_def)
next
  case (2 c k)
  then have "performs p (h @ [Watched 0 (progress c)]) (k (progress c))" by (auto intro!: performs_trans intro: performs.intros)
  with 2 show ?case by (intro exI [of _ "h @ [Watched 0 (progress c)]"]) (auto simp: agreed_def)
next
  case (3 c q)
  then have "performs p (h @ [Joined 0]) q" by (auto intro!: performs_trans intro: performs.intros)
  with 3 show ?case by (intro exI [of _ "h @ [Joined 0]"]) (auto simp: agreed_def)
next
  case (4 c q)
  then have "performs p (h @ [Launched 0]) q" by (auto intro!: performs_trans intro: performs.intros)
  with 4 show ?case by (intro exI [of _ "h @ [Launched 0]"]) (auto simp: agreed_def)
next
  case (5 c k t)
  then have "performs p (h @ [Clocked t]) (k t)" by (auto intro!: performs_trans intro: performs.intros)
  with 5 show ?case by (intro exI [of _ "h @ [Clocked t]"]) (auto simp: agreed_def)
next
  case (6 c d q)
  then have "performs p (h @ [Paused d]) q" by (auto intro!: performs_trans intro: performs.intros)
  with 6 show ?case by (intro exI [of _ "h @ [Paused d]"]) (auto simp: agreed_def)
next
  case (7 c v q)
  then have "performs p (h @ [Wrote v]) q" by (auto intro!: performs_trans intro: performs.intros)
  with 7 show ?case by (intro exI [of _ "h @ [Wrote v]"]) (auto simp: agreed_def)
qed

text \<open>The only errors a request of such a program may meet: a connection that is closed, or a frame that cannot be written\<close>

definition ok_errors :: "client_error set" where
  "ok_errors = {Connection_closed, Not_serialisable, Newline_in_frame}"

lemma request_errors:
  assumes "request m f c = (c', outs)" "gate_rule h 0 m f" "agreed h c" "Thrown e \<in> set outs"
  shows "e \<in> ok_errors"
proof (cases "request_guard m f c")
  case (Some x)
  with assms(1,4) have "e = x" by (auto simp: request_def)
  with Some assms(2,3) show ?thesis
    by (auto simp: request_guard_def gate_rule_def agreed_def ok_errors_def split: if_splits)
next
  case None
  with assms(1,4) show ?thesis by (auto simp: request_def Let_def ok_errors_def split: option.splits if_splits)
qed

lemma asked_initialize:
  assumes "gate_rule h n (lit ''initialize'') f"
  shows "agreed (h @ [Asked 0 (lit ''initialize'') g (Inl e)]) c"
    and "mem v ''type'' \<noteq> js ''initialized'' \<Longrightarrow> agreed (h @ [Asked 0 (lit ''initialize'') g (Inr v)]) c"
    and "initialization c = Verified \<Longrightarrow> agreed (h @ [Asked 0 (lit ''initialize'') g (Inr v)]) c"
  using assms by (auto simp: gate_rule_def agreed_def)

lemma ask_linked:
  assumes l: "linked p h (Running (Call 0 m f k)) c" and g: "gate_rule h 0 m f" and r: "request m f c = (c', outs)"
  shows "\<exists>h'. linked p h' (requested k outs) c'"
proof -
  have thrown: "agreed (h @ [Asked 0 m f (Inl e)]) c" for e
    using l g asked_initialize(1) agreed_other by (cases "m = lit ''initialize''") auto
  from r [unfolded request_shape] show ?thesis
  proof (cases rule: requesting_cases)
    case (guarded e)
    then show ?thesis using l thrown performs_asked by (intro exI [of _ "h @ [Asked 0 m f (Inl e)]"]) auto
  next
    case (refused e)
    then show ?thesis using l thrown [of e] performs_asked
      by (intro exI [of _ "h @ [Asked 0 m f (Inl e)]"]) (auto simp: idle_def agreed_same [of c' c])
  next
    case (sending frame)
    then show ?thesis using l
      by (intro exI [of _ h]) (auto simp: idle_def one_request_def agreed_same [of c' c])
  qed
qed

lemma wake_simps [simp]: "wake [] w = w" "wake (x # outs) w = wake outs (woken x w)"
  by (simp_all add: wake_def)

lemma linked_one_user: "linked p h w c \<Longrightarrow> one_user c"
  by (cases w) (auto simp: one_user_def idle_def one_request_def)

text \<open>A chunk of output, and the end of the process\<close>

lemma handled_linked:
  assumes l: "linked p h w c" and hd: "handles c outs c'"
  shows "\<exists>h'. linked p h' (wake outs w) c'"
proof (cases w)
  case (Running q)
  with l hd have "outs = []" "pending c' = []" "ready c' = []" "waiters c' = []" "initialization c' = initialization c"
    by (auto simp: handles_def settles_one_def wakes_one_def idle_def)
  with Running l show ?thesis by (intro exI [of _ h]) (auto simp: idle_def agreed_same [of c' c])
next
  case (Blocked i k)
  then obtain m f where m: "performs p h (Call 0 m f k)" "waiters c = []" "one_request i (m = lit ''initialize'') c"
    "m \<noteq> lit ''initialize'' \<Longrightarrow> agreed h c" using l by auto
  with hd have "outs = []" "waiters c' = []" "one_request i (m = lit ''initialize'') c'" "initialization c' = initialization c"
    by (auto simp: handles_def settles_one_def wakes_one_def one_request_def)
  with Blocked m show ?thesis by (intro exI [of _ h]) (auto simp: agreed_same [of c' c])
next
  case (Sleeping t k)
  then obtain v where v: "performs p h (Wait 0 v k)" "agreed h c" "idle c" "waiters c = [\<lparr>predicate = v, timer = t\<rparr>]" using l by auto
  with hd have i: "idle c'" "initialization c' = initialization c" by (auto simp: handles_def settles_one_def idle_def)
  from hd v(4) consider "waiters c' = waiters c" "outs = []" | e where "waiters c' = []" "outs = [Woken t e]" "v e"
    by (auto simp: handles_def wakes_one_def)
  then show ?thesis
  proof cases
    case 1
    with Sleeping v i show ?thesis by (intro exI [of _ h]) (auto simp: agreed_same [of c' c])
  next
    case (2 e)
    with performs_waited [OF v(1), of "Inr e"] have "performs p (h @ [Waited 0 (Inr e)]) (k (Inr e))" by simp
    with Sleeping v i 2 show ?thesis by (intro exI [of _ "h @ [Waited 0 (Inr e)]"]) (auto simp: agreed_def)
  qed
qed

lemma ended_linked:
  assumes l: "linked p h w c" and g: "\<And>h m f k. performs p h (Call 0 m f k) \<Longrightarrow> gate_rule h 0 m f" and r: "ready c = []" and e: "exit c = (c', outs)"
  shows "\<exists>h'. linked p h' (wake outs w) c'"
proof -
  let ?c = "c\<lparr>closed := True, pending := []\<rparr>"
  obtain o1 where o1: "release ?c = (c', o1)" "outs = map (\<lambda>(i, k). Rejected i Peer_ended) (pending c) @ o1"
    using e by (cases "release ?c") (auto simp: exit_def Let_def)
  have hd: "handles ?c o1 c'" by (rule release_handles [OF _ o1(1)]) (use linked_one_user [OF l] in \<open>simp add: one_user_def\<close>)
  show ?thesis
  proof (cases w)
    case (Running q)
    with l have "linked p h w ?c" "pending c = []" by (auto simp: idle_def agreed_def)
    with handled_linked [OF _ hd] o1(2) show ?thesis by simp
  next
    case (Sleeping t k)
    with l have "linked p h w ?c" "pending c = []" by (auto simp: idle_def agreed_def)
    with handled_linked [OF _ hd] o1(2) show ?thesis by simp
  next
    case (Blocked i k)
    then obtain m f where m: "performs p h (Call 0 m f k)" "waiters c = []" "one_request i (m = lit ''initialize'') c"
      "m \<noteq> lit ''initialize'' \<Longrightarrow> agreed h c" using l by auto
    then obtain q where q: "pending c = [(i, q)]" using r by (auto simp: one_request_def)
    let ?h = "h @ [Asked 0 m f (Inl Peer_ended)]"
    have "agreed ?h c" using m(4) g [OF m(1)] asked_initialize(1) agreed_other by (cases "m = lit ''initialize''") auto
    then have "linked p ?h (Running (k (Inl Peer_ended))) ?c" using performs_asked [OF m(1)] m(2) r by (auto simp: idle_def agreed_def)
    with handled_linked [OF _ hd] o1(2) q Blocked show ?thesis by fastforce
  qed
qed

text \<open>A timer, and the continuation of an answered request\<close>

lemma expired_linked:
  assumes l: "linked p h w c" and e: "wait_expired t c = (c', outs)"
  shows "\<exists>h'. linked p h' (wake outs w) c'"
proof (cases "\<exists>k. w = Sleeping t k")
  case True
  then obtain k v where w: "w = Sleeping t k" and v: "performs p h (Wait 0 v k)" "agreed h c" "idle c" "waiters c = [\<lparr>predicate = v, timer = t\<rparr>]"
    using l by auto
  with e have "c' = c\<lparr>waiters := []\<rparr>" "outs = [Expired t]" by (auto simp: wait_expired_def)
  moreover have "performs p (h @ [Waited 0 (Inl Wait_expired)]) (k (Inl Wait_expired))" by (rule performs_waited [OF v(1)]) simp
  ultimately show ?thesis using v(2,3) w by (intro exI [of _ "h @ [Waited 0 (Inl Wait_expired)]"]) (auto simp: agreed_def idle_def)
next
  case False
  with l e have "c' = c \<and> outs = []" by (cases w) (auto simp: wait_expired_def)
  with l show ?thesis by auto
qed

lemma resumed_linked:
  assumes l: "linked p h w c" and g: "\<And>h m f k. performs p h (Call 0 m f k) \<Longrightarrow> gate_rule h 0 m f" and e: "resume c = (c', outs)"
  shows "\<exists>h'. linked p h' (wake outs w) c'"
proof (cases "ready c")
  case Nil
  with e l show ?thesis by (auto simp: resume_def)
next
  case (Cons x xs)
  with l obtain i k where w: "w = Blocked i k" by (cases w) (auto simp: idle_def)
  with l obtain m f where m: "performs p h (Call 0 m f k)" "waiters c = []" "one_request i (m = lit ''initialize'') c"
    "m \<noteq> lit ''initialize'' \<Longrightarrow> agreed h c" by auto
  with Cons obtain q v where q: "ready c = [(i, q, v)]" "pending c = []" "initializing q = (m = lit ''initialize'')"
    by (auto simp: one_request_def)
  have go: "\<exists>h'. linked p h' (Running (k r)) c'" if "agreed (h @ [Asked 0 m f r]) c'" "pending c' = []" "ready c' = []" "waiters c' = []" for r
    using that performs_asked [OF m(1)] by (intro exI [of _ "h @ [Asked 0 m f r]"]) (simp add: idle_def)
  show ?thesis
  proof (cases "m = lit ''initialize''")
    case False
    with e q have "c' = c\<lparr>ready := []\<rparr>" "outs = [Resolved i v]" by (simp_all add: resume_def)
    with go [of "Inr v"] agreed_other [OF m(4)] False m(2) q w show ?thesis by simp
  next
    case True
    note gr = g [OF m(1), unfolded True]
    show ?thesis
    proof (cases "mem v ''type'' = js ''initialized''")
      case False
      with e q True have "outs = [Resolved i v]" "pending c' = []" "ready c' = []" "waiters c' = []"
        using m(2) by (auto simp: resume_def)
      with go [of "Inr v"] asked_initialize(2) [OF gr False] True w show ?thesis by simp
    next
      case init: True
      show ?thesis
      proof (cases "matchesContractIdentity v foreground_contract")
        case match: True
        with e q True init have "outs = [Resolved i v]" "pending c' = []" "ready c' = []" "waiters c' = []" "initialization c' = Verified"
          using m(2) by (auto simp: resume_def)
        with go [of "Inr v"] asked_initialize(3) [OF gr] True w show ?thesis by simp
      next
        case False
        with e q True init have "outs = [Input_ended, Rejected i Identity_mismatch]" "pending c' = []" "ready c' = []" "waiters c' = []"
          using m(2) by (auto simp: resume_def close_def)
        with go [of "Inl Identity_mismatch"] asked_initialize(1) [OF gr] True w show ?thesis by simp
      qed
    qed
  qed
qed

lemma outside_errors: "from_outside a \<Longrightarrow> one_user c \<Longrightarrow> foreground_act parse a c = (c', outs, None) \<Longrightarrow> Thrown e \<notin> set outs"
proof (cases a)
  case (Chunk s)
  assume "one_user c" "foreground_act parse a c = (c', outs, None)"
  with Chunk have "handles (c\<lparr>buffer := buffer c @ s\<rparr>) outs c'"
    by (intro absorb_lines_handles) (simp_all add: absorb_def one_user_def)
  then show ?thesis by (auto simp: handles_def wakes_one_def)
next
  case (Expire t)
  assume "foreground_act parse a c = (c', outs, None)"
  with Expire show ?thesis by (auto simp: wait_expired_def split: if_splits)
next
  case End
  assume "foreground_act parse a c = (c', outs, None)"
  with End show ?thesis by (auto simp: exit_def release_def Let_def List.map_filter_def)
next
  case Continue
  assume "foreground_act parse a c = (c', outs, None)"
  with Continue show ?thesis by (auto simp: resume_def close_def Let_def split: list.splits if_splits)
qed simp_all

lemma outside_linked:
  assumes l: "linked p h w c" and g: "\<And>h m f k. performs p h (Call 0 m f k) \<Longrightarrow> gate_rule h 0 m f"
    and a: "from_outside a" "enabled a c" "foreground_act parse a c = (c', outs, None)"
  shows "\<exists>h'. linked p h' (wake outs w) c'"
  using a
proof (cases a)
  case (Chunk s)
  let ?c = "c\<lparr>buffer := buffer c @ s\<rparr>"
  from Chunk a(3) have "handles ?c outs c'"
    using linked_one_user [OF l] by (intro absorb_lines_handles) (simp_all add: absorb_def one_user_def)
  moreover have "linked p h w ?c" using l by (cases w) (auto simp: idle_def one_request_def)
  ultimately show ?thesis by (intro handled_linked)
next
  case (Expire t)
  with a(3) have "wait_expired t c = (c', outs)" by (cases "wait_expired t c") simp
  with l show ?thesis by (rule expired_linked)
next
  case End
  with a have "ready c = []" "exit c = (c', outs)" by (cases "exit c", simp_all)+
  with l g show ?thesis by (intro ended_linked)
next
  case Continue
  with a(3) have "resume c = (c', outs)" by (cases "resume c") simp
  with l g show ?thesis by (intro resumed_linked)
qed simp_all

section \<open>Gated programs\<close>

locale gated_program =
  fixes program :: "'a script"
  assumes gated: "obeys gate_rule (\<lambda>h x. True) [] program"
begin

lemma gate: "performs program h (Call n m f k) \<Longrightarrow> gate_rule h n m f"
  by (rule obeys_call [OF gated])

lemma driven_linked:
  "driven parse program w c log \<Longrightarrow> (\<exists>h. linked program h w c) \<and> (\<forall>e. Thrown e \<in> set log \<longrightarrow> e \<in> ok_errors)"
proof (induction rule: driven.induct)
  case starts
  have "linked program [] (Running program) initial" by (simp add: performs.here agreed_def idle_def initial_def)
  then show ?case by auto
next
  case (asks m f k c log c' outs)
  then obtain h where h: "linked program h (Running (Call 0 m f k)) c" by blast
  then have g: "gate_rule h 0 m f" using gate by auto
  have "Thrown e \<in> set outs \<Longrightarrow> e \<in> ok_errors" for e using request_errors [OF asks.hyps(2) g] h by simp
  with asks.IH ask_linked [OF h g asks.hyps(2)] show ?case by auto
next
  case (awaits v k c log c' outs)
  then obtain h where h: "performs program h (Wait 0 v k)" "agreed h c" "idle c" "waiters c = []" by auto
  show ?case
  proof (cases "find v (events c)")
    case None
    with awaits.hyps(2) have "c' = c\<lparr>nextTimer := Suc (nextTimer c), waiters := [\<lparr>predicate = v, timer = nextTimer c\<rparr>]\<rparr>" "outs = []"
      using h(4) by (auto simp: waitForEvent_def)
    with h awaits.IH show ?thesis by (auto simp: idle_def intro!: exI [of _ h])
  next
    case (Some event)
    with awaits.hyps(2) have "c' = c" "outs = [Found event]" by (auto simp: waitForEvent_def)
    moreover have "performs program (h @ [Waited 0 (Inr event)]) (k (Inr event))"
      by (rule performs_waited [OF h(1)]) (use find_holds [OF Some] in simp)
    ultimately show ?thesis using h awaits.IH by (auto simp: agreed_def intro!: exI [of _ "h @ [Waited 0 (Inr event)]"])
  qed
next
  case (hangs_up q c log c' outs)
  then obtain h where h: "performs program h (Hang_up 0 q)" "agreed h c" "idle c" "waiters c = []" by auto
  then have "performs program (h @ [Hung_up 0]) q" by (auto intro!: performs_trans intro: performs.intros)
  with h hangs_up show ?case by (auto simp: close_def agreed_def idle_def intro!: exI [of _ "h @ [Hung_up 0]"])
next
  case (kills q c log c' outs)
  then obtain h where h: "performs program h (Kill_peer 0 q)" "agreed h c" "idle c" "waiters c = []" by auto
  then have "performs program (h @ [Killed_peer 0]) q" by (auto intro!: performs_trans intro: performs.intros)
  with h kills show ?case by (auto simp: kill_def agreed_def idle_def intro!: exI [of _ "h @ [Killed_peer 0]"])
next
  case (silently q c log q')
  then show ?case using silent_linked by blast
next
  case (outside w c log a c' outs)
  then obtain h where h: "linked program h w c" by blast
  have "Thrown e \<notin> set outs" for e using outside.hyps linked_one_user [OF h] outside_errors by blast
  with outside.IH outside_linked [OF h gate outside.hyps(2-4)] show ?case by auto
qed

text \<open>The guards of \<open>request\<close> never refuse a gated program\<close>

lemma never_refused:
  "driven parse program w c log \<Longrightarrow> Thrown Unverified \<notin> set log \<and> Thrown Envelope_overridden \<notin> set log \<and> Thrown Already_negotiating \<notin> set log"
  using driven_linked by (fastforce simp: ok_errors_def)

end

lemma gate_initialize: "(\<And>g r. Asked 0 (lit ''initialize'') g r \<notin> set h) \<Longrightarrow> list_all (\<lambda>(k, v). k \<noteq> ''method'' \<and> k \<noteq> ''request_id'') ps \<Longrightarrow>
    gate_rule h n (lit ''initialize'') (obj ps)"
  by (auto simp: gate_rule_def hasOwn_obj list_all_iff)

lemma gate_session: "Asked 0 (lit ''initialize'') g (Inr reply) \<in> set h \<Longrightarrow> mem reply ''type'' = js ''initialized'' \<Longrightarrow>
    list_all (\<lambda>(k, v). k \<noteq> ''method'' \<and> k \<noteq> ''request_id'') ps \<Longrightarrow> m \<noteq> ''initialize'' \<Longrightarrow> gate_rule h n (lit m) (obj ps)"
  by (auto simp: gate_rule_def hasOwn_obj list_all_iff)

interpretation workflow: gated_program "workflow_main foreign task" for foreign task
proof
  show "obeys gate_rule (\<lambda>h x. True) [] (workflow_main foreign task)"
    unfolding workflow_main_def workflow_run_def Let_def
    by (intro obeying TrueI) (auto intro!: gate_initialize gate_session)
qed

interpretation upkeep: gated_program "maintenance False model" for model
proof
  show "obeys gate_rule (\<lambda>h x. True) [] (maintenance False model)"
    unfolding maintenance_def open_session_def take_control_def try_stale_def configure_twice_def compact_twice_def leave_def
      configure_fields_def compact_fields_def Let_def
    by (intro obeying TrueI) (auto intro!: gate_initialize gate_session)
qed

lemma obeys_await: "(\<And>h r. Q h r) \<Longrightarrow> obeys P Q h (await_activity fuel deadline)"
  by (induction fuel arbitrary: h) (auto simp: Let_def)

interpretation activity: gated_program "compaction_activity fuel False" for fuel
proof
  have report: "obeys gate_rule (\<lambda>h x. True) h (report_activity items completion finished (leave False 0 (Finish ())))" for h items completion finished
    unfolding report_activity_def leave_def by (simp split: option.split)
  then show "obeys gate_rule (\<lambda>h x. True) [] (compaction_activity fuel False)"
    unfolding compaction_activity_def open_session_def take_control_def compact_fields_def Let_def
    by (intro obeying obeys_await TrueI) (auto intro!: gate_initialize gate_session split: option.split)
qed

section \<open>Properties\<close>

text \<open>C7. The workflow and the connection fit: however the server's output, the timers and the end of the process interleave with it, the
  connection under the workflow makes a run of the client, and no request of the workflow is ever refused for want of a verified
  contract, for an overridden envelope member or for a second initialization; the only exceptions a request meets are a closed
  connection and a frame that cannot be written.\<close>

theorem workflow_meets_no_guard:
  assumes "driven parse (workflow_main foreign task) w c log"
  shows "run (foreground_act parse) c log \<and>
    (\<forall>e. Thrown e \<in> set log \<longrightarrow> e = Connection_closed \<or> e = Not_serialisable \<or> e = Newline_in_frame)"
  using driven_run [OF assms] workflow.driven_linked [OF assms] by (auto simp: ok_errors_def)

theorem workflow_meets_no_guard_witness:
  "\<exists>w c log. driven welcoming (workflow_main (\<lambda>v. None) []) w c log \<and> log \<noteq> [] \<and> Thrown Unverified \<notin> set log"
proof -
  obtain f k where p: "workflow_main (\<lambda>v. None) [] = Call 0 (lit ''initialize'') f k"
    unfolding workflow_main_def workflow_run_def negotiate_def ask_def by auto
  obtain c outs where r: "request (lit ''initialize'') f initial = (c, outs)" by (cases "request (lit ''initialize'') f initial")
  then have "outs \<noteq> []" by (auto simp: request_def Let_def split: option.splits if_splits)
  moreover have "driven welcoming (workflow_main (\<lambda>v. None) []) (requested k outs) c ([] @ outs)"
    by (rule driven.asks [OF _ r]) (use driven.starts p in metis)
  moreover from workflow_meets_no_guard [OF this] have "Thrown Unverified \<notin> set outs" by auto
  ultimately show ?thesis by auto
qed

text \<open>C21. A session request made before the contract is verified, as the negotiation with a real server makes one, never reaches that
  server: the program goes on at once, knowing that the client refused it, and the connection is as it was.\<close>

theorem refused_before_sending:
  assumes "driven parse p (Running (refusedLocally 0 k)) c log" "\<not> closed c" "initialization c \<noteq> Verified"
  shows "driven parse p (Running (k True)) c (log @ [Thrown Unverified])"
proof -
  let ?f = "obj [(''command_id'', command ''never''), (''session_options'', obj [(''version'', Number 1)])]"
  have "request (lit ''session.create'') ?f c = (c, [Thrown Unverified])"
    using assms(2,3) by (simp add: request_def request_guard_def hasOwn_obj)
  from driven.asks [OF assms(1) [unfolded refusedLocally_def] this] show ?thesis by simp
qed

theorem refused_before_sending_witness:
  "\<exists>q. driven welcoming (real_negotiation False) (Running q) initial [Thrown Unverified]"
proof -
  obtain k where n: "real_negotiation False = Launch 0 (refusedLocally 0 k)" unfolding real_negotiation_def Let_def by blast
  have "driven welcoming (real_negotiation False) (Running (Launch 0 (refusedLocally 0 k))) initial []"
    using driven.starts [of welcoming "real_negotiation False"] unfolding n .
  then have "driven welcoming (real_negotiation False) (Running (refusedLocally 0 k)) initial []"
    by (rule driven.silently) (rule silent.intros)
  from refused_before_sending [OF this] show ?thesis by (auto simp: initial_def)
qed

end
