(* ===== verification/Spec2Isabelle.thy ===== *)
theory Spec2Isabelle
  imports Contract_Peer Configure_Request Inspection Command_Bounds Question_Answer Interaction_Workflow Driven_Workflow
begin

text \<open>
  A verification library for the Node client of the Loopex public session protocol, the JavaScript
  of \<open>src/clients/node\<close>.  The client talks to a server in another language over lines of JSON: it negotiates
  one pinned contract, sends requests, and reads every durable, snapshot and activity record through its
  own closed decoders before a caller sees it.

  \<^bold>\<open>The language.\<close>  \<open>JS_Prelude\<close> fixes code units and bytes as 16- and 8-bit words and embeds source literals
  (\<open>lit\<close>); \<open>JS_Text\<close> has decimal numerals, UTF-16 well-formedness, UTF-8 with replacement, and base64url;
  \<open>JS_Values\<close> has values with their own properties (data or accessor, enumerable or not, string or symbol
  keys, holes, prototypes) and the three readings of a closed object the modules repeat; \<open>JSON_Data\<close> and
  \<open>JSON_Text\<close> have parsed values and \<open>JSON.stringify\<close>.  \<open>Number n\<close> is a Number with integral value; any other is
  \<open>NonInt\<close> with its printed form.

  \<^bold>\<open>Shared readers.\<close>  \<open>Wire_Scalars\<close> states identities, quantities and texts once, as the locale \<open>wire_scalar\<close>
  (a reader, the spelling it accepts, the values it ranges over), interpreted for identities and quantities;
  \<open>Payload_Codec\<close> is the locale of an encoder and its decoder, interpreted for the active bounds, the command
  bounds, the open interaction, the admitted answer and the cancelled creation, in their own theories;
  \<open>Inert_Objects\<close> treats the copies that modules extend by assignment and deletion.  The private copies that
  each module carries of these readers are defined where the module has them and proved equal to the shared ones
  (the collection \<open>copy_eqs\<close>).

  \<^bold>\<open>Payload decoders.\<close>  One theory per module, named after it: \<open>Checkpoint_Owner\<close>, \<open>Configuration\<close>, \<open>Checkpoint\<close>,
  \<open>Maintenance_View\<close>, \<open>Context_Failure\<close>, \<open>Compact_Result\<close>, \<open>Terminal_Outcome\<close>, \<open>Compaction_Progress\<close>, \<open>Active_Bounds\<close>,
  \<open>Question_Answer\<close>, \<open>Command_Bounds\<close>, \<open>Tool_Finished\<close>, \<open>Open_Interaction\<close>, \<open>Model_Question\<close>
  (\<open>model-question-event.mjs\<close>), \<open>Policy_Interaction\<close> (\<open>policy-interaction-event.mjs\<close>), \<open>Interaction_Event\<close>,
  \<open>Creation_Cancellation\<close>, \<open>Configure_Request\<close>, and with \<open>Session_Views\<close> the views they share, \<open>Snapshot\<close> and
  \<open>Inspection\<close>.  A decoder is a function to \<open>jsval option\<close>, \<open>None\<close> where the source returns \<open>null\<close>, with the guards
  in their order.  The lemmas characterise each: what it accepts, member by member, and what it returns; where
  there is an encoder, what it produces is decoded to the same payload.

  \<^bold>\<open>Records and the contract.\<close>  \<open>Public_Records\<close> (\<open>public-records.mjs\<close>) validates events, snapshots and progress, with the
  error of every \<open>throw\<close>.  \<open>Schema_Bytes\<close>, \<open>Schema_JSON\<close> and \<open>Contract_Manifest\<close> (\<open>contract-manifest.mjs\<close>) are the
  canonical encoder, the strict schema parser, the manifest check and the identity gate \<open>matchesContractIdentity\<close>.
  \<open>Frame_Vectors\<close> (\<open>vectors.mjs\<close>) is the framing check of the published vectors.

  \<^bold>\<open>Connections.\<close>  \<open>Client_State\<close> is the state both clients keep (the private fields of the classes; a promise is the
  continuation it resumes, kept in \<open>pending\<close> and then \<open>ready\<close>), its effects and the runs of a client under an
  environment that interleaves calls, chunks of output, timers and the end of the peer.  \<open>Foreground_Client\<close>
  (\<open>loopex-client.mjs\<close>) and \<open>Daemon_Client\<close> (\<open>daemon-client.mjs\<close>) are the handlers.  What both promise is proved once:
  the locale \<open>line_reader\<close> for reading lines in chunks, \<open>quiescent_reader\<close>, which extends it, for handlers that neither
  send nor settle, and \<open>session_client\<close> for gating, numbering, accounting and the pinned digest; each is interpreted on
  both clients.  \<open>Contract_Peer\<close> composes either client with the peer it is tested with (\<open>contract-negotiation-tests.mjs\<close>)
  over two queues of frames: at every state of the pair the client's view of the negotiation is the peer's, and however
  their remaining steps are ordered every call is answered in a bounded number of them.

  \<^bold>\<open>Workflows.\<close>  \<open>Script\<close> models the asynchronous programs that drive a connection: a script is a tree that branches
  on the answer of each request, on what a wait yields and on the clock, with \<open>after\<close> and \<open>rescue\<close> for sequencing and
  \<open>catch\<close>.  \<open>performs\<close> gives its traces, \<open>play\<close> computes one from a list of answers, and \<open>obeys\<close> is the calculus that
  carries a property of every trace from the parts of a program to the whole.  Over it stand \<open>Workflow\<close>
  (\<open>workflow.mjs\<close>), \<open>Artifact_Refusal\<close> (the readers of an artifact refusal in \<open>current-contract-manifest-vectors.mjs\<close> and
  \<open>interaction-workflow.mjs\<close>), \<open>Interaction_Workflow\<close> (\<open>interaction-workflow.mjs\<close>), \<open>Takeover\<close> (\<open>daemon-takeover.mjs\<close>) and
  \<open>Maintenance_Workflow\<close> (\<open>maintenance-\<close>, \<open>compaction-activity-\<close> and \<open>real-negotiation-workflow.mjs\<close>).
  \<open>Driven_Workflow\<close> composes a script with the machine of the foreground connection; its locale \<open>gated_program\<close> (a program
  that negotiates before any session request) is interpreted on the workflow, the maintenance workflow and the
  activity workflow.

  \<^bold>\<open>What the lemmas show.\<close>  No session request leaves a connection before the pinned contract is verified; every
  request is settled at most once and exactly once when the peer ends; chunking does not matter; a frame is one
  line.  Canonical bytes identify a schema value; the schema parser always returns and its depth is bounded;
  a manifest that passes resolves every reference.  Decoders are exact, codecs round-trip, validators
  characterise their records.  A workflow sends its requests in the order the program has them, answers
  an interaction under the identity of the record that requested it (with \<open>allow\<close>, whether or not the record
  offers it: \<open>allow_without_offer\<close>), waits for control until its patience ends and no longer (a result
  without an epoch ends the wait as well, and then commands go out without one: \<open>epochless_grant\<close>), and meets none of
  the guards of the connection it drives.  This root theory holds the properties that span components.

  \<^bold>\<open>Bounds and fuel.\<close>  The schema parser recurses on fuel \<open>Suc (2 * length)\<close>, and its fuel is proved never to run out:
  every value consumes text.  \<open>plainTree\<close> stops at depth 16 as the source does.  The loop for
  control has fuel 92 and the poll for activity 1002; both are proved enough when the clock advances by at
  least each pause (\<open>paced\<close>).  The depth of the
  interpreter's own stack is not modelled.

  \<^bold>\<open>Parameters.\<close>  \<open>JSON.parse\<close> is \<open>parse\<close>, with \<open>None\<close> where it throws; the SHA-256 digest is a function argument.  The conversion of
  values that are not strings by \<open>Buffer.from\<close> is \<open>foreign\<close>, the printing of a date is \<open>to_iso\<close>, a digest in a
  workflow is \<open>sha\<close>, and a random suffix is \<open>nonce\<close>.  No
  property assumes anything of them.

  \<^bold>\<open>Not modelled.\<close>  The test and vector scripts (\<open>*-vectors.mjs\<close> and \<open>*-tests.mjs\<close> other than the above): they read fixture
  files and compare.  In the workflows, the usage message and the parsing of numbers from the command line are left out.  The child process, the sockets and the event loop appear as effects and actions
  only.  The copies \<open>progress()\<close> and \<open>notices()\<close> are reads of a field.  The Elixir applications are another
  language; the client meets them through the records above.  A Number of \<open>10^21\<close> or more is printed here with all
  its digits, where JavaScript would use an exponent; a member \<open>toJSON\<close> is not called; the Unicode categories are those of
  version 15.1.
\<close>

section \<open>Properties that span components\<close>

text \<open>The readings of a closed object that the modules carry, by counting keys, by inspecting every descriptor and by both,
  agree on parsed objects: each accepts exactly the required names.\<close>

theorem closed_readings_agree:
  assumes "json v" "isObject v" "\<not> isArray v" "distinct ks"
  shows "(snapshot_closed v ks \<longleftrightarrow> set (ownKeys v) = (\<lambda>k. SKey (lit k)) ` set ks) \<and>
    (record_closed v ks \<longleftrightarrow> snapshot_closed v ks) \<and> (pi_closed v ks \<longleftrightarrow> snapshot_closed v ks)"
  using closed_readings [OF _ _ assms(4,3)] json_plain [OF assms(1-3)] unfolding copy_eqs by blast

theorem closed_readings_agree_witness:
  "record_closed sample_snapshot snapshot_keys \<longleftrightarrow> pi_closed sample_snapshot snapshot_keys"
proof -
  have "isObject sample_snapshot" "\<not> isArray sample_snapshot" "distinct snapshot_keys"
    by (simp_all add: sample_snapshot_def member_simps snapshot_keys_def)
  from closed_readings_agree [OF sample_snapshot_json this] show ?thesis by blast
qed

text \<open>The private readers of a canonical identity agree wherever they are copied: in the snapshot, the inspection, the public
  records and, decoding, the policy events.\<close>

theorem identity_readers_agree:
  "snapshot_identity v 65536 = record_identity v 65536 \<and> inspection_identity v = record_identity v 65536 \<and>
   configure_identity v m = record_identity v m \<and> pi_identity v 65536 False = map_option Buf (record_identity v 65536)"
proof -
  have "pi_identity v 65536 False = map_option Buf (identity_within 65536 v)"
  proof (cases "identity_within 65536 v")
    case None
    have "pi_identity v 65536 False = None"
    proof (rule ccontr)
      assume "pi_identity v 65536 False \<noteq> None"
      then obtain b where "id_ok 65536 b" "v = wire_id b" unfolding copy_eqs by (auto simp: open_identity_iff id_at_def)
      then have "identity_within 65536 v = Some b" unfolding identity_within_iff by blast
      with None show False by simp
    qed
    with None show ?thesis by simp
  next
    case (Some b)
    then have "id_ok 65536 b" "v = wire_id b" unfolding identity_within_iff by blast+
    then have "pi_identity v 65536 False = Some (Buf b)" unfolding copy_eqs by (auto simp: open_identity_iff id_at_def)
    with Some show ?thesis by simp
  qed
  moreover have "snapshot_identity v 65536 = identity_within 65536 v" using snapshot_identity_eq(2) by (rule fun_cong)
  ultimately show ?thesis unfolding record_identity_eq inspection_identity_eq configure_identity_eq by simp
qed

text \<open>Testing a text by a round trip through UTF-8, as the policy events and the configure request do, is testing that it is
  well formed, as the tool results and public records do.\<close>

theorem text_tests_agree:
  "(textScalar (Str s) \<longleftrightarrow> isWellFormed s) \<and> (configure_text (Str s) 0 (Some 131072) \<longleftrightarrow> record_text (Str s) 0)"
  by (simp add: configure_text_eq record_text_eq)

end
